(* ===== verification/Server_Prelude.thy ===== *)
theory Server_Prelude
  imports
    Main
    "HOL-Library.Word"
    "HOL-Library.Multiset"
    "HOL-Library.Char_ord"
    "HOL-Library.List_Lexorder"
begin

text \<open>
  The vocabulary every component shares: bytes, how an operation of the C++ code can end
  (a value, a C++ exception, undefined behaviour or \<open>std::terminate\<close>), the standard
  string searches the sources use, little-endian fields, and the fact collections of the
  development.
\<close>

section \<open>Fact collections\<close>

named_theorems frame_simps
  \<open>which fields of a session or of the server an operation leaves unchanged\<close>
named_theorems size_simps
  \<open>sizes of packed structs and of their encodings\<close>
named_theorems handler_defs
  \<open>definitions of the packet and request handlers, unfolded together\<close>

section \<open>How an operation ends\<close>

type_synonym byte = "8 word"
type_synonym ptr = nat

text \<open>
  C++ exceptions that cross a function boundary of the sources. The number of a
  \<open>Json_type_error\<close> is nlohmann's error id (302 wrong type for a conversion, 305
  operator[] with a key on a non-object, 311 emplace_back on a non-array).
\<close>

datatype exn =
    Json_type_error nat
  | Json_parse_error string
  | Invalid_argument string
  | Runtime_error string
  | System_error string
  | Format_error string
  | Json_out_of_range nat string
  | Json_other_error nat string
  | Length_error string

text \<open>Behaviour the C++ standard does not define; the model never hides it in a value.\<close>

datatype undefined_behaviour =
    OutOfBoundsRead
  | DanglingPointer
  | ConstKeyMissing
  | FloatCastRange
  | EraseEmpty
  | IntegerOverflow
  | OutOfBoundsWrite
  | UninitializedRead

datatype abrupt =
    Throw exn
  | Undefined undefined_behaviour
  | Terminate
  | Diverges

type_synonym 'a result = "abrupt + 'a"

fun bind_result :: "'a result \<Rightarrow> ('a \<Rightarrow> 'b result) \<Rightarrow> 'b result" where
  "bind_result (Inl e) f = Inl e"
| "bind_result (Inr x) f = f x"

lemma bind_result_Inr_iff:
  "bind_result m f = Inr y \<longleftrightarrow> (\<exists>x. m = Inr x \<and> f x = Inr y)"
  by (cases m) auto

lemma bind_result_Inl_iff:
  "bind_result m f = Inl e \<longleftrightarrow> m = Inl e \<or> (\<exists>x. m = Inr x \<and> f x = Inl e)"
  by (cases m) auto

lemma bind_result_assoc:
  "bind_result (bind_result m f) g = bind_result m (\<lambda>x. bind_result (f x) g)"
  by (cases m) auto

text \<open>A function declared \<open>noexcept\<close>: an exception that would leave it ends the process.\<close>

fun noexcept :: "'a result \<Rightarrow> 'a result" where
  "noexcept (Inl (Throw _)) = Inl Terminate"
| "noexcept r = r"

section \<open>Strings\<close>

text \<open>\<open>c_str\<close>: a C string ends at the first NUL character.\<close>

definition c_str :: "string \<Rightarrow> string" where
  "c_str s = takeWhile (\<lambda>c. c \<noteq> CHR 0x00) s"

lemma c_str_no_nul [simp]: "CHR 0x00 \<notin> set s \<Longrightarrow> c_str s = s"
  by (auto simp: c_str_def intro: takeWhile_eq_all_conv [THEN iffD2])

text \<open>
  \<open>rfind\<close> and \<open>find_last_of\<close> of one character: the last position that holds it, \<open>None\<close>
  for \<open>npos\<close>.
\<close>

fun find_last :: "char \<Rightarrow> string \<Rightarrow> nat option" where
  "find_last c [] = None"
| "find_last c (x # xs) =
     (case find_last c xs of
        Some i \<Rightarrow> Some (Suc i)
      | None \<Rightarrow> if x = c then Some 0 else None)"

lemma find_last_None: "find_last c s = None \<longleftrightarrow> c \<notin> set s"
  by (induction s) (auto split: option.splits)

lemma find_last_Some:
  "find_last c s = Some i \<longleftrightarrow>
     i < length s \<and> s ! i = c \<and> c \<notin> set (drop (Suc i) s)"
proof (induction s arbitrary: i)
  case Nil
  then show ?case by simp
next
  case (Cons x xs)
  show ?case
  proof (cases i)
    case 0
    then show ?thesis using find_last_None [of c xs] by (auto split: option.splits)
  next
    case (Suc j)
    have "find_last c (x # xs) = Some (Suc j) \<longleftrightarrow> find_last c xs = Some j"
      by (auto split: option.splits)
    with Suc Cons.IH [of j] show ?thesis by simp
  qed
qed

lemma find_last_split:
  "c \<notin> set t \<Longrightarrow> find_last c (s @ c # t) = Some (length s)"
  by (auto simp: find_last_Some)

text \<open>\<open>find(..) != npos\<close> for a substring.\<close>

fun occurs :: "string \<Rightarrow> string \<Rightarrow> bool" where
  "occurs p [] \<longleftrightarrow> p = []"
| "occurs p (x # xs) \<longleftrightarrow> take (length p) (x # xs) = p \<or> occurs p xs"

lemma occurs_iff: "occurs p s \<longleftrightarrow> (\<exists>u v. s = u @ p @ v)"
proof (induction s)
  case Nil
  then show ?case by auto
next
  case (Cons x xs)
  have "take (length p) (x # xs) = p \<longleftrightarrow> (\<exists>v. x # xs = p @ v)"
    by (metis append_eq_conv_conj append_take_drop_id)
  moreover have "(\<exists>u v. x # xs = u @ p @ v) \<longleftrightarrow>
      (\<exists>v. x # xs = p @ v) \<or> (\<exists>u v. xs = u @ p @ v)"
    by (metis append_Cons append_Nil list.exhaust list.inject)
  ultimately show ?case using Cons by simp
qed

text \<open>Decimal digits, as every integer formatter of the sources prints them.\<close>

definition digit :: "nat \<Rightarrow> char" where
  "digit n = char_of (48 + n)"

fun decimal :: "nat \<Rightarrow> string" where
  "decimal n = (if n < 10 then [digit n] else decimal (n div 10) @ [digit (n mod 10)])"

declare decimal.simps [simp del]

definition pad2 :: "nat \<Rightarrow> string" where
  "pad2 n = (if n < 10 then [digit 0, digit n] else decimal n)"

definition digit_value :: "char \<Rightarrow> nat" where
  "digit_value c = of_char c - 48"

definition digits_value :: "string \<Rightarrow> nat" where
  "digits_value s = foldl (\<lambda>n c. 10 * n + digit_value c) 0 s"

lemma digit_value_digit [simp]: "n < 10 \<Longrightarrow> digit_value (digit n) = n"
  by (simp add: digit_value_def digit_def)

lemma digits_value_snoc [simp]:
  "digits_value (s @ [c]) = 10 * digits_value s + digit_value c"
  by (simp add: digits_value_def)

lemma digits_value_decimal [simp]: "digits_value (decimal n) = n"
proof (induction n rule: decimal.induct)
  case (1 n)
  show ?case
  proof (cases "n < 10")
    case True
    then show ?thesis by (simp add: decimal.simps [of n] digits_value_def)
  next
    case False
    with 1 have "digits_value (decimal (n div 10)) = n div 10" by simp
    with False show ?thesis by (simp add: decimal.simps [of n])
  qed
qed

lemma decimal_inj [simp]: "decimal m = decimal n \<longleftrightarrow> m = n"
  by (metis digits_value_decimal)

lemma decimal_digits: "set (decimal n) \<subseteq> digit ` {..<10}"
proof (induction n rule: decimal.induct)
  case (1 n)
  then show ?case by (subst decimal.simps) (auto split: if_splits)
qed

lemma digits_value_pad2 [simp]: "digits_value (pad2 n) = n"
  by (simp add: pad2_def) (simp add: digits_value_def)

lemma length_pad2: "n < 100 \<Longrightarrow> length (pad2 n) = 2"
  by (simp add: pad2_def decimal.simps div_less_iff_less_mult)

lemma length_decimal_4: "1000 \<le> n \<Longrightarrow> n < 10000 \<Longrightarrow> length (decimal n) = 4"
  by (simp add: decimal.simps div_less_iff_less_mult)

section \<open>Little-endian fields\<close>

text \<open>
  The packed structs are read and written through pointers, so multi-byte fields have the
  machine's byte order; every platform the project names is little-endian.
\<close>

fun le_nat :: "byte list \<Rightarrow> nat" where
  "le_nat [] = 0"
| "le_nat (b # bs) = unat b + 256 * le_nat bs"

fun le_bytes :: "nat \<Rightarrow> nat \<Rightarrow> byte list" where
  "le_bytes 0 n = []"
| "le_bytes (Suc k) n = word_of_nat n # le_bytes k (n div 256)"

lemma unat_byte_bound: "unat (b :: byte) < 256"
  using unsigned_less [of b, where 'a = nat] by simp

lemma length_le_bytes [simp, size_simps]: "length (le_bytes k n) = k"
  by (induction k arbitrary: n) simp_all

lemma le_nat_bytes: "le_nat (le_bytes k n) = n mod 256 ^ k"
proof (induction k arbitrary: n)
  case 0
  then show ?case by simp
next
  case (Suc k)
  have "le_nat (le_bytes (Suc k) n) = n mod 256 + 256 * (n div 256 mod 256 ^ k)"
    by (simp add: Suc unsigned_of_nat take_bit_eq_mod)
  also have "\<dots> = n mod 256 ^ Suc k"
    by (simp add: mod_mult2_eq)
  finally show ?case .
qed

lemma le_bytes_nat: "le_bytes (length bs) (le_nat bs) = bs"
proof (induction bs)
  case Nil
  then show ?case by simp
next
  case (Cons b bs)
  have "(unat b + 256 * le_nat bs) div 256 = le_nat bs"
    using unat_byte_bound [of b] by simp
  moreover have "(word_of_nat (unat b + 256 * le_nat bs) :: byte) = b"
    by (rule word_unat_eq_iff [THEN iffD2])
      (use unat_byte_bound [of b] in \<open>simp add: unsigned_of_nat take_bit_eq_mod del: of_nat_add\<close>)
  ultimately show ?case using Cons by simp
qed

lemma le_nat_bound: "le_nat bs < 256 ^ length bs"
  using le_nat_bytes [of "length bs" "le_nat bs"]
  by (metis le_bytes_nat mod_less_divisor zero_less_numeral zero_less_power)

text \<open>The fields of width 16 and 32 the sources read: \<open>std::uint16_t\<close>, \<open>float\<close>, \<open>std::uint32_t\<close>.\<close>

definition le32 :: "byte list \<Rightarrow> 32 word" where
  "le32 bs = word_of_nat (le_nat (take 4 bs))"

definition le32_bytes :: "32 word \<Rightarrow> byte list" where
  "le32_bytes w = le_bytes 4 (unat w)"

lemma length_le32_bytes [simp, size_simps]: "length (le32_bytes w) = 4"
  by (simp add: le32_bytes_def)

lemma le32_le32_bytes [simp]: "le32 (le32_bytes w @ bs) = w"
proof -
  have "unat w < 256 ^ 4"
    using unsigned_less [of w, where 'a = nat] by simp
  then show ?thesis by (simp add: le32_def le32_bytes_def le_nat_bytes)
qed

lemma le32_bytes_le32:
  assumes "length bs = 4"
  shows "le32_bytes (le32 bs) = bs"
proof -
  have "le_nat bs < 256 ^ 4"
    using le_nat_bound [of bs] assms by simp
  then have "unat (le32 bs) = le_nat bs"
    using assms by (simp add: le32_def unsigned_of_nat take_bit_eq_mod)
  then show ?thesis
    using assms le_bytes_nat [of bs] by (simp add: le32_bytes_def)
qed

section \<open>Words\<close>

unbundle bit_operations_syntax

lemma mask_of_nat: "(word_of_nat b AND mask k :: 'a :: len word) = word_of_nat (b mod 2 ^ k)"
proof -
  have "(word_of_nat b AND mask k :: 'a :: len word) = take_bit k (word_of_nat b)"
    by (simp only: take_bit_eq_mask)
  also have "\<dots> = word_of_nat (take_bit k b)" by (simp only: take_bit_of_nat)
  finally show ?thesis by (simp only: take_bit_eq_mod)
qed

end
