(* ===== verification/Packets.thy ===== *)
theory Packets
  imports Server_Prelude
begin

text \<open>
  The binary protocol between the server and the weather stations: the packed structs of
  \<open>Packets/In/*.hh\<close> and \<open>Packets/Out/*.hh\<close> with their byte layouts, the packet types, the
  station ids and the two lookup functions of \<open>Packets/In.hh\<close>, and the non-owning
  \<open>packet_view\<close> of \<open>utils/packet_view.hh\<close>.
\<close>

section \<open>Identifiers\<close>

text \<open>
  \<open>StationId\<close> is a scoped enum over \<open>std::uint8_t\<close>: a value of the type is any byte, the
  enumerators are four of them.
\<close>

type_synonym StationId = byte

definition Goe :: StationId where "Goe = 0"
definition Wf :: StationId where "Wf = 1"
definition Bs :: StationId where "Bs = 2"
definition StationId_Max :: StationId where "StationId_Max = 3"

type_synonym uuid = "byte list"
type_synonym float32 = "32 word"

datatype in_PacketType =
    In_Handshake
  | In_Pong
  | In_WeatherStatus
  | In_Unnamed byte

text \<open>\<open>static_cast<in::PacketType>\<close> of a byte: bytes without an enumerator keep their value.\<close>

definition in_PacketType_of :: "byte \<Rightarrow> in_PacketType" where
  "in_PacketType_of b =
     (if b = 0 then In_Handshake
      else if b = 1 then In_Pong
      else if b = 2 then In_WeatherStatus
      else In_Unnamed b)"

datatype out_PacketType =
    Out_Handshake
  | Out_HandshakeACK
  | Out_HandshakeNAK
  | Out_Ping
  | Out_WeatherStatus

fun out_PacketType_value :: "out_PacketType \<Rightarrow> byte" where
  "out_PacketType_value Out_Handshake = 0x00"
| "out_PacketType_value Out_HandshakeACK = 0x01"
| "out_PacketType_value Out_HandshakeNAK = 0x02"
| "out_PacketType_value Out_Ping = 0x03"
| "out_PacketType_value Out_WeatherStatus = 0x04"

datatype HandshakeReason =
    ReasonStationIdAlready
  | ReasonStationIdInvalid
  | ReasonUUIDInvalid
  | ReasonUUIDInvalidFormat

fun HandshakeReason_value :: "HandshakeReason \<Rightarrow> byte" where
  "HandshakeReason_value ReasonStationIdAlready = push_bit 0 1"
| "HandshakeReason_value ReasonStationIdInvalid = push_bit 1 1"
| "HandshakeReason_value ReasonUUIDInvalid = push_bit 2 1"
| "HandshakeReason_value ReasonUUIDInvalidFormat = push_bit 3 1"

datatype WebSocketSessionFlag = Flag_Plain | Flag_SSL

fun WebSocketSessionFlag_value :: "WebSocketSessionFlag \<Rightarrow> byte" where
  "WebSocketSessionFlag_value Flag_Plain = push_bit 0 1"
| "WebSocketSessionFlag_value Flag_SSL = push_bit 1 1"

section \<open>Packets from a station\<close>

record HandshakePacket =
  hs_header :: byte
  hs_uuid :: uuid
  hs_stationId :: StationId

record PongPacket =
  pong_header :: byte

record WeatherStatusPacket =
  ws_header :: byte
  ws_uuid :: uuid
  ws_temperature :: float32
  ws_humidity :: float32
  ws_time :: "32 word"
  ws_flag :: byte

text \<open>
  \<open>operator->\<close> of a \<open>packet_view\<close> reinterprets the bytes as the packed struct: field by field
  at its offset. Each of these is read only after \<open>handle\<close> has checked the size.
\<close>

definition HandshakePacket_view :: "byte list \<Rightarrow> HandshakePacket" where
  "HandshakePacket_view bs =
     \<lparr>hs_header = bs ! 0, hs_uuid = take 16 (drop 1 bs), hs_stationId = bs ! 17\<rparr>"

definition PongPacket_view :: "byte list \<Rightarrow> PongPacket" where
  "PongPacket_view bs = \<lparr>pong_header = bs ! 0\<rparr>"

definition WeatherStatusPacket_view :: "byte list \<Rightarrow> WeatherStatusPacket" where
  "WeatherStatusPacket_view bs =
     \<lparr>ws_header = bs ! 0, ws_uuid = take 16 (drop 1 bs),
      ws_temperature = le32 (drop 17 bs), ws_humidity = le32 (drop 21 bs),
      ws_time = le32 (drop 25 bs), ws_flag = bs ! 29\<rparr>"

text \<open>The object representation of the same packed structs, what a station sends.\<close>

definition HandshakePacket_bytes :: "HandshakePacket \<Rightarrow> byte list" where
  "HandshakePacket_bytes p = hs_header p # hs_uuid p @ [hs_stationId p]"

definition PongPacket_bytes :: "PongPacket \<Rightarrow> byte list" where
  "PongPacket_bytes p = [pong_header p]"

definition WeatherStatusPacket_bytes :: "WeatherStatusPacket \<Rightarrow> byte list" where
  "WeatherStatusPacket_bytes p =
     ws_header p # ws_uuid p @ le32_bytes (ws_temperature p) @ le32_bytes (ws_humidity p)
       @ le32_bytes (ws_time p) @ [ws_flag p]"

definition sizeof_HandshakePacket :: nat where "sizeof_HandshakePacket = 1 + 16 + 1"
definition sizeof_PongPacket :: nat where "sizeof_PongPacket = 1"
definition sizeof_WeatherStatusPacket :: nat where
  "sizeof_WeatherStatusPacket = 1 + 16 + 4 + 4 + 4 + 1"

lemmas sizeof_defs [size_simps] =
  sizeof_HandshakePacket_def sizeof_PongPacket_def sizeof_WeatherStatusPacket_def

fun sizeByPacketId :: "in_PacketType \<Rightarrow> nat" where
  "sizeByPacketId In_Handshake = sizeof_HandshakePacket"
| "sizeByPacketId In_Pong = sizeof_PongPacket"
| "sizeByPacketId In_WeatherStatus = sizeof_WeatherStatusPacket"
| "sizeByPacketId (In_Unnamed _) = 0"

fun packetNameById :: "in_PacketType \<Rightarrow> string" where
  "packetNameById In_Handshake = ''Handshake''"
| "packetNameById In_Pong = ''Pong''"
| "packetNameById In_WeatherStatus = ''WeatherStatus''"
| "packetNameById (In_Unnamed _) = ''unknown''"

lemma sizeByPacketId_0_iff: "sizeByPacketId t = 0 \<longleftrightarrow> (\<exists>b. t = In_Unnamed b)"
  by (cases t) (simp_all add: size_simps)

lemma sizeByPacketId_le: "sizeByPacketId t \<le> 30"
  by (cases t) (simp_all add: size_simps)

lemma in_PacketType_of_eq:
  "in_PacketType_of b = In_Handshake \<longleftrightarrow> b = 0"
  "in_PacketType_of b = In_Pong \<longleftrightarrow> b = 1"
  "in_PacketType_of b = In_WeatherStatus \<longleftrightarrow> b = 2"
  by (simp_all add: in_PacketType_of_def)

lemma in_PacketType_of_Unnamed:
  "in_PacketType_of b = In_Unnamed c \<longleftrightarrow> c = b \<and> b \<notin> {0, 1, 2}"
  by (auto simp: in_PacketType_of_def)

subsection \<open>Layouts and views are inverse\<close>

lemma HandshakePacket_view_bytes:
  assumes "length (hs_uuid p) = 16"
  shows "HandshakePacket_view (HandshakePacket_bytes p @ rest) = p"
  using assms
  by (simp add: HandshakePacket_view_def HandshakePacket_bytes_def nth_append nth_Cons' )

lemma HandshakePacket_bytes_view:
  assumes "length bs = sizeof_HandshakePacket"
  shows "HandshakePacket_bytes (HandshakePacket_view bs) = bs"
proof -
  from assms have l: "length bs = 18" by (simp add: size_simps)
  then obtain b cs where bs: "bs = b # cs" and cs: "length cs = 17" by (cases bs) auto
  then show ?thesis
    using take_Suc_conv_app_nth [of 16 cs]
    by (simp add: HandshakePacket_bytes_def HandshakePacket_view_def)
qed

lemma WeatherStatusPacket_view_bytes:
  assumes "length (ws_uuid p) = 16"
  shows "WeatherStatusPacket_view (WeatherStatusPacket_bytes p @ rest) = p"
proof -
  have "le32 (le32_bytes x @ r) = x" for x r by simp
  then show ?thesis
    using assms
    by (simp add: WeatherStatusPacket_view_def WeatherStatusPacket_bytes_def nth_append nth_Cons')
qed

lemma length_HandshakePacket_bytes [size_simps]:
  "length (hs_uuid p) = 16 \<Longrightarrow> length (HandshakePacket_bytes p) = sizeof_HandshakePacket"
  by (simp add: HandshakePacket_bytes_def size_simps)

lemma length_WeatherStatusPacket_bytes [size_simps]:
  "length (ws_uuid p) = 16 \<Longrightarrow> length (WeatherStatusPacket_bytes p) = sizeof_WeatherStatusPacket"
  by (simp add: WeatherStatusPacket_bytes_def size_simps)

section \<open>Packets to a station\<close>

text \<open>The bytes \<open>writePacket\<close> copies from the outgoing structs, headers by their initialisers.\<close>

definition out_HandshakePacket :: "byte list" where
  "out_HandshakePacket = [0x00]"

definition out_HandshakeACKPacket :: "byte list" where
  "out_HandshakeACKPacket = [0x01]"

definition out_HandshakeNAKPacket :: "HandshakeReason \<Rightarrow> byte list" where
  "out_HandshakeNAKPacket reason = [0x02, HandshakeReason_value reason]"

definition out_PingPacket :: "byte list" where
  "out_PingPacket = [0x03]"

definition out_WeatherStatusPacket :: "uuid \<Rightarrow> WebSocketSessionFlag \<Rightarrow> byte list" where
  "out_WeatherStatusPacket uuid flag = 0x04 # uuid @ [WebSocketSessionFlag_value flag]"

lemmas out_packet_defs =
  out_HandshakePacket_def out_HandshakeACKPacket_def out_HandshakeNAKPacket_def
  out_PingPacket_def out_WeatherStatusPacket_def

lemma HandshakeReason_value_inj: "HandshakeReason_value r = HandshakeReason_value r' \<longleftrightarrow> r = r'"
  by (cases r; cases r') simp_all

end
