(* ===== verification/Json_Value.thy ===== *)
theory Json_Value
  imports Server_Prelude
begin

text \<open>
  The values of \<open>nlohmann::json\<close> and the members of \<open>basic_json\<close> the server uses: element
  access by key on a mutable and on a constant value, \<open>contains\<close>, iteration, conversion to
  enums and strings, \<open>emplace_back\<close>, and the conversions from C++ values. Numbers keep their
  64 bits; a float is its IEEE bit pattern; a binary value has its bytes and an optional subtype,
  and only the binary formats make one. Objects are \<open>std::map\<close>s, so their entries are
  sorted by key and keys are distinct.
\<close>

section \<open>Values\<close>

type_synonym float64 = "64 word"

datatype json =
    JNull
  | JBool bool
  | JInt "64 word"
  | JUint "64 word"
  | JFloat float64
  | JString string
  | JBinary "byte list" "byte option"
  | JArray "json list"
  | JObject "(string \<times> json) list"

section \<open>IEEE bit patterns\<close>

text \<open>
  Sign, exponent field and fraction field of a double, and its truncation towards zero, which
  \<open>static_cast\<close> to an integer type uses; \<open>None\<close> for infinities and NaN.
\<close>

definition float64_sign :: "float64 \<Rightarrow> bool" where
  "float64_sign w = bit w 63"

definition float64_exp :: "float64 \<Rightarrow> nat" where
  "float64_exp w = unat w div 2 ^ 52 mod 2 ^ 11"

definition float64_frac :: "float64 \<Rightarrow> nat" where
  "float64_frac w = unat w mod 2 ^ 52"

definition float64_trunc :: "float64 \<Rightarrow> int option" where
  "float64_trunc w =
     (let e = float64_exp w; f = float64_frac w;
          m = (if e = 0 then f else f + 2 ^ 52);
          a = (if 1075 \<le> e then m * 2 ^ (e - 1075) else m div 2 ^ (1075 - max 1 e))
      in if e = 2047 then None
         else Some (if float64_sign w then - int a else int a))"

text \<open>\<open>float\<close> to \<open>double\<close> keeps the value: rebias the exponent, renormalise subnormals.\<close>

fun ilog2 :: "nat \<Rightarrow> nat" where
  "ilog2 n = (if n < 2 then 0 else Suc (ilog2 (n div 2)))"

declare ilog2.simps [simp del]

definition double_fields_of_float :: "32 word \<Rightarrow> bool \<times> nat \<times> nat" where
  "double_fields_of_float w =
     (let s = bit w 31; e = unat w div 2 ^ 23 mod 2 ^ 8; f = unat w mod 2 ^ 23
      in if e = 255 then (s, 2047, f * 2 ^ 29)
         else if e \<noteq> 0 then (s, e + 896, f * 2 ^ 29)
         else if f = 0 then (s, 0, 0)
         else let k = ilog2 f in (s, k + 874, (f - 2 ^ k) * 2 ^ (52 - k)))"

definition double_of_float :: "32 word \<Rightarrow> float64" where
  "double_of_float w =
     (case double_fields_of_float w of (s, e, f) \<Rightarrow>
        word_of_nat ((if s then 2 ^ 63 else 0) + e * 2 ^ 52 + f))"

section \<open>Members of \<open>basic_json\<close>\<close>

text \<open>\<open>std::map\<close> insertion: replace the entry of the key, or insert it at its sorted place.\<close>

fun object_put :: "string \<Rightarrow> json \<Rightarrow> (string \<times> json) list \<Rightarrow> (string \<times> json) list" where
  "object_put k v [] = [(k, v)]"
| "object_put k v ((k', v') # m) =
     (if k = k' then (k, v) # m
      else if k < k' then (k, v) # (k', v') # m
      else (k', v') # object_put k v m)"

text \<open>
  \<open>operator[](T* key)\<close> on a mutable value: the element and the value after the access, since
  null becomes an object and a missing key is inserted as null.
\<close>

fun json_subscript :: "json \<Rightarrow> string \<Rightarrow> (json \<times> json) result" where
  "json_subscript JNull k = Inr (JNull, JObject (object_put k JNull []))"
| "json_subscript (JObject m) k =
     (case map_of m k of
        Some v \<Rightarrow> Inr (v, JObject m)
      | None \<Rightarrow> Inr (JNull, JObject (object_put k JNull m)))"
| "json_subscript _ k = Inl (Throw (Json_type_error 305))"

text \<open>\<open>j[key] = v\<close>: the reference \<open>operator[]\<close> returns is assigned.\<close>

fun json_assign :: "json \<Rightarrow> string \<Rightarrow> json \<Rightarrow> json result" where
  "json_assign JNull k v = Inr (JObject (object_put k v []))"
| "json_assign (JObject m) k v = Inr (JObject (object_put k v m))"
| "json_assign _ k v = Inl (Throw (Json_type_error 305))"

text \<open>\<open>operator[](T* key) const\<close>: a missing key is only asserted against.\<close>

fun json_subscript_const :: "json \<Rightarrow> string \<Rightarrow> json result" where
  "json_subscript_const (JObject m) k =
     (case map_of m k of Some v \<Rightarrow> Inr v | None \<Rightarrow> Inl (Undefined ConstKeyMissing))"
| "json_subscript_const _ k = Inl (Throw (Json_type_error 305))"

fun json_contains :: "json \<Rightarrow> string \<Rightarrow> bool" where
  "json_contains (JObject m) k = (map_of m k \<noteq> None)"
| "json_contains _ k = False"

text \<open>
  Range-based \<open>for\<close>: the values of an object, the elements of an array, nothing for null and
  the value itself, once, for every other type.
\<close>

fun json_items :: "json \<Rightarrow> json list" where
  "json_items (JArray xs) = xs"
| "json_items (JObject m) = map snd m"
| "json_items JNull = []"
| "json_items j = [j]"

fun json_emplace_back :: "json \<Rightarrow> json \<Rightarrow> json result" where
  "json_emplace_back JNull v = Inr (JArray [v])"
| "json_emplace_back (JArray xs) v = Inr (JArray (xs @ [v]))"
| "json_emplace_back _ v = Inl (Throw (Json_type_error 311))"

fun json_get_string :: "json \<Rightarrow> string result" where
  "json_get_string (JString s) = Inr s"
| "json_get_string _ = Inl (Throw (Json_type_error 302))"

text \<open>
  \<open>get_arithmetic_value\<close> for \<open>int\<close> and \<open>std::uint8_t\<close>: integers are narrowed modulo the
  width, a float outside the range is undefined. The enum conversions go through it.
\<close>

definition cast_float :: "int \<Rightarrow> int \<Rightarrow> float64 \<Rightarrow> 'a::len word result" where
  "cast_float lo hi w =
     (case float64_trunc w of
        Some i \<Rightarrow> if lo \<le> i \<and> i \<le> hi then Inr (word_of_int i) else Inl (Undefined FloatCastRange)
      | None \<Rightarrow> Inl (Undefined FloatCastRange))"

fun json_get_int :: "json \<Rightarrow> 32 word result" where
  "json_get_int (JUint w) = Inr (ucast w)"
| "json_get_int (JInt w) = Inr (ucast w)"
| "json_get_int (JFloat w) = cast_float (- (2 ^ 31)) (2 ^ 31 - 1) w"
| "json_get_int _ = Inl (Throw (Json_type_error 302))"

fun json_get_uint8 :: "json \<Rightarrow> byte result" where
  "json_get_uint8 (JUint w) = Inr (ucast w)"
| "json_get_uint8 (JInt w) = Inr (ucast w)"
| "json_get_uint8 (JFloat w) = cast_float 0 255 w"
| "json_get_uint8 _ = Inl (Throw (Json_type_error 302))"

text \<open>\<open>to_json\<close> of an enum and of a \<open>float\<close>.\<close>

definition json_of_enum :: "'a::len word \<Rightarrow> json" where
  "json_of_enum e = JInt (ucast e)"

definition json_of_float :: "32 word \<Rightarrow> json" where
  "json_of_float w = JFloat (double_of_float w)"

section \<open>Objects stay sorted maps\<close>

definition object_ok :: "(string \<times> json) list \<Rightarrow> bool" where
  "object_ok m = (sorted (map fst m) \<and> distinct (map fst m))"

lemma map_of_put_same [simp]: "map_of (object_put k v m) k = Some v"
  by (induction k v m rule: object_put.induct) auto

lemma keys_object_put: "fst ` set (object_put k v m) = insert k (fst ` set m)"
  by (induction k v m rule: object_put.induct) auto

lemma map_of_object_put:
  "object_ok m \<Longrightarrow> map_of (object_put k v m) = (map_of m)(k \<mapsto> v)"
proof (induction k v m rule: object_put.induct)
  case (1 k v)
  then show ?case by simp
next
  case (2 k v k' v' m)
  then have "object_ok m" by (auto simp: object_ok_def)
  with 2 show ?case by (auto simp: fun_eq_iff)
qed

lemma object_ok_put: "object_ok m \<Longrightarrow> object_ok (object_put k v m)"
proof (induction k v m rule: object_put.induct)
  case (1 k v)
  then show ?case by (simp add: object_ok_def)
next
  case (2 k v k' v' m)
  then have m: "object_ok m" and lt: "\<forall>x \<in> fst ` set m. k' < x"
    by (auto simp: object_ok_def order.strict_iff_order)
  show ?case
  proof (cases "k = k' \<or> k < k'")
    case True
    with m lt show ?thesis by (auto simp: object_ok_def)
  next
    case False
    with lt have "\<forall>x \<in> fst ` set (object_put k v m). k' < x"
      by (auto simp: keys_object_put)
    with False m 2 show ?thesis by (auto simp: object_ok_def)
  qed
qed

lemma object_ok_Nil [simp]: "object_ok []"
  by (simp add: object_ok_def)

end
