(* ===== verification/Unordered_Map.thy ===== *)
theory Unordered_Map
  imports Server_Prelude
begin

text \<open>
  \<open>std::unordered_map\<close> as the server uses it: \<open>find\<close>, \<open>try_emplace\<close>, \<open>erase\<close> and iteration.
  A map is the list of its entries; the iteration order is the list's order, which the
  standard leaves open, so no property of the development depends on it. The section on
  registries states, as a locale, the contract the session tables owe their clients.
\<close>

section \<open>Operations\<close>

type_synonym ('k, 'v) unordered_map = "('k \<times> 'v) list"

definition um_find :: "('k, 'v) unordered_map \<Rightarrow> 'k \<Rightarrow> 'v option" where
  "um_find m k = map_of m k"

definition um_try_emplace ::
  "'k \<Rightarrow> 'v \<Rightarrow> ('k, 'v) unordered_map \<Rightarrow> ('k, 'v) unordered_map \<times> bool" where
  "um_try_emplace k v m = (if um_find m k = None then ((k, v) # m, True) else (m, False))"

definition um_erase :: "'k \<Rightarrow> ('k, 'v) unordered_map \<Rightarrow> ('k, 'v) unordered_map" where
  "um_erase k m = filter (\<lambda>e. fst e \<noteq> k) m"

definition um_keys :: "('k, 'v) unordered_map \<Rightarrow> 'k list" where
  "um_keys m = map fst m"

definition um_ok :: "('k, 'v) unordered_map \<Rightarrow> bool" where
  "um_ok m = distinct (map fst m)"

lemma um_ok_Nil [simp]: "um_ok []"
  by (simp add: um_ok_def)

lemma um_find_Nil [simp]: "um_find [] = Map.empty"
  by (simp add: um_find_def fun_eq_iff)

lemma um_find_try_emplace:
  "um_find (fst (um_try_emplace k v m)) =
     (if um_find m k = None then (um_find m)(k \<mapsto> v) else um_find m)"
  by (auto simp: um_try_emplace_def um_find_def fun_eq_iff)

lemma snd_um_try_emplace [simp]: "snd (um_try_emplace k v m) \<longleftrightarrow> um_find m k = None"
  by (simp add: um_try_emplace_def)

lemma um_find_erase: "um_find (um_erase k m) = (um_find m)(k := None)"
  by (induction m) (auto simp: um_find_def um_erase_def fun_eq_iff)

lemma um_ok_try_emplace: "um_ok m \<Longrightarrow> um_ok (fst (um_try_emplace k v m))"
  by (auto simp: um_ok_def um_try_emplace_def um_find_def map_of_eq_None_iff)

lemma um_ok_erase: "um_ok m \<Longrightarrow> um_ok (um_erase k m)"
  by (simp add: um_ok_def um_erase_def distinct_map_filter)

lemma set_um_keys: "set (um_keys m) = dom (um_find m)"
  by (simp add: um_keys_def um_find_def [abs_def] dom_map_of_conv_image_fst)

lemma distinct_um_keys: "um_ok m \<Longrightarrow> distinct (um_keys m)"
  by (simp add: um_ok_def um_keys_def)

section \<open>The contract of a session registry\<close>

datatype ('k, 'v) registry_op = Join 'k 'v | Leave 'k

fun registry_run ::
  "('k \<Rightarrow> 'v \<Rightarrow> 's \<Rightarrow> 's \<times> bool) \<Rightarrow> ('k \<Rightarrow> 's \<Rightarrow> 's) \<Rightarrow> ('k, 'v) registry_op list \<Rightarrow> 's \<Rightarrow> 's"
where
  "registry_run join leave [] s = s"
| "registry_run join leave (Join k v # xs) s = registry_run join leave xs (fst (join k v s))"
| "registry_run join leave (Leave k # xs) s = registry_run join leave xs (leave k s)"

locale session_registry =
  fixes join :: "'k \<Rightarrow> 'v \<Rightarrow> 's \<Rightarrow> 's \<times> bool"
    and leave :: "'k \<Rightarrow> 's \<Rightarrow> 's"
    and lookup :: "'s \<Rightarrow> 'k \<Rightarrow> 'v option"
    and valid :: "'s \<Rightarrow> bool"
  assumes join_flag: "valid s \<Longrightarrow> snd (join k v s) \<longleftrightarrow> lookup s k = None"
    and lookup_join: "valid s \<Longrightarrow> lookup (fst (join k v s)) =
          (if lookup s k = None then (lookup s)(k \<mapsto> v) else lookup s)"
    and lookup_leave: "valid s \<Longrightarrow> lookup (leave k s) = (lookup s)(k := None)"
    and valid_join: "valid s \<Longrightarrow> valid (fst (join k v s))"
    and valid_leave: "valid s \<Longrightarrow> valid (leave k s)"
begin

lemma joined_is_found:
  "valid s \<Longrightarrow> snd (join k v s) \<Longrightarrow> lookup (fst (join k v s)) k = Some v"
  by (simp add: join_flag lookup_join)

lemma second_join_refused:
  assumes "valid s"
  shows "\<not> snd (join k w (fst (join k v s)))"
  using assms by (simp add: join_flag valid_join lookup_join)

lemma refused_join_keeps_owner:
  assumes "valid s" "lookup s k = Some v"
  shows "\<not> snd (join k w s)" "lookup (fst (join k w s)) = lookup s"
  using assms by (simp_all add: join_flag lookup_join)

lemma left_is_gone: "valid s \<Longrightarrow> lookup (leave k s) k = None"
  by (simp add: lookup_leave)

lemma join_after_leave: "valid s \<Longrightarrow> snd (join k v (leave k s))"
  by (simp add: join_flag valid_leave lookup_leave)

lemma leave_keeps_others: "valid s \<Longrightarrow> k' \<noteq> k \<Longrightarrow> lookup (leave k s) k' = lookup s k'"
  by (simp add: lookup_leave)

lemma valid_run: "valid s \<Longrightarrow> valid (registry_run join leave xs s)"
proof (induction xs arbitrary: s)
  case Nil
  then show ?case by simp
next
  case (Cons x xs)
  then show ?case by (cases x) (simp_all add: valid_join valid_leave)
qed

text \<open>
  Ownership is stable: whatever other sessions do, a registered key keeps its owner until
  someone leaves with that key.
\<close>

lemma owner_stable:
  assumes "valid s" "lookup s k = Some v" "Leave k \<notin> set xs"
  shows "lookup (registry_run join leave xs s) k = Some v"
  using assms
proof (induction xs arbitrary: s)
  case Nil
  then show ?case by simp
next
  case (Cons x xs)
  show ?case
  proof (cases x)
    case (Join k' v')
    with Cons.prems show ?thesis by (auto intro!: Cons.IH simp: valid_join lookup_join)
  next
    case (Leave k')
    with Cons show ?thesis by (simp add: valid_leave lookup_leave)
  qed
qed

end

text \<open>A registry that can also list its keys.\<close>

locale listed_registry = session_registry +
  fixes members :: "'s \<Rightarrow> 'k list"
  assumes set_members: "valid s \<Longrightarrow> set (members s) = dom (lookup s)"
    and distinct_members: "valid s \<Longrightarrow> distinct (members s)"
begin

lemma members_join:
  assumes "valid s"
  shows "set (members (fst (join k v s))) = insert k (set (members s))"
  using assms by (auto simp: set_members valid_join lookup_join)

lemma members_leave:
  assumes "valid s"
  shows "set (members (leave k s)) = set (members s) - {k}"
  using assms by (auto simp: set_members valid_leave lookup_leave)

end

interpretation um: listed_registry um_try_emplace um_erase um_find um_ok um_keys
  by unfold_locales
    (simp_all add: um_find_try_emplace um_find_erase um_ok_try_emplace um_ok_erase
       set_um_keys distinct_um_keys)

end
