(* ===== verification/Shared_State.thy ===== *)
theory Shared_State
  imports Packets Json_Value Unordered_Map
begin

text \<open>
  \<open>SharedState.hh\<close> and \<open>SharedState.cc\<close>: the one object every session shares. It holds the
  document root, the JSON configuration and four tables, the plain and the SSL WebSocket
  sessions by UUID and the plain and the SSL TCP sessions by station id. Each operation runs
  under the mutex, so it is one step; \<open>findStation\<close> does not lock, which a single step does
  not show.
\<close>

section \<open>State\<close>

text \<open>The two instances of every session template.\<close>

datatype proto = Plain | SSL

record WeatherStatusNotification =
  n_id :: StationId
  n_temperature :: float32
  n_humidity :: float32
  n_time :: "32 word"

text \<open>
  The callback of a WebSocket session is the lambda \<open>onAccept\<close> builds: it captures a
  \<open>shared_ptr\<close> to the session and calls its \<open>onWeatherStatusNotification\<close>. A table therefore
  owns the sessions it lists.
\<close>

datatype NotificationCallback = NotifySession ptr

record WebSocketSessionCtx =
  ctx_session :: ptr
  ctx_callback :: NotificationCallback

record SharedState =
  docRoot :: string
  config :: json
  plain_sessions :: "(uuid, WebSocketSessionCtx) unordered_map"
  ssl_sessions :: "(uuid, WebSocketSessionCtx) unordered_map"
  plain_tcp_sessions :: "(StationId, ptr) unordered_map"
  ssl_tcp_sessions :: "(StationId, ptr) unordered_map"

definition make_SharedState :: "string \<Rightarrow> json \<Rightarrow> SharedState" where
  "make_SharedState root cfg =
     \<lparr>docRoot = root, config = cfg, plain_sessions = [], ssl_sessions = [],
      plain_tcp_sessions = [], ssl_tcp_sessions = []\<rparr>"

text \<open>
  What a raw session pointer refers to: freed memory, a session whose destructor has begun (no
  owner is left), or a session with an owner. \<open>weak_from_this\<close> reads the object, so a freed
  one is undefined; \<open>lock\<close> then succeeds exactly when an owner is left.
\<close>

datatype refstate = Freed | Expired | Alive

fun lock_weak_from_this :: "refstate \<Rightarrow> bool result" where
  "lock_weak_from_this Freed = Inl (Undefined DanglingPointer)"
| "lock_weak_from_this Expired = Inr False"
| "lock_weak_from_this Alive = Inr True"

section \<open>Joining and leaving\<close>

definition join_PlainWebSocketSession ::
  "uuid \<Rightarrow> WebSocketSessionCtx \<Rightarrow> SharedState \<Rightarrow> SharedState \<times> bool" where
  "join_PlainWebSocketSession uuid ctx st =
     (let (m, joined) = um_try_emplace uuid ctx (plain_sessions st)
      in (st\<lparr>plain_sessions := m\<rparr>, joined))"

definition join_SSLWebSocketSession ::
  "uuid \<Rightarrow> WebSocketSessionCtx \<Rightarrow> SharedState \<Rightarrow> SharedState \<times> bool" where
  "join_SSLWebSocketSession uuid ctx st =
     (let (m, joined) = um_try_emplace uuid ctx (ssl_sessions st)
      in (st\<lparr>ssl_sessions := m\<rparr>, joined))"

definition join_PlainTCPSession ::
  "StationId \<Rightarrow> ptr \<Rightarrow> SharedState \<Rightarrow> SharedState \<times> bool" where
  "join_PlainTCPSession sid p st =
     (let (m, joined) = um_try_emplace sid p (plain_tcp_sessions st)
      in (st\<lparr>plain_tcp_sessions := m\<rparr>, joined))"

definition join_SSLTCPSession ::
  "StationId \<Rightarrow> ptr \<Rightarrow> SharedState \<Rightarrow> SharedState \<times> bool" where
  "join_SSLTCPSession sid p st =
     (let (m, joined) = um_try_emplace sid p (ssl_tcp_sessions st)
      in (st\<lparr>ssl_tcp_sessions := m\<rparr>, joined))"

text \<open>Overload resolution and the \<open>if constexpr\<close> of \<open>leave\<close> pick the table by session type.\<close>

fun join_WebSocketSession ::
  "proto \<Rightarrow> uuid \<Rightarrow> WebSocketSessionCtx \<Rightarrow> SharedState \<Rightarrow> SharedState \<times> bool" where
  "join_WebSocketSession Plain = join_PlainWebSocketSession"
| "join_WebSocketSession SSL = join_SSLWebSocketSession"

fun join_TCPSession :: "proto \<Rightarrow> StationId \<Rightarrow> ptr \<Rightarrow> SharedState \<Rightarrow> SharedState \<times> bool" where
  "join_TCPSession Plain = join_PlainTCPSession"
| "join_TCPSession SSL = join_SSLTCPSession"

fun leave_WebSocketSession :: "proto \<Rightarrow> uuid \<Rightarrow> SharedState \<Rightarrow> SharedState" where
  "leave_WebSocketSession Plain uuid st = st\<lparr>plain_sessions := um_erase uuid (plain_sessions st)\<rparr>"
| "leave_WebSocketSession SSL uuid st = st\<lparr>ssl_sessions := um_erase uuid (ssl_sessions st)\<rparr>"

fun leave_TCPSession :: "proto \<Rightarrow> StationId \<Rightarrow> SharedState \<Rightarrow> SharedState" where
  "leave_TCPSession Plain sid st =
     st\<lparr>plain_tcp_sessions := um_erase sid (plain_tcp_sessions st)\<rparr>"
| "leave_TCPSession SSL sid st =
     st\<lparr>ssl_tcp_sessions := um_erase sid (ssl_tcp_sessions st)\<rparr>"

section \<open>Finding\<close>

text \<open>\<open>None\<close> is the null callback or the null \<open>shared_ptr\<close>.\<close>

definition findPlainWebSocketSession ::
  "(ptr \<Rightarrow> refstate) \<Rightarrow> uuid \<Rightarrow> SharedState \<Rightarrow> NotificationCallback option result" where
  "findPlainWebSocketSession live uuid st =
     (case um_find (plain_sessions st) uuid of
        Some ctx \<Rightarrow>
          bind_result (lock_weak_from_this (live (ctx_session ctx)))
            (\<lambda>sp. Inr (if sp then Some (ctx_callback ctx) else None))
      | None \<Rightarrow> Inr None)"

definition findSSLWebSocketSession ::
  "(ptr \<Rightarrow> refstate) \<Rightarrow> uuid \<Rightarrow> SharedState \<Rightarrow> NotificationCallback option result" where
  "findSSLWebSocketSession live uuid st =
     (case um_find (ssl_sessions st) uuid of
        Some ctx \<Rightarrow>
          bind_result (lock_weak_from_this (live (ctx_session ctx)))
            (\<lambda>sp. Inr (if sp then Some (ctx_callback ctx) else None))
      | None \<Rightarrow> Inr None)"

fun findWebSocketSession ::
  "proto \<Rightarrow> (ptr \<Rightarrow> refstate) \<Rightarrow> uuid \<Rightarrow> SharedState \<Rightarrow> NotificationCallback option result" where
  "findWebSocketSession Plain = findPlainWebSocketSession"
| "findWebSocketSession SSL = findSSLWebSocketSession"

definition findPlainStation ::
  "(ptr \<Rightarrow> refstate) \<Rightarrow> StationId \<Rightarrow> SharedState \<Rightarrow> ptr option result" where
  "findPlainStation live key st =
     (case um_find (plain_tcp_sessions st) key of
        Some p \<Rightarrow>
          bind_result (lock_weak_from_this (live p)) (\<lambda>sp. Inr (if sp then Some p else None))
      | None \<Rightarrow> Inr None)"

definition findSSLStation ::
  "(ptr \<Rightarrow> refstate) \<Rightarrow> StationId \<Rightarrow> SharedState \<Rightarrow> ptr option result" where
  "findSSLStation live key st =
     (case um_find (ssl_tcp_sessions st) key of
        Some p \<Rightarrow>
          bind_result (lock_weak_from_this (live p)) (\<lambda>sp. Inr (if sp then Some p else None))
      | None \<Rightarrow> Inr None)"

text \<open>The variant of \<open>findStation\<close>: a possibly null pointer of either kind, or the monostate.\<close>

datatype VariantType = PlainTCP "ptr option" | SSLTCP "ptr option" | Monostate

definition findStation ::
  "(proto \<Rightarrow> ptr \<Rightarrow> refstate) \<Rightarrow> StationId \<Rightarrow> SharedState \<Rightarrow> VariantType result" where
  "findStation live sid st =
     bind_result (findPlainStation (live Plain) sid st)
       (\<lambda>sp. if sp \<noteq> None then Inr (PlainTCP sp)
             else bind_result (findSSLStation (live SSL) sid st) (\<lambda>sp. Inr (SSLTCP sp)))"

definition allStationIds :: "SharedState \<Rightarrow> StationId list" where
  "allStationIds st = um_keys (plain_tcp_sessions st) @ um_keys (ssl_tcp_sessions st)"

section \<open>The tables as registries\<close>

definition SharedState_ok :: "SharedState \<Rightarrow> bool" where
  "SharedState_ok st \<longleftrightarrow> um_ok (plain_sessions st) \<and> um_ok (ssl_sessions st)
     \<and> um_ok (plain_tcp_sessions st) \<and> um_ok (ssl_tcp_sessions st)"

fun websockets_of :: "proto \<Rightarrow> SharedState \<Rightarrow> (uuid, WebSocketSessionCtx) unordered_map" where
  "websockets_of Plain st = plain_sessions st"
| "websockets_of SSL st = ssl_sessions st"

fun stations_of :: "proto \<Rightarrow> SharedState \<Rightarrow> (StationId, ptr) unordered_map" where
  "stations_of Plain st = plain_tcp_sessions st"
| "stations_of SSL st = ssl_tcp_sessions st"

lemmas join_defs =
  join_PlainWebSocketSession_def join_SSLWebSocketSession_def
  join_PlainTCPSession_def join_SSLTCPSession_def

lemma SharedState_ok_make [simp]: "SharedState_ok (make_SharedState r c)"
  by (simp add: SharedState_ok_def make_SharedState_def)

lemma SharedState_ok_tables:
  assumes "SharedState_ok st"
  shows "um_ok (stations_of k st)" "um_ok (websockets_of k st)"
  using assms by (cases k; simp add: SharedState_ok_def)+

lemma join_TCPSession_stations:
  "stations_of k' (fst (join_TCPSession k sid p st)) =
     (if k' = k then fst (um_try_emplace sid p (stations_of k st)) else stations_of k' st)"
  by (cases k; cases k') (simp_all add: join_defs split: prod.splits)

lemma join_TCPSession_flag:
  "snd (join_TCPSession k sid p st) \<longleftrightarrow> um_find (stations_of k st) sid = None"
  by (cases k) (simp_all add: join_defs um_try_emplace_def)

lemma join_TCPSession_websockets [frame_simps]:
  "websockets_of k' (fst (join_TCPSession k sid p st)) = websockets_of k' st"
  by (cases k; cases k') (simp_all add: join_defs split: prod.splits)

lemma join_TCPSession_config [frame_simps]:
  "config (fst (join_TCPSession k sid p st)) = config st"
  "docRoot (fst (join_TCPSession k sid p st)) = docRoot st"
  by (cases k; simp add: join_defs split: prod.splits)+

lemma join_WebSocketSession_websockets:
  "websockets_of k' (fst (join_WebSocketSession k u ctx st)) =
     (if k' = k then fst (um_try_emplace u ctx (websockets_of k st)) else websockets_of k' st)"
  by (cases k; cases k') (simp_all add: join_defs split: prod.splits)

lemma join_WebSocketSession_flag:
  "snd (join_WebSocketSession k u ctx st) \<longleftrightarrow> um_find (websockets_of k st) u = None"
  by (cases k) (simp_all add: join_defs um_try_emplace_def)

lemma join_WebSocketSession_stations [frame_simps]:
  "stations_of k' (fst (join_WebSocketSession k u ctx st)) = stations_of k' st"
  by (cases k; cases k') (simp_all add: join_defs split: prod.splits)

lemma leave_TCPSession_stations:
  "stations_of k' (leave_TCPSession k sid st) =
     (if k' = k then um_erase sid (stations_of k st) else stations_of k' st)"
  by (cases k; cases k') simp_all

lemma leave_WebSocketSession_websockets:
  "websockets_of k' (leave_WebSocketSession k u st) =
     (if k' = k then um_erase u (websockets_of k st) else websockets_of k' st)"
  by (cases k; cases k') simp_all

lemma leave_frames [frame_simps]:
  "stations_of k' (leave_WebSocketSession k u st) = stations_of k' st"
  "websockets_of k' (leave_TCPSession k sid st) = websockets_of k' st"
  "config (leave_TCPSession k sid st) = config st"
  "config (leave_WebSocketSession k u st) = config st"
  by (cases k; cases k'; simp)+

lemma SharedState_ok_iff:
  "SharedState_ok st \<longleftrightarrow>
     (\<forall>k. um_ok (stations_of k st)) \<and> (\<forall>k. um_ok (websockets_of k st))"
proof -
  have "(\<forall>k. um_ok (stations_of k st)) \<longleftrightarrow>
      um_ok (plain_tcp_sessions st) \<and> um_ok (ssl_tcp_sessions st)"
    by (metis proto.exhaust stations_of.simps)
  moreover have "(\<forall>k. um_ok (websockets_of k st)) \<longleftrightarrow>
      um_ok (plain_sessions st) \<and> um_ok (ssl_sessions st)"
    by (metis proto.exhaust websockets_of.simps)
  ultimately show ?thesis by (auto simp: SharedState_ok_def)
qed

lemma SharedState_ok_ops [intro, simp]:
  assumes "SharedState_ok st"
  shows "SharedState_ok (fst (join_TCPSession k sid p st))"
    and "SharedState_ok (fst (join_WebSocketSession k u ctx st))"
    and "SharedState_ok (leave_TCPSession k sid st)"
    and "SharedState_ok (leave_WebSocketSession k u st)"
  using assms
  by (simp_all add: SharedState_ok_iff join_TCPSession_stations join_WebSocketSession_websockets
      leave_TCPSession_stations leave_WebSocketSession_websockets frame_simps
      um_ok_try_emplace um_ok_erase)

interpretation tcp_registry: listed_registry
  "join_TCPSession k" "leave_TCPSession k" "\<lambda>st. um_find (stations_of k st)" SharedState_ok
  "\<lambda>st. um_keys (stations_of k st)" for k
  by unfold_locales
    (simp_all add: join_TCPSession_flag join_TCPSession_stations leave_TCPSession_stations
      um_find_try_emplace um_find_erase set_um_keys distinct_um_keys SharedState_ok_tables)

interpretation ws_registry: listed_registry
  "join_WebSocketSession k" "leave_WebSocketSession k" "\<lambda>st. um_find (websockets_of k st)"
  SharedState_ok "\<lambda>st. um_keys (websockets_of k st)" for k
  by unfold_locales
    (simp_all add: join_WebSocketSession_flag join_WebSocketSession_websockets
      leave_WebSocketSession_websockets um_find_try_emplace um_find_erase set_um_keys
      distinct_um_keys SharedState_ok_tables)

section \<open>What the lookups return\<close>

lemma findStation_cases:
  assumes "findStation live sid st = Inr v"
  shows "(\<exists>p. v = PlainTCP (Some p) \<and> um_find (stations_of Plain st) sid = Some p
              \<and> live Plain p = Alive)
       \<or> (\<exists>p. v = SSLTCP (Some p) \<and> um_find (stations_of SSL st) sid = Some p
              \<and> live SSL p = Alive)
       \<or> v = SSLTCP None"
  using assms
  by (auto simp: findStation_def findPlainStation_def findSSLStation_def bind_result_Inr_iff
      split: option.splits if_splits elim!: lock_weak_from_this.elims)

lemma findStation_never_monostate: "findStation live sid st \<noteq> Inr Monostate"
  using findStation_cases by fastforce

lemma set_allStationIds:
  "set (allStationIds st) =
     dom (um_find (stations_of Plain st)) \<union> dom (um_find (stations_of SSL st))"
  by (simp add: allStationIds_def set_um_keys)

end
