(* ===== verification/Calendar.thy ===== *)
theory Calendar
  imports Server_Prelude
begin

text \<open>
  \<open>std::gmtime\<close> and \<open>std::put_time(.., "%Y-%m-%d %H:%M:%S")\<close>, with which a WebSocket session
  prints the time stamp of a weather report: the broken-down UTC time of a count of seconds
  since 1970-01-01, and its text.
\<close>

section \<open>Gregorian years and months\<close>

definition leap_year :: "nat \<Rightarrow> bool" where
  "leap_year y \<longleftrightarrow> 4 dvd y \<and> \<not> 100 dvd y \<or> 400 dvd y"

definition days_in_year :: "nat \<Rightarrow> nat" where
  "days_in_year y = (if leap_year y then 366 else 365)"

definition month_lengths :: "nat \<Rightarrow> nat list" where
  "month_lengths y = [31, if leap_year y then 29 else 28, 31, 30, 31, 30, 31, 31, 30, 31, 30, 31]"

lemma days_in_year_pos [simp]: "0 < days_in_year y"
  by (simp add: days_in_year_def)

lemma sum_month_lengths: "sum_list (month_lengths y) = days_in_year y"
  by (simp add: month_lengths_def days_in_year_def)

section \<open>\<open>gmtime\<close>\<close>

record tm =
  tm_year :: nat
  tm_mon :: nat
  tm_mday :: nat
  tm_hour :: nat
  tm_min :: nat
  tm_sec :: nat

text \<open>Counted years are full years and counted months are 1 to 12, as \<open>put_time\<close> prints them.\<close>

function split_year :: "nat \<Rightarrow> nat \<Rightarrow> nat \<times> nat" where
  "split_year y d =
     (if d < days_in_year y then (y, d) else split_year (Suc y) (d - days_in_year y))"
  by pat_completeness auto
termination
proof (relation "measure snd")
  fix y d
  assume "\<not> d < days_in_year y"
  then show "((Suc y, d - days_in_year y), y, d) \<in> measure snd"
    by (simp add: days_in_year_def split: if_splits)
qed simp

declare split_year.simps [simp del]

fun split_month :: "nat list \<Rightarrow> nat \<Rightarrow> nat \<times> nat" where
  "split_month [] d = (1, Suc d)"
| "split_month (m # ms) d =
     (if d < m then (1, Suc d) else (let (k, r) = split_month ms (d - m) in (Suc k, r)))"

definition gmtime :: "nat \<Rightarrow> tm" where
  "gmtime t =
     (let (y, yd) = split_year 1970 (t div 86400);
          (m, d) = split_month (month_lengths y) yd;
          s = t mod 86400
      in \<lparr>tm_year = y, tm_mon = m, tm_mday = d,
          tm_hour = s div 3600, tm_min = s mod 3600 div 60, tm_sec = s mod 60\<rparr>)"

definition put_time :: "tm \<Rightarrow> string" where
  "put_time x =
     decimal (tm_year x) @ ''-'' @ pad2 (tm_mon x) @ ''-'' @ pad2 (tm_mday x) @ '' ''
       @ pad2 (tm_hour x) @ '':'' @ pad2 (tm_min x) @ '':'' @ pad2 (tm_sec x)"

section \<open>The inverse\<close>

text \<open>The count of seconds a broken-down time stands for.\<close>

definition timegm :: "tm \<Rightarrow> nat" where
  "timegm x =
     ((\<Sum>y \<in> {1970..<tm_year x}. days_in_year y)
        + sum_list (take (tm_mon x - 1) (month_lengths (tm_year x))) + (tm_mday x - 1)) * 86400
       + tm_hour x * 3600 + tm_min x * 60 + tm_sec x"

lemma split_year_sum:
  "split_year y d = (y', d') \<Longrightarrow>
     y \<le> y' \<and> d' < days_in_year y' \<and> (\<Sum>i \<in> {y..<y'}. days_in_year i) + d' = d"
proof (induction y d arbitrary: y' d' rule: split_year.induct)
  case (1 y d)
  show ?case
  proof (cases "d < days_in_year y")
    case True
    with "1.prems" show ?thesis by (simp add: split_year.simps [of y d])
  next
    case False
    with 1 have *: "Suc y \<le> y'" "d' < days_in_year y'"
      "(\<Sum>i \<in> {Suc y..<y'}. days_in_year i) + d' = d - days_in_year y"
      by (simp_all add: split_year.simps [of y d])
    with False show ?thesis by (simp add: sum.atLeast_Suc_lessThan)
  qed
qed

lemma split_month_sum:
  "split_month ms d = (k, r) \<Longrightarrow> d < sum_list ms \<Longrightarrow>
     1 \<le> k \<and> k \<le> length ms \<and> 1 \<le> r \<and> sum_list (take (k - 1) ms) + (r - 1) = d
     \<and> r \<le> ms ! (k - 1)"
proof (induction ms d arbitrary: k r rule: split_month.induct)
  case (1 d)
  then show ?case by simp
next
  case (2 m ms d)
  show ?case
  proof (cases "d < m")
    case True
    with "2.prems" show ?thesis by auto
  next
    case False
    obtain k' r' where kr: "split_month ms (d - m) = (k', r')" by fastforce
    with False "2.prems" have eq: "k = Suc k'" "r = r'" by auto
    from False kr "2.prems" have "d - m < sum_list ms" by simp
    from "2.IH" [OF False kr this] False eq show ?thesis
      by (auto simp: take_Cons' nth_Cons')
  qed
qed

lemma clock_split: "s div 3600 * 3600 + s mod 3600 div 60 * 60 + s mod 60 = (s :: nat)"
proof -
  have "s mod 60 = s mod 3600 mod 60"
    by (rule mod_mod_cancel [symmetric]) simp
  then have "s mod 3600 div 60 * 60 + s mod 60 = s mod 3600"
    by simp
  then show ?thesis by (simp add: add.assoc)
qed

lemma gmtime_timegm: "timegm (gmtime t) = t"
proof -
  obtain y yd where y: "split_year 1970 (t div 86400) = (y, yd)" by fastforce
  obtain m d where m: "split_month (month_lengths y) yd = (m, d)" by fastforce
  note Y = split_year_sum [OF y]
  then have "yd < sum_list (month_lengths y)" by (simp add: sum_month_lengths)
  note M = split_month_sum [OF m this]
  have day: "(\<Sum>i \<in> {1970..<y}. days_in_year i) + sum_list (take (m - 1) (month_lengths y))
      + (d - 1) = t div 86400"
    using Y M by linarith
  note clock = clock_split [of "t mod 86400"]
  have gm: "gmtime t = \<lparr>tm_year = y, tm_mon = m, tm_mday = d,
      tm_hour = t mod 86400 div 3600, tm_min = t mod 86400 mod 3600 div 60,
      tm_sec = t mod 86400 mod 60\<rparr>"
    by (simp only: gmtime_def Let_def y m prod.case)
  have "timegm (gmtime t) = t div 86400 * 86400 + t mod 86400 div 3600 * 3600
      + t mod 86400 mod 3600 div 60 * 60 + t mod 86400 mod 60"
    by (simp only: timegm_def gm tm.select_convs day)
  also have "\<dots> = t"
    using clock div_mult_mod_eq [of t 86400] by (simp only: add.assoc)
  finally show ?thesis .
qed

section \<open>The printed time\<close>

lemma split_month_bounds:
  assumes "split_month (month_lengths y) d = (m, r)" "d < days_in_year y"
  shows "1 \<le> m" "m \<le> 12" "1 \<le> r" "r \<le> 31"
proof -
  note S = split_month_sum [OF assms(1)]
  have "d < sum_list (month_lengths y)" using assms(2) by (simp add: sum_month_lengths)
  note S = S [OF this]
  have len: "length (month_lengths y) = 12" by (simp add: month_lengths_def)
  have "\<forall>x \<in> set (month_lengths y). x \<le> 31" by (simp add: month_lengths_def)
  then have "month_lengths y ! (m - 1) \<le> 31"
    using S len by (metis Suc_diff_1 less_eq_Suc_le nth_mem zero_less_one order_less_le_trans)
  with S len show "1 \<le> m" "m \<le> 12" "1 \<le> r" "r \<le> 31" by auto
qed

lemma gmtime_bounds:
  "1970 \<le> tm_year (gmtime t)" "1 \<le> tm_mon (gmtime t)" "tm_mon (gmtime t) \<le> 12"
  "1 \<le> tm_mday (gmtime t)" "tm_mday (gmtime t) \<le> 31"
  "tm_hour (gmtime t) < 24" "tm_min (gmtime t) < 60" "tm_sec (gmtime t) < 60"
proof -
  obtain y yd where y: "split_year 1970 (t div 86400) = (y, yd)" by fastforce
  obtain m d where m: "split_month (month_lengths y) yd = (m, d)" by fastforce
  note Y = split_year_sum [OF y]
  then have "yd < days_in_year y" by simp
  note M = split_month_bounds [OF m this]
  have gm: "gmtime t = \<lparr>tm_year = y, tm_mon = m, tm_mday = d,
      tm_hour = t mod 86400 div 3600, tm_min = t mod 86400 mod 3600 div 60,
      tm_sec = t mod 86400 mod 60\<rparr>"
    by (simp only: gmtime_def Let_def y m prod.case)
  show "1970 \<le> tm_year (gmtime t)" "1 \<le> tm_mon (gmtime t)" "tm_mon (gmtime t) \<le> 12"
    "1 \<le> tm_mday (gmtime t)" "tm_mday (gmtime t) \<le> 31"
    "tm_hour (gmtime t) < 24" "tm_min (gmtime t) < 60" "tm_sec (gmtime t) < 60"
    using Y M by (simp_all add: gm less_mult_imp_div_less)
qed

lemma gmtime_year_bound:
  assumes "t < 2 ^ 32"
  shows "tm_year (gmtime t) < 2107"
proof (rule ccontr)
  assume "\<not> tm_year (gmtime t) < 2107"
  then have "{1970..<2107} \<subseteq> {1970..<tm_year (gmtime t)}" by auto
  then have "(\<Sum>y \<in> {1970..<2107}. days_in_year y) \<le> (\<Sum>y \<in> {1970..<tm_year (gmtime t)}. days_in_year y)"
    by (intro sum_mono2) auto
  moreover have "137 * 365 \<le> (\<Sum>y \<in> {1970..<2107::nat}. days_in_year y)"
    using sum_bounded_below [of "{1970..<2107::nat}" "365::nat" days_in_year]
    by (simp add: days_in_year_def)
  moreover have "(\<Sum>y \<in> {1970..<tm_year (gmtime t)}. days_in_year y) * 86400 \<le> timegm (gmtime t)"
    by (simp add: timegm_def)
  ultimately have "137 * 365 * 86400 \<le> t"
    unfolding gmtime_timegm by linarith
  with assms show False by simp
qed

definition printable :: "tm \<Rightarrow> bool" where
  "printable x \<longleftrightarrow> 1000 \<le> tm_year x \<and> tm_year x < 10000 \<and> tm_mon x < 100 \<and> tm_mday x < 100
     \<and> tm_hour x < 100 \<and> tm_min x < 100 \<and> tm_sec x < 100"

lemma printable_gmtime: "t < 2 ^ 32 \<Longrightarrow> printable (gmtime t)"
  using gmtime_bounds [of t] gmtime_year_bound [of t] by (simp add: printable_def)

lemma length_put_time: "printable x \<Longrightarrow> length (put_time x) = 19"
  by (simp add: printable_def put_time_def length_pad2 length_decimal_4)

lemma pad2_inj: "pad2 m = pad2 n \<longleftrightarrow> m = n"
  by (metis digits_value_pad2)

lemma put_time_inj:
  assumes "printable x" "printable y" "put_time x = put_time y"
  shows "x = y"
proof -
  have len: "length (decimal (tm_year x)) = length (decimal (tm_year y))"
    "length (pad2 (tm_mon x)) = length (pad2 (tm_mon y))"
    "length (pad2 (tm_mday x)) = length (pad2 (tm_mday y))"
    "length (pad2 (tm_hour x)) = length (pad2 (tm_hour y))"
    "length (pad2 (tm_min x)) = length (pad2 (tm_min y))"
    using assms(1,2) by (simp_all add: printable_def length_pad2 length_decimal_4)
  from assms(3) show ?thesis
    by (simp add: put_time_def len pad2_inj)
qed

end
