(* ===== verification/Json_Input.thy ===== *)
theory Json_Input
  imports Json_Value
begin

text \<open>
  The state of the lexer of \<open>nlohmann::json\<close> (\<open>detail/input/lexer.hpp\<close>) and the primitives the
  scan functions are built from: reading a character, putting one back, the token buffers and
  the texts of error messages. The input is the rest of the iterator range the adapter reads.
\<close>

section \<open>Tokens\<close>

datatype token_type =
    Tok_uninitialized
  | Tok_literal_true
  | Tok_literal_false
  | Tok_literal_null
  | Tok_value_string
  | Tok_value_unsigned
  | Tok_value_integer
  | Tok_value_float
  | Tok_begin_array
  | Tok_begin_object
  | Tok_end_array
  | Tok_end_object
  | Tok_name_separator
  | Tok_value_separator
  | Tok_parse_error
  | Tok_end_of_input
  | Tok_literal_or_value

definition quoted :: "string \<Rightarrow> string" where
  "quoted s = CHR 0x27 # s @ [CHR 0x27]"

definition token_type_name :: "token_type \<Rightarrow> string" where
  "token_type_name t =
     (case t of
        Tok_uninitialized \<Rightarrow> ''<uninitialized>''
      | Tok_literal_true \<Rightarrow> ''true literal''
      | Tok_literal_false \<Rightarrow> ''false literal''
      | Tok_literal_null \<Rightarrow> ''null literal''
      | Tok_value_string \<Rightarrow> ''string literal''
      | Tok_value_unsigned \<Rightarrow> ''number literal''
      | Tok_value_integer \<Rightarrow> ''number literal''
      | Tok_value_float \<Rightarrow> ''number literal''
      | Tok_begin_array \<Rightarrow> quoted ''[''
      | Tok_begin_object \<Rightarrow> quoted ''{''
      | Tok_end_array \<Rightarrow> quoted '']''
      | Tok_end_object \<Rightarrow> quoted ''}''
      | Tok_name_separator \<Rightarrow> quoted '':''
      | Tok_value_separator \<Rightarrow> quoted '',''
      | Tok_parse_error \<Rightarrow> ''<parse error>''
      | Tok_end_of_input \<Rightarrow> ''end of input''
      | Tok_literal_or_value \<Rightarrow> quoted ''['' @ '', '' @ quoted ''{'' @ '', or a literal'')"

section \<open>State\<close>

record position_t =
  chars_read_total :: nat
  chars_read_current_line :: nat
  lines_read :: nat

text \<open>\<open>None\<close> for \<open>current\<close> is the value \<open>eof()\<close>.\<close>

record lexer =
  ia :: string
  ignore_comments :: bool
  current :: "char option"
  next_unget :: bool
  position :: position_t
  token_string :: string
  token_buffer :: string
  error_message :: string
  value_integer :: "64 word"
  value_unsigned :: "64 word"
  value_float :: float64
  decimal_point_char :: char

text \<open>The decimal point is that of the C locale, which the server never changes.\<close>

definition make_lexer :: "string \<Rightarrow> bool \<Rightarrow> lexer" where
  "make_lexer input comments =
     \<lparr>ia = input, ignore_comments = comments, current = None, next_unget = False,
      position = \<lparr>chars_read_total = 0, chars_read_current_line = 0, lines_read = 0\<rparr>,
      token_string = [], token_buffer = [], error_message = [], value_integer = 0,
      value_unsigned = 0, value_float = 0, decimal_point_char = CHR ''.''\<rparr>"

section \<open>Reading\<close>

text \<open>\<open>iterator_input_adapter::get_character\<close>.\<close>

fun get_character :: "string \<Rightarrow> char option \<times> string" where
  "get_character [] = (None, [])"
| "get_character (c # cs) = (Some c, cs)"

definition lexer_get :: "lexer \<Rightarrow> lexer" where
  "lexer_get l =
     (let p = position l;
          p = p\<lparr>chars_read_total := chars_read_total p + 1,
                chars_read_current_line := chars_read_current_line p + 1\<rparr>;
          l = (if next_unget l then l\<lparr>next_unget := False\<rparr>
               else case get_character (ia l) of (c, rest) \<Rightarrow> l\<lparr>current := c, ia := rest\<rparr>);
          l = (case current l of Some c \<Rightarrow> l\<lparr>token_string := token_string l @ [c]\<rparr> | None \<Rightarrow> l);
          p = (if current l = Some CHR 0x0A
               then p\<lparr>lines_read := lines_read p + 1, chars_read_current_line := 0\<rparr> else p)
      in l\<lparr>position := p\<rparr>)"

definition lexer_unget :: "lexer \<Rightarrow> lexer" where
  "lexer_unget l =
     (let p = position l;
          p = p\<lparr>chars_read_total := chars_read_total p - 1\<rparr>;
          p = (if chars_read_current_line p = 0
               then (if lines_read p > 0 then p\<lparr>lines_read := lines_read p - 1\<rparr> else p)
               else p\<lparr>chars_read_current_line := chars_read_current_line p - 1\<rparr>)
      in l\<lparr>next_unget := True, position := p,
           token_string := (if current l \<noteq> None then butlast (token_string l) else token_string l)\<rparr>)"

definition lexer_add :: "char \<Rightarrow> lexer \<Rightarrow> lexer" where
  "lexer_add c l = l\<lparr>token_buffer := token_buffer l @ [c]\<rparr>"

text \<open>\<open>to_char_type\<close> of the current character; \<open>eof()\<close> becomes the byte FF.\<close>

definition current_char :: "lexer \<Rightarrow> char" where
  "current_char l = (case current l of Some c \<Rightarrow> c | None \<Rightarrow> CHR 0xFF)"

definition add_current :: "lexer \<Rightarrow> lexer" where
  "add_current l = lexer_add (current_char l) l"

definition lexer_reset :: "lexer \<Rightarrow> lexer" where
  "lexer_reset l = l\<lparr>token_buffer := [], token_string := [current_char l]\<rparr>"

definition fail_with :: "string \<Rightarrow> lexer \<Rightarrow> lexer" where
  "fail_with msg l = l\<lparr>error_message := msg\<rparr>"

section \<open>Texts for messages\<close>

abbreviation code :: "char \<Rightarrow> nat" where
  "code c \<equiv> of_char c"

definition upper_hex :: "nat \<Rightarrow> char" where
  "upper_hex n = (if n < 10 then digit n else char_of (55 + n))"

fun escape_controls :: "string \<Rightarrow> string" where
  "escape_controls [] = []"
| "escape_controls (c # cs) =
     (if code c \<le> 0x1F then ''<U+00'' @ [upper_hex (code c div 16), upper_hex (code c mod 16), CHR ''>'']
      else [c]) @ escape_controls cs"

definition get_token_string :: "lexer \<Rightarrow> string" where
  "get_token_string l = escape_controls (token_string l)"

definition position_string :: "position_t \<Rightarrow> string" where
  "position_string p =
     '' at line '' @ decimal (lines_read p + 1) @ '', column '' @ decimal (chars_read_current_line p)"

definition exception_name :: "string \<Rightarrow> nat \<Rightarrow> string" where
  "exception_name ename i = ''[json.exception.'' @ ename @ ''.'' @ decimal i @ ''] ''"

text \<open>\<open>parse_error::create\<close> and \<open>out_of_range::create\<close>; the text passes through \<open>c_str\<close>.\<close>

definition parse_error_create :: "nat \<Rightarrow> position_t \<Rightarrow> string \<Rightarrow> exn" where
  "parse_error_create i p what_arg =
     Json_parse_error (c_str (exception_name ''parse_error'' i @ ''parse error'' @ position_string p
       @ '': '' @ what_arg))"

definition out_of_range_create :: "nat \<Rightarrow> string \<Rightarrow> exn" where
  "out_of_range_create i what_arg =
     Json_out_of_range i (c_str (exception_name ''out_of_range'' i @ what_arg))"

section \<open>The characters still to come\<close>

definition pending_chars :: "lexer \<Rightarrow> string" where
  "pending_chars l = (if next_unget l then (case current l of Some c \<Rightarrow> [c] | None \<Rightarrow> []) else []) @ ia l"

definition eof_ok :: "lexer \<Rightarrow> bool" where
  "eof_ok l \<longleftrightarrow> (next_unget l \<and> current l = None \<longrightarrow> ia l = [])"

lemma pending_make [simp]: "pending_chars (make_lexer s b) = s"
  by (simp add: pending_chars_def make_lexer_def)

lemma eof_ok_make [simp]: "eof_ok (make_lexer s b)"
  by (simp add: eof_ok_def make_lexer_def)

lemma ia_get: "ia (lexer_get l) = (if next_unget l then ia l else tl (ia l))"
  by (cases "next_unget l"; cases "ia l"; cases "current l") (simp_all add: lexer_get_def Let_def)

lemma current_after_get:
  "current (lexer_get l) =
     (if next_unget l then current l else case ia l of [] \<Rightarrow> None | c # cs \<Rightarrow> Some c)"
  by (cases "next_unget l"; cases "ia l"; cases "current l") (simp_all add: lexer_get_def Let_def)

lemma current_get:
  assumes "eof_ok l"
  shows "current (lexer_get l) = (case pending_chars l of [] \<Rightarrow> None | c # cs \<Rightarrow> Some c)"
  using assms
  by (cases "next_unget l"; cases "current l") (simp_all add: current_after_get pending_chars_def eof_ok_def)

lemma get_frame [simp]:
  "next_unget (lexer_get l) = False"
  "token_buffer (lexer_get l) = token_buffer l"
  "ignore_comments (lexer_get l) = ignore_comments l"
  "error_message (lexer_get l) = error_message l"
  "value_integer (lexer_get l) = value_integer l"
  "value_unsigned (lexer_get l) = value_unsigned l"
  "value_float (lexer_get l) = value_float l"
  "decimal_point_char (lexer_get l) = decimal_point_char l"
  by (cases "next_unget l"; cases "ia l"; cases "current l"; simp add: lexer_get_def Let_def)+

lemma eof_ok_get [simp]: "eof_ok (lexer_get l)"
  by (simp add: eof_ok_def)

lemma pending_get:
  "pending_chars (lexer_get l) = (if next_unget l then ia l else tl (ia l))"
  by (simp add: pending_chars_def ia_get)

lemma pending_get_tl: "eof_ok l \<Longrightarrow> pending_chars (lexer_get l) = tl (pending_chars l)"
  by (cases "next_unget l"; cases "current l") (simp_all add: pending_chars_def eof_ok_def ia_get)

lemma unget_frame [simp]:
  "next_unget (lexer_unget l)"
  "current (lexer_unget l) = current l"
  "ia (lexer_unget l) = ia l"
  "token_buffer (lexer_unget l) = token_buffer l"
  "ignore_comments (lexer_unget l) = ignore_comments l"
  "error_message (lexer_unget l) = error_message l"
  "decimal_point_char (lexer_unget l) = decimal_point_char l"
  by (simp_all add: lexer_unget_def Let_def)

lemma add_frame [simp]:
  "token_buffer (lexer_add c l) = token_buffer l @ [c]"
  "pending_chars (lexer_add c l) = pending_chars l"
  "eof_ok (lexer_add c l) = eof_ok l"
  "current (lexer_add c l) = current l"
  "next_unget (lexer_add c l) = next_unget l"
  "ia (lexer_add c l) = ia l"
  "ignore_comments (lexer_add c l) = ignore_comments l"
  "decimal_point_char (lexer_add c l) = decimal_point_char l"
  by (simp_all add: lexer_add_def pending_chars_def eof_ok_def)

lemma add_current_frame [simp]:
  "token_buffer (add_current l) = token_buffer l @ [current_char l]"
  "pending_chars (add_current l) = pending_chars l"
  "eof_ok (add_current l) = eof_ok l"
  "current (add_current l) = current l"
  "next_unget (add_current l) = next_unget l"
  "ia (add_current l) = ia l"
  "ignore_comments (add_current l) = ignore_comments l"
  "decimal_point_char (add_current l) = decimal_point_char l"
  by (simp_all add: add_current_def)

lemma reset_frame [simp]:
  "token_buffer (lexer_reset l) = []"
  "pending_chars (lexer_reset l) = pending_chars l"
  "eof_ok (lexer_reset l) = eof_ok l"
  "current (lexer_reset l) = current l"
  "next_unget (lexer_reset l) = next_unget l"
  "ia (lexer_reset l) = ia l"
  "ignore_comments (lexer_reset l) = ignore_comments l"
  "decimal_point_char (lexer_reset l) = decimal_point_char l"
  by (simp_all add: lexer_reset_def pending_chars_def eof_ok_def)

lemma fail_frame [simp]:
  "pending_chars (fail_with m l) = pending_chars l"
  "eof_ok (fail_with m l) = eof_ok l"
  "current (fail_with m l) = current l"
  "next_unget (fail_with m l) = next_unget l"
  "ia (fail_with m l) = ia l"
  "ignore_comments (fail_with m l) = ignore_comments l"
  "decimal_point_char (fail_with m l) = decimal_point_char l"
  by (simp_all add: fail_with_def pending_chars_def eof_ok_def)

text \<open>A character was read and can be put back.\<close>

lemma pending_unget:
  "\<not> next_unget l \<Longrightarrow>
     pending_chars (lexer_unget l) = (case current l of Some c \<Rightarrow> c # pending_chars l | None \<Rightarrow> pending_chars l)"
  by (simp add: pending_chars_def split: option.split)

lemma unget_get:
  assumes "eof_ok l"
  shows "pending_chars (lexer_unget (lexer_get l)) = pending_chars l" "eof_ok (lexer_unget (lexer_get l))"
proof -
  show "pending_chars (lexer_unget (lexer_get l)) = pending_chars l"
    by (cases "pending_chars l") (simp_all add: pending_unget current_get [OF assms] pending_get_tl [OF assms])
  show "eof_ok (lexer_unget (lexer_get l))"
    using assms by (cases "ia l"; cases "next_unget l") (simp_all add: eof_ok_def ia_get current_after_get)
qed

text \<open>How much input is left: what the loops of the scan functions decrease.\<close>

definition left :: "lexer \<Rightarrow> nat" where
  "left l = length (pending_chars l)"

lemma left_get_le: "left (lexer_get l) \<le> left l"
  by (cases "next_unget l"; cases "ia l"; cases "current l")
    (simp_all add: left_def pending_chars_def ia_get)

lemma left_get_less: "current (lexer_get l) \<noteq> None \<Longrightarrow> left (lexer_get l) < left l"
  by (cases "next_unget l"; cases "ia l"; cases "current l")
    (simp_all add: left_def pending_chars_def ia_get current_after_get)

lemma left_get_Some: "current (lexer_get l) = Some c \<Longrightarrow> left (lexer_get l) < left l"
  by (rule left_get_less) simp

lemma left_unget_get: "left (lexer_unget (lexer_get l)) \<le> left l"
  by (cases "next_unget l"; cases "ia l"; cases "current l")
    (simp_all add: left_def pending_chars_def ia_get current_after_get)

lemma left_frame [simp]:
  "left (lexer_add c l) = left l" "left (add_current l) = left l"
  "left (lexer_reset l) = left l" "left (fail_with m l) = left l"
  by (simp_all add: left_def)

end
