(* ===== verification/Json_Number.thy ===== *)
theory Json_Number
  imports Json_Value
begin

text \<open>
  The conversions of the C library the lexer hands a scanned number to: \<open>strtoull\<close>,
  \<open>strtoll\<close> and \<open>strtod\<close> (correctly rounded, ties to even), on the texts the JSON grammar
  allows.
\<close>

section \<open>Integers\<close>

definition is_digit :: "char \<Rightarrow> bool" where
  "is_digit c \<longleftrightarrow> CHR ''0'' \<le> c \<and> c \<le> CHR ''9''"

lemma is_digit_value: "is_digit c \<Longrightarrow> c = digit (digit_value c) \<and> digit_value c < 10"
proof -
  assume "is_digit c"
  then have "48 \<le> (of_char c :: nat)" "of_char c \<le> (57 :: nat)" by (simp_all add: is_digit_def less_eq_char_def)
  then show ?thesis by (simp add: digit_def digit_value_def)
qed

lemma digits_value_less: "list_all is_digit s \<Longrightarrow> digits_value s < 10 ^ length s"
proof (induction s rule: rev_induct)
  case (snoc c s)
  then have "digits_value s + 1 \<le> 10 ^ length s" "digit_value c < 10" using is_digit_value by simp_all
  then show ?case by simp
qed (simp add: digits_value_def)

text \<open>The value and whether \<open>errno\<close> is left zero.\<close>

definition strtoull :: "string \<Rightarrow> 64 word \<times> bool" where
  "strtoull s =
     (let v = digits_value (takeWhile is_digit s)
      in if v < 2 ^ 64 then (word_of_nat v, True) else (- 1, False))"

fun strtoll :: "string \<Rightarrow> 64 word \<times> bool" where
  "strtoll [] = (0, True)"
| "strtoll (c # s) =
     (if c = CHR ''-'' then
        (let v = digits_value (takeWhile is_digit s)
         in if v \<le> 2 ^ 63 then (- word_of_nat v, True) else (2 ^ 63, False))
      else
        (let v = digits_value (takeWhile is_digit (c # s))
         in if v < 2 ^ 63 then (word_of_nat v, True) else (2 ^ 63 - 1, False)))"

section \<open>Floating point\<close>

text \<open>
  The bits of the double nearest to \<open>num / den\<close>. The mantissa \<open>q\<close> is the quotient scaled so
  that a normal result has 53 bits; a subnormal one keeps the exponent of the smallest normal.
\<close>

definition floor_log2 :: "nat \<Rightarrow> nat \<Rightarrow> int" where
  "floor_log2 num den =
     (let e = int (ilog2 num) - int (ilog2 den)
      in if (if 0 \<le> e then num < den * 2 ^ nat e else num * 2 ^ nat (- e) < den) then e - 1 else e)"

definition round_half_even :: "nat \<Rightarrow> nat \<Rightarrow> nat" where
  "round_half_even n d =
     (let q = n div d; r = n mod d
      in if 2 * r > d \<or> 2 * r = d \<and> odd q then q + 1 else q)"

definition infinity_bits :: nat where "infinity_bits = 2047 * 2 ^ 52"

definition double_bits :: "nat \<Rightarrow> nat \<Rightarrow> nat" where
  "double_bits num den =
     (if num = 0 then 0 else
      let e = max (floor_log2 num den) (- 1022);
          q = (if e \<le> 52 then round_half_even (num * 2 ^ nat (52 - e)) den
               else round_half_even num (den * 2 ^ nat (e - 52)))
      in min (nat (e + 1022) * 2 ^ 52 + q) infinity_bits)"

text \<open>A decimal text: sign, digits, an optional fraction and an optional exponent.\<close>

definition split_exponent :: "string \<Rightarrow> int" where
  "split_exponent s =
     (case s of
        [] \<Rightarrow> 0
      | c # t \<Rightarrow>
          if c = CHR ''e'' \<or> c = CHR ''E'' then
            (case t of
               [] \<Rightarrow> 0
             | d # u \<Rightarrow>
                 if d = CHR ''-'' then - int (digits_value (takeWhile is_digit u))
                 else if d = CHR ''+'' then int (digits_value (takeWhile is_digit u))
                 else int (digits_value (takeWhile is_digit t)))
          else 0)"

definition strtod_unsigned :: "char \<Rightarrow> string \<Rightarrow> nat" where
  "strtod_unsigned point s =
     (let whole = takeWhile is_digit s; rest = dropWhile is_digit s;
          frac = (case rest of c # t \<Rightarrow> if c = point then takeWhile is_digit t else [] | [] \<Rightarrow> []);
          rest = (case rest of c # t \<Rightarrow> if c = point then dropWhile is_digit t else rest | [] \<Rightarrow> []);
          mantissa = digits_value (whole @ frac);
          e = split_exponent rest - int (length frac)
      in if 0 \<le> e then double_bits (mantissa * 10 ^ nat e) 1
         else double_bits mantissa (10 ^ nat (- e)))"

definition strtod :: "char \<Rightarrow> string \<Rightarrow> float64" where
  "strtod point s =
     (case s of
        c # t \<Rightarrow> if c = CHR ''-'' then word_of_nat (2 ^ 63 + strtod_unsigned point t)
                 else word_of_nat (strtod_unsigned point s)
      | [] \<Rightarrow> 0)"

definition isfinite :: "float64 \<Rightarrow> bool" where
  "isfinite w \<longleftrightarrow> float64_exp w \<noteq> 2047"

section \<open>Rounding is nearest\<close>

lemma round_half_even_split:
  "r < d \<Longrightarrow> round_half_even (d * q + r) d = (if 2 * r > d \<or> 2 * r = d \<and> odd q then q + 1 else q)"
  by (simp add: round_half_even_def Let_def)

lemma quotient_remainder:
  assumes "0 < (d :: nat)"
  obtains q r where "n = d * q + r" "r < d"
  by (metis assms mod_less_divisor mult_div_mod_eq)

text \<open>The rounded quotient is at most half a unit away from the quotient.\<close>

lemma round_half_even_near:
  assumes "0 < d"
  shows "2 * (d * round_half_even n d) \<le> 2 * n + d" "2 * n \<le> 2 * (d * round_half_even n d) + d"
proof -
  obtain q r where n: "n = d * q + r" "r < d" using quotient_remainder assms by blast
  have "2 * (d * (q + 1)) = 2 * (d * q) + 2 * d" by simp
  then show "2 * (d * round_half_even n d) \<le> 2 * n + d" "2 * n \<le> 2 * (d * round_half_even n d) + d"
    using n(2) unfolding n(1) round_half_even_split [OF n(2)] by (auto split: if_splits)
qed

lemma round_half_even_exact: "0 < d \<Longrightarrow> round_half_even (d * q) d = q"
  by (simp add: round_half_even_def Let_def)

lemma round_half_even_lower:
  assumes "0 < d" "d * k \<le> n"
  shows "k \<le> round_half_even n d"
proof -
  have "k \<le> n div d" using assms by (simp add: less_eq_div_iff_mult_less_eq mult.commute)
  then show ?thesis by (simp add: round_half_even_def Let_def)
qed

lemma round_half_even_upper:
  assumes "0 < d" "n < d * k"
  shows "round_half_even n d \<le> k"
proof -
  have "n div d < k" using assms by (simp add: less_mult_imp_div_less mult.commute)
  then show ?thesis by (simp add: round_half_even_def Let_def)
qed

end
