(* ===== verification/Json_Lexer.thy ===== *)
theory Json_Lexer
  imports Json_Input Json_Number
begin

text \<open>
  The scan functions of \<open>detail/input/lexer.hpp\<close>: string literals with their escapes and their
  UTF-8 check, comments, the number automaton with one function per label, literals, and
  \<open>scan\<close> itself. Every loop reads a character per round, so \<open>left\<close> decreases.
\<close>

section \<open>String literals\<close>

definition hex_value :: "char option \<Rightarrow> nat option" where
  "hex_value c =
     (case c of
        None \<Rightarrow> None
      | Some c \<Rightarrow>
          if CHR ''0'' \<le> c \<and> c \<le> CHR ''9'' then Some (code c - 0x30)
          else if CHR ''A'' \<le> c \<and> c \<le> CHR ''F'' then Some (code c - 0x37)
          else if CHR ''a'' \<le> c \<and> c \<le> CHR ''f'' then Some (code c - 0x57)
          else None)"

fun read_hex :: "nat list \<Rightarrow> nat \<Rightarrow> lexer \<Rightarrow> nat option \<times> lexer" where
  "read_hex [] codepoint l = (Some codepoint, l)"
| "read_hex (factor # factors) codepoint l =
     (let l = lexer_get l in
      case hex_value (current l) of
        Some v \<Rightarrow> read_hex factors (codepoint + v * 2 ^ factor) l
      | None \<Rightarrow> (None, l))"

definition get_codepoint :: "lexer \<Rightarrow> nat option \<times> lexer" where
  "get_codepoint l = read_hex [12, 8, 4, 0] 0 l"

definition ill_formed :: string where
  "ill_formed = ''invalid string: ill-formed UTF-8 byte''"

fun next_bytes :: "(nat \<times> nat) list \<Rightarrow> lexer \<Rightarrow> bool \<times> lexer" where
  "next_bytes [] l = (True, l)"
| "next_bytes ((lo, hi) # ranges) l =
     (let l = lexer_get l in
      case current l of
        Some c \<Rightarrow>
          if lo \<le> code c \<and> code c \<le> hi then next_bytes ranges (add_current l)
          else (False, fail_with ill_formed l)
      | None \<Rightarrow> (False, fail_with ill_formed l))"

definition next_byte_in_range :: "(nat \<times> nat) list \<Rightarrow> lexer \<Rightarrow> bool \<times> lexer" where
  "next_byte_in_range ranges l = next_bytes ranges (add_current l)"

text \<open>The ranges of the bytes that may follow a lead byte; \<open>None\<close> for bytes that lead nothing.\<close>

definition utf8_ranges :: "nat \<Rightarrow> (nat \<times> nat) list option" where
  "utf8_ranges b =
     (if 0xC2 \<le> b \<and> b \<le> 0xDF then Some [(0x80, 0xBF)]
      else if b = 0xE0 then Some [(0xA0, 0xBF), (0x80, 0xBF)]
      else if 0xE1 \<le> b \<and> b \<le> 0xEC \<or> 0xEE \<le> b \<and> b \<le> 0xEF then Some [(0x80, 0xBF), (0x80, 0xBF)]
      else if b = 0xED then Some [(0x80, 0x9F), (0x80, 0xBF)]
      else if b = 0xF0 then Some [(0x90, 0xBF), (0x80, 0xBF), (0x80, 0xBF)]
      else if 0xF1 \<le> b \<and> b \<le> 0xF3 then Some [(0x80, 0xBF), (0x80, 0xBF), (0x80, 0xBF)]
      else if b = 0xF4 then Some [(0x80, 0x8F), (0x80, 0xBF), (0x80, 0xBF)]
      else None)"

text \<open>\<open>codepoint\<close> as UTF-8.\<close>

definition utf8_bytes :: "nat \<Rightarrow> string" where
  "utf8_bytes cp =
     (if cp < 0x80 then [char_of cp]
      else if cp \<le> 0x7FF then [char_of (0xC0 + cp div 64), char_of (0x80 + cp mod 64)]
      else if cp \<le> 0xFFFF then
        [char_of (0xE0 + cp div 4096), char_of (0x80 + cp div 64 mod 64), char_of (0x80 + cp mod 64)]
      else
        [char_of (0xF0 + cp div 262144), char_of (0x80 + cp div 4096 mod 64),
         char_of (0x80 + cp div 64 mod 64), char_of (0x80 + cp mod 64)])"

definition backslash :: char where "backslash = CHR 0x5C"
definition dquote :: char where "dquote = CHR 0x22"

definition bad_hex :: string where
  "bad_hex = ''invalid string: '' @ quoted (backslash # ''u'') @ '' must be followed by 4 hex digits''"

definition bad_high_surrogate :: string where
  "bad_high_surrogate =
     ''invalid string: surrogate U+D800..U+DBFF must be followed by U+DC00..U+DFFF''"

definition bad_low_surrogate :: string where
  "bad_low_surrogate = ''invalid string: surrogate U+DC00..U+DFFF must follow U+D800..U+DBFF''"

definition add_codepoint :: "nat \<Rightarrow> lexer \<Rightarrow> lexer" where
  "add_codepoint cp l = fold lexer_add (utf8_bytes cp) l"

definition scan_second_surrogate :: "nat \<Rightarrow> lexer \<Rightarrow> bool \<times> lexer" where
  "scan_second_surrogate codepoint1 l =
     (let l = lexer_get l in
      if current l \<noteq> Some backslash then (False, fail_with bad_high_surrogate l) else
      let l = lexer_get l in
      if current l \<noteq> Some CHR ''u'' then (False, fail_with bad_high_surrogate l) else
      case get_codepoint l of
        (None, l) \<Rightarrow> (False, fail_with bad_hex l)
      | (Some codepoint2, l) \<Rightarrow>
          if 0xDC00 \<le> codepoint2 \<and> codepoint2 \<le> 0xDFFF
          then (True, add_codepoint (codepoint1 * 1024 + codepoint2 - 0x35FDC00) l)
          else (False, fail_with bad_high_surrogate l))"

definition scan_unicode_escape :: "lexer \<Rightarrow> bool \<times> lexer" where
  "scan_unicode_escape l =
     (case get_codepoint l of
        (None, l) \<Rightarrow> (False, fail_with bad_hex l)
      | (Some codepoint1, l) \<Rightarrow>
          if 0xD800 \<le> codepoint1 \<and> codepoint1 \<le> 0xDBFF then scan_second_surrogate codepoint1 l
          else if 0xDC00 \<le> codepoint1 \<and> codepoint1 \<le> 0xDFFF
          then (False, fail_with bad_low_surrogate l)
          else (True, add_codepoint codepoint1 l))"

definition simple_escape :: "char \<Rightarrow> char option" where
  "simple_escape c =
     (if c = dquote then Some dquote
      else if c = backslash then Some backslash
      else if c = CHR ''/'' then Some CHR ''/''
      else if c = CHR ''b'' then Some CHR 0x08
      else if c = CHR ''f'' then Some CHR 0x0C
      else if c = CHR ''n'' then Some CHR 0x0A
      else if c = CHR ''r'' then Some CHR 0x0D
      else if c = CHR ''t'' then Some CHR 0x09
      else None)"

definition scan_escape :: "lexer \<Rightarrow> bool \<times> lexer" where
  "scan_escape l =
     (let l = lexer_get l in
      case current l of
        None \<Rightarrow> (False, fail_with ''invalid string: forbidden character after backslash'' l)
      | Some c \<Rightarrow>
          (case simple_escape c of
             Some d \<Rightarrow> (True, lexer_add d l)
           | None \<Rightarrow>
               if c = CHR ''u'' then scan_unicode_escape l
               else (False, fail_with ''invalid string: forbidden character after backslash'' l)))"

definition control_names_low :: "string list" where
  "control_names_low =
     [''NUL'', ''SOH'', ''STX'', ''ETX'', ''EOT'', ''ENQ'', ''ACK'', ''BEL'', ''BS'', ''HT'', ''LF'', ''VT'',
      ''FF'', ''CR'', ''SO'', ''SI'']"

definition control_names_high :: "string list" where
  "control_names_high =
     [''DLE'', ''DC1'', ''DC2'', ''DC3'', ''DC4'', ''NAK'', ''SYN'', ''ETB'', ''CAN'', ''EM'', ''SUB'', ''ESC'',
      ''FS'', ''GS'', ''RS'', ''US'']"

definition control_name :: "nat \<Rightarrow> string" where
  "control_name b = (if b < 16 then control_names_low ! b else control_names_high ! (b - 16))"

definition control_hint :: "nat \<Rightarrow> string" where
  "control_hint b =
     (if b = 0x08 then '' or '' @ [backslash, CHR ''b'']
      else if b = 0x09 then '' or '' @ [backslash, CHR ''t'']
      else if b = 0x0A then '' or '' @ [backslash, CHR ''n'']
      else if b = 0x0C then '' or '' @ [backslash, CHR ''f'']
      else if b = 0x0D then '' or '' @ [backslash, CHR ''r'']
      else [])"

definition control_message :: "nat \<Rightarrow> string" where
  "control_message b =
     ''invalid string: control character U+00'' @ [upper_hex (b div 16), upper_hex (b mod 16)]
       @ '' ('' @ control_name b @ '') must be escaped to '' @ backslash # ''u00''
       @ [upper_hex (b div 16), upper_hex (b mod 16)] @ control_hint b"

text \<open>One character of a string that is neither the closing quote nor the end of input.\<close>

definition scan_char :: "char \<Rightarrow> lexer \<Rightarrow> bool \<times> lexer" where
  "scan_char c l =
     (if c = backslash then scan_escape l
      else if code c \<le> 0x1F then (False, fail_with (control_message (code c)) l)
      else if code c \<le> 0x7F then (True, add_current l)
      else case utf8_ranges (code c) of
             Some ranges \<Rightarrow> next_byte_in_range ranges l
           | None \<Rightarrow> (False, fail_with ill_formed l))"

lemma left_read_hex: "left (snd (read_hex fs n l)) \<le> left l"
proof (induction fs n l rule: read_hex.induct)
  case (2 f fs n l)
  then show ?case
    using left_get_le [of l] by (force simp: Let_def split: option.split intro: order_trans)
qed simp

lemma left_get_codepoint: "left (snd (get_codepoint l)) \<le> left l"
  unfolding get_codepoint_def by (rule left_read_hex)

lemma left_next_bytes: "left (snd (next_bytes rs l)) \<le> left l"
proof (induction rs l rule: next_bytes.induct)
  case (2 lo hi rs l)
  then show ?case
    using left_get_le [of l] by (force simp: Let_def split: option.split intro: order_trans)
qed simp

lemma left_add_all: "left (fold lexer_add s l) = left l"
  by (induction s arbitrary: l) simp_all

lemma left_second_surrogate: "left (snd (scan_second_surrogate n l)) \<le> left l"
  using left_get_le [of l] left_get_le [of "lexer_get l"]
    left_get_codepoint [of "lexer_get (lexer_get l)"]
  by (auto simp: scan_second_surrogate_def Let_def add_codepoint_def left_add_all split: prod.split option.split)

lemma left_unicode_escape: "left (snd (scan_unicode_escape l)) \<le> left l"
  using left_get_codepoint [of l]
  by (auto simp: scan_unicode_escape_def add_codepoint_def left_add_all split: prod.split option.split
      intro: order_trans [OF left_second_surrogate])

lemma left_scan_escape: "left (snd (scan_escape l)) \<le> left l"
  using left_get_le [of l] left_unicode_escape [of "lexer_get l"]
  by (auto simp: scan_escape_def Let_def split: option.split)

lemma left_scan_char: "left (snd (scan_char c l)) \<le> left l"
  using left_scan_escape [of l] left_next_bytes [of _ "add_current l"]
  by (auto simp: scan_char_def next_byte_in_range_def split: option.split)

function scan_string_loop :: "lexer \<Rightarrow> token_type \<times> lexer" where
  "scan_string_loop l =
     (let l' = lexer_get l in
      case current l' of
        None \<Rightarrow> (Tok_parse_error, fail_with ''invalid string: missing closing quote'' l')
      | Some c \<Rightarrow>
          if c = dquote then (Tok_value_string, l')
          else (case scan_char c l' of
                  (True, l'') \<Rightarrow> scan_string_loop l''
                | (False, l'') \<Rightarrow> (Tok_parse_error, l'')))"
  by pat_completeness auto
termination
proof (relation "measure left")
  fix l l' c b l''
  assume "l' = lexer_get l" "current l' = Some c" "(b, l'') = scan_char c l'"
  then have "left l'' \<le> left l'" "left l' < left l"
    using left_scan_char [of c l'] left_get_Some [of l c] by (auto simp: prod_eq_iff)
  then show "(l'', l) \<in> measure left" by simp
qed simp

declare scan_string_loop.simps [simp del]

definition scan_string :: "lexer \<Rightarrow> token_type \<times> lexer" where
  "scan_string l = scan_string_loop (lexer_reset l)"

section \<open>Comments\<close>

function skip_line_comment :: "lexer \<Rightarrow> lexer" where
  "skip_line_comment l =
     (let l' = lexer_get l in
      case current l' of
        None \<Rightarrow> l'
      | Some c \<Rightarrow> if c = CHR 0x0A \<or> c = CHR 0x0D \<or> c = CHR 0x00 then l' else skip_line_comment l')"
  by pat_completeness auto
termination by (relation "measure left") (auto dest: left_get_Some)

declare skip_line_comment.simps [simp del]

function skip_block_comment :: "lexer \<Rightarrow> bool \<times> lexer" where
  "skip_block_comment l =
     (let l' = lexer_get l in
      case current l' of
        None \<Rightarrow> (False, fail_with (''invalid comment; missing closing '' @ quoted ''*/'') l')
      | Some c \<Rightarrow>
          if c = CHR 0x00 then (False, fail_with (''invalid comment; missing closing '' @ quoted ''*/'') l')
          else if c = CHR ''*'' then
            (let l'' = lexer_get l' in
             if current l'' = Some CHR ''/'' then (True, l'') else skip_block_comment (lexer_unget l''))
          else skip_block_comment l')"
  by pat_completeness auto
termination
  by (relation "measure left")
    (auto dest: left_get_Some intro: le_less_trans [OF left_unget_get])

declare skip_block_comment.simps [simp del]

definition scan_comment :: "lexer \<Rightarrow> bool \<times> lexer" where
  "scan_comment l =
     (let l = lexer_get l in
      if current l = Some CHR ''/'' then (True, skip_line_comment l)
      else if current l = Some CHR ''*'' then skip_block_comment l
      else (False, fail_with (''invalid comment; expecting '' @ quoted ''/'' @ '' or '' @ quoted ''*''
              @ '' after '' @ quoted ''/'') l))"

end
