(* ===== verification/Json_Scan.thy ===== *)
theory Json_Scan
  imports Json_Lexer
begin

text \<open>
  The number automaton of \<open>scan_number\<close>, one function per label of the source, then literals,
  the byte order mark, white space and \<open>scan\<close>, which produces the next token. Each function
  returns the token type and the lexer; a token other than an error or the end of input has
  consumed at least one character.
\<close>

section \<open>Numbers\<close>

definition number_done :: "token_type \<Rightarrow> lexer \<Rightarrow> token_type \<times> lexer" where
  "number_done number_type l =
     (let l = lexer_unget l;
          float = (Tok_value_float, l\<lparr>value_float := strtod (decimal_point_char l) (token_buffer l)\<rparr>)
      in if number_type = Tok_value_unsigned then
           (case strtoull (token_buffer l) of (x, ok) \<Rightarrow>
              if ok then (Tok_value_unsigned, l\<lparr>value_unsigned := x\<rparr>) else float)
         else if number_type = Tok_value_integer then
           (case strtoll (token_buffer l) of (x, ok) \<Rightarrow>
              if ok then (Tok_value_integer, l\<lparr>value_integer := x\<rparr>) else float)
         else float)"

definition digit_char :: "char option \<Rightarrow> bool" where
  "digit_char c \<longleftrightarrow> (case c of Some d \<Rightarrow> is_digit d | None \<Rightarrow> False)"

definition exponent_char :: "char option \<Rightarrow> bool" where
  "exponent_char c \<longleftrightarrow> c = Some CHR ''e'' \<or> c = Some CHR ''E''"

lemma left_get_digit: "digit_char (current (lexer_get l)) \<Longrightarrow> left (lexer_get l) < left l"
  by (rule left_get_less) (auto simp: digit_char_def split: option.splits)

function number_any2 :: "token_type \<Rightarrow> lexer \<Rightarrow> token_type \<times> lexer" where
  "number_any2 t l =
     (let l' = lexer_get l in
      if digit_char (current l') then number_any2 t (add_current l') else number_done t l')"
  by pat_completeness auto
termination by (relation "measure (left \<circ> snd)") (auto intro: left_get_digit)

definition number_sign :: "token_type \<Rightarrow> lexer \<Rightarrow> token_type \<times> lexer" where
  "number_sign t l =
     (let l = lexer_get l in
      if digit_char (current l) then number_any2 t (add_current l)
      else (Tok_parse_error, fail_with ''invalid number; expected digit after exponent sign'' l))"

definition number_exponent :: "lexer \<Rightarrow> token_type \<times> lexer" where
  "number_exponent l =
     (let t = Tok_value_float; l = lexer_get l in
      if current l = Some CHR ''+'' \<or> current l = Some CHR ''-'' then number_sign t (add_current l)
      else if digit_char (current l) then number_any2 t (add_current l)
      else (Tok_parse_error, fail_with (''invalid number; expected '' @ quoted ''+'' @ '', '' @ quoted ''-''
              @ '', or digit after exponent'') l))"

function number_decimal2 :: "token_type \<Rightarrow> lexer \<Rightarrow> token_type \<times> lexer" where
  "number_decimal2 t l =
     (let l' = lexer_get l in
      if digit_char (current l') then number_decimal2 t (add_current l')
      else if exponent_char (current l') then number_exponent (add_current l')
      else number_done t l')"
  by pat_completeness auto
termination by (relation "measure (left \<circ> snd)") (auto intro: left_get_digit)

definition number_decimal1 :: "lexer \<Rightarrow> token_type \<times> lexer" where
  "number_decimal1 l =
     (let t = Tok_value_float; l = lexer_get l in
      if digit_char (current l) then number_decimal2 t (add_current l)
      else (Tok_parse_error, fail_with (''invalid number; expected digit after '' @ quoted ''.'') l))"

function number_any1 :: "token_type \<Rightarrow> lexer \<Rightarrow> token_type \<times> lexer" where
  "number_any1 t l =
     (let l' = lexer_get l in
      if digit_char (current l') then number_any1 t (add_current l')
      else if current l' = Some CHR ''.'' then number_decimal1 (lexer_add (decimal_point_char l') l')
      else if exponent_char (current l') then number_exponent (add_current l')
      else number_done t l')"
  by pat_completeness auto
termination by (relation "measure (left \<circ> snd)") (auto intro: left_get_digit)

declare number_any2.simps [simp del] number_decimal2.simps [simp del] number_any1.simps [simp del]

definition number_zero :: "token_type \<Rightarrow> lexer \<Rightarrow> token_type \<times> lexer" where
  "number_zero t l =
     (let l = lexer_get l in
      if current l = Some CHR ''.'' then number_decimal1 (lexer_add (decimal_point_char l) l)
      else if exponent_char (current l) then number_exponent (add_current l)
      else number_done t l)"

definition number_minus :: "lexer \<Rightarrow> token_type \<times> lexer" where
  "number_minus l =
     (let t = Tok_value_integer; l = lexer_get l in
      if current l = Some CHR ''0'' then number_zero t (add_current l)
      else if digit_char (current l) then number_any1 t (add_current l)
      else (Tok_parse_error, fail_with (''invalid number; expected digit after '' @ quoted ''-'') l))"

text \<open>The default case of the first switch cannot occur; it would fall through to the minus label.\<close>

definition scan_number :: "lexer \<Rightarrow> token_type \<times> lexer" where
  "scan_number l =
     (let l = lexer_reset l; t = Tok_value_unsigned in
      if current l = Some CHR ''-'' then number_minus (add_current l)
      else if current l = Some CHR ''0'' then number_zero t (add_current l)
      else if digit_char (current l) then number_any1 t (add_current l)
      else number_minus l)"

section \<open>Literals and white space\<close>

fun scan_literal_rest :: "string \<Rightarrow> token_type \<Rightarrow> lexer \<Rightarrow> token_type \<times> lexer" where
  "scan_literal_rest [] t l = (t, l)"
| "scan_literal_rest (c # cs) t l =
     (let l = lexer_get l in
      if current_char l \<noteq> c then (Tok_parse_error, fail_with ''invalid literal'' l)
      else scan_literal_rest cs t l)"

definition scan_literal :: "string \<Rightarrow> token_type \<Rightarrow> lexer \<Rightarrow> token_type \<times> lexer" where
  "scan_literal literal_text t l = scan_literal_rest (tl literal_text) t l"

definition skip_bom :: "lexer \<Rightarrow> bool \<times> lexer" where
  "skip_bom l =
     (let l = lexer_get l in
      if current l = Some CHR 0xEF then
        (let l = lexer_get l in
         if current l \<noteq> Some CHR 0xBB then (False, l) else
         let l = lexer_get l in (current l = Some CHR 0xBF, l))
      else (True, lexer_unget l))"

definition whitespace :: "char option \<Rightarrow> bool" where
  "whitespace c \<longleftrightarrow> c = Some CHR '' '' \<or> c = Some CHR 0x09 \<or> c = Some CHR 0x0A \<or> c = Some CHR 0x0D"

function skip_whitespace :: "lexer \<Rightarrow> lexer" where
  "skip_whitespace l = (let l' = lexer_get l in if whitespace (current l') then skip_whitespace l' else l')"
  by pat_completeness auto
termination
  by (relation "measure left") (auto simp: whitespace_def intro: left_get_Some)

declare skip_whitespace.simps [simp del]

section \<open>How much a scan consumes\<close>

lemma left_done: "left (snd (number_done t (lexer_get l))) \<le> left l"
  using left_unget_get [of l] by (auto simp: number_done_def Let_def left_def pending_chars_def split: prod.split)

lemma left_any2: "left (snd (number_any2 t l)) \<le> left l"
proof (induction t l rule: number_any2.induct)
  case (1 t l)
  show ?case
  proof (cases "digit_char (current (lexer_get l))")
    case True
    then show ?thesis
      using 1 [OF refl True] left_get_le [of l] by (simp add: number_any2.simps [of t l] Let_def)
  next
    case False
    then show ?thesis using left_done by (simp add: number_any2.simps [of t l] Let_def)
  qed
qed

lemma left_sign: "left (snd (number_sign t l)) \<le> left l"
  using left_get_le [of l] left_any2 [of t "add_current (lexer_get l)"]
  by (simp add: number_sign_def Let_def)

lemma left_exponent: "left (snd (number_exponent l)) \<le> left l"
  using left_get_le [of l] left_any2 [of Tok_value_float "add_current (lexer_get l)"]
    left_sign [of Tok_value_float "add_current (lexer_get l)"]
  by (simp add: number_exponent_def Let_def)

lemma left_decimal2: "left (snd (number_decimal2 t l)) \<le> left l"
proof (induction t l rule: number_decimal2.induct)
  case (1 t l)
  show ?case
    using 1 [OF refl] left_get_le [of l] left_done [of t l] left_exponent [of "add_current (lexer_get l)"]
    by (auto simp: number_decimal2.simps [of t l] Let_def)
qed

lemma left_decimal1: "left (snd (number_decimal1 l)) \<le> left l"
  using left_get_le [of l] left_decimal2 [of Tok_value_float "add_current (lexer_get l)"]
  by (simp add: number_decimal1_def Let_def)

lemma left_any1: "left (snd (number_any1 t l)) \<le> left l"
proof (induction t l rule: number_any1.induct)
  case (1 t l)
  show ?case
    using 1 [OF refl] left_get_le [of l] left_done [of t l] left_exponent [of "add_current (lexer_get l)"]
      left_decimal1 [of "lexer_add (decimal_point_char (lexer_get l)) (lexer_get l)"]
    by (auto simp: number_any1.simps [of t l] Let_def)
qed

lemma left_zero: "left (snd (number_zero t l)) \<le> left l"
  using left_get_le [of l] left_done [of t l] left_exponent [of "add_current (lexer_get l)"]
    left_decimal1 [of "lexer_add (decimal_point_char (lexer_get l)) (lexer_get l)"]
  by (simp add: number_zero_def Let_def)

lemma left_minus: "left (snd (number_minus l)) \<le> left l"
  using left_get_le [of l] left_zero [of Tok_value_integer "add_current (lexer_get l)"]
    left_any1 [of Tok_value_integer "add_current (lexer_get l)"]
  by (simp add: number_minus_def Let_def)

lemma left_scan_number: "left (snd (scan_number l)) \<le> left l"
  using left_zero [of Tok_value_unsigned "add_current (lexer_reset l)"]
    left_any1 [of Tok_value_unsigned "add_current (lexer_reset l)"]
    left_minus [of "add_current (lexer_reset l)"] left_minus [of "lexer_reset l"]
  by (simp add: scan_number_def Let_def)

lemma left_literal_rest: "left (snd (scan_literal_rest cs t l)) \<le> left l"
proof (induction cs arbitrary: l)
  case (Cons c cs)
  show ?case using Cons [of "lexer_get l"] left_get_le [of l] by (simp add: Let_def)
qed simp

lemma left_bom: "left (snd (skip_bom l)) \<le> left l"
  using left_get_le [of l] left_get_le [of "lexer_get l"] left_get_le [of "lexer_get (lexer_get l)"]
    left_unget_get [of l]
  by (simp add: skip_bom_def Let_def)

lemma left_whitespace: "left (skip_whitespace l) \<le> left l"
proof (induction l rule: skip_whitespace.induct)
  case (1 l)
  then show ?case using left_get_le [of l] by (auto simp: skip_whitespace.simps [of l] Let_def)
qed

lemma left_whitespace_less: "current (skip_whitespace l) \<noteq> None \<Longrightarrow> left (skip_whitespace l) < left l"
proof (induction l rule: skip_whitespace.induct)
  case (1 l)
  then show ?case using left_get_less [of l] left_get_le [of l]
    by (cases "whitespace (current (lexer_get l))") (auto simp: skip_whitespace.simps [of l] Let_def)
qed

lemma left_string_loop: "left (snd (scan_string_loop l)) \<le> left l"
proof (induction l rule: scan_string_loop.induct)
  case (1 l)
  show ?case
  proof (cases "current (lexer_get l)")
    case None
    then show ?thesis using left_get_le [of l] by (simp add: scan_string_loop.simps [of l] Let_def)
  next
    case (Some c)
    then show ?thesis
      using 1 [OF refl Some] left_get_le [of l] left_scan_char [of c "lexer_get l"]
      by (force simp: scan_string_loop.simps [of l] Let_def split: prod.split bool.split)
  qed
qed

lemma left_scan_string: "left (snd (scan_string l)) \<le> left l"
  using left_string_loop [of "lexer_reset l"] by (simp add: scan_string_def)

lemma left_line_comment: "left (skip_line_comment l) \<le> left l"
proof (induction l rule: skip_line_comment.induct)
  case (1 l)
  then show ?case using left_get_le [of l]
    by (cases "current (lexer_get l)") (force simp: skip_line_comment.simps [of l] Let_def)+
qed

lemma left_block_comment: "left (snd (skip_block_comment l)) \<le> left l"
proof (induction l rule: skip_block_comment.induct)
  case (1 l)
  then show ?case
    using left_get_le [of l] left_get_le [of "lexer_get l"] left_unget_get [of "lexer_get l"]
    by (cases "current (lexer_get l)") (force simp: skip_block_comment.simps [of l] Let_def)+
qed

lemma left_comment: "left (snd (scan_comment l)) \<le> left l"
  using left_get_le [of l] left_line_comment [of "lexer_get l"] left_block_comment [of "lexer_get l"]
  by (simp add: scan_comment_def Let_def)

lemma left_literal: "left (snd (scan_literal s t l)) \<le> left l"
  unfolding scan_literal_def by (rule left_literal_rest)

section \<open>The next token\<close>

text \<open>Comments, when they are ignored, and the white space behind each of them.\<close>

function skip_comments :: "lexer \<Rightarrow> bool \<times> lexer" where
  "skip_comments l =
     (if ignore_comments l \<and> current l = Some CHR ''/'' then
        (case scan_comment l of
           (False, l') \<Rightarrow> (False, l')
         | (True, l') \<Rightarrow>
             let l'' = skip_whitespace l' in
             if current l'' = None then (True, l'') else skip_comments l'')
      else (True, l))"
  by pat_completeness auto
termination
proof (relation "measure left")
  fix l b l' l''
  assume "(b, l') = scan_comment l" "l'' = skip_whitespace l'" "current l'' \<noteq> None"
  then have "left l' \<le> left l" "left l'' < left l'"
    using left_comment [of l] left_whitespace_less [of l'] by (auto simp: prod_eq_iff)
  then show "(l'', l) \<in> measure left" by simp
qed simp

declare skip_comments.simps [simp del]

definition scan_token :: "lexer \<Rightarrow> token_type \<times> lexer" where
  "scan_token l =
     (case current l of
        None \<Rightarrow> (Tok_end_of_input, l)
      | Some c \<Rightarrow>
          if c = CHR ''['' then (Tok_begin_array, l)
          else if c = CHR '']'' then (Tok_end_array, l)
          else if c = CHR ''{'' then (Tok_begin_object, l)
          else if c = CHR ''}'' then (Tok_end_object, l)
          else if c = CHR '':'' then (Tok_name_separator, l)
          else if c = CHR '','' then (Tok_value_separator, l)
          else if c = CHR ''t'' then scan_literal ''true'' Tok_literal_true l
          else if c = CHR ''f'' then scan_literal ''false'' Tok_literal_false l
          else if c = CHR ''n'' then scan_literal ''null'' Tok_literal_null l
          else if c = dquote then scan_string l
          else if c = CHR ''-'' \<or> is_digit c then scan_number l
          else if c = CHR 0x00 then (Tok_end_of_input, l)
          else (Tok_parse_error, fail_with ''invalid literal'' l))"

definition scan :: "lexer \<Rightarrow> token_type \<times> lexer" where
  "scan l =
     (let (bom_ok, l) = (if chars_read_total (position l) = 0 then skip_bom l else (True, l)) in
      if \<not> bom_ok then (Tok_parse_error, fail_with ''invalid BOM; must be 0xEF 0xBB 0xBF if given'' l)
      else (case skip_comments (skip_whitespace l) of
              (False, l) \<Rightarrow> (Tok_parse_error, l)
            | (True, l) \<Rightarrow> scan_token l))"

lemma left_scan_token: "left (snd (scan_token l)) \<le> left l"
  by (simp add: scan_token_def left_literal left_scan_string left_scan_number split: option.split)

lemma left_skip_comments:
  "left (snd (skip_comments l)) \<le> left l" 
proof (induction l rule: skip_comments.induct)
  case (1 l)
  show ?case
    using 1 left_comment [of l] left_whitespace [of "snd (scan_comment l)"]
    by (subst skip_comments.simps) (force simp: Let_def split: prod.split bool.split)
qed

lemma skip_comments_current:
  "current l = None \<Longrightarrow> skip_comments l = (True, l)"
  by (simp add: skip_comments.simps)

text \<open>A token is an error, the end of the input, or has consumed a character.\<close>

lemma left_scan:
  "left (snd (scan l)) \<le> left l"
  "fst (scan l) \<noteq> Tok_end_of_input \<Longrightarrow> fst (scan l) \<noteq> Tok_parse_error \<Longrightarrow> left (snd (scan l)) < left l"
proof -
  define r where "r = (if chars_read_total (position l) = 0 then skip_bom l else (True, l))"
  define l1 where "l1 = snd r"
  define w where "w = skip_whitespace l1"
  have r: "left l1 \<le> left l" using left_bom [of l] by (simp add: l1_def r_def)
  have w: "left w \<le> left l1" "current w \<noteq> None \<Longrightarrow> left w < left l1"
    using left_whitespace left_whitespace_less by (simp_all add: w_def)
  have c: "left (snd (skip_comments w)) \<le> left w" by (rule left_skip_comments)
  have s: "scan l = (if \<not> fst r then (Tok_parse_error, fail_with ''invalid BOM; must be 0xEF 0xBB 0xBF if given'' l1)
      else if \<not> fst (skip_comments w) then (Tok_parse_error, snd (skip_comments w))
      else scan_token (snd (skip_comments w)))"
    by (simp add: scan_def Let_def r_def l1_def w_def split: prod.split bool.split)
  show "left (snd (scan l)) \<le> left l"
    using r w(1) c left_scan_token [of "snd (skip_comments w)"] by (simp add: s)
  assume t: "fst (scan l) \<noteq> Tok_end_of_input" "fst (scan l) \<noteq> Tok_parse_error"
  show "left (snd (scan l)) < left l"
  proof (cases "current w")
    case None
    then show ?thesis using t by (simp add: s skip_comments_current scan_token_def split: if_splits)
  next
    case (Some x)
    then show ?thesis
      using r w(2) c left_scan_token [of "snd (skip_comments w)"] t by (simp add: s split: if_splits)
  qed
qed

end
