(* ===== verification/Json_Parser.thy ===== *)
theory Json_Parser
  imports Json_Scan
begin

text \<open>
  \<open>detail/input/parser.hpp\<close> and the \<open>json_sax_dom_parser\<close> of \<open>detail/input/json_sax.hpp\<close>, as
  \<open>basic_json::parse\<close> runs them: no callback, exceptions allowed, strict, comments not ignored.
  The DOM parser keeps pointers into the value under construction; here a pointer is the path
  from the root. The stacks \<open>ref_stack\<close> and \<open>states\<close> have their back at the head of the list.
\<close>

section \<open>The value under construction\<close>

datatype sel = Index nat | Key string

fun json_at :: "json \<Rightarrow> sel list \<Rightarrow> json option" where
  "json_at j [] = Some j"
| "json_at (JArray xs) (Index i # p) = (if i < length xs then json_at (xs ! i) p else None)"
| "json_at (JObject m) (Key k # p) = (case map_of m k of Some v \<Rightarrow> json_at v p | None \<Rightarrow> None)"
| "json_at _ _ = None"

text \<open>Assignment through a pointer.\<close>

fun json_put :: "sel list \<Rightarrow> json \<Rightarrow> json \<Rightarrow> json" where
  "json_put [] v j = v"
| "json_put (Index i # p) v (JArray xs) =
     (if i < length xs then JArray (xs[i := json_put p v (xs ! i)]) else JArray xs)"
| "json_put (Key k # p) v (JObject m) =
     (case map_of m k of Some w \<Rightarrow> JObject (object_put k (json_put p v w) m) | None \<Rightarrow> JObject m)"
| "json_put _ v j = j"

record dom_parser =
  root :: json
  ref_stack :: "sel list list"
  object_element :: "sel list option"

definition make_dom_parser :: "json \<Rightarrow> dom_parser" where
  "make_dom_parser r = \<lparr>root = r, ref_stack = [], object_element = None\<rparr>"

definition handle_value :: "json \<Rightarrow> dom_parser \<Rightarrow> (sel list \<times> dom_parser) result" where
  "handle_value v d =
     (case ref_stack d of
        [] \<Rightarrow> Inr ([], d\<lparr>root := v\<rparr>)
      | p # _ \<Rightarrow>
          (case json_at (root d) p of
             Some (JArray xs) \<Rightarrow>
               Inr (p @ [Index (length xs)], d\<lparr>root := json_put p (JArray (xs @ [v])) (root d)\<rparr>)
           | _ \<Rightarrow>
               (case object_element d of
                  Some q \<Rightarrow> Inr (q, d\<lparr>root := json_put q v (root d)\<rparr>)
                | None \<Rightarrow> Inl (Undefined DanglingPointer))))"

definition sax_value :: "json \<Rightarrow> dom_parser \<Rightarrow> dom_parser result" where
  "sax_value v d = bind_result (handle_value v d) (\<lambda>(q, d). Inr d)"

definition start_object :: "dom_parser \<Rightarrow> dom_parser result" where
  "start_object d =
     bind_result (handle_value (JObject []) d) (\<lambda>(q, d). Inr (d\<lparr>ref_stack := q # ref_stack d\<rparr>))"

definition sax_key :: "string \<Rightarrow> dom_parser \<Rightarrow> dom_parser result" where
  "sax_key k d =
     (case ref_stack d of
        [] \<Rightarrow> Inl (Undefined DanglingPointer)
      | p # _ \<Rightarrow>
          (case json_at (root d) p of
             Some (JObject m) \<Rightarrow>
               Inr (d\<lparr>root := (if map_of m k = None
                               then json_put p (JObject (object_put k JNull m)) (root d) else root d),
                      object_element := Some (p @ [Key k])\<rparr>)
           | _ \<Rightarrow> Inl (Undefined DanglingPointer)))"

definition end_object :: "dom_parser \<Rightarrow> dom_parser" where
  "end_object d = d\<lparr>ref_stack := tl (ref_stack d)\<rparr>"

definition start_array :: "dom_parser \<Rightarrow> dom_parser result" where
  "start_array d =
     bind_result (handle_value (JArray []) d) (\<lambda>(q, d). Inr (d\<lparr>ref_stack := q # ref_stack d\<rparr>))"

definition end_array :: "dom_parser \<Rightarrow> dom_parser" where
  "end_array d = d\<lparr>ref_stack := tl (ref_stack d)\<rparr>"

section \<open>The parser\<close>

record parser =
  last_token :: token_type
  m_lexer :: lexer

definition get_token :: "parser \<Rightarrow> parser" where
  "get_token p = (case scan (m_lexer p) of (t, l) \<Rightarrow> p\<lparr>last_token := t, m_lexer := l\<rparr>)"

definition make_parser :: "string \<Rightarrow> bool \<Rightarrow> parser" where
  "make_parser input skip_the_comments =
     get_token \<lparr>last_token = Tok_uninitialized, m_lexer = make_lexer input skip_the_comments\<rparr>"

definition exception_message :: "token_type \<Rightarrow> string \<Rightarrow> parser \<Rightarrow> string" where
  "exception_message expected ctxt p =
     ''syntax error '' @ (if ctxt \<noteq> [] then ''while parsing '' @ ctxt @ '' '' else []) @ ''- ''
       @ (if last_token p = Tok_parse_error
          then c_str (error_message (m_lexer p)) @ ''; last read: '' @ quoted (get_token_string (m_lexer p))
          else ''unexpected '' @ token_type_name (last_token p))
       @ (if expected \<noteq> Tok_uninitialized then ''; expected '' @ token_type_name expected else [])"

text \<open>\<open>sax->parse_error\<close> throws the exception it is given.\<close>

definition syntax_error :: "token_type \<Rightarrow> string \<Rightarrow> parser \<Rightarrow> 'a result" where
  "syntax_error expected ctxt p =
     Inl (Throw (parse_error_create 101 (position (m_lexer p)) (exception_message expected ctxt p)))"

text \<open>How one round of the loop of \<open>sax_parse_internal\<close> goes on.\<close>

datatype flow =
    Break parser dom_parser
  | Continue bool "bool list" parser dom_parser
  | Return parser dom_parser

definition key_and_separator :: "parser \<Rightarrow> dom_parser \<Rightarrow> (parser \<times> dom_parser) result" where
  "key_and_separator p d =
     (if last_token p \<noteq> Tok_value_string then syntax_error Tok_value_string ''object key'' p
      else bind_result (sax_key (token_buffer (m_lexer p)) d) (\<lambda>d.
        let p = get_token p in
        if last_token p \<noteq> Tok_name_separator then syntax_error Tok_name_separator ''object separator'' p
        else Inr (p, d)))"

definition begin_object_case :: "bool list \<Rightarrow> parser \<Rightarrow> dom_parser \<Rightarrow> flow result" where
  "begin_object_case states p d =
     bind_result (start_object d) (\<lambda>d.
       let p = get_token p in
       if last_token p = Tok_end_object then Inr (Break p (end_object d))
       else bind_result (key_and_separator p d) (\<lambda>(p, d).
         Inr (Continue False (False # states) (get_token p) d)))"

definition begin_array_case :: "bool list \<Rightarrow> parser \<Rightarrow> dom_parser \<Rightarrow> flow result" where
  "begin_array_case states p d =
     bind_result (start_array d) (\<lambda>d.
       let p = get_token p in
       if last_token p = Tok_end_array then Inr (Break p (end_array d))
       else Inr (Continue False (True # states) p d))"

definition value_float_case :: "parser \<Rightarrow> dom_parser \<Rightarrow> flow result" where
  "value_float_case p d =
     (let res = value_float (m_lexer p) in
      if \<not> isfinite res then
        Inl (Throw (out_of_range_create 406 (''number overflow parsing '' @ quoted (get_token_string (m_lexer p)))))
      else bind_result (sax_value (JFloat res) d) (\<lambda>d. Inr (Break p d)))"

definition value_switch :: "bool list \<Rightarrow> parser \<Rightarrow> dom_parser \<Rightarrow> flow result" where
  "value_switch states p d =
     (let handle = (\<lambda>v. bind_result (sax_value v d) (\<lambda>d. Inr (Break p d))) in
      case last_token p of
        Tok_begin_object \<Rightarrow> begin_object_case states p d
      | Tok_begin_array \<Rightarrow> begin_array_case states p d
      | Tok_value_float \<Rightarrow> value_float_case p d
      | Tok_literal_false \<Rightarrow> handle (JBool False)
      | Tok_literal_null \<Rightarrow> handle JNull
      | Tok_literal_true \<Rightarrow> handle (JBool True)
      | Tok_value_integer \<Rightarrow> handle (JInt (value_integer (m_lexer p)))
      | Tok_value_string \<Rightarrow> handle (JString (token_buffer (m_lexer p)))
      | Tok_value_unsigned \<Rightarrow> handle (JUint (value_unsigned (m_lexer p)))
      | Tok_parse_error \<Rightarrow> syntax_error Tok_uninitialized ''value'' p
      | _ \<Rightarrow> syntax_error Tok_literal_or_value ''value'' p)"

definition array_evaluation :: "bool list \<Rightarrow> parser \<Rightarrow> dom_parser \<Rightarrow> flow result" where
  "array_evaluation states p d =
     (let p = get_token p in
      if last_token p = Tok_value_separator then Inr (Continue False (True # states) (get_token p) d)
      else if last_token p = Tok_end_array then Inr (Continue True states p (end_array d))
      else syntax_error Tok_end_array ''array'' p)"

definition object_evaluation :: "bool list \<Rightarrow> parser \<Rightarrow> dom_parser \<Rightarrow> flow result" where
  "object_evaluation states p d =
     (let p = get_token p in
      if last_token p = Tok_value_separator then
        bind_result (key_and_separator (get_token p) d) (\<lambda>(p, d).
          Inr (Continue False (False # states) (get_token p) d))
      else if last_token p = Tok_end_object then Inr (Continue True states p (end_object d))
      else syntax_error Tok_end_object ''object'' p)"

definition state_evaluation :: "bool list \<Rightarrow> parser \<Rightarrow> dom_parser \<Rightarrow> flow result" where
  "state_evaluation states p d =
     (case states of
        [] \<Rightarrow> Inr (Return p d)
      | True # states \<Rightarrow> array_evaluation states p d
      | False # states \<Rightarrow> object_evaluation states p d)"

definition parse_round :: "bool \<Rightarrow> bool list \<Rightarrow> parser \<Rightarrow> dom_parser \<Rightarrow> flow result" where
  "parse_round skip_to_state_evaluation states p d =
     (if skip_to_state_evaluation then state_evaluation states p d
      else bind_result (value_switch states p d) (\<lambda>f.
        case f of Break p d \<Rightarrow> state_evaluation states p d | _ \<Rightarrow> Inr f))"

section \<open>Termination\<close>

definition final_token :: "token_type \<Rightarrow> bool" where
  "final_token t \<longleftrightarrow> t = Tok_parse_error \<or> t = Tok_end_of_input"

definition remaining :: "parser \<Rightarrow> nat" where
  "remaining p = 2 * left (m_lexer p) + (if final_token (last_token p) then 0 else 1)"

lemma remaining_get_token:
  "\<not> final_token (last_token p) \<Longrightarrow> remaining (get_token p) < remaining p"
  "remaining (get_token p) \<le> remaining p"
  "\<not> final_token (last_token (get_token p)) \<Longrightarrow> remaining (get_token p) < remaining p"
  using left_scan [of "m_lexer p"]
  by (auto simp: remaining_def get_token_def final_token_def split: prod.split)

lemma key_and_separator_remaining:
  "key_and_separator p d = Inr (p', d') \<Longrightarrow> remaining p' < remaining p"
  using remaining_get_token(3) [of p]
  by (auto simp: key_and_separator_def Let_def bind_result_Inr_iff syntax_error_def final_token_def
      split: if_splits)

lemma key_and_separator_next:
  "key_and_separator p d = Inr (p', d') \<Longrightarrow> remaining (get_token p') < remaining p"
  by (rule le_less_trans [OF remaining_get_token(2) key_and_separator_remaining])

lemma value_switch_remaining:
  "value_switch states p d = Inr (Continue s st p' d') \<Longrightarrow> remaining p' < remaining p"
  "value_switch states p d = Inr (Break p' d') \<Longrightarrow> remaining p' \<le> remaining p"
proof -
  have g: "remaining (get_token q) \<le> remaining q" for q by (rule remaining_get_token(2))
  have n: "last_token p = Tok_begin_object \<or> last_token p = Tok_begin_array
      \<Longrightarrow> remaining (get_token p) < remaining p"
    using remaining_get_token(1) [of p] by (auto simp: final_token_def)
  show "value_switch states p d = Inr (Continue s st p' d') \<Longrightarrow> remaining p' < remaining p"
    using n g [of p]
    by (auto simp: value_switch_def begin_object_case_def begin_array_case_def value_float_case_def
        Let_def bind_result_Inr_iff syntax_error_def
        dest!: key_and_separator_next split: token_type.splits if_splits)
  show "value_switch states p d = Inr (Break p' d') \<Longrightarrow> remaining p' \<le> remaining p"
    using n g [of p]
    by (auto simp: value_switch_def begin_object_case_def begin_array_case_def value_float_case_def
        Let_def bind_result_Inr_iff syntax_error_def split: token_type.splits if_splits)
qed

lemma state_evaluation_remaining:
  "state_evaluation states p d = Inr (Continue s st p' d') \<Longrightarrow> remaining p' < remaining p"
proof -
  have g: "remaining (get_token q) \<le> remaining q" for q by (rule remaining_get_token(2))
  have n: "last_token (get_token p) = Tok_value_separator \<or> last_token (get_token p) = Tok_end_array
      \<or> last_token (get_token p) = Tok_end_object \<Longrightarrow> remaining (get_token p) < remaining p"
    using remaining_get_token(3) [of p] by (auto simp: final_token_def)
  show "state_evaluation states p d = Inr (Continue s st p' d') \<Longrightarrow> remaining p' < remaining p"
    using n g [of "get_token p"]
    by (auto simp: state_evaluation_def array_evaluation_def object_evaluation_def Let_def
        bind_result_Inr_iff syntax_error_def dest!: key_and_separator_next split: list.splits bool.splits if_splits)
qed

lemma parse_round_remaining:
  assumes "parse_round skip states p d = Inr (Continue s st p' d')"
  shows "remaining p' < remaining p"
proof (cases skip)
  case True
  then show ?thesis using assms state_evaluation_remaining by (simp add: parse_round_def)
next
  case False
  with assms obtain f where f: "value_switch states p d = Inr f"
    and r: "(case f of Break p d \<Rightarrow> state_evaluation states p d | _ \<Rightarrow> Inr f) = Inr (Continue s st p' d')"
    by (auto simp: parse_round_def bind_result_Inr_iff)
  show ?thesis
  proof (cases f)
    case (Break q e)
    then show ?thesis
      using f r value_switch_remaining(2) state_evaluation_remaining by (fastforce intro: less_le_trans)
  next
    case (Continue s2 st2 q e)
    then show ?thesis using f r value_switch_remaining(1) by auto
  next
    case (Return q e)
    then show ?thesis using r by simp
  qed
qed

function sax_parse_internal :: "bool \<Rightarrow> bool list \<Rightarrow> parser \<Rightarrow> dom_parser \<Rightarrow> (parser \<times> dom_parser) result" where
  "sax_parse_internal skip states p d =
     (case parse_round skip states p d of
        Inl e \<Rightarrow> Inl e
      | Inr (Break p' d') \<Rightarrow> Inr (p', d')
      | Inr (Return p' d') \<Rightarrow> Inr (p', d')
      | Inr (Continue skip' states' p' d') \<Rightarrow> sax_parse_internal skip' states' p' d')"
  by pat_completeness auto
termination
  by (relation "measure (\<lambda>(_, _, p, _). remaining p)") (auto dest: parse_round_remaining)

declare sax_parse_internal.simps [simp del]

section \<open>\<open>basic_json::parse\<close>\<close>

definition parser_parse :: "bool \<Rightarrow> parser \<Rightarrow> json \<Rightarrow> json result" where
  "parser_parse strict p r =
     bind_result (sax_parse_internal False [] p (make_dom_parser r)) (\<lambda>(p, d).
       let p' = get_token p in
       if strict \<and> last_token p' \<noteq> Tok_end_of_input
       then syntax_error Tok_end_of_input ''value'' p' else Inr (root d))"

definition json_parse :: "string \<Rightarrow> json result" where
  "json_parse input = parser_parse True (make_parser input False) JNull"

end
