(* ===== verification/Json_Grisu.thy ===== *)
theory Json_Grisu
  imports Json_Number
begin

text \<open>
  \<open>detail/conversions/to_chars.hpp\<close>: the Grisu2 conversion of a double to decimal digits and
  the layout of the digits. The loops over 32-bit and 64-bit integers keep their width. The
  loop over the fractional digits has no bound in the source; it takes fuel here, and
  \<open>digit_fuel\<close> rounds are enough for every double.
\<close>

unbundle bit_operations_syntax

section \<open>Floating-point values with 64 bits of precision\<close>

record diyfp =
  fp_f :: "64 word"
  fp_e :: int

definition make_diyfp :: "64 word \<Rightarrow> int \<Rightarrow> diyfp" where
  "make_diyfp f e = \<lparr>fp_f = f, fp_e = e\<rparr>"

definition diyfp_sub :: "diyfp \<Rightarrow> diyfp \<Rightarrow> diyfp" where
  "diyfp_sub x y = make_diyfp (fp_f x - fp_f y) (fp_e x)"

definition diyfp_mul :: "diyfp \<Rightarrow> diyfp \<Rightarrow> diyfp" where
  "diyfp_mul x y =
     (let u_lo = fp_f x AND 0xFFFFFFFF; u_hi = drop_bit 32 (fp_f x);
          v_lo = fp_f y AND 0xFFFFFFFF; v_hi = drop_bit 32 (fp_f y);
          p0 = u_lo * v_lo; p1 = u_lo * v_hi; p2 = u_hi * v_lo; p3 = u_hi * v_hi;
          p0_hi = drop_bit 32 p0;
          p1_lo = p1 AND 0xFFFFFFFF; p1_hi = drop_bit 32 p1;
          p2_lo = p2 AND 0xFFFFFFFF; p2_hi = drop_bit 32 p2;
          Q = p0_hi + p1_lo + p2_lo;
          Q = Q + push_bit (64 - 32 - 1) 1;
          h = p3 + p2_hi + p1_hi + drop_bit 32 Q
      in make_diyfp h (fp_e x + fp_e y + 64))"

text \<open>The significand is not zero; the source asserts it.\<close>

function diyfp_normalize :: "diyfp \<Rightarrow> diyfp" where
  "diyfp_normalize x =
     (if fp_f x = 0 \<or> drop_bit 63 (fp_f x) \<noteq> 0 then x
      else diyfp_normalize (make_diyfp (push_bit 1 (fp_f x)) (fp_e x - 1)))"
  by pat_completeness auto
termination
proof (relation "measure (\<lambda>x. 2 ^ 64 - unat (fp_f x))")
  fix x :: diyfp
  assume "\<not> (fp_f x = 0 \<or> drop_bit 63 (fp_f x) \<noteq> 0)"
  then have "drop_bit 63 (fp_f x) = 0" "0 < unat (fp_f x)" by (auto simp: unat_gt_0)
  then have "unat (fp_f x) div 2 ^ 63 = 0" by (metis unat_0 unat_drop_bit_eq drop_bit_eq_div)
  then have "unat (fp_f x) < 2 ^ 63" by (simp add: div_eq_0_iff)
  moreover have "unat (push_bit 1 (fp_f x)) = 2 * unat (fp_f x) mod 2 ^ 64"
    unfolding unsigned_push_bit_eq by (simp add: take_bit_eq_mod mult.commute)
  ultimately have "unat (push_bit 1 (fp_f x)) = 2 * unat (fp_f x)" by simp
  then show "(make_diyfp (push_bit 1 (fp_f x)) (fp_e x - 1), x) \<in> measure (\<lambda>x. 2 ^ 64 - unat (fp_f x))"
    using \<open>0 < unat (fp_f x)\<close> \<open>unat (fp_f x) < 2 ^ 63\<close> by (simp add: make_diyfp_def)
qed simp

declare diyfp_normalize.simps [simp del]

definition diyfp_normalize_to :: "diyfp \<Rightarrow> int \<Rightarrow> diyfp" where
  "diyfp_normalize_to x target_exponent =
     (let delta = fp_e x - target_exponent in make_diyfp (push_bit (nat delta) (fp_f x)) target_exponent)"

section \<open>The neighbours of a double\<close>

record boundaries =
  b_w :: diyfp
  b_minus :: diyfp
  b_plus :: diyfp

definition double_parts :: "float64 \<Rightarrow> diyfp" where
  "double_parts bits =
     (let E = unat (drop_bit 52 bits); F = bits AND (push_bit 52 1 - 1)
      in if E = 0 then make_diyfp F (- 1074) else make_diyfp (F + push_bit 52 1) (int E - 1075))"

definition compute_boundaries :: "float64 \<Rightarrow> boundaries" where
  "compute_boundaries bits =
     (let E = unat (drop_bit 52 bits); F = bits AND (push_bit 52 1 - 1);
          v = double_parts bits;
          lower_boundary_is_closer = (F = 0 \<and> E > 1);
          m_plus = make_diyfp (2 * fp_f v + 1) (fp_e v - 1);
          m_minus = (if lower_boundary_is_closer then make_diyfp (4 * fp_f v - 1) (fp_e v - 2)
                     else make_diyfp (2 * fp_f v - 1) (fp_e v - 1));
          w_plus = diyfp_normalize m_plus;
          w_minus = diyfp_normalize_to m_minus (fp_e w_plus)
      in \<lparr>b_w = diyfp_normalize v, b_minus = w_minus, b_plus = w_plus\<rparr>)"

section \<open>Powers of ten\<close>

definition kAlpha :: int where "kAlpha = - 60"
definition kGamma :: int where "kGamma = - 32"

definition kCachedPowers :: "(64 word \<times> int \<times> int) list" where
  "kCachedPowers =
     [(0xAB70FE17C79AC6CA, - 1060, - 300), (0xFF77B1FCBEBCDC4F, - 1034, - 292),
      (0xBE5691EF416BD60C, - 1007, - 284), (0x8DD01FAD907FFC3C, - 980, - 276),
      (0xD3515C2831559A83, - 954, - 268), (0x9D71AC8FADA6C9B5, - 927, - 260),
      (0xEA9C227723EE8BCB, - 901, - 252), (0xAECC49914078536D, - 874, - 244),
      (0x823C12795DB6CE57, - 847, - 236), (0xC21094364DFB5637, - 821, - 228),
      (0x9096EA6F3848984F, - 794, - 220), (0xD77485CB25823AC7, - 768, - 212),
      (0xA086CFCD97BF97F4, - 741, - 204), (0xEF340A98172AACE5, - 715, - 196),
      (0xB23867FB2A35B28E, - 688, - 188), (0x84C8D4DFD2C63F3B, - 661, - 180),
      (0xC5DD44271AD3CDBA, - 635, - 172), (0x936B9FCEBB25C996, - 608, - 164),
      (0xDBAC6C247D62A584, - 582, - 156), (0xA3AB66580D5FDAF6, - 555, - 148),
      (0xF3E2F893DEC3F126, - 529, - 140), (0xB5B5ADA8AAFF80B8, - 502, - 132),
      (0x87625F056C7C4A8B, - 475, - 124), (0xC9BCFF6034C13053, - 449, - 116),
      (0x964E858C91BA2655, - 422, - 108), (0xDFF9772470297EBD, - 396, - 100),
      (0xA6DFBD9FB8E5B88F, - 369, - 92), (0xF8A95FCF88747D94, - 343, - 84),
      (0xB94470938FA89BCF, - 316, - 76), (0x8A08F0F8BF0F156B, - 289, - 68),
      (0xCDB02555653131B6, - 263, - 60), (0x993FE2C6D07B7FAC, - 236, - 52),
      (0xE45C10C42A2B3B06, - 210, - 44), (0xAA242499697392D3, - 183, - 36),
      (0xFD87B5F28300CA0E, - 157, - 28), (0xBCE5086492111AEB, - 130, - 20),
      (0x8CBCCC096F5088CC, - 103, - 12), (0xD1B71758E219652C, - 77, - 4),
      (0x9C40000000000000, - 50, 4), (0xE8D4A51000000000, - 24, 12),
      (0xAD78EBC5AC620000, 3, 20), (0x813F3978F8940984, 30, 28),
      (0xC097CE7BC90715B3, 56, 36), (0x8F7E32CE7BEA5C70, 83, 44),
      (0xD5D238A4ABE98068, 109, 52), (0x9F4F2726179A2245, 136, 60),
      (0xED63A231D4C4FB27, 162, 68), (0xB0DE65388CC8ADA8, 189, 76),
      (0x83C7088E1AAB65DB, 216, 84), (0xC45D1DF942711D9A, 242, 92),
      (0x924D692CA61BE758, 269, 100), (0xDA01EE641A708DEA, 295, 108),
      (0xA26DA3999AEF774A, 322, 116), (0xF209787BB47D6B85, 348, 124),
      (0xB454E4A179DD1877, 375, 132), (0x865B86925B9BC5C2, 402, 140),
      (0xC83553C5C8965D3D, 428, 148), (0x952AB45CFA97A0B3, 455, 156),
      (0xDE469FBD99A05FE3, 481, 164), (0xA59BC234DB398C25, 508, 172),
      (0xF6C69A72A3989F5C, 534, 180), (0xB7DCBF5354E9BECE, 561, 188),
      (0x88FCF317F22241E2, 588, 196), (0xCC20CE9BD35C78A5, 614, 204),
      (0x98165AF37B2153DF, 641, 212), (0xE2A0B5DC971F303A, 667, 220),
      (0xA8D9D1535CE3B396, 694, 228), (0xFB9B7CD9A4A7443C, 720, 236),
      (0xBB764C4CA7A44410, 747, 244), (0x8BAB8EEFB6409C1A, 774, 252),
      (0xD01FEF10A657842C, 800, 260), (0x9B10A4E5E9913129, 827, 268),
      (0xE7109BFBA19C0C9D, 853, 276), (0xAC2820D9623BF429, 880, 284),
      (0x80444B5E7AA7CF85, 907, 292), (0xBF21E44003ACDD2D, 933, 300),
      (0x8E679C2F5E44FF8F, 960, 308), (0xD433179D9C8CB841, 986, 316),
      (0x9E19DB92B4E31BA9, 1013, 324)]"

text \<open>Division of \<open>int\<close>s truncates.\<close>

definition trunc_div :: "int \<Rightarrow> int \<Rightarrow> int" where
  "trunc_div a b = (if a < 0 then - ((- a) div b) else a div b)"

definition cached_power_index :: "int \<Rightarrow> nat" where
  "cached_power_index e =
     (let f = kAlpha - e - 1;
          k = trunc_div (f * 78913) (2 ^ 18) + (if f > 0 then 1 else 0)
      in nat (trunc_div (300 + k + (8 - 1)) 8))"

definition get_cached_power_for_binary_exponent :: "int \<Rightarrow> 64 word \<times> int \<times> int" where
  "get_cached_power_for_binary_exponent e = kCachedPowers ! cached_power_index e"

definition find_largest_pow10 :: "32 word \<Rightarrow> nat \<times> 32 word" where
  "find_largest_pow10 n =
     (if n \<ge> 1000000000 then (10, 1000000000)
      else if n \<ge> 100000000 then (9, 100000000)
      else if n \<ge> 10000000 then (8, 10000000)
      else if n \<ge> 1000000 then (7, 1000000)
      else if n \<ge> 100000 then (6, 100000)
      else if n \<ge> 10000 then (5, 10000)
      else if n \<ge> 1000 then (4, 1000)
      else if n \<ge> 100 then (3, 100)
      else if n \<ge> 10 then (2, 10)
      else (1, 1))"

section \<open>Digits\<close>

definition decrement_last :: "string \<Rightarrow> string" where
  "decrement_last buf = butlast buf @ [char_of (of_char (last buf) + 255 :: nat)]"

text \<open>
  The source asserts \<open>dist \<le> delta\<close> and \<open>0 < ten_k\<close> first; they bound the loop and are part of
  its condition here.
\<close>

function grisu2_round :: "string \<Rightarrow> 64 word \<Rightarrow> 64 word \<Rightarrow> 64 word \<Rightarrow> 64 word \<Rightarrow> string" where
  "grisu2_round buf dist delta rest ten_k =
     (if dist \<le> delta \<and> 0 < ten_k
         \<and> rest < dist \<and> delta - rest \<ge> ten_k
         \<and> (rest + ten_k < dist \<or> dist - rest > rest + ten_k - dist)
      then grisu2_round (decrement_last buf) dist delta (rest + ten_k) ten_k
      else buf)"
  by pat_completeness auto
termination
proof (relation "measure (\<lambda>(_, _, _, rest, _). 2 ^ 64 - unat rest)")
  fix buf and dist delta rest ten_k :: "64 word"
  assume c: "dist \<le> delta \<and> 0 < ten_k \<and> rest < dist \<and> delta - rest \<ge> ten_k
    \<and> (rest + ten_k < dist \<or> dist - rest > rest + ten_k - dist)"
  then have "rest \<le> delta" by (meson less_imp_le order_trans)
  then have "unat (delta - rest) = unat delta - unat rest" by (rule unat_sub)
  with c have "unat rest + unat ten_k \<le> unat delta"
    unfolding word_le_nat_alt word_less_nat_alt by linarith
  moreover have "unat delta < 2 ^ 64" using unsigned_less [of delta, where 'a = nat] by simp
  ultimately have "unat (rest + ten_k) = unat rest + unat ten_k"
    by (simp add: unat_word_ariths)
  moreover have "0 < unat ten_k" using c by (simp add: unat_gt_0 word_gt_0)
  ultimately show "((decrement_last buf, dist, delta, rest + ten_k, ten_k), buf, dist, delta, rest, ten_k)
      \<in> measure (\<lambda>(_, _, _, rest, _). 2 ^ 64 - unat rest)"
    using unsigned_less [of "rest + ten_k", where 'a = nat] by simp
qed simp

declare grisu2_round.simps [simp del]

text \<open>The loop over the integral part: the digits, or what the fractional part starts from.\<close>

fun integral_digits ::
  "nat \<Rightarrow> 32 word \<Rightarrow> 32 word \<Rightarrow> string \<Rightarrow> 64 word \<Rightarrow> int \<Rightarrow> 64 word \<Rightarrow> 64 word
     \<Rightarrow> (string \<times> nat) option \<times> string" where
  "integral_digits 0 p1 pow10 buffer p2 e delta dist = (None, buffer)"
| "integral_digits (Suc n) p1 pow10 buffer p2 e delta dist =
     (let d = p1 div pow10; r = p1 mod pow10;
          buffer = buffer @ [char_of (48 + unat d)];
          rest = push_bit (nat (- e)) (ucast r) + p2
      in if rest \<le> delta then
           (let ten_n = push_bit (nat (- e)) (ucast pow10)
            in (Some (grisu2_round buffer dist delta rest ten_n, n), buffer))
         else integral_digits n r (pow10 div 10) buffer p2 e delta dist)"

text \<open>The loop over the fractional part; \<open>None\<close> when the fuel runs out.\<close>

fun fractional_digits ::
  "nat \<Rightarrow> nat \<Rightarrow> string \<Rightarrow> 64 word \<Rightarrow> 64 word \<Rightarrow> int \<Rightarrow> 64 word \<Rightarrow> 64 word \<Rightarrow> (string \<times> nat) option" where
  "fractional_digits 0 m buffer p2 one e delta dist = None"
| "fractional_digits (Suc fuel) m buffer p2 one e delta dist =
     (let p2 = p2 * 10;
          d = drop_bit (nat (- e)) p2; r = p2 AND (one - 1);
          buffer = buffer @ [char_of (48 + unat d)];
          delta = delta * 10; dist = dist * 10
      in if r \<le> delta then Some (grisu2_round buffer dist delta r one, m + 1)
         else fractional_digits fuel (m + 1) buffer r one e delta dist)"

definition digit_fuel :: nat where "digit_fuel = 20"

text \<open>The digits and the change of the decimal exponent.\<close>

definition grisu2_digit_gen :: "diyfp \<Rightarrow> diyfp \<Rightarrow> diyfp \<Rightarrow> (string \<times> int) option" where
  "grisu2_digit_gen M_minus w M_plus =
     (let delta = fp_f (diyfp_sub M_plus M_minus); dist = fp_f (diyfp_sub M_plus w);
          e = fp_e M_plus;
          one = push_bit (nat (- e)) 1;
          p1 = ucast (drop_bit (nat (- e)) (fp_f M_plus)) :: 32 word;
          p2 = fp_f M_plus AND (one - 1);
          (k, pow10) = find_largest_pow10 p1
      in case integral_digits k p1 pow10 [] p2 e delta dist of
           (Some (buffer, n), _) \<Rightarrow> Some (buffer, int n)
         | (None, buffer) \<Rightarrow>
             (case fractional_digits digit_fuel 0 buffer p2 one e delta dist of
                Some (buffer, m) \<Rightarrow> Some (buffer, - int m)
              | None \<Rightarrow> None))"

definition grisu2_scaled :: "diyfp \<Rightarrow> diyfp \<Rightarrow> diyfp \<Rightarrow> (string \<times> int) option" where
  "grisu2_scaled m_minus v m_plus =
     (case get_cached_power_for_binary_exponent (fp_e m_plus) of
        (cached_f, cached_e, cached_k) \<Rightarrow>
          let c_minus_k = make_diyfp cached_f cached_e;
              w = diyfp_mul v c_minus_k;
              w_minus = diyfp_mul m_minus c_minus_k;
              w_plus = diyfp_mul m_plus c_minus_k;
              M_minus = make_diyfp (fp_f w_minus + 1) (fp_e w_minus);
              M_plus = make_diyfp (fp_f w_plus - 1) (fp_e w_plus)
          in case grisu2_digit_gen M_minus w M_plus of
               None \<Rightarrow> None
             | Some (buf, de) \<Rightarrow> Some (buf, - cached_k + de))"

definition grisu2 :: "float64 \<Rightarrow> (string \<times> int) option" where
  "grisu2 bits =
     (let w = compute_boundaries bits in grisu2_scaled (b_minus w) (b_w w) (b_plus w))"

section \<open>Layout\<close>

definition append_exponent :: "int \<Rightarrow> string" where
  "append_exponent e =
     (let sign = (if e < 0 then ''-'' else ''+''); k = nat \<bar>e\<bar>
      in sign @ (if k < 10 then [CHR ''0'', digit k]
                 else if k < 100 then [digit (k div 10), digit (k mod 10)]
                 else [digit (k div 100), digit (k mod 100 div 10), digit (k mod 100 mod 10)]))"

definition format_buffer :: "string \<Rightarrow> int \<Rightarrow> int \<Rightarrow> int \<Rightarrow> string" where
  "format_buffer buf decimal_exponent min_exp max_exp =
     (let k = int (length buf); n = k + decimal_exponent in
      if k \<le> n \<and> n \<le> max_exp then buf @ replicate (nat (n - k)) CHR ''0'' @ ''.0''
      else if 0 < n \<and> n \<le> max_exp then take (nat n) buf @ ''.'' @ drop (nat n) buf
      else if min_exp < n \<and> n \<le> 0 then ''0.'' @ replicate (nat (- n)) CHR ''0'' @ buf
      else (if k = 1 then buf else take 1 buf @ ''.'' @ drop 1 buf) @ ''e'' @ append_exponent (n - 1))"

text \<open>\<open>to_chars\<close> of a finite double, the sign taken from the sign bit.\<close>

definition to_chars :: "float64 \<Rightarrow> string option" where
  "to_chars x =
     (let sign = (if bit x 63 then ''-'' else []); x = x AND (push_bit 63 1 - 1) in
      if x = 0 then Some (sign @ ''0.0'')
      else case grisu2 x of
             None \<Rightarrow> None
           | Some (buf, decimal_exponent) \<Rightarrow>
               Some (sign @ format_buffer buf decimal_exponent (- 4) 15))"

end
