(* ===== verification/Json_Serializer.thy ===== *)
theory Json_Serializer
  imports Json_Grisu Json_Lexer
begin

text \<open>
  \<open>detail/output/serializer.hpp\<close>: the UTF-8 automaton, the escaping of strings with its three
  error handlers, integers, floats, and \<open>dump\<close> with and without indentation. The serializer
  appends to \<open>o\<close>; its scratch buffers keep what earlier values left in them.
\<close>

section \<open>The UTF-8 automaton\<close>

definition utf8d :: "nat list" where
  "utf8d =
     [0, 0, 0, 0, 0, 0, 0, 0, 0, 0, 0, 0, 0, 0, 0, 0, 0, 0, 0, 0, 0, 0, 0, 0, 0, 0, 0, 0, 0, 0, 0, 0,
      0, 0, 0, 0, 0, 0, 0, 0, 0, 0, 0, 0, 0, 0, 0, 0, 0, 0, 0, 0, 0, 0, 0, 0, 0, 0, 0, 0, 0, 0, 0, 0,
      0, 0, 0, 0, 0, 0, 0, 0, 0, 0, 0, 0, 0, 0, 0, 0, 0, 0, 0, 0, 0, 0, 0, 0, 0, 0, 0, 0, 0, 0, 0, 0,
      0, 0, 0, 0, 0, 0, 0, 0, 0, 0, 0, 0, 0, 0, 0, 0, 0, 0, 0, 0, 0, 0, 0, 0, 0, 0, 0, 0, 0, 0, 0, 0,
      1, 1, 1, 1, 1, 1, 1, 1, 1, 1, 1, 1, 1, 1, 1, 1, 9, 9, 9, 9, 9, 9, 9, 9, 9, 9, 9, 9, 9, 9, 9, 9,
      7, 7, 7, 7, 7, 7, 7, 7, 7, 7, 7, 7, 7, 7, 7, 7, 7, 7, 7, 7, 7, 7, 7, 7, 7, 7, 7, 7, 7, 7, 7, 7,
      8, 8, 2, 2, 2, 2, 2, 2, 2, 2, 2, 2, 2, 2, 2, 2, 2, 2, 2, 2, 2, 2, 2, 2, 2, 2, 2, 2, 2, 2, 2, 2,
      10, 3, 3, 3, 3, 3, 3, 3, 3, 3, 3, 3, 3, 4, 3, 3,
      11, 6, 6, 6, 5, 8, 8, 8, 8, 8, 8, 8, 8, 8, 8, 8,
      0, 1, 2, 3, 5, 8, 7, 1, 1, 1, 4, 6, 1, 1, 1, 1,
      1, 1, 1, 1, 1, 1, 1, 1, 1, 1, 1, 1, 1, 1, 1, 1, 1, 0, 1, 1, 1, 1, 1, 0, 1, 0, 1, 1, 1, 1, 1, 1,
      1, 2, 1, 1, 1, 1, 1, 2, 1, 2, 1, 1, 1, 1, 1, 1, 1, 1, 1, 1, 1, 1, 1, 2, 1, 1, 1, 1, 1, 1, 1, 1,
      1, 2, 1, 1, 1, 1, 1, 1, 1, 2, 1, 1, 1, 1, 1, 1, 1, 1, 1, 1, 1, 1, 1, 3, 1, 3, 1, 1, 1, 1, 1, 1,
      1, 3, 1, 1, 1, 1, 1, 3, 1, 3, 1, 1, 1, 1, 1, 1, 1, 3, 1, 1, 1, 1, 1, 1, 1, 1, 1, 1, 1, 1, 1, 1]"

definition UTF8_ACCEPT :: nat where "UTF8_ACCEPT = 0"
definition UTF8_REJECT :: nat where "UTF8_REJECT = 1"

text \<open>The new state and code point; \<open>codep\<close> keeps the 32 bits of the source.\<close>

definition decode :: "nat \<Rightarrow> 32 word \<Rightarrow> nat \<Rightarrow> nat \<times> 32 word" where
  "decode state codep b =
     (let type = utf8d ! b;
          codep = (if state \<noteq> UTF8_ACCEPT then (word_of_nat b AND 0x3F) OR push_bit 6 codep
                   else drop_bit type 0xFF AND word_of_nat b);
          index = 256 + state * 16 + type
      in (utf8d ! index, codep))"

section \<open>Strings\<close>

datatype error_handler_t = Strict | Replace | Ignore

definition lower_hex :: "nat \<Rightarrow> char" where
  "lower_hex n = (if n < 10 then digit n else char_of (87 + n))"

text \<open>\<open>%04x\<close> of a 16-bit value.\<close>

definition hex4 :: "nat \<Rightarrow> string" where
  "hex4 n =
     [lower_hex (n div 4096 mod 16), lower_hex (n div 256 mod 16), lower_hex (n div 16 mod 16),
      lower_hex (n mod 16)]"

definition unicode_escape :: "nat \<Rightarrow> string" where
  "unicode_escape n = backslash # CHR ''u'' # hex4 n"

text \<open>What is stored in the buffer when a code point is complete; \<open>c\<close> is its last byte.\<close>

definition escape_codepoint :: "bool \<Rightarrow> 32 word \<Rightarrow> char \<Rightarrow> string" where
  "escape_codepoint ensure_ascii codepoint c =
     (if codepoint = 0x08 then [backslash, CHR ''b'']
      else if codepoint = 0x09 then [backslash, CHR ''t'']
      else if codepoint = 0x0A then [backslash, CHR ''n'']
      else if codepoint = 0x0C then [backslash, CHR ''f'']
      else if codepoint = 0x0D then [backslash, CHR ''r'']
      else if codepoint = 0x22 then [backslash, dquote]
      else if codepoint = 0x5C then [backslash, backslash]
      else if codepoint \<le> 0x1F \<or> ensure_ascii \<and> codepoint \<ge> 0x7F then
        (if codepoint \<le> 0xFFFF then unicode_escape (unat codepoint)
         else unicode_escape (unat (0xD7C0 + drop_bit 10 codepoint) mod 65536)
                @ unicode_escape (unat (0xDC00 + (codepoint AND 0x3FF)) mod 65536))
      else [c])"

text \<open>
  The variables of the loop: \<open>esc_buffer\<close> holds the first \<open>bytes\<close> characters of
  \<open>string_buffer\<close>, \<open>esc_out\<close> what has been handed to the output adapter.
\<close>

record escape_state =
  esc_state :: nat
  esc_codepoint :: "32 word"
  esc_buffer :: string
  esc_last_accept :: nat
  esc_undumped :: nat
  esc_out :: string

definition string_buffer_size :: nat where "string_buffer_size = 512"

definition flush :: "escape_state \<Rightarrow> escape_state" where
  "flush x =
     (if string_buffer_size - length (esc_buffer x) < 13
      then x\<lparr>esc_out := esc_out x @ esc_buffer x, esc_buffer := []\<rparr> else x)"

definition accept_byte :: "bool \<Rightarrow> char \<Rightarrow> escape_state \<Rightarrow> escape_state" where
  "accept_byte ensure_ascii c x =
     (let x = flush (x\<lparr>esc_buffer := esc_buffer x @ escape_codepoint ensure_ascii (esc_codepoint x) c\<rparr>)
      in x\<lparr>esc_last_accept := length (esc_buffer x), esc_undumped := 0\<rparr>)"

definition replacement :: "bool \<Rightarrow> string" where
  "replacement ensure_ascii =
     (if ensure_ascii then backslash # ''ufffd'' else [CHR 0xEF, CHR 0xBF, CHR 0xBD])"

text \<open>An invalid byte when it is not an error.\<close>

definition skip_byte :: "error_handler_t \<Rightarrow> bool \<Rightarrow> escape_state \<Rightarrow> escape_state" where
  "skip_byte eh ensure_ascii x =
     (let x = x\<lparr>esc_buffer := take (esc_last_accept x) (esc_buffer x)\<rparr>;
          x = (if eh = Replace then
                 (let x = flush (x\<lparr>esc_buffer := esc_buffer x @ replacement ensure_ascii\<rparr>)
                  in x\<lparr>esc_last_accept := length (esc_buffer x)\<rparr>)
               else x)
      in x\<lparr>esc_undumped := 0, esc_state := UTF8_ACCEPT\<rparr>)"

definition partial_byte :: "bool \<Rightarrow> char \<Rightarrow> escape_state \<Rightarrow> escape_state" where
  "partial_byte ensure_ascii c x =
     x\<lparr>esc_buffer := (if ensure_ascii then esc_buffer x else esc_buffer x @ [c]),
       esc_undumped := esc_undumped x + 1\<rparr>"

function escape_loop ::
  "error_handler_t \<Rightarrow> bool \<Rightarrow> string \<Rightarrow> nat \<Rightarrow> escape_state \<Rightarrow> escape_state result" where
  "escape_loop eh ensure_ascii s i x =
     (if i < length s then
        (let (st, cp) = decode (esc_state x) (esc_codepoint x) (code (s ! i));
             y = x\<lparr>esc_state := st, esc_codepoint := cp\<rparr>
         in if st = UTF8_ACCEPT then escape_loop eh ensure_ascii s (i + 1) (accept_byte ensure_ascii (s ! i) y)
            else if st = UTF8_REJECT then
              (if eh = Strict then Inl (Throw (Json_type_error 316))
               else if esc_undumped x > 0 then escape_loop eh ensure_ascii s i (skip_byte eh ensure_ascii y)
               else escape_loop eh ensure_ascii s (i + 1) (skip_byte eh ensure_ascii y))
            else escape_loop eh ensure_ascii s (i + 1) (partial_byte ensure_ascii (s ! i) y))
      else Inr x)"
  by pat_completeness auto
termination
  by (relation "measure (\<lambda>(_, _, s, i, x). 2 * (length s - i) + (if esc_undumped x > 0 then 1 else 0))")
    (auto simp: accept_byte_def flush_def skip_byte_def Let_def partial_byte_def)

declare escape_loop.simps [simp del]

definition escape_end :: "error_handler_t \<Rightarrow> bool \<Rightarrow> escape_state \<Rightarrow> string result" where
  "escape_end eh ensure_ascii x =
     (if esc_state x = UTF8_ACCEPT then Inr (esc_out x @ esc_buffer x)
      else case eh of
             Strict \<Rightarrow> Inl (Throw (Json_type_error 316))
           | Ignore \<Rightarrow> Inr (esc_out x @ take (esc_last_accept x) (esc_buffer x))
           | Replace \<Rightarrow> Inr (esc_out x @ take (esc_last_accept x) (esc_buffer x) @ replacement ensure_ascii))"

text \<open>The characters \<open>dump_escaped\<close> writes.\<close>

definition dump_escaped :: "error_handler_t \<Rightarrow> bool \<Rightarrow> string \<Rightarrow> string result" where
  "dump_escaped eh ensure_ascii s =
     bind_result (escape_loop eh ensure_ascii s 0
       \<lparr>esc_state = UTF8_ACCEPT, esc_codepoint = 0, esc_buffer = [], esc_last_accept = 0,
        esc_undumped = 0, esc_out = []\<rparr>) (escape_end eh ensure_ascii)"

section \<open>Integers\<close>

function count_digits :: "nat \<Rightarrow> 64 word \<Rightarrow> nat" where
  "count_digits n_digits x =
     (if x < 10 then n_digits
      else if x < 100 then n_digits + 1
      else if x < 1000 then n_digits + 2
      else if x < 10000 then n_digits + 3
      else count_digits (n_digits + 4) (x div 10000))"
  by pat_completeness auto
termination
  by (relation "measure (unat \<circ> snd)") (auto simp: unat_div word_less_nat_alt)

declare count_digits.simps [simp del]

definition digits_to_99 :: "string list" where
  "digits_to_99 = map (\<lambda>i. [digit (i div 10), digit (i mod 10)]) [0..<100]"

definition remove_sign :: "64 word \<Rightarrow> 64 word" where
  "remove_sign x = - (x + 1) + 1"

text \<open>The digits are written from the back, two at a time, into \<open>number_buffer\<close>.\<close>

function fill_digits :: "64 word \<Rightarrow> nat \<Rightarrow> string \<Rightarrow> string" where
  "fill_digits v p buf =
     (if v \<ge> 100 then
        (let i = unat (v mod 100)
         in fill_digits (v div 100) (p - 2)
              (buf[p - 1 := digits_to_99 ! i ! 1, p - 2 := digits_to_99 ! i ! 0]))
      else if v \<ge> 10 then
        buf[p - 1 := digits_to_99 ! unat v ! 1, p - 2 := digits_to_99 ! unat v ! 0]
      else buf[p - 1 := char_of (48 + unat v)])"
  by pat_completeness auto
termination
proof (relation "measure (\<lambda>(v, _). unat v)")
  fix v :: "64 word" and p i :: nat and buf :: string
  assume "v \<ge> 100"
  then have "100 \<le> unat v" by (simp add: word_le_nat_alt)
  then show "((v div 100, p - 2, buf[p - 1 := digits_to_99 ! i ! 1, p - 2 := digits_to_99 ! i ! 0]), v, p, buf)
      \<in> measure (\<lambda>(v, _). unat v)"
    by (simp add: unat_div)
qed simp

declare fill_digits.simps [simp del]

text \<open>The text and the new content of the buffer; \<open>is_signed\<close> for \<open>number_integer_t\<close>.\<close>

definition dump_integer :: "bool \<Rightarrow> 64 word \<Rightarrow> string \<Rightarrow> string \<times> string" where
  "dump_integer is_signed x number_buffer =
     (if x = 0 then (''0'', number_buffer) else
      let is_negative = is_signed \<and> sint x < 0;
          buf = (if is_negative then number_buffer[0 := CHR ''-''] else number_buffer);
          abs_value = (if is_negative then remove_sign x else x);
          n_chars = (if is_negative then 1 else 0) + count_digits 1 abs_value;
          buf = fill_digits abs_value n_chars buf
      in (take n_chars buf, buf))"

section \<open>Values\<close>

record serializer =
  ser_out :: string
  ser_number_buffer :: string
  ser_indent_string :: string
  ser_error_handler :: error_handler_t

definition make_serializer :: "char \<Rightarrow> error_handler_t \<Rightarrow> serializer" where
  "make_serializer ichar eh =
     \<lparr>ser_out = [], ser_number_buffer = replicate 64 CHR 0x00, ser_indent_string = replicate 512 ichar,
      ser_error_handler = eh\<rparr>"

definition write_characters :: "string \<Rightarrow> serializer \<Rightarrow> serializer" where
  "write_characters s ser = ser\<lparr>ser_out := ser_out ser @ s\<rparr>"

text \<open>The first \<open>n\<close> characters of the indentation string, which \<open>grow_indent\<close> doubles once.\<close>

definition write_indent :: "nat \<Rightarrow> serializer \<Rightarrow> serializer result" where
  "write_indent n ser =
     (if n \<le> length (ser_indent_string ser) then Inr (write_characters (take n (ser_indent_string ser)) ser)
      else Inl (Undefined OutOfBoundsRead))"

text \<open>The level of indentation is an \<open>unsigned int\<close>, which wraps.\<close>

definition deepen :: "nat \<Rightarrow> nat \<Rightarrow> nat" where
  "deepen current_indent indent_step = (current_indent + indent_step) mod 2 ^ 32"

lemma deepen_le: "deepen cur step \<le> cur + step"
  by (simp add: deepen_def)

definition grow_indent :: "nat \<Rightarrow> serializer \<Rightarrow> serializer" where
  "grow_indent new_indent ser =
     (if length (ser_indent_string ser) < new_indent
      then ser\<lparr>ser_indent_string := ser_indent_string ser
             @ replicate (length (ser_indent_string ser)) CHR '' ''\<rparr>
      else ser)"

definition write_integer :: "bool \<Rightarrow> 64 word \<Rightarrow> serializer \<Rightarrow> serializer" where
  "write_integer is_signed x ser =
     (case dump_integer is_signed x (ser_number_buffer ser) of
        (text, buf) \<Rightarrow> write_characters text (ser\<lparr>ser_number_buffer := buf\<rparr>))"

definition dump_float :: "float64 \<Rightarrow> serializer \<Rightarrow> serializer result" where
  "dump_float x ser =
     (if \<not> isfinite x then Inr (write_characters ''null'' ser)
      else case to_chars x of
             None \<Rightarrow> Inl Diverges
           | Some text \<Rightarrow>
               Inr (write_characters text
                 (ser\<lparr>ser_number_buffer := text @ drop (length text) (ser_number_buffer ser)\<rparr>)))"

text \<open>The cases of \<open>dump\<close> for booleans, numbers and null.\<close>

definition dump_scalar :: "json \<Rightarrow> serializer \<Rightarrow> serializer result" where
  "dump_scalar j ser =
     (case j of
        JBool b \<Rightarrow> Inr (write_characters (if b then ''true'' else ''false'') ser)
      | JInt x \<Rightarrow> Inr (write_integer True x ser)
      | JUint x \<Rightarrow> Inr (write_integer False x ser)
      | JFloat x \<Rightarrow> dump_float x ser
      | JNull \<Rightarrow> Inr (write_characters ''null'' ser)
      | _ \<Rightarrow> Inr ser)"

definition write_escaped :: "bool \<Rightarrow> string \<Rightarrow> serializer \<Rightarrow> serializer result" where
  "write_escaped ensure_ascii s ser =
     bind_result (dump_escaped (ser_error_handler ser) ensure_ascii s) (\<lambda>text.
       Inr (write_characters text ser))"

definition write_key :: "bool \<Rightarrow> string \<Rightarrow> string \<Rightarrow> serializer \<Rightarrow> serializer result" where
  "write_key ensure_ascii separator k ser =
     bind_result (write_escaped ensure_ascii k (write_characters [dquote] ser)) (\<lambda>ser.
       Inr (write_characters (dquote # separator) ser))"

text \<open>A binary value: an object with the array of its bytes and its subtype.\<close>

fun dump_bytes :: "string \<Rightarrow> byte list \<Rightarrow> serializer \<Rightarrow> serializer" where
  "dump_bytes separator [] ser = ser"
| "dump_bytes separator (b # bs) ser =
     (let ser = write_integer False (ucast b) ser
      in if bs = [] then ser else dump_bytes separator bs (write_characters separator ser))"

definition dump_subtype :: "byte option \<Rightarrow> serializer \<Rightarrow> serializer" where
  "dump_subtype subtype ser =
     (case subtype of
        Some b \<Rightarrow> write_integer False (ucast b) ser
      | None \<Rightarrow> write_characters ''null'' ser)"

definition dump_binary :: "bool \<Rightarrow> nat \<Rightarrow> nat \<Rightarrow> byte list \<Rightarrow> byte option \<Rightarrow> serializer \<Rightarrow> serializer result" where
  "dump_binary pretty step cur bytes subtype ser =
     (let quoted = (\<lambda>s. dquote # s @ [dquote]) in
      if pretty then
        let new_indent = deepen cur step in
        bind_result (write_indent new_indent
            (grow_indent new_indent (write_characters [CHR ''{'', CHR 0x0A] ser))) (\<lambda>ser.
        bind_result (write_indent new_indent
            (write_characters ('']'' @ [CHR '','', CHR 0x0A])
              (dump_bytes '', '' bytes (write_characters (quoted ''bytes'' @ '': ['') ser)))) (\<lambda>ser.
        bind_result (write_indent cur
            (write_characters [CHR 0x0A]
              (dump_subtype subtype (write_characters (quoted ''subtype'' @ '': '') ser)))) (\<lambda>ser.
          Inr (write_characters ''}'' ser))))
      else
        Inr (write_characters ''}''
          (dump_subtype subtype (write_characters (''],'' @ quoted ''subtype'' @ '':'')
            (dump_bytes '','' bytes (write_characters (''{'' @ quoted ''bytes'' @ '':['') ser))))))"

fun dump_value :: "bool \<Rightarrow> bool \<Rightarrow> nat \<Rightarrow> nat \<Rightarrow> json \<Rightarrow> serializer \<Rightarrow> serializer result"
  and dump_pretty_members :: "bool \<Rightarrow> nat \<Rightarrow> nat \<Rightarrow> (string \<times> json) list \<Rightarrow> serializer \<Rightarrow> serializer result"
  and dump_members :: "bool \<Rightarrow> nat \<Rightarrow> nat \<Rightarrow> (string \<times> json) list \<Rightarrow> serializer \<Rightarrow> serializer result"
  and dump_pretty_elements :: "bool \<Rightarrow> nat \<Rightarrow> nat \<Rightarrow> json list \<Rightarrow> serializer \<Rightarrow> serializer result"
  and dump_elements :: "bool \<Rightarrow> nat \<Rightarrow> nat \<Rightarrow> json list \<Rightarrow> serializer \<Rightarrow> serializer result" where
  "dump_value pretty ascii step cur (JObject m) ser =
     (if m = [] then Inr (write_characters ''{}'' ser)
      else if pretty then
        bind_result (dump_pretty_members ascii step (deepen cur step) m
          (grow_indent (deepen cur step) (write_characters [CHR ''{'', CHR 0x0A] ser))) (\<lambda>ser.
        bind_result (write_indent cur (write_characters [CHR 0x0A] ser)) (\<lambda>ser.
          Inr (write_characters ''}'' ser)))
      else
        bind_result (dump_members ascii step cur m (write_characters ''{'' ser)) (\<lambda>ser.
          Inr (write_characters ''}'' ser)))"
| "dump_value pretty ascii step cur (JArray xs) ser =
     (if xs = [] then Inr (write_characters ''[]'' ser)
      else if pretty then
        bind_result (dump_pretty_elements ascii step (deepen cur step) xs
          (grow_indent (deepen cur step) (write_characters [CHR ''['', CHR 0x0A] ser))) (\<lambda>ser.
        bind_result (write_indent cur (write_characters [CHR 0x0A] ser)) (\<lambda>ser.
          Inr (write_characters '']'' ser)))
      else
        bind_result (dump_elements ascii step cur xs (write_characters ''['' ser)) (\<lambda>ser.
          Inr (write_characters '']'' ser)))"
| "dump_value pretty ascii step cur (JString s) ser =
     bind_result (write_escaped ascii s (write_characters [dquote] ser)) (\<lambda>ser.
       Inr (write_characters [dquote] ser))"
| "dump_value pretty ascii step cur (JBinary bytes subtype) ser = dump_binary pretty step cur bytes subtype ser"
| "dump_value pretty ascii step cur (JBool b) ser = dump_scalar (JBool b) ser"
| "dump_value pretty ascii step cur (JInt x) ser = dump_scalar (JInt x) ser"
| "dump_value pretty ascii step cur (JUint x) ser = dump_scalar (JUint x) ser"
| "dump_value pretty ascii step cur (JFloat x) ser = dump_scalar (JFloat x) ser"
| "dump_value pretty ascii step cur JNull ser = dump_scalar JNull ser"
| "dump_pretty_members ascii step ind [] ser = Inr ser"
| "dump_pretty_members ascii step ind ((k, v) # m) ser =
     bind_result (write_indent ind ser) (\<lambda>ser.
     bind_result (write_key ascii '': '' k ser) (\<lambda>ser.
     bind_result (dump_value True ascii step ind v ser) (\<lambda>ser.
       if m = [] then Inr ser
       else dump_pretty_members ascii step ind m (write_characters [CHR '','', CHR 0x0A] ser))))"
| "dump_members ascii step cur [] ser = Inr ser"
| "dump_members ascii step cur ((k, v) # m) ser =
     bind_result (write_key ascii '':'' k ser) (\<lambda>ser.
     bind_result (dump_value False ascii step cur v ser) (\<lambda>ser.
       if m = [] then Inr ser else dump_members ascii step cur m (write_characters '','' ser)))"
| "dump_pretty_elements ascii step ind [] ser = Inr ser"
| "dump_pretty_elements ascii step ind (v # xs) ser =
     bind_result (write_indent ind ser) (\<lambda>ser.
     bind_result (dump_value True ascii step ind v ser) (\<lambda>ser.
       if xs = [] then Inr ser
       else dump_pretty_elements ascii step ind xs (write_characters [CHR '','', CHR 0x0A] ser)))"
| "dump_elements ascii step cur [] ser = Inr ser"
| "dump_elements ascii step cur (v # xs) ser =
     bind_result (dump_value False ascii step cur v ser) (\<lambda>ser.
       if xs = [] then Inr ser else dump_elements ascii step cur xs (write_characters '','' ser))"

text \<open>\<open>basic_json::dump\<close>; a negative indent selects the compact form.\<close>

definition json_dump :: "int \<Rightarrow> char \<Rightarrow> bool \<Rightarrow> error_handler_t \<Rightarrow> json \<Rightarrow> string result" where
  "json_dump indent indent_char ensure_ascii eh j =
     bind_result
       (if indent \<ge> 0 then dump_value True ensure_ascii (nat indent) 0 j (make_serializer indent_char eh)
        else dump_value False ensure_ascii 0 0 j (make_serializer indent_char eh))
       (\<lambda>ser. Inr (ser_out ser))"

end
