(* ===== verification/Session_State.thy ===== *)
theory Session_State
  imports Shared_State Calendar Json_Parser Json_Serializer
begin

text \<open>
  The state of one TCP session and of one WebSocket session, and the operations other
  components call on them: sending a packet to a station (\<open>TCPSession::writePacket\<close>), the
  timers, and queueing a message for a browser (\<open>WebSocketSession::writeRequest\<close>).

  Asynchronous operations are Boost.Asio's. A session records the operations it has started
  and not yet seen completed; each of them holds a \<open>shared_ptr\<close> to the session, so this list
  is also what keeps the session alive. Completion is an event the environment chooses; the
  theories of the sessions say what each completion does.
\<close>

section \<open>The environment\<close>

text \<open>
  What the handlers call outside the repository: the clock and the functions of Boost.Uuid (the
  parser of \<open>string_generator\<close> throws \<open>std::runtime_error\<close>, here \<open>None\<close>).
\<close>

record env =
  now :: nat
  uuid_to_string :: "uuid \<Rightarrow> string"
  string_generator :: "string \<Rightarrow> uuid option"
  version_unknown :: "uuid \<Rightarrow> bool"

text \<open>\<open>Common.hh\<close>, in seconds.\<close>

definition Timeout :: nat where "Timeout = 60"
definition HandshakeTimeout :: nat where "HandshakeTimeout = 30"
definition IdleTimeout :: nat where "IdleTimeout = 10"
definition PingTimeout :: nat where "PingTimeout = 30"
definition PongTimeout :: nat where "PongTimeout = 10"

datatype error_code =
    NoError
  | Eof
  | ConnectionReset
  | OperationAborted
  | ConnectionAborted
  | WsClosed
  | SslStreamTruncated
  | HttpEndOfStream
  | OtherError string

section \<open>TCP sessions\<close>

definition MaxInputSize :: nat where "MaxInputSize = 512"
definition MaxOutputSize :: nat where "MaxOutputSize = 512"

text \<open>What the completion handler given to \<open>writePacket\<close> does besides logging.\<close>

datatype tcp_completion = StartReading | StartPong | LogOnly

text \<open>
  Operations in flight: a read into \<open>input_\<close> at an offset with a capacity, a write of the
  first bytes of \<open>output_\<close>, waits on the two timers, the SSL handshake and shutdown. \<open>Armed\<close> is
  waiting, \<open>Fired\<close> a timer whose handler is queued and can no longer be cancelled, \<open>Aborted\<close>
  an operation that will complete with \<open>operation_aborted\<close>.
\<close>

datatype tcp_op =
    ReadSome nat nat
  | AsyncWrite nat tcp_completion
  | WaitPing
  | WaitPong
  | SslHandshake
  | SslShutdown

datatype op_status = Armed | Fired | Aborted

record TCPSession =
  input_buf :: "byte list"
  output_buf :: "byte list"
  numBytesLeft :: nat
  stationId :: StationId
  pingExpiry :: nat
  pongExpiry :: nat
  tcp_ops :: "(tcp_op \<times> op_status) list"
  deadline :: "nat option"
  socketOpen :: bool

text \<open>
  The constructor: both buffers are value-initialised, \<open>stationId_\<close> is not initialised at
  all, so its first value is an argument of the model.
\<close>

definition make_TCPSession :: "StationId \<Rightarrow> nat \<Rightarrow> TCPSession" where
  "make_TCPSession garbage t =
     \<lparr>input_buf = replicate MaxInputSize 0, output_buf = replicate MaxOutputSize 0, numBytesLeft = 0,
      stationId = garbage, pingExpiry = t + PingTimeout, pongExpiry = t + PongTimeout,
      tcp_ops = [], deadline = None, socketOpen = True\<rparr>"

definition start_op :: "tcp_op \<Rightarrow> TCPSession \<Rightarrow> TCPSession" where
  "start_op op s = s\<lparr>tcp_ops := tcp_ops s @ [(op, Armed)]\<rparr>"

definition cancel_ops :: "(tcp_op \<Rightarrow> bool) \<Rightarrow> TCPSession \<Rightarrow> TCPSession" where
  "cancel_ops P s =
     s\<lparr>tcp_ops := map (\<lambda>(op, st). if P op \<and> st = Armed then (op, Aborted) else (op, st)) (tcp_ops s)\<rparr>"

fun is_io :: "tcp_op \<Rightarrow> bool" where
  "is_io WaitPing = False"
| "is_io WaitPong = False"
| "is_io _ = True"

text \<open>\<open>writePacket\<close> copies the packet into \<open>output_\<close> and starts a write of that buffer.\<close>

definition writePacket :: "byte list \<Rightarrow> tcp_completion \<Rightarrow> TCPSession \<Rightarrow> TCPSession" where
  "writePacket packet handler s =
     start_op (AsyncWrite (length packet) handler)
       (s\<lparr>output_buf := packet @ drop (length packet) (output_buf s)\<rparr>)"

text \<open>The bytes a write in flight takes from \<open>output_\<close> when it is carried out.\<close>

definition written_bytes :: "TCPSession \<Rightarrow> nat \<Rightarrow> byte list" where
  "written_bytes s n = take n (output_buf s)"

definition doReadPacketHeader :: "env \<Rightarrow> TCPSession \<Rightarrow> TCPSession" where
  "doReadPacketHeader e s =
     start_op (ReadSome 0 MaxInputSize) (s\<lparr>deadline := Some (now e + Timeout)\<rparr>)"

definition TCPSession_run :: "TCPSession \<Rightarrow> TCPSession" where
  "TCPSession_run s = writePacket out_HandshakePacket StartReading s"

subsection \<open>The timers of \<open>TCPRequestHandler\<close>\<close>

text \<open>Setting an expiry cancels the waits on that timer.\<close>

definition stop :: "TCPSession \<Rightarrow> TCPSession" where
  "stop s = cancel_ops (\<lambda>op. op = WaitPong) (cancel_ops (\<lambda>op. op = WaitPing) s)"

definition startPingTimer :: "TCPSession \<Rightarrow> TCPSession" where
  "startPingTimer s = start_op WaitPing s"

definition startPongTimer :: "env \<Rightarrow> TCPSession \<Rightarrow> TCPSession" where
  "startPongTimer e s =
     start_op WaitPong ((cancel_ops (\<lambda>op. op = WaitPong) s)\<lparr>pongExpiry := now e + PongTimeout\<rparr>)"

definition restartPingTimer :: "TCPSession \<Rightarrow> TCPSession" where
  "restartPingTimer s =
     startPingTimer ((cancel_ops (\<lambda>op. op = WaitPing) s)\<lparr>pingExpiry := pingExpiry s + PingTimeout\<rparr>)"

definition restartPongTimer :: "env \<Rightarrow> TCPSession \<Rightarrow> TCPSession" where
  "restartPongTimer e s =
     startPongTimer e
       ((cancel_ops (\<lambda>op. op = WaitPong) s)\<lparr>pongExpiry := pongExpiry s + PongTimeout\<rparr>)"

definition onPingTimeout :: "error_code \<Rightarrow> TCPSession \<Rightarrow> TCPSession" where
  "onPingTimeout err s =
     (if err = OperationAborted then s
      else restartPingTimer (writePacket out_PingPacket StartPong s))"

text \<open>
  \<open>disconnect\<close> of the two kinds of session. Closing a socket, and \<open>cancel\<close>, abort the socket
  operations in flight; errors of \<open>shutdown\<close> and \<open>close\<close> are only logged.
\<close>

fun disconnect :: "proto \<Rightarrow> env \<Rightarrow> TCPSession \<Rightarrow> TCPSession" where
  "disconnect Plain e s = cancel_ops is_io (s\<lparr>socketOpen := False\<rparr>)"
| "disconnect SSL e s =
     start_op SslShutdown (cancel_ops is_io (s\<lparr>deadline := Some (now e + Timeout)\<rparr>))"

definition onPongTimeout :: "proto \<Rightarrow> env \<Rightarrow> error_code \<Rightarrow> TCPSession \<Rightarrow> TCPSession" where
  "onPongTimeout k e err s = (if err = OperationAborted then s else disconnect k e s)"

text \<open>The completion of a write: the handler runs only when there was no error.\<close>

fun run_completion :: "env \<Rightarrow> tcp_completion \<Rightarrow> TCPSession \<Rightarrow> TCPSession" where
  "run_completion e StartReading s = doReadPacketHeader e s"
| "run_completion e StartPong s = startPongTimer e s"
| "run_completion e LogOnly s = s"

definition onPacketWritten :: "env \<Rightarrow> error_code \<Rightarrow> tcp_completion \<Rightarrow> TCPSession \<Rightarrow> TCPSession" where
  "onPacketWritten e err handler s = (if err \<noteq> NoError then s else run_completion e handler s)"

section \<open>WebSocket sessions\<close>

datatype ws_completion = LogWeatherStatus | LogAvailableStations

datatype ws_op =
    WsAccept
  | WsRead
  | WsWrite string ws_completion
  | WsClose

text \<open>
  \<open>uuid_\<close> is not initialised before the handshake is accepted. \<open>completed\<close> is the log the
  completion handlers write: which handler ran with how many bytes.
\<close>

record WebSocketSession =
  uuid :: uuid
  buffer :: "byte list"
  outBuffer :: string
  queue :: "string list"
  ws_ops :: "ws_op list"
  completed :: "(ws_completion \<times> nat) list"

definition make_WebSocketSession :: "uuid \<Rightarrow> WebSocketSession" where
  "make_WebSocketSession garbage =
     \<lparr>uuid = garbage, buffer = [], outBuffer = [], queue = [], ws_ops = [], completed = []\<rparr>"

definition start_ws_op :: "ws_op \<Rightarrow> WebSocketSession \<Rightarrow> WebSocketSession" where
  "start_ws_op op w = w\<lparr>ws_ops := ws_ops w @ [op]\<rparr>"

text \<open>
  A write refers to the characters of the string at the front of \<open>queue_\<close>, which no code
  changes before the write completes, so the operation carries its text. A \<open>push_back\<close> during
  the write may move the strings of the vector: that leaves the characters of a long string
  where they are, but not those of one short enough to be kept inside the string object. The
  texts the server sends are longer (the shortest, the reply that no station is available, has
  22 characters), so the model does not follow the move.
\<close>

definition enqueue :: "string \<Rightarrow> ws_completion \<Rightarrow> WebSocketSession \<Rightarrow> WebSocketSession" where
  "enqueue text handler w =
     (let w = w\<lparr>queue := queue w @ [text]\<rparr>
      in if length (queue w) > 1 then w
         else start_ws_op (WsWrite (hd (queue w)) handler) (w\<lparr>outBuffer := text\<rparr>))"

text \<open>\<open>_request.dump()\<close> with the default arguments: compact, UTF-8 as it is, strict.\<close>

definition JSON_dump :: "json \<Rightarrow> string result" where
  "JSON_dump j = json_dump (- 1) CHR '' '' False Strict j"

definition writeRequest ::
  "json \<Rightarrow> ws_completion \<Rightarrow> WebSocketSession \<Rightarrow> WebSocketSession result" where
  "writeRequest request handler w =
     bind_result (JSON_dump request) (\<lambda>text. Inr (enqueue text handler w))"

definition onWrite ::
  "error_code \<Rightarrow> nat \<Rightarrow> ws_completion \<Rightarrow> WebSocketSession \<Rightarrow> WebSocketSession result" where
  "onWrite err bytes_transferred handler w =
     (if err \<noteq> NoError then Inr w
      else case queue w of
        [] \<Rightarrow> Inl (Undefined EraseEmpty)
      | _ # rest \<Rightarrow>
          let w = w\<lparr>queue := rest\<rparr>;
              w = (if rest \<noteq> [] then start_ws_op (WsWrite (hd rest) handler) w else w)
          in Inr (w\<lparr>completed := completed w @ [(handler, bytes_transferred)]\<rparr>))"

text \<open>The JSON answer to a weather report, built field by field.\<close>

definition RequestType_WeatherStatus :: "32 word" where "RequestType_WeatherStatus = 0x00"
definition RequestType_AvailableStations :: "32 word" where "RequestType_AvailableStations = 0x01"
definition ResponseType_WeatherStatus :: "32 word" where "ResponseType_WeatherStatus = 0x00"
definition ResponseType_AvailableStations :: "32 word" where "ResponseType_AvailableStations = 0x01"

definition weather_response :: "WeatherStatusNotification \<Rightarrow> json result" where
  "weather_response n =
     bind_result (json_assign (JObject []) ''id'' (json_of_enum ResponseType_WeatherStatus)) (\<lambda>r.
     bind_result (json_assign r ''stationId'' (json_of_enum (n_id n))) (\<lambda>r.
     bind_result (json_assign r ''temperature'' (json_of_float (n_temperature n))) (\<lambda>r.
     bind_result (json_assign r ''humidity'' (json_of_float (n_humidity n))) (\<lambda>r.
     json_assign r ''time'' (JString (put_time (gmtime (unat (n_time n)))))))))"

definition onWeatherStatusNotification ::
  "WeatherStatusNotification \<Rightarrow> WebSocketSession \<Rightarrow> WebSocketSession result" where
  "onWeatherStatusNotification n w =
     bind_result (weather_response n) (\<lambda>response. writeRequest response LogWeatherStatus w)"

lemma weather_response_eq:
  "weather_response n = Inr (JObject
     [(''humidity'', json_of_float (n_humidity n)),
      (''id'', JInt 0),
      (''stationId'', JInt (ucast (n_id n))),
      (''temperature'', json_of_float (n_temperature n)),
      (''time'', JString (put_time (gmtime (unat (n_time n)))))])"
  by (simp add: weather_response_def json_of_enum_def ResponseType_WeatherStatus_def
      less_char_def)

section \<open>Frame facts\<close>

lemma start_op_simps [simp]:
  "input_buf (start_op op s) = input_buf s" "output_buf (start_op op s) = output_buf s"
  "numBytesLeft (start_op op s) = numBytesLeft s" "stationId (start_op op s) = stationId s"
  "pingExpiry (start_op op s) = pingExpiry s" "pongExpiry (start_op op s) = pongExpiry s"
  "deadline (start_op op s) = deadline s" "socketOpen (start_op op s) = socketOpen s"
  "tcp_ops (start_op op s) = tcp_ops s @ [(op, Armed)]"
  by (simp_all add: start_op_def)

lemma cancel_ops_simps [simp]:
  "input_buf (cancel_ops P s) = input_buf s" "output_buf (cancel_ops P s) = output_buf s"
  "numBytesLeft (cancel_ops P s) = numBytesLeft s" "stationId (cancel_ops P s) = stationId s"
  "pingExpiry (cancel_ops P s) = pingExpiry s" "pongExpiry (cancel_ops P s) = pongExpiry s"
  "deadline (cancel_ops P s) = deadline s" "socketOpen (cancel_ops P s) = socketOpen s"
  "length (tcp_ops (cancel_ops P s)) = length (tcp_ops s)"
  "map fst (tcp_ops (cancel_ops P s)) = map fst (tcp_ops s)"
  by (auto simp: cancel_ops_def)

lemma cancelled_not_armed: "P op \<Longrightarrow> (op, Armed) \<notin> set (tcp_ops (cancel_ops P s))"
  by (auto simp: cancel_ops_def split: if_splits)

text \<open>What no operation on a TCP session but the read path and the handshake handler changes.\<close>

lemma keep_input [frame_simps]:
  "input_buf (writePacket b h s) = input_buf s" "numBytesLeft (writePacket b h s) = numBytesLeft s"
  "input_buf (stop s) = input_buf s" "numBytesLeft (stop s) = numBytesLeft s"
  "input_buf (startPingTimer s) = input_buf s" "numBytesLeft (startPingTimer s) = numBytesLeft s"
  "input_buf (startPongTimer e s) = input_buf s" "numBytesLeft (startPongTimer e s) = numBytesLeft s"
  "input_buf (restartPingTimer s) = input_buf s" "numBytesLeft (restartPingTimer s) = numBytesLeft s"
  "input_buf (doReadPacketHeader e s) = input_buf s"
  "numBytesLeft (doReadPacketHeader e s) = numBytesLeft s"
  "input_buf (disconnect k e s) = input_buf s" "numBytesLeft (disconnect k e s) = numBytesLeft s"
  by (simp_all add: writePacket_def stop_def startPingTimer_def startPongTimer_def
      restartPingTimer_def doReadPacketHeader_def) (cases k; simp)+

lemma keep_stationId [frame_simps]:
  "stationId (writePacket b h s) = stationId s"
  "stationId (stop s) = stationId s"
  "stationId (startPingTimer s) = stationId s"
  "stationId (startPongTimer e s) = stationId s"
  "stationId (restartPingTimer s) = stationId s"
  "stationId (doReadPacketHeader e s) = stationId s"
  "stationId (disconnect k e s) = stationId s"
  by (simp_all add: writePacket_def stop_def startPingTimer_def startPongTimer_def
      restartPingTimer_def doReadPacketHeader_def) (cases k; simp)

lemma length_output_writePacket:
  "length (output_buf s) = MaxOutputSize \<Longrightarrow> length b \<le> MaxOutputSize \<Longrightarrow>
     length (output_buf (writePacket b h s)) = MaxOutputSize"
  by (simp add: writePacket_def)

lemma written_bytes_writePacket:
  "written_bytes (writePacket b h s) (length b) = b"
  by (simp add: written_bytes_def writePacket_def)

end
