(* ===== verification/Tcp_Handler.thy ===== *)
theory Tcp_Handler
  imports Session_State
begin

text \<open>
  \<open>TCPRequestHandler.hh\<close>: dispatch on the packet type and the three packet handlers. A handler
  runs for one session (\<open>self\<close>), reads and updates the shared state, and may call back into
  WebSocket sessions. The ping and pong timers it owns are in \<open>Session_State\<close>.
\<close>

section \<open>Handler results and context\<close>

datatype ResultType = Good | Bad | Indeterminate | PayloadTooBig

type_synonym HandlerReturnType = "ResultType \<times> nat"

record tcp_ctx =
  self :: TCPSession
  shared :: SharedState
  websockets :: "proto \<Rightarrow> ptr \<Rightarrow> WebSocketSession option"

text \<open>A WebSocket session the map does not hold has been destroyed.\<close>

definition live_websocket :: "tcp_ctx \<Rightarrow> proto \<Rightarrow> ptr \<Rightarrow> refstate" where
  "live_websocket c k p = (if websockets c k p = None then Freed else Alive)"

text \<open>Calling a notification callback runs the session's \<open>onWeatherStatusNotification\<close> at once.\<close>

fun call_notification ::
  "proto \<Rightarrow> NotificationCallback \<Rightarrow> WeatherStatusNotification \<Rightarrow> tcp_ctx \<Rightarrow> tcp_ctx result"
where
  "call_notification k (NotifySession p) n c =
     (case websockets c k p of
        None \<Rightarrow> Inl (Undefined DanglingPointer)
      | Some w \<Rightarrow>
          bind_result (onWeatherStatusNotification n w) (\<lambda>w'.
            Inr (c\<lparr>websockets := (websockets c)(k := (websockets c k)(p := Some w'))\<rparr>)))"

section \<open>The handshake\<close>

definition isValidUUID :: "env \<Rightarrow> string \<Rightarrow> bool" where
  "isValidUUID e maybe_uuid =
     (case string_generator e maybe_uuid of
        Some u \<Rightarrow> \<not> version_unknown e u
      | None \<Rightarrow> False)"

fun any_uuid_matches :: "string \<Rightarrow> json list \<Rightarrow> bool result" where
  "any_uuid_matches u [] = Inr False"
| "any_uuid_matches u (x # xs) =
     bind_result (json_subscript_const x ''uuid'') (\<lambda>j.
     bind_result (json_get_string j) (\<lambda>s.
       if u = s then Inr True else any_uuid_matches u xs))"

text \<open>The lambda is \<open>noexcept\<close>, and it indexes the constant configuration.\<close>

definition isUUIDRegistered :: "json \<Rightarrow> string \<Rightarrow> bool result" where
  "isUUIDRegistered cfg u =
     noexcept
       (bind_result (json_subscript_const cfg ''uuids'') (\<lambda>us. any_uuid_matches u (json_items us)))"

definition sendBadRequest :: "HandshakeReason \<Rightarrow> tcp_ctx \<Rightarrow> HandlerReturnType \<times> tcp_ctx" where
  "sendBadRequest reason c =
     ((Good, sizeof_HandshakePacket),
      c\<lparr>self := writePacket (out_HandshakeNAKPacket reason) LogOnly (self c)\<rparr>)"

definition handleHandshakePacket ::
  "env \<Rightarrow> proto \<Rightarrow> ptr \<Rightarrow> byte list \<Rightarrow> tcp_ctx \<Rightarrow> (HandlerReturnType \<times> tcp_ctx) result" where
  "handleHandshakePacket e k p view c =
     (let packet = HandshakePacket_view view;
          sid = hs_stationId packet
      in if \<not> (sid \<ge> 0 \<and> sid < StationId_Max) then Inr (sendBadRequest ReasonStationIdInvalid c)
         else let uuidStr = uuid_to_string e (hs_uuid packet)
         in if \<not> isValidUUID e uuidStr then Inr (sendBadRequest ReasonUUIDInvalidFormat c)
         else bind_result (isUUIDRegistered (config (shared c)) (c_str uuidStr)) (\<lambda>registered.
           if registered then
             (let (st, joined) = join_TCPSession k sid p (shared c);
                  c = c\<lparr>shared := st\<rparr>
              in if \<not> joined then Inr (sendBadRequest ReasonStationIdAlready c)
                 else let s = (self c)\<lparr>stationId := sid\<rparr>;
                          s = startPingTimer s;
                          s = writePacket out_HandshakeACKPacket LogOnly s
                      in Inr ((Good, sizeof_HandshakePacket), c\<lparr>self := s\<rparr>))
           else Inr (sendBadRequest ReasonUUIDInvalid c)))"

section \<open>Pong and weather reports\<close>

definition handlePongPacket :: "byte list \<Rightarrow> tcp_ctx \<Rightarrow> HandlerReturnType \<times> tcp_ctx" where
  "handlePongPacket view c =
     ((Good, sizeof_PongPacket), c\<lparr>self := cancel_ops (\<lambda>op. op = WaitPong) (self c)\<rparr>)"

definition handleWeatherStatusPacket ::
  "byte list \<Rightarrow> tcp_ctx \<Rightarrow> (HandlerReturnType \<times> tcp_ctx) result" where
  "handleWeatherStatusPacket view c =
     (let packet = WeatherStatusPacket_view view;
          notification =
            \<lparr>n_id = stationId (self c), n_temperature = ws_temperature packet,
             n_humidity = ws_humidity packet, n_time = ws_time packet\<rparr>
      in bind_result
           (bind_result (findWebSocketSession Plain (live_websocket c Plain) (ws_uuid packet) (shared c))
             (\<lambda>callback. case callback of
                Some cb \<Rightarrow> call_notification Plain cb notification c
              | None \<Rightarrow>
                  bind_result
                    (findWebSocketSession SSL (live_websocket c SSL) (ws_uuid packet) (shared c))
                    (\<lambda>callback. case callback of
                       Some cb \<Rightarrow> call_notification SSL cb notification c
                     | None \<Rightarrow> Inr c)))
           (\<lambda>c. Inr ((Good, sizeof_WeatherStatusPacket), c)))"

section \<open>Dispatch\<close>

definition handle ::
  "env \<Rightarrow> proto \<Rightarrow> ptr \<Rightarrow> in_PacketType \<Rightarrow> byte list \<Rightarrow> tcp_ctx
     \<Rightarrow> (HandlerReturnType \<times> tcp_ctx) result" where
  "handle e k p pid view c =
     (if length view < sizeByPacketId pid then Inr ((Indeterminate, 0), c)
      else case pid of
        In_Handshake \<Rightarrow> handleHandshakePacket e k p view c
      | In_Pong \<Rightarrow> Inr (handlePongPacket view c)
      | In_WeatherStatus \<Rightarrow> handleWeatherStatusPacket view c
      | In_Unnamed _ \<Rightarrow> Inr ((Bad, 0), c))"

lemmas [handler_defs] =
  sendBadRequest_def handleHandshakePacket_def handlePongPacket_def handleWeatherStatusPacket_def

section \<open>What a handler call returns and leaves alone\<close>

lemma sendBadRequest_simps [simp]:
  "fst (sendBadRequest r c) = (Good, sizeof_HandshakePacket)"
  "shared (snd (sendBadRequest r c)) = shared c"
  "websockets (snd (sendBadRequest r c)) = websockets c"
  "self (snd (sendBadRequest r c)) = writePacket (out_HandshakeNAKPacket r) LogOnly (self c)"
  by (simp_all add: sendBadRequest_def)

lemma handleHandshakePacket_result:
  "handleHandshakePacket e k p view c = Inr (r, c') \<Longrightarrow> r = (Good, sizeof_HandshakePacket)"
  by (auto simp: handler_defs Let_def bind_result_Inr_iff split: if_splits prod.splits)

lemma handleWeatherStatusPacket_result:
  "handleWeatherStatusPacket view c = Inr (r, c') \<Longrightarrow> r = (Good, sizeof_WeatherStatusPacket)"
  by (auto simp: handler_defs Let_def bind_result_Inr_iff)

text \<open>The result of \<open>handle\<close> is decided by the packet type and the number of bytes alone.\<close>

definition handle_verdict :: "in_PacketType \<Rightarrow> nat \<Rightarrow> HandlerReturnType" where
  "handle_verdict pid n =
     (if n < sizeByPacketId pid then (Indeterminate, 0)
      else if sizeByPacketId pid = 0 then (Bad, 0)
      else (Good, sizeByPacketId pid))"

lemma handle_result:
  assumes "handle e k p pid view c = Inr (r, c')"
  shows "r = handle_verdict pid (length view)"
proof (cases "length view < sizeByPacketId pid")
  case True
  with assms show ?thesis by (simp add: handle_def handle_verdict_def)
next
  case False
  with assms show ?thesis
    by (cases pid)
      (auto simp: handle_def handle_verdict_def handlePongPacket_def size_simps
        dest: handleHandshakePacket_result handleWeatherStatusPacket_result)
qed

lemma handle_short:
  "length view < sizeByPacketId pid \<Longrightarrow> handle e k p pid view c = Inr ((Indeterminate, 0), c)"
  by (simp add: handle_def)

lemma handle_unknown: "handle e k p (In_Unnamed b) view c = Inr ((Bad, 0), c)"
  by (simp add: handle_def)

lemma handle_never_PayloadTooBig:
  "handle e k p pid view c = Inr ((rt, n), c') \<Longrightarrow> rt \<noteq> PayloadTooBig"
  by (auto dest!: handle_result simp: handle_verdict_def split: if_splits)

lemma handle_Good_size:
  "handle e k p pid view c = Inr ((Good, n), c') \<Longrightarrow>
     n = sizeByPacketId pid \<and> 0 < n \<and> n \<le> length view"
  by (auto dest!: handle_result simp: handle_verdict_def split: if_splits)

lemma call_notification_frame:
  assumes "call_notification k cb n c = Inr c'"
  shows "self c' = self c" "shared c' = shared c"
  using assms by (cases cb; auto simp: bind_result_Inr_iff split: option.splits)+

lemma handleWeatherStatusPacket_frame:
  assumes "handleWeatherStatusPacket view c = Inr (r, c')"
  shows "self c' = self c" "shared c' = shared c"
  using assms
  by (auto simp: handleWeatherStatusPacket_def Let_def bind_result_Inr_iff
      dest: call_notification_frame split: option.splits)

lemma handleHandshakePacket_frame:
  assumes "handleHandshakePacket e k p view c = Inr (r, c')"
  shows "input_buf (self c') = input_buf (self c)" "numBytesLeft (self c') = numBytesLeft (self c)"
    "websockets c' = websockets c"
  using assms
  by (auto simp: handler_defs Let_def bind_result_Inr_iff frame_simps split: if_splits prod.splits)

lemma handle_frame:
  assumes "handle e k p pid view c = Inr (r, c')"
  shows "input_buf (self c') = input_buf (self c)" "numBytesLeft (self c') = numBytesLeft (self c)"
  using assms
  by (auto simp: handle_def handlePongPacket_def
      dest: handleHandshakePacket_frame handleWeatherStatusPacket_frame
      split: if_splits in_PacketType.splits)

lemma handleHandshakePacket_shared:
  assumes "handleHandshakePacket e k p view c = Inr (r, c')"
  shows "shared c' = shared c
       \<or> shared c' = fst (join_TCPSession k (hs_stationId (HandshakePacket_view view)) p (shared c))"
  using assms
  by (auto simp: handler_defs Let_def bind_result_Inr_iff case_prod_unfold split: if_splits)

lemma handle_SharedState_ok:
  assumes "handle e k p pid view c = Inr (r, c')" "SharedState_ok (shared c)"
  shows "SharedState_ok (shared c')"
proof (cases pid)
  case In_Handshake
  with assms have "handleHandshakePacket e k p view c = Inr (r, c') \<or> c' = c"
    by (auto simp: handle_def split: if_splits)
  then show ?thesis
    using handleHandshakePacket_shared assms(2) SharedState_ok_ops(1) by metis
next
  case In_Pong
  with assms show ?thesis by (auto simp: handle_def handlePongPacket_def split: if_splits)
next
  case In_WeatherStatus
  with assms show ?thesis
    by (auto simp: handle_def dest: handleWeatherStatusPacket_frame split: if_splits)
next
  case (In_Unnamed b)
  with assms show ?thesis by (auto simp: handle_def split: if_splits)
qed

end
