(* ===== verification/Tcp_Session.thy ===== *)
theory Tcp_Session
  imports Tcp_Handler
begin

text \<open>
  \<open>TCPSession.hh\<close>: reading from a station and the loop that cuts the received bytes into
  packets, with the start and the end of SSL sessions (\<open>SSLTCPSession.cc\<close>). The second half
  relates the loop, which moves bytes inside a fixed array, to an abstract splitting of the
  byte stream into frames.
\<close>

section \<open>The read path\<close>

text \<open>The subtraction of the 64-bit \<open>std::size_t\<close>, which wraps.\<close>

definition size_diff :: "nat \<Rightarrow> nat \<Rightarrow> nat" where
  "size_diff a b = nat ((int a - int b) mod 2 ^ 64)"

lemma size_diff_nat:
  assumes "b \<le> a"
  shows "size_diff a b = (a - b) mod 2 ^ 64"
proof -
  have "(int a - int b) mod 2 ^ 64 = int ((a - b) mod 2 ^ 64)"
    using assms by (simp add: zmod_int)
  then show ?thesis by (simp add: size_diff_def)
qed

lemma size_diff_eq: "b \<le> a \<Longrightarrow> a < 2 ^ 64 \<Longrightarrow> size_diff a b = a - b"
  by (simp add: size_diff_nat)

lemma size_diff_le: "b \<le> a \<Longrightarrow> size_diff a b \<le> a - b"
  by (simp add: size_diff_nat)

text \<open>\<open>std::memmove\<close> of the unread bytes to the front and the update of \<open>numBytesLeft_\<close>.\<close>

definition pop_packet :: "nat \<Rightarrow> TCPSession \<Rightarrow> TCPSession" where
  "pop_packet n s =
     (let m = size_diff (numBytesLeft s) n
      in s\<lparr>input_buf := take m (drop n (input_buf s)) @ drop m (input_buf s), numBytesLeft := m\<rparr>)"

definition read_more :: "env \<Rightarrow> TCPSession \<Rightarrow> TCPSession" where
  "read_more e s =
     start_op (ReadSome (numBytesLeft s) (MaxInputSize - numBytesLeft s))
       (s\<lparr>deadline := Some (now e + Timeout)\<rparr>)"

lemma pop_packet_less:
  "0 < n \<Longrightarrow> n \<le> numBytesLeft s \<Longrightarrow> numBytesLeft (pop_packet n s) < numBytesLeft s"
  using size_diff_le [of n "numBytesLeft s"] by (simp add: pop_packet_def Let_def)

text \<open>
  The \<open>while\<close> loop. \<open>PayloadTooBig\<close> has no case in the \<open>switch\<close>, so it would go round again.
\<close>

function parsePacketHeader :: "env \<Rightarrow> proto \<Rightarrow> ptr \<Rightarrow> tcp_ctx \<Rightarrow> tcp_ctx result" where
  "parsePacketHeader e k p c =
     (if numBytesLeft (self c) = 0 then Inr c
      else let pid = in_PacketType_of (input_buf (self c) ! 0);
               view = take (numBytesLeft (self c)) (input_buf (self c))
           in case handle e k p pid view c of
                Inl x \<Rightarrow> Inl x
              | Inr ((status, bytesParsed), c') \<Rightarrow>
                  let s = pop_packet bytesParsed (self c')
                  in case status of
                       Good \<Rightarrow>
                         if numBytesLeft s > 0 then parsePacketHeader e k p (c'\<lparr>self := s\<rparr>)
                         else Inr (c'\<lparr>self := doReadPacketHeader e s\<rparr>)
                     | Bad \<Rightarrow> Inr (c'\<lparr>self := s\<rparr>)
                     | Indeterminate \<Rightarrow> Inr (c'\<lparr>self := read_more e s\<rparr>)
                     | PayloadTooBig \<Rightarrow> parsePacketHeader e k p (c'\<lparr>self := s\<rparr>))"
  by pat_completeness auto
termination
proof (relation "measure (\<lambda>(e, k, p, c). numBytesLeft (self c))", goal_cases)
  case 1
  then show ?case by simp
next
  case (2 e k p c pid view r rn c' status n s)
  then have h: "handle e k p pid view c = Inr ((Good, n), c')" by simp
  from handle_Good_size [OF h] handle_frame(2) [OF h] pop_packet_less [of n "self c'"] 2 show ?case
    by simp
next
  case (3 e k p c pid view r rn c' status n s)
  then have "handle e k p pid view c = Inr ((PayloadTooBig, n), c')" by simp
  then show ?case by (auto dest: handle_never_PayloadTooBig)
qed

declare parsePacketHeader.simps [simp del]

text \<open>
  The first branch returns on any error, so the next three are never taken; they are kept as
  the code has them.
\<close>

definition onReadPacketHeader ::
  "env \<Rightarrow> proto \<Rightarrow> ptr \<Rightarrow> error_code \<Rightarrow> nat \<Rightarrow> tcp_ctx \<Rightarrow> tcp_ctx result" where
  "onReadPacketHeader e k p err bytesTransferred c =
     (if err \<noteq> NoError then Inr (c\<lparr>self := disconnect k e (stop (self c))\<rparr>)
      else if err = Eof \<or> err = ConnectionReset then Inr c
      else if err = OperationAborted \<or> err = ConnectionAborted then Inr c
      else if err \<noteq> NoError then Inr c
      else let s = (self c)\<lparr>deadline := None\<rparr>;
               s = s\<lparr>numBytesLeft := numBytesLeft s + bytesTransferred\<rparr>
           in parsePacketHeader e k p (c\<lparr>self := s\<rparr>))"

section \<open>SSL sessions\<close>

text \<open>
  \<open>run\<close> of the two kinds: a plain session greets at once, an SSL session performs its
  handshake first. \<open>onShutdown\<close> closes the socket.
\<close>

fun run :: "proto \<Rightarrow> env \<Rightarrow> TCPSession \<Rightarrow> TCPSession" where
  "run Plain e s = TCPSession_run s"
| "run SSL e s = start_op SslHandshake (s\<lparr>deadline := Some (now e + Timeout)\<rparr>)"

definition onHandshake :: "error_code \<Rightarrow> TCPSession \<Rightarrow> TCPSession" where
  "onHandshake err s = (if err \<noteq> NoError then s else TCPSession_run s)"

definition onShutdown :: "error_code \<Rightarrow> TCPSession \<Rightarrow> TCPSession" where
  "onShutdown err s =
     (if err \<noteq> NoError then s else cancel_ops is_io (s\<lparr>socketOpen := False\<rparr>))"

section \<open>Completions\<close>

text \<open>An operation leaves the list when it completes; a read has then filled its buffer.\<close>

definition finish_op :: "tcp_op \<times> op_status \<Rightarrow> TCPSession \<Rightarrow> TCPSession" where
  "finish_op op s = s\<lparr>tcp_ops := remove1 op (tcp_ops s)\<rparr>"

definition receive :: "nat \<Rightarrow> byte list \<Rightarrow> TCPSession \<Rightarrow> TCPSession" where
  "receive off d s =
     s\<lparr>input_buf := take off (input_buf s) @ d @ drop (off + length d) (input_buf s)\<rparr>"

text \<open>The read in flight, as both calls of \<open>async_read_some\<close> place it.\<close>

definition current_read :: "TCPSession \<Rightarrow> tcp_op" where
  "current_read s = ReadSome (numBytesLeft s) (MaxInputSize - numBytesLeft s)"

definition deliver ::
  "env \<Rightarrow> proto \<Rightarrow> ptr \<Rightarrow> byte list \<Rightarrow> tcp_ctx \<Rightarrow> tcp_ctx result" where
  "deliver e k p d c =
     (let s = finish_op (current_read (self c), Armed) (self c);
          s = receive (numBytesLeft s) d s
      in onReadPacketHeader e k p NoError (length d) (c\<lparr>self := s\<rparr>))"

fun deliver_all ::
  "env \<Rightarrow> proto \<Rightarrow> ptr \<Rightarrow> byte list list \<Rightarrow> tcp_ctx \<Rightarrow> tcp_ctx result" where
  "deliver_all e k p [] c = Inr c"
| "deliver_all e k p (d # ds) c = bind_result (deliver e k p d c) (deliver_all e k p ds)"

end
