(* ===== verification/Tcp_Framing.thy ===== *)
theory Tcp_Framing
  imports Tcp_Session
begin

text \<open>
  What the read loop of a TCP session promises: it cuts the byte stream of a station into
  packets by the type byte in front of each, hands every complete packet to its handler in
  order, keeps an incomplete one, and does so however the bytes arrive in reads. The abstract
  side works on byte lists; the lemmas relate it to the loop over the 512-byte array.
\<close>

section \<open>Frames of a byte stream\<close>

text \<open>Complete frames, unread rest, and whether the rest begins with an unknown type byte.\<close>

function frames :: "byte list \<Rightarrow> byte list list \<times> byte list \<times> bool" where
  "frames bs =
     (case bs of
        [] \<Rightarrow> ([], [], False)
      | b # _ \<Rightarrow>
          let n = sizeByPacketId (in_PacketType_of b)
          in if n = 0 then ([], bs, True)
             else if length bs < n then ([], bs, False)
             else let (fs, rest, bad) = frames (drop n bs) in (take n bs # fs, rest, bad))"
  by pat_completeness auto
termination
  by (relation "measure length") auto

declare frames.simps [simp del]

abbreviation frame_size :: "byte list \<Rightarrow> nat" where
  "frame_size bs \<equiv> sizeByPacketId (in_PacketType_of (hd bs))"

lemma frames_Nil [simp]: "frames [] = ([], [], False)"
  by (simp add: frames.simps)

lemma frames_unfold:
  "bs \<noteq> [] \<Longrightarrow> frames bs =
     (if frame_size bs = 0 then ([], bs, True)
      else if length bs < frame_size bs then ([], bs, False)
      else let (fs, rest, bad) = frames (drop (frame_size bs) bs)
           in (take (frame_size bs) bs # fs, rest, bad))"
  by (subst frames.simps) (simp add: Let_def split: list.split)

lemma frames_step:
  assumes "bs \<noteq> []" "0 < frame_size bs" "frame_size bs \<le> length bs"
  shows "frames bs = (fs, rest, bad) \<longleftrightarrow>
     (\<exists>fs'. fs = take (frame_size bs) bs # fs' \<and> frames (drop (frame_size bs) bs) = (fs', rest, bad))"
  using assms by (auto simp: frames_unfold split: prod.splits)

lemma frames_induct [case_names stop step]:
  assumes stop: "\<And>bs. bs = [] \<or> frame_size bs = 0 \<or> length bs < frame_size bs \<Longrightarrow> P bs"
    and step: "\<And>bs. bs \<noteq> [] \<Longrightarrow> 0 < frame_size bs \<Longrightarrow> frame_size bs \<le> length bs \<Longrightarrow>
      P (drop (frame_size bs) bs) \<Longrightarrow> P bs"
  shows "P bs"
proof (induction bs rule: length_induct)
  case (1 bs)
  show ?case
  proof (cases "bs = [] \<or> frame_size bs = 0 \<or> length bs < frame_size bs")
    case True
    then show ?thesis by (rule stop)
  next
    case False
    then have "length (drop (frame_size bs) bs) < length bs" by simp
    with 1 have "P (drop (frame_size bs) bs)" by blast
    with False show ?thesis by (intro step [of bs]) auto
  qed
qed

lemma frames_concat: "frames bs = (fs, rest, bad) \<Longrightarrow> concat fs @ rest = bs"
proof (induction bs arbitrary: fs rule: frames_induct)
  case (stop bs)
  then show ?case by (cases "bs = []") (auto simp: frames_unfold split: if_splits)
next
  case (step bs)
  then show ?case by (auto simp: frames_step)
qed

text \<open>Splitting can stop and go on later: this is what makes reads of any size equivalent.\<close>

lemma frames_append:
  assumes "frames bs = (fs, rest, False)"
  shows "frames (bs @ cs) = (case frames (rest @ cs) of (gs, r, bad) \<Rightarrow> (fs @ gs, r, bad))"
  using assms
proof (induction bs arbitrary: fs rule: frames_induct)
  case (stop bs)
  then show ?case by (cases "bs = []") (auto simp: frames_unfold split: if_splits)
next
  case (step bs)
  then obtain fs' where fs': "frames (drop (frame_size bs) bs) = (fs', rest, False)"
    and fs: "fs = take (frame_size bs) bs # fs'"
    by (auto simp: frames_step)
  have "frames (bs @ cs) =
      (case frames (drop (frame_size bs) bs @ cs) of (gs, r, bad) \<Rightarrow> (take (frame_size bs) bs # gs, r, bad))"
    using step.hyps by (simp add: frames_unfold [of "bs @ cs"])
  with step.IH [OF fs'] fs show ?case by (simp split: prod.splits)
qed

lemma frames_rest:
  "frames bs = (fs, rest, bad) \<Longrightarrow>
     frames rest = ([], rest, bad) \<and> (\<not> bad \<longrightarrow> rest = [] \<or> length rest < frame_size rest)"
proof (induction bs arbitrary: fs rule: frames_induct)
  case (stop bs)
  then show ?case by (cases "bs = []") (auto simp: frames_unfold split: if_splits)
next
  case (step bs)
  then show ?case by (auto simp: frames_step)
qed

lemma frames_rest_small: "frames bs = (fs, rest, False) \<Longrightarrow> length rest < 30"
  using frames_rest [of bs fs rest False] sizeByPacketId_le [of "in_PacketType_of (hd rest)"]
  by auto

lemma frames_sizes:
  "frames bs = (fs, rest, bad) \<Longrightarrow>
     \<forall>f \<in> set fs. f \<noteq> [] \<and> length f = frame_size f \<and> 0 < frame_size f"
proof (induction bs arbitrary: fs rule: frames_induct)
  case (stop bs)
  then show ?case by (cases "bs = []") (auto simp: frames_unfold split: if_splits)
next
  case (step bs)
  from step.hyps step.prems obtain fs'
    where fs': "frames (drop (frame_size bs) bs) = (fs', rest, bad)"
      and fs: "fs = take (frame_size bs) bs # fs'"
    by (auto simp: frames_step)
  from fs' have "\<forall>f \<in> set fs'. f \<noteq> [] \<and> length f = frame_size f \<and> 0 < frame_size f"
    by (rule step.IH)
  moreover have "hd (take (frame_size bs) bs) = hd bs"
    using step.hyps by (cases bs) (auto simp: take_Cons')
  ultimately show ?case
    using fs step.hyps by simp
qed

section \<open>Handlers see only their own packet\<close>

lemma HandshakePacket_view_take:
  "18 \<le> length v \<Longrightarrow> HandshakePacket_view (take 18 v) = HandshakePacket_view v"
  by (simp add: HandshakePacket_view_def drop_take min_def)

lemma WeatherStatusPacket_view_take:
  "30 \<le> length v \<Longrightarrow> WeatherStatusPacket_view (take 30 v) = WeatherStatusPacket_view v"
  by (simp add: WeatherStatusPacket_view_def drop_take min_def le32_def)

lemma handle_take:
  assumes "sizeByPacketId pid \<le> length view"
  shows "handle e k p pid (take (sizeByPacketId pid) view) c = handle e k p pid view c"
  using assms
  by (cases pid)
    (auto simp: handle_def handleHandshakePacket_def handlePongPacket_def
      handleWeatherStatusPacket_def size_simps HandshakePacket_view_take
      WeatherStatusPacket_view_take)

text \<open>No handler reads or writes the input buffer.\<close>

definition with_buffer :: "byte list \<Rightarrow> nat \<Rightarrow> tcp_ctx \<Rightarrow> tcp_ctx" where
  "with_buffer b n c = c\<lparr>self := (self c)\<lparr>input_buf := b, numBytesLeft := n\<rparr>\<rparr>"

lemma with_buffer_simps [simp]:
  "shared (with_buffer b n c) = shared c" "websockets (with_buffer b n c) = websockets c"
  "stationId (self (with_buffer b n c)) = stationId (self c)"
  "with_buffer b n (with_buffer b' n' c) = with_buffer b n c"
  "input_buf (self (with_buffer b n c)) = b" "numBytesLeft (self (with_buffer b n c)) = n"
  by (simp_all add: with_buffer_def)

definition map_ctx :: "('a \<times> tcp_ctx) result \<Rightarrow> (tcp_ctx \<Rightarrow> tcp_ctx) \<Rightarrow> ('a \<times> tcp_ctx) result" where
  "map_ctx r f = bind_result r (\<lambda>(x, c). Inr (x, f c))"

lemma map_ctx_simps [simp]:
  "map_ctx (Inl e) f = Inl e" "map_ctx (Inr (x, c)) f = Inr (x, f c)"
  by (simp_all add: map_ctx_def)

lemma sendBadRequest_with_buffer:
  "sendBadRequest r (with_buffer b n c) =
     (fst (sendBadRequest r c), with_buffer b n (snd (sendBadRequest r c)))"
  by (simp add: sendBadRequest_def with_buffer_def writePacket_def start_op_def)

lemma handleHandshakePacket_with_buffer:
  "handleHandshakePacket e k p view (with_buffer b n c) =
     map_ctx (handleHandshakePacket e k p view c) (with_buffer b n)"
  by (cases "isUUIDRegistered (config (shared c))
        (c_str (uuid_to_string e (hs_uuid (HandshakePacket_view view))))")
    (auto simp: handleHandshakePacket_def Let_def sendBadRequest_def with_buffer_def
      writePacket_def start_op_def startPingTimer_def case_prod_unfold)

lemma call_notification_with_buffer:
  "call_notification k cb m (with_buffer b n c) =
     bind_result (call_notification k cb m c) (\<lambda>c'. Inr (with_buffer b n c'))"
  by (cases cb)
    (auto simp: with_buffer_def bind_result_assoc split: option.splits intro!: arg_cong [where f = "bind_result _"])

lemma handlePongPacket_with_buffer:
  "handlePongPacket view (with_buffer b n c) =
     (fst (handlePongPacket view c), with_buffer b n (snd (handlePongPacket view c)))"
  by (simp add: handlePongPacket_def with_buffer_def cancel_ops_def)

lemma handleWeatherStatusPacket_with_buffer:
  "handleWeatherStatusPacket view (with_buffer b n c) =
     map_ctx (handleWeatherStatusPacket view c) (with_buffer b n)"
proof -
  have live: "live_websocket (with_buffer b n c) = live_websocket c"
    by (simp add: live_websocket_def fun_eq_iff)
  show ?thesis
    by (cases "findWebSocketSession Plain (live_websocket c Plain)
          (ws_uuid (WeatherStatusPacket_view view)) (shared c)";
        cases "findWebSocketSession SSL (live_websocket c SSL)
          (ws_uuid (WeatherStatusPacket_view view)) (shared c)")
      (simp_all add: handleWeatherStatusPacket_def Let_def map_ctx_def live bind_result_assoc
        call_notification_with_buffer del: findWebSocketSession.simps call_notification.simps
        split: option.split)
qed

lemma handle_with_buffer:
  "handle e k p pid view (with_buffer b n c) = map_ctx (handle e k p pid view c) (with_buffer b n)"
  by (cases pid)
    (simp_all add: handle_def handleHandshakePacket_with_buffer
      handleWeatherStatusPacket_with_buffer handlePongPacket_with_buffer map_ctx_def
      case_prod_unfold)

section \<open>The loop refines the splitting\<close>

definition pending :: "TCPSession \<Rightarrow> byte list" where
  "pending s = take (numBytesLeft s) (input_buf s)"

definition buffer_ok :: "TCPSession \<Rightarrow> bool" where
  "buffer_ok s \<longleftrightarrow> length (input_buf s) = MaxInputSize \<and> numBytesLeft s \<le> MaxInputSize"

text \<open>The abstraction: the unread bytes, and everything of the context but the buffer.\<close>

definition abs_ctx :: "tcp_ctx \<Rightarrow> byte list \<times> tcp_ctx" where
  "abs_ctx c = (pending (self c), with_buffer [] 0 c)"

fun dispatch :: "env \<Rightarrow> proto \<Rightarrow> ptr \<Rightarrow> byte list list \<Rightarrow> tcp_ctx \<Rightarrow> tcp_ctx result" where
  "dispatch e k p [] c = Inr c"
| "dispatch e k p (f # fs) c =
     bind_result (handle e k p (in_PacketType_of (hd f)) f c) (\<lambda>(r, c'). dispatch e k p fs c')"

text \<open>After the frames: stop at an unknown type byte, else wait for the rest of the packet.\<close>

definition await :: "env \<Rightarrow> byte list \<Rightarrow> bool \<Rightarrow> tcp_ctx \<Rightarrow> tcp_ctx" where
  "await e rest bad c =
     (if bad then c
      else c\<lparr>self := start_op (ReadSome (length rest) (MaxInputSize - length rest))
                       ((self c)\<lparr>deadline := Some (now e + Timeout)\<rparr>)\<rparr>)"

definition abs_feed ::
  "env \<Rightarrow> proto \<Rightarrow> ptr \<Rightarrow> byte list \<times> tcp_ctx \<Rightarrow> (byte list \<times> tcp_ctx) result" where
  "abs_feed e k p = (\<lambda>(bs, c).
     case frames bs of (fs, rest, bad) \<Rightarrow>
       bind_result (dispatch e k p fs c) (\<lambda>c'. Inr (rest, await e rest bad c')))"

lemma length_pending: "buffer_ok s \<Longrightarrow> length (pending s) = numBytesLeft s"
  by (simp add: pending_def buffer_ok_def)

lemma pending_pop:
  assumes "buffer_ok s" "n \<le> numBytesLeft s"
  shows "pending (pop_packet n s) = drop n (pending s)" "buffer_ok (pop_packet n s)"
    "numBytesLeft (pop_packet n s) = numBytesLeft s - n"
  using assms
  by (auto simp: pending_def buffer_ok_def pop_packet_def Let_def drop_take min_def size_diff_eq
      MaxInputSize_def)

lemma with_buffer_pop: "with_buffer b m (c\<lparr>self := pop_packet n (self c)\<rparr>) = with_buffer b m c"
  by (simp add: with_buffer_def pop_packet_def Let_def)

lemma buffer_ok_start_op [simp]: "buffer_ok (start_op op s) = buffer_ok s"
  by (simp add: buffer_ok_def)

lemma buffer_ok_deadline [simp]: "buffer_ok (s\<lparr>deadline := d\<rparr>) = buffer_ok s"
  by (simp add: buffer_ok_def)

lemma pending_start_op [simp]:
  "pending (start_op op s) = pending s" "pending (s\<lparr>deadline := d\<rparr>) = pending s"
  by (simp_all add: pending_def)

lemma doReadPacketHeader_eq_read_more:
  "numBytesLeft s = 0 \<Longrightarrow> doReadPacketHeader e s = read_more e s"
  by (simp add: doReadPacketHeader_def read_more_def)

lemma abs_read_more:
  assumes "buffer_ok (self c)"
  shows "abs_ctx (c\<lparr>self := read_more e (self c)\<rparr>) =
     (pending (self c), await e (pending (self c)) False (with_buffer [] 0 c))"
  using length_pending [OF assms]
  by (simp add: abs_ctx_def read_more_def await_def with_buffer_def start_op_def pending_def)

lemma abs_after_pop:
  assumes "buffer_ok (self c)" "n \<le> numBytesLeft (self c)"
  shows "abs_ctx (c\<lparr>self := pop_packet n (self c)\<rparr>) = (drop n (pending (self c)), with_buffer [] 0 c)"
  using pending_pop [OF assms] by (simp add: abs_ctx_def with_buffer_pop)

text \<open>One round of the loop, by the verdict of the handler.\<close>

lemma parse_round:
  assumes ok: "buffer_ok (self c)" and ne: "numBytesLeft (self c) \<noteq> 0"
    and h: "handle e k p (in_PacketType_of (input_buf (self c) ! 0)) (pending (self c)) c
        = Inr ((st, n), c')"
  shows "parsePacketHeader e k p c =
     (let s = pop_packet n (self c')
      in if st = Good then
           if numBytesLeft s > 0 then parsePacketHeader e k p (c'\<lparr>self := s\<rparr>)
           else Inr (c'\<lparr>self := read_more e s\<rparr>)
         else if st = Indeterminate then Inr (c'\<lparr>self := read_more e s\<rparr>)
         else Inr (c'\<lparr>self := s\<rparr>))"
  using h ne handle_never_PayloadTooBig [OF h]
  by (subst parsePacketHeader.simps)
    (auto simp: pending_def Let_def doReadPacketHeader_eq_read_more split: ResultType.split)

lemma parse_fault:
  assumes "numBytesLeft (self c) \<noteq> 0"
    and "handle e k p (in_PacketType_of (input_buf (self c) ! 0)) (pending (self c)) c = Inl x"
  shows "parsePacketHeader e k p c = Inl x"
  using assms by (subst parsePacketHeader.simps) (simp add: pending_def Let_def)

lemma hd_pending:
  "buffer_ok s \<Longrightarrow> numBytesLeft s \<noteq> 0 \<Longrightarrow> hd (pending s) = input_buf s ! 0"
  by (cases "input_buf s") (auto simp: pending_def buffer_ok_def MaxInputSize_def)

text \<open>The first step of the abstract side, by the same verdict.\<close>

lemma abs_feed_stop:
  assumes "bs \<noteq> []" "frame_size bs = 0 \<or> length bs < frame_size bs"
  shows "abs_feed e k p (bs, c) = Inr (bs, await e bs (frame_size bs = 0) c)"
  using assms by (auto simp: abs_feed_def frames_unfold)

lemma abs_feed_step:
  assumes "bs \<noteq> []" "0 < frame_size bs" "frame_size bs \<le> length bs"
  shows "abs_feed e k p (bs, with_buffer b m c) =
     bind_result (handle e k p (in_PacketType_of (hd bs)) bs c)
       (\<lambda>(r, c'). abs_feed e k p (drop (frame_size bs) bs, with_buffer b m c'))"
proof -
  obtain fs rest bad where f: "frames (drop (frame_size bs) bs) = (fs, rest, bad)"
    by (cases "frames (drop (frame_size bs) bs)")
  have hd: "hd (take (frame_size bs) bs) = hd bs"
    using assms by (cases bs) (auto simp: take_Cons')
  have h: "handle e k p (in_PacketType_of (hd bs)) (take (frame_size bs) bs) (with_buffer b m c)
      = map_ctx (handle e k p (in_PacketType_of (hd bs)) bs c) (with_buffer b m)"
    using assms by (simp add: handle_take handle_with_buffer)
  show ?thesis
    using assms
    by (cases "handle e k p (in_PacketType_of (hd bs)) bs c")
      (auto simp: abs_feed_def frames_unfold f hd h bind_result_assoc)
qed

lemma parsePacketHeader_refines_conj:
  "buffer_ok (self c) \<Longrightarrow> numBytesLeft (self c) \<noteq> 0 \<Longrightarrow>
     bind_result (parsePacketHeader e k p c) (\<lambda>c'. Inr (abs_ctx c')) = abs_feed e k p (abs_ctx c)
     \<and> (\<forall>c'. parsePacketHeader e k p c = Inr c' \<longrightarrow> buffer_ok (self c'))"
proof (induction "numBytesLeft (self c)" arbitrary: c rule: less_induct)
  case (less c)
  define bs where "bs = pending (self c)"
  define pid where "pid = in_PacketType_of (input_buf (self c) ! 0)"
  have pid: "pid = in_PacketType_of (hd bs)"
    by (simp add: pid_def bs_def hd_pending less.prems)
  have len: "length bs = numBytesLeft (self c)"
    by (simp add: bs_def length_pending less.prems)
  then have ne: "bs \<noteq> []" using less.prems by auto
  have abs: "abs_ctx c = (bs, with_buffer [] 0 c)" by (simp add: abs_ctx_def bs_def)
  show ?case
  proof (cases "handle e k p pid bs c")
    case (Inl x)
    then have "0 < frame_size bs" "frame_size bs \<le> length bs"
      by (auto simp: handle_def pid [symmetric] split: if_splits)
        (cases pid; simp add: size_simps)
    with Inl ne show ?thesis
      using parse_fault [of c e k p x] less.prems
      by (simp add: abs abs_feed_step pid_def [symmetric] bs_def [symmetric] pid [symmetric])
  next
    case (Inr r)
    then obtain st n c1 where h: "handle e k p pid bs c = Inr ((st, n), c1)"
      by (cases r) auto
    note v = handle_result [OF h] and fr = handle_frame [OF h]
    have ok1: "buffer_ok (self c1)" and p1: "pending (self c1) = bs"
      and n1: "numBytesLeft (self c1) = length bs"
      using fr less.prems len by (simp_all add: buffer_ok_def pending_def bs_def)
    note round = parse_round [OF less.prems h [unfolded pid_def bs_def]]
    show ?thesis
    proof (cases "frame_size bs = 0 \<or> length bs < frame_size bs")
      case True
      with v have stop: "n = 0" "st = (if frame_size bs = 0 then Bad else Indeterminate)"
        by (auto simp: handle_verdict_def pid split: if_splits)
      have c1: "c1 = c"
        using h True by (cases pid) (auto simp: handle_def pid [symmetric] size_simps)
      have "pop_packet 0 (self c) = self c"
        using less.prems(1) by (simp add: pop_packet_def size_diff_eq buffer_ok_def MaxInputSize_def)
      with round stop c1 have run: "parsePacketHeader e k p c =
          Inr (if frame_size bs = 0 then c else c\<lparr>self := read_more e (self c)\<rparr>)"
        by (simp add: Let_def)
      have "abs_ctx (c\<lparr>self := read_more e (self c)\<rparr>) = (bs, await e bs False (with_buffer [] 0 c))"
        using abs_read_more [OF less.prems(1)] by (simp add: bs_def)
      then show ?thesis
        unfolding run abs abs_feed_stop [OF ne True]
        using less.prems abs by (simp add: await_def) (simp add: read_more_def)
    next
      case False
      with v have go: "st = Good" "n = frame_size bs"
        by (auto simp: handle_verdict_def pid split: if_splits)
      define s where "s = pop_packet n (self c1)"
      from False go n1 have nle: "n \<le> numBytesLeft (self c1)" "0 < n" by auto
      note pop = pending_pop [OF ok1 nle(1), folded s_def]
      have feed: "abs_feed e k p (abs_ctx c) = abs_feed e k p (abs_ctx (c1\<lparr>self := s\<rparr>))"
        using abs_feed_step [OF ne, of e k p "[]" 0 c] False h go abs_after_pop [OF ok1 nle(1)]
        by (simp add: abs pid [symmetric] p1 s_def)
      show ?thesis
      proof (cases "numBytesLeft s = 0")
        case True
        have "drop n bs = []" using True pop(3) n1 by simp
        then have "abs_feed e k p (abs_ctx (c1\<lparr>self := s\<rparr>)) =
            Inr (abs_ctx (c1\<lparr>self := read_more e s\<rparr>))"
          using abs_read_more [of "c1\<lparr>self := s\<rparr>" e] pop p1
          by (simp add: abs_feed_def abs_ctx_def)
        moreover have "parsePacketHeader e k p c = Inr (c1\<lparr>self := read_more e s\<rparr>)"
          using round go True by (simp add: s_def)
        ultimately show ?thesis
          using pop(2) feed by simp (simp add: read_more_def)
      next
        case nz: False
        have "numBytesLeft s < numBytesLeft (self c)" using pop(3) nle n1 len by simp
        moreover have "parsePacketHeader e k p c = parsePacketHeader e k p (c1\<lparr>self := s\<rparr>)"
          using round go nz by (simp add: s_def)
        ultimately show ?thesis
          using less.hyps [of "c1\<lparr>self := s\<rparr>"] pop(2) nz feed by simp
      qed
    qed
  qed
qed

lemmas parsePacketHeader_refines = parsePacketHeader_refines_conj [THEN conjunct1]
lemmas parsePacketHeader_buffer_ok = parsePacketHeader_refines_conj [THEN conjunct2, rule_format]

section \<open>Reads of any size\<close>

text \<open>
  A session waiting for bytes: its buffer is in order and the one read in flight appends to
  the unread bytes. Delivering a chunk then is one abstract step on the unread bytes with the
  chunk appended, and any sequence of chunks is one step on their concatenation.
\<close>

definition awaiting :: "TCPSession \<Rightarrow> bool" where
  "awaiting s \<longleftrightarrow> buffer_ok s \<and> (current_read s, Armed) \<in> set (tcp_ops s)"

definition fits :: "byte list \<Rightarrow> TCPSession \<Rightarrow> bool" where
  "fits d s \<longleftrightarrow> d \<noteq> [] \<and> length d \<le> MaxInputSize - numBytesLeft s"

text \<open>Taking the read off the list of operations in flight, on the abstract side.\<close>

definition abs_arrive :: "byte list \<Rightarrow> byte list \<times> tcp_ctx \<Rightarrow> byte list \<times> tcp_ctx" where
  "abs_arrive d = (\<lambda>(bs, c).
     (bs @ d,
      c\<lparr>self := (finish_op (ReadSome (length bs) (MaxInputSize - length bs), Armed) (self c))
                   \<lparr>deadline := None\<rparr>\<rparr>))"

definition abs_deliver ::
  "env \<Rightarrow> proto \<Rightarrow> ptr \<Rightarrow> byte list \<Rightarrow> byte list \<times> tcp_ctx \<Rightarrow> (byte list \<times> tcp_ctx) result" where
  "abs_deliver e k p d x = abs_feed e k p (abs_arrive d x)"

lemma deliver_buffer:
  fixes s op
  assumes "buffer_ok s" "fits d s"
  defines "s' \<equiv> receive (numBytesLeft s) d (finish_op op s)"
  shows "buffer_ok (s'\<lparr>numBytesLeft := numBytesLeft s + length d\<rparr>)"
    and "pending (s'\<lparr>numBytesLeft := numBytesLeft s + length d\<rparr>) = pending s @ d"
  using assms by (auto simp: buffer_ok_def fits_def receive_def finish_op_def pending_def)

lemma deliver_refines:
  assumes "buffer_ok (self c)" "fits d (self c)"
  shows "bind_result (deliver e k p d c) (\<lambda>c'. Inr (abs_ctx c')) = abs_deliver e k p d (abs_ctx c)"
    and "deliver e k p d c = Inr c' \<Longrightarrow> buffer_ok (self c')"
proof -
  define s where "s = self c"
  define s' where "s' = (receive (numBytesLeft s) d (finish_op (current_read s, Armed) s))
      \<lparr>deadline := None, numBytesLeft := numBytesLeft s + length d\<rparr>"
  note b = deliver_buffer [OF assms, folded s_def, of "(current_read s, Armed)"]
  have ok: "buffer_ok s'" and pend: "pending s' = pending s @ d"
    using b by (simp_all add: s'_def buffer_ok_def pending_def)
  have ne: "numBytesLeft s' \<noteq> 0"
    using assms(2) by (simp add: s'_def fits_def)
  have run: "deliver e k p d c = parsePacketHeader e k p (c\<lparr>self := s'\<rparr>)"
    by (simp add: deliver_def onReadPacketHeader_def Let_def s_def [symmetric])
      (simp add: s'_def receive_def finish_op_def)
  have "abs_ctx (c\<lparr>self := s'\<rparr>) = abs_arrive d (abs_ctx c)"
    using length_pending [OF assms(1)] pend
    by (simp add: abs_ctx_def abs_arrive_def with_buffer_def s_def [symmetric])
      (simp add: s'_def current_read_def receive_def finish_op_def)
  then show "bind_result (deliver e k p d c) (\<lambda>c'. Inr (abs_ctx c')) =
      abs_deliver e k p d (abs_ctx c)"
    using parsePacketHeader_refines [of "c\<lparr>self := s'\<rparr>" e k p] ok ne
    by (simp add: run abs_deliver_def)
  show "deliver e k p d c = Inr c' \<Longrightarrow> buffer_ok (self c')"
    using parsePacketHeader_buffer_ok [of "c\<lparr>self := s'\<rparr>"] ok ne by (simp add: run)
qed

text \<open>Handlers neither start nor cancel reads, and leave the stream's deadline alone.\<close>

fun is_read :: "tcp_op \<Rightarrow> bool" where
  "is_read (ReadSome off cap) = True"
| "is_read _ = False"

definition reads :: "TCPSession \<Rightarrow> (tcp_op \<times> op_status) list" where
  "reads s = filter (\<lambda>x. is_read (fst x)) (tcp_ops s)"

lemma reads_start_op [simp]:
  "reads (start_op op s) = reads s @ (if is_read op then [(op, Armed)] else [])"
  by (simp add: reads_def)

lemma reads_update [simp]:
  "reads (s\<lparr>output_buf := b\<rparr>) = reads s" "reads (s\<lparr>stationId := i\<rparr>) = reads s"
  "reads (s\<lparr>input_buf := b\<rparr>) = reads s" "reads (s\<lparr>numBytesLeft := n\<rparr>) = reads s"
  "reads (s\<lparr>deadline := d\<rparr>) = reads s"
  by (simp_all add: reads_def)

lemma reads_cancel_timer:
  assumes "\<not> is_io op"
  shows "reads (cancel_ops (\<lambda>x. x = op) s) = reads s"
proof -
  have "\<not> is_read op" using assms by (cases op) auto
  then have "filter (\<lambda>x. is_read (fst x))
      (map (\<lambda>(x, st). if x = op \<and> st = Armed then (x, Aborted) else (x, st)) xs)
    = filter (\<lambda>x. is_read (fst x)) xs" for xs
    by (induction xs) (auto split: if_splits)
  then show ?thesis by (simp add: reads_def cancel_ops_def)
qed

lemma handle_reads:
  assumes "handle e k p pid view c = Inr (r, c')"
  shows "reads (self c') = reads (self c)" "deadline (self c') = deadline (self c)"
proof -
  have hs: "reads (self c') = reads (self c) \<and> deadline (self c') = deadline (self c)"
    if "handleHandshakePacket e k p view c = Inr (r, c')"
    using that
    by (auto simp: handler_defs Let_def bind_result_Inr_iff case_prod_unfold writePacket_def
        startPingTimer_def split: if_splits)
  have "reads (self c') = reads (self c) \<and> deadline (self c') = deadline (self c)"
    using assms
    by (cases pid)
      (auto simp: handle_def handlePongPacket_def hs reads_cancel_timer
        dest: handleWeatherStatusPacket_frame split: if_splits)
  then show "reads (self c') = reads (self c)" "deadline (self c') = deadline (self c)" by auto
qed

lemma dispatch_reads:
  "dispatch e k p fs c = Inr c' \<Longrightarrow>
     reads (self c') = reads (self c) \<and> deadline (self c') = deadline (self c)"
  by (induction fs arbitrary: c) (auto simp: bind_result_Inr_iff dest: handle_reads)

lemma dispatch_append:
  "dispatch e k p (fs @ gs) c = bind_result (dispatch e k p fs c) (dispatch e k p gs)"
  by (induction fs arbitrary: c) (auto simp: bind_result_assoc intro!: arg_cong [where f = "bind_result _"])

text \<open>Exactly one read is in flight, the one that appends to the unread bytes.\<close>

definition one_read :: "byte list \<times> tcp_ctx \<Rightarrow> bool" where
  "one_read = (\<lambda>(bs, c). reads (self c) = [(ReadSome (length bs) (MaxInputSize - length bs), Armed)])"

lemma reads_finish:
  assumes "reads s = [op]"
  shows "reads (finish_op op s) = []"
proof -
  have "filter (\<lambda>x. is_read (fst x)) (remove1 op (tcp_ops s)) = remove1 op (reads s)"
    by (simp add: reads_def filter_remove1)
  with assms show ?thesis by (simp add: reads_def finish_op_def)
qed

lemma finish_started:
  assumes "reads s = []" "deadline s = None" "is_read op"
  shows "(finish_op (op, Armed) (start_op op (s\<lparr>deadline := d\<rparr>)))\<lparr>deadline := None\<rparr> = s"
proof -
  have "(op, Armed) \<notin> set (tcp_ops s)"
    using assms(1,3) by (force simp: reads_def filter_empty_conv)
  then show ?thesis
    using assms(2) by (simp add: finish_op_def start_op_def remove1_append)
qed

lemma abs_deliver_split:
  assumes one: "one_read (bs, c)" and fr: "frames (bs @ d1) = (fs, rest, False)"
  shows "bind_result (abs_deliver e k p d1 (bs, c)) (abs_deliver e k p d2) = abs_deliver e k p (d1 @ d2) (bs, c)"
    and "abs_deliver e k p d1 (bs, c) = Inr x \<Longrightarrow> one_read x \<and> fst x = rest"
proof -
  define c0 where "c0 = c\<lparr>self := (finish_op (ReadSome (length bs) (MaxInputSize - length bs), Armed) (self c))
      \<lparr>deadline := None\<rparr>\<rparr>"
  have c0: "reads (self c0) = []" "deadline (self c0) = None"
    using one by (simp_all add: c0_def one_read_def reads_finish)
  have first: "abs_deliver e k p d1 (bs, c) =
      bind_result (dispatch e k p fs c0) (\<lambda>c'. Inr (rest, await e rest False c'))"
    by (simp add: abs_deliver_def abs_arrive_def abs_feed_def fr c0_def)
  have undo: "abs_arrive d2 (rest, await e rest False c') = (rest @ d2, c')"
    if "dispatch e k p fs c0 = Inr c'" for c'
    using dispatch_reads [OF that] c0
      finish_started [of "self c'" "ReadSome (length rest) (MaxInputSize - length rest)"]
    by (simp add: abs_arrive_def await_def)
  obtain gs r bad where g: "frames (rest @ d2) = (gs, r, bad)"
    by (cases "frames (rest @ d2)")
  have all: "abs_deliver e k p (d1 @ d2) (bs, c) =
      bind_result (dispatch e k p fs c0)
        (\<lambda>c'. bind_result (dispatch e k p gs c') (\<lambda>c'. Inr (r, await e r bad c')))"
    using frames_append [OF fr, of d2] g
    by (simp add: abs_deliver_def abs_arrive_def abs_feed_def c0_def dispatch_append bind_result_assoc)
  show "bind_result (abs_deliver e k p d1 (bs, c)) (abs_deliver e k p d2) =
      abs_deliver e k p (d1 @ d2) (bs, c)"
    unfolding all first
    by (cases "dispatch e k p fs c0")
      (simp_all add: abs_deliver_def [of e k p d2] undo, simp add: abs_feed_def g)
  show "abs_deliver e k p d1 (bs, c) = Inr x \<Longrightarrow> one_read x \<and> fst x = rest"
    unfolding first
    by (auto simp: bind_result_Inr_iff one_read_def await_def dispatch_reads c0 dest!: dispatch_reads)
qed

text \<open>The chunks the network may deliver one after the other: no read follows a bad byte.\<close>

fun chunks_fit :: "byte list \<Rightarrow> byte list list \<Rightarrow> bool" where
  "chunks_fit rest [] = True"
| "chunks_fit rest (d # ds) \<longleftrightarrow>
     d \<noteq> [] \<and> length rest + length d \<le> MaxInputSize
     \<and> (ds = [] \<or> (case frames (rest @ d) of (fs, r, bad) \<Rightarrow> \<not> bad \<and> chunks_fit r ds))"

lemma deliver_all_refines:
  assumes "buffer_ok (self c)" "one_read (abs_ctx c)" "chunks_fit (pending (self c)) ds" "ds \<noteq> []"
  shows "bind_result (deliver_all e k p ds c) (\<lambda>c'. Inr (abs_ctx c')) =
     abs_deliver e k p (concat ds) (abs_ctx c)"
  using assms
proof (induction ds arbitrary: c)
  case Nil
  then show ?case by simp
next
  case (Cons d ds)
  have fit: "fits d (self c)"
    using Cons.prems length_pending [of "self c"] by (auto simp: fits_def)
  note step = deliver_refines [OF Cons.prems(1) fit]
  show ?case
  proof (cases "ds = []")
    case True
    then show ?thesis
      using step(1) [of e k p] by (cases "deliver e k p d c") simp_all
  next
    case False
    obtain fs r where f: "frames (pending (self c) @ d) = (fs, r, False)"
      and rest: "chunks_fit r ds"
      using Cons.prems(3) False by (auto split: prod.splits)
    have one: "one_read (pending (self c), with_buffer [] 0 c)"
      using Cons.prems(2) by (simp add: abs_ctx_def)
    note split = abs_deliver_split [OF one f, folded abs_ctx_def]
    show ?thesis
    proof (cases "deliver e k p d c")
      case (Inl x)
      then have "abs_deliver e k p d (abs_ctx c) = Inl x"
        using step(1) [of e k p] by simp
      then show ?thesis
        using Inl split(1) [of e k p "concat ds"] by simp
    next
      case (Inr c')
      then have abs': "abs_deliver e k p d (abs_ctx c) = Inr (abs_ctx c')"
        using step(1) [of e k p] by simp
      have "one_read (abs_ctx c') \<and> fst (abs_ctx c') = r"
        by (rule split(2) [OF abs'])
      then have "one_read (abs_ctx c')" "pending (self c') = r"
        by (auto simp: abs_ctx_def)
      with Cons.IH [of c'] step(2) [OF Inr] rest False Inr abs'
      show ?thesis using split(1) [of e k p "concat ds"] by simp
    qed
  qed
qed

end
