(* ===== verification/Ws_Handler.thy ===== *)
theory Ws_Handler
  imports Tcp_Handler
begin

text \<open>
  \<open>WebSocketRequestHandler.hh\<close>: the requests of a browser. A request is a two-byte length and
  a JSON text; \<open>handle\<close> parses it and dispatches on its id. A request for weather data is
  forwarded to the stations it names, a request for the available stations is answered at once.
\<close>

section \<open>Context\<close>

text \<open>
  The handler runs for one WebSocket session and may write to TCP sessions. A session that has
  no operation in flight has no owner left: its destructor is running, and it can no longer be
  locked.
\<close>

record ws_ctx =
  wself :: WebSocketSession
  wshared :: SharedState
  stations :: "proto \<Rightarrow> ptr \<Rightarrow> TCPSession option"

definition live_station :: "(proto \<Rightarrow> ptr \<Rightarrow> TCPSession option) \<Rightarrow> proto \<Rightarrow> ptr \<Rightarrow> refstate" where
  "live_station ss k p =
     (case ss k p of
        None \<Rightarrow> Freed
      | Some s \<Rightarrow> if tcp_ops s = [] then Expired else Alive)"

definition update_station ::
  "proto \<Rightarrow> ptr \<Rightarrow> (TCPSession \<Rightarrow> TCPSession) \<Rightarrow> ws_ctx \<Rightarrow> ws_ctx" where
  "update_station k p f c =
     c\<lparr>stations := (stations c)(k := (stations c k)(p := map_option f (stations c k p)))\<rparr>"

section \<open>Requests for weather data\<close>

text \<open>
  The visitor: a locked pointer is written to, a null one is skipped. An exception leaves the
  packets already sent as they are, so the state is returned beside the outcome.
\<close>

fun visit_station :: "uuid \<Rightarrow> VariantType \<Rightarrow> ws_ctx \<Rightarrow> ws_ctx" where
  "visit_station u (PlainTCP (Some p)) c =
     update_station Plain p (writePacket (out_WeatherStatusPacket u Flag_Plain) LogOnly) c"
| "visit_station u (SSLTCP (Some p)) c =
     update_station SSL p (writePacket (out_WeatherStatusPacket u Flag_SSL) LogOnly) c"
| "visit_station u (PlainTCP None) c = c"
| "visit_station u (SSLTCP None) c = c"
| "visit_station u Monostate c = c"

fun request_stations :: "json list \<Rightarrow> ws_ctx \<Rightarrow> unit result \<times> ws_ctx" where
  "request_stations [] c = (Inr (), c)"
| "request_stations (j # js) c =
     (case json_get_uint8 j of
        Inl x \<Rightarrow> (Inl x, c)
      | Inr sid \<Rightarrow>
          (case findStation (live_station (stations c)) sid (wshared c) of
             Inl x \<Rightarrow> (Inl x, c)
           | Inr sp \<Rightarrow> request_stations js (visit_station (uuid (wself c)) sp c)))"

definition handleWeatherStatusRequest ::
  "nat \<Rightarrow> json \<Rightarrow> ws_ctx \<Rightarrow> HandlerReturnType result \<times> ws_ctx" where
  "handleWeatherStatusRequest n j c =
     (if \<not> json_contains j ''stationIds'' then (Inr (Bad, n), c)
      else case json_subscript j ''stationIds'' of
        Inl x \<Rightarrow> (Inl x, c)
      | Inr (ids, _) \<Rightarrow>
          (case request_stations (json_items ids) c of
             (Inl x, c) \<Rightarrow> (Inl x, c)
           | (Inr _, c) \<Rightarrow> (Inr (Good, n), c)))"

section \<open>Requests for the available stations\<close>

text \<open>\<open>magic_enum::enum_name\<close>: the enumerator's name, empty for other values.\<close>

definition enum_name :: "StationId \<Rightarrow> string" where
  "enum_name sid =
     (if sid = Goe then ''Goe'' else if sid = Wf then ''Wf''
      else if sid = Bs then ''Bs'' else if sid = StationId_Max then ''Max'' else [])"

definition station_entry :: "StationId \<Rightarrow> json result" where
  "station_entry sid =
     bind_result (json_assign (JObject []) ''stationId'' (json_of_enum sid)) (\<lambda>entry.
       json_assign entry ''stationName'' (JString (enum_name sid)))"

fun station_entries :: "StationId list \<Rightarrow> json \<Rightarrow> json result" where
  "station_entries [] acc = Inr acc"
| "station_entries (sid # sids) acc =
     bind_result (station_entry sid) (\<lambda>entry.
     bind_result (json_emplace_back acc entry) (station_entries sids))"

definition stations_response :: "StationId list \<Rightarrow> json result" where
  "stations_response ids =
     bind_result (json_assign JNull ''id'' (json_of_enum ResponseType_AvailableStations)) (\<lambda>r.
     bind_result (station_entries ids (JArray [])) (\<lambda>sts.
       json_assign r ''stations'' sts))"

definition handleAvailableStations ::
  "nat \<Rightarrow> json \<Rightarrow> ws_ctx \<Rightarrow> HandlerReturnType result \<times> ws_ctx" where
  "handleAvailableStations n j c =
     (case stations_response (allStationIds (wshared c)) of
        Inl x \<Rightarrow> (Inl x, c)
      | Inr response \<Rightarrow>
          (case writeRequest response LogAvailableStations (wself c) of
             Inl x \<Rightarrow> (Inl x, c)
           | Inr w \<Rightarrow> (Inr (Good, n), c\<lparr>wself := w\<rparr>)))"

section \<open>Dispatch\<close>

definition MaxPayloadSize :: nat where "MaxPayloadSize = 512"

text \<open>\<open>catch (std::exception const&)\<close> around the parsing and the handlers.\<close>

fun catch_exceptions :: "HandlerReturnType result \<times> ws_ctx \<Rightarrow> HandlerReturnType result \<times> ws_ctx" where
  "catch_exceptions (Inl (Throw x), c) = (Inr (Bad, 0), c)"
| "catch_exceptions r = r"

definition dispatch_request ::
  "nat \<Rightarrow> string \<Rightarrow> ws_ctx \<Rightarrow> HandlerReturnType result \<times> ws_ctx" where
  "dispatch_request n payload c =
     (case bind_result (json_parse payload) (\<lambda>j.
             bind_result (json_subscript j ''id'') (\<lambda>(v, j').
             bind_result (json_get_int v) (\<lambda>rid. Inr (rid, j')))) of
        Inl x \<Rightarrow> (Inl x, c)
      | Inr (rid, j) \<Rightarrow>
          if rid = RequestType_WeatherStatus then handleWeatherStatusRequest n j c
          else if rid = RequestType_AvailableStations then handleAvailableStations n j c
          else (Inr (Bad, 0), c))"

text \<open>
  The two length bytes are read as one \<open>std::uint16_t\<close>, and the payload is read through the
  view's pointer; neither read is checked against the size of the view.
\<close>

definition chars_of :: "byte list \<Rightarrow> string" where
  "chars_of bs = map (\<lambda>b. char_of (unat b)) bs"

definition ws_handle ::
  "byte list \<Rightarrow> ws_ctx \<Rightarrow> HandlerReturnType result \<times> ws_ctx" where
  "ws_handle view c =
     (if length view > MaxPayloadSize then (Inr (PayloadTooBig, 0), c)
      else if length view < 2 then (Inl (Undefined OutOfBoundsRead), c)
      else let size = le_nat (take 2 view);
               totalSize = size + 2
           in if length view < totalSize then (Inl (Undefined OutOfBoundsRead), c)
              else catch_exceptions
                     (dispatch_request totalSize (chars_of (take size (drop 2 view))) c))"

section \<open>What the responses look like\<close>

lemma station_entry_eq:
  "station_entry sid = Inr (JObject
     [(''stationId'', JInt (ucast sid)), (''stationName'', JString (enum_name sid))])"
  by (simp add: station_entry_def json_of_enum_def less_char_def)

lemma station_entries_eq:
  "station_entries ids (JArray acc) = Inr (JArray (acc @ map (\<lambda>sid. JObject
     [(''stationId'', JInt (ucast sid)), (''stationName'', JString (enum_name sid))]) ids))"
  by (induction ids arbitrary: acc) (simp_all add: station_entry_eq)

definition stations_json :: "StationId list \<Rightarrow> json" where
  "stations_json ids = JObject
     [(''id'', JInt 1),
      (''stations'', JArray (map (\<lambda>sid. JObject
         [(''stationId'', JInt (ucast sid)), (''stationName'', JString (enum_name sid))]) ids))]"

lemma stations_response_eq: "stations_response ids = Inr (stations_json ids)"
  by (simp add: stations_response_def stations_json_def station_entries_eq json_of_enum_def
      ResponseType_AvailableStations_def less_char_def)

section \<open>Frame facts\<close>

lemma visit_station_frame [frame_simps]:
  "wself (visit_station u sp c) = wself c" "wshared (visit_station u sp c) = wshared c"
  by (cases "(u, sp, c)" rule: visit_station.cases; simp add: update_station_def)+

lemma request_stations_frame:
  "wself (snd (request_stations js c)) = wself c" "wshared (snd (request_stations js c)) = wshared c"
  by (induction js c rule: request_stations.induct) (simp_all add: frame_simps split: sum.split)

lemma handleWeatherStatusRequest_frame:
  "wself (snd (handleWeatherStatusRequest n j c)) = wself c"
  "wshared (snd (handleWeatherStatusRequest n j c)) = wshared c"
  using request_stations_frame
  by (auto simp: handleWeatherStatusRequest_def split: sum.split prod.split)
    (metis snd_conv)+

lemma handleAvailableStations_frame:
  "wshared (snd (handleAvailableStations n j c)) = wshared c"
  "stations (snd (handleAvailableStations n j c)) = stations c"
  by (simp_all add: handleAvailableStations_def split: sum.split)

lemma catch_exceptions_frame [simp]: "snd (catch_exceptions r) = snd r"
  by (cases r rule: catch_exceptions.cases) simp_all

lemma dispatch_request_shared:
  "wshared (snd (dispatch_request n s c)) = wshared c"
  by (simp add: dispatch_request_def handleWeatherStatusRequest_frame handleAvailableStations_frame
      split: sum.split prod.split)

lemma ws_handle_shared: "wshared (snd (ws_handle view c)) = wshared c"
  by (simp add: ws_handle_def Let_def dispatch_request_shared)

text \<open>The verdicts: a request consumes its frame when it is answered, nothing when it is bad.\<close>

lemma dispatch_request_verdict:
  "fst (dispatch_request n s c) = Inr (st, m) \<Longrightarrow>
     (st = Good \<and> m = n) \<or> (st = Bad \<and> (m = n \<or> m = 0))"
  by (auto simp: dispatch_request_def handleWeatherStatusRequest_def handleAvailableStations_def
      split: sum.splits prod.splits if_splits)

lemma catch_exceptions_cases:
  "fst (catch_exceptions r) = Inr v \<Longrightarrow> fst r = Inr v \<or> v = (Bad, 0)"
  by (cases r rule: catch_exceptions.cases) auto

lemma ws_handle_verdict:
  assumes "fst (ws_handle view c) = Inr (st, m)"
  shows "(st = PayloadTooBig \<and> m = 0 \<and> length view > MaxPayloadSize)
       \<or> (st = Good \<and> m = le_nat (take 2 view) + 2 \<and> m \<le> length view)
       \<or> st = Bad"
  using assms
  by (auto simp: ws_handle_def Let_def split: if_splits
      dest!: catch_exceptions_cases dispatch_request_verdict)

lemma ws_handle_never_Indeterminate: "fst (ws_handle view c) \<noteq> Inr (Indeterminate, m)"
  using ws_handle_verdict by fastforce

end
