(* ===== verification/Ws_Session.thy ===== *)
theory Ws_Session
  imports Ws_Handler
begin

text \<open>
  \<open>WebSocketSession.hh\<close>: accepting the upgrade, reading messages and the loop that serves the
  requests in a message. The loop is a partial function: a message longer than the handler
  takes makes the code go round for ever, which is the value \<open>None\<close> here.
\<close>

section \<open>Starting and reading\<close>

definition onRun :: "WebSocketSession \<Rightarrow> WebSocketSession" where
  "onRun w = start_ws_op WsAccept w"

definition doRead :: "WebSocketSession \<Rightarrow> WebSocketSession" where
  "doRead w = start_ws_op WsRead w"

definition ws_disconnect :: "WebSocketSession \<Rightarrow> WebSocketSession" where
  "ws_disconnect w = start_ws_op WsClose w"

text \<open>
  The random UUID is an argument. The result of \<open>join\<close> is not looked at. The callback holds a
  pointer to the session itself.
\<close>

definition onAccept ::
  "proto \<Rightarrow> ptr \<Rightarrow> error_code \<Rightarrow> uuid \<Rightarrow> ws_ctx \<Rightarrow> ws_ctx" where
  "onAccept k p err u c =
     (if err \<noteq> NoError then c
      else let w = (wself c)\<lparr>uuid := u\<rparr>;
               ctx = \<lparr>ctx_session = p, ctx_callback = NotifySession p\<rparr>;
               (st, joined) = join_WebSocketSession k u ctx (wshared c)
           in c\<lparr>wself := doRead w, wshared := st\<rparr>)"

definition leave_session :: "proto \<Rightarrow> ws_ctx \<Rightarrow> ws_ctx" where
  "leave_session k c = c\<lparr>wshared := leave_WebSocketSession k (uuid (wself c)) (wshared c)\<rparr>"

definition consume :: "nat \<Rightarrow> ws_ctx \<Rightarrow> ws_ctx" where
  "consume n c = c\<lparr>wself := (wself c)\<lparr>buffer := drop n (buffer (wself c))\<rparr>\<rparr>"

partial_function (option) read_loop :: "ws_ctx \<Rightarrow> ws_ctx result option" where
  "read_loop c =
     (if buffer (wself c) = [] then Some (Inr c)
      else case ws_handle (buffer (wself c)) c of
        (Inl x, c') \<Rightarrow> Some (Inl x)
      | (Inr (status, bytesParsed), c') \<Rightarrow>
          (let c' = consume bytesParsed c'
           in case status of
                Good \<Rightarrow> if buffer (wself c') \<noteq> [] then read_loop c'
                       else Some (Inr (c'\<lparr>wself := doRead (wself c')\<rparr>))
              | Bad \<Rightarrow> Some (Inr (c'\<lparr>wself := start_ws_op WsClose (wself c')\<rparr>))
              | Indeterminate \<Rightarrow> read_loop c'
              | PayloadTooBig \<Rightarrow> read_loop c'))"

declare read_loop.simps [code]

definition PayloadFieldLength :: nat where "PayloadFieldLength = 2"

definition onRead ::
  "proto \<Rightarrow> error_code \<Rightarrow> nat \<Rightarrow> ws_ctx \<Rightarrow> ws_ctx result option" where
  "onRead k err bytesTransferred c =
     (if err = WsClosed \<or> err = SslStreamTruncated then Some (Inr (leave_session k c))
      else if err \<noteq> NoError then Some (Inr (leave_session k c))
      else if bytesTransferred < PayloadFieldLength then Some (Inr (leave_session k c))
      else if length (buffer (wself c)) < bytesTransferred then Some (Inr (leave_session k c))
      else read_loop c)"

text \<open>A completed read has appended the message to the buffer.\<close>

definition receive_message :: "byte list \<Rightarrow> ws_ctx \<Rightarrow> ws_ctx" where
  "receive_message d c = c\<lparr>wself := (wself c)\<lparr>buffer := buffer (wself c) @ d\<rparr>\<rparr>"

definition finish_ws_op :: "ws_op \<Rightarrow> WebSocketSession \<Rightarrow> WebSocketSession" where
  "finish_ws_op op w = w\<lparr>ws_ops := remove1 op (ws_ops w)\<rparr>"

text \<open>The destructor.\<close>

definition destroy_WebSocketSession :: "proto \<Rightarrow> WebSocketSession \<Rightarrow> SharedState \<Rightarrow> SharedState" where
  "destroy_WebSocketSession k w st = leave_WebSocketSession k (uuid w) st"

section \<open>When the loop returns\<close>

lemma buffer_dispatch_request:
  "buffer (wself (snd (dispatch_request n s c))) = buffer (wself c)"
  by (auto simp: dispatch_request_def handleWeatherStatusRequest_frame handleAvailableStations_def
      writeRequest_def enqueue_def start_ws_op_def bind_result_Inr_iff Let_def
      split: sum.split prod.split)

lemma buffer_ws_handle: "buffer (wself (snd (ws_handle view c))) = buffer (wself c)"
  by (simp add: ws_handle_def Let_def buffer_dispatch_request)

lemma consume_simps [simp]:
  "buffer (wself (consume n c)) = drop n (buffer (wself c))"
  "wshared (consume n c) = wshared c" "stations (consume n c) = stations c"
  "consume 0 c = c"
  by (simp_all add: consume_def)

lemma read_loop_too_big:
  assumes "length (buffer (wself c)) > MaxPayloadSize"
  shows "read_loop c = None"
proof -
  have "length (buffer (wself c)) \<le> MaxPayloadSize" if "read_loop c = Some r" for c r
    using that
  proof (induction rule: read_loop.raw_induct [rotated 1, consumes 1])
    case (1 f c r)
    show ?case
    proof (rule ccontr)
      assume big: "\<not> length (buffer (wself c)) \<le> MaxPayloadSize"
      then have "buffer (wself c) \<noteq> []"
        and "ws_handle (buffer (wself c)) c = (Inr (PayloadTooBig, 0), c)"
        by (auto simp: ws_handle_def)
      then have "f c = Some r"
        using 1(2) by simp
      with 1(1) big show False by blast
    qed
  qed
  with assms show ?thesis by (metis not_less option.exhaust)
qed

lemma read_loop_returns:
  "length (buffer (wself c)) \<le> MaxPayloadSize \<Longrightarrow> \<exists>r. read_loop c = Some r"
proof (induction "length (buffer (wself c))" arbitrary: c rule: less_induct)
  case (less c)
  show ?case
  proof (cases "buffer (wself c) = []")
    case True
    then show ?thesis by (subst read_loop.simps) simp
  next
    case ne: False
    obtain v c' where h: "ws_handle (buffer (wself c)) c = (v, c')"
      by (cases "ws_handle (buffer (wself c)) c")
    have buf: "buffer (wself c') = buffer (wself c)"
      using buffer_ws_handle [of "buffer (wself c)" c] h by simp
    show ?thesis
    proof (cases v)
      case (Inl x)
      with h ne show ?thesis by (subst read_loop.simps) simp
    next
      case (Inr r)
      then obtain st n where v: "v = Inr (st, n)" by (cases r) auto
      have "fst (ws_handle (buffer (wself c)) c) = Inr (st, n)" using h v by simp
      from ws_handle_verdict [OF this] less.prems
      have st: "st = Bad \<or> st = Good \<and> 2 \<le> n" by auto
      have "\<exists>r. read_loop (consume n c') = Some r" if "2 \<le> n"
        using that ne less.prems buf by (intro less.hyps) auto
      with h v ne st show ?thesis
        by (subst read_loop.simps) (auto simp: Let_def)
    qed
  qed
qed

lemma read_loop_returns_iff:
  "(\<exists>r. read_loop c = Some r) \<longleftrightarrow> length (buffer (wself c)) \<le> MaxPayloadSize"
  using read_loop_too_big [of c] read_loop_returns [of c] by (metis not_less option.distinct(1))

end
