(* ===== verification/Ws_Queue.thy ===== *)
theory Ws_Queue
  imports Ws_Session
begin

text \<open>
  The outgoing queue of a WebSocket session: \<open>writeRequest\<close> appends to it, the completion of a
  write takes the front off and writes the next text. The contract of such a queue is a
  locale; the session's operations are its instance.
\<close>

section \<open>The contract\<close>

datatype ('c, 'm) queue_event = Push 'c 'm | Completed

fun queue_run ::
  "('c \<Rightarrow> 'm \<Rightarrow> 's \<Rightarrow> 's) \<Rightarrow> ('s \<Rightarrow> 's) \<Rightarrow> ('s \<Rightarrow> 'm list) \<Rightarrow> ('c, 'm) queue_event list \<Rightarrow>
     's \<times> 'm list \<Rightarrow> 's \<times> 'm list"
where
  "queue_run push pop flight [] (s, sent) = (s, sent)"
| "queue_run push pop flight (Push c m # es) (s, sent) =
     queue_run push pop flight es (push c m s, sent)"
| "queue_run push pop flight (Completed # es) (s, sent) =
     (if flight s = [] then queue_run push pop flight es (s, sent)
      else queue_run push pop flight es (pop s, sent @ [hd (flight s)]))"

fun pushed :: "('c, 'm) queue_event list \<Rightarrow> 'm list" where
  "pushed [] = []"
| "pushed (Push c m # es) = m # pushed es"
| "pushed (Completed # es) = pushed es"

locale write_queue =
  fixes push :: "'c \<Rightarrow> 'm \<Rightarrow> 's \<Rightarrow> 's"
    and pop :: "'s \<Rightarrow> 's"
    and contents :: "'s \<Rightarrow> 'm list"
    and flight :: "'s \<Rightarrow> 'm list"
    and valid :: "'s \<Rightarrow> bool"
  assumes contents_push: "valid s \<Longrightarrow> contents (push c m s) = contents s @ [m]"
    and contents_pop: "valid s \<Longrightarrow> contents s \<noteq> [] \<Longrightarrow> contents (pop s) = tl (contents s)"
    and flight_front: "valid s \<Longrightarrow> flight s = take 1 (contents s)"
    and valid_push: "valid s \<Longrightarrow> valid (push c m s)"
    and valid_pop: "valid s \<Longrightarrow> contents s \<noteq> [] \<Longrightarrow> valid (pop s)"
begin

lemma flight_empty_iff: "valid s \<Longrightarrow> flight s = [] \<longleftrightarrow> contents s = []"
  by (auto simp: flight_front)

lemma hd_flight: "valid s \<Longrightarrow> flight s \<noteq> [] \<Longrightarrow> hd (flight s) # tl (contents s) = contents s"
  by (cases "contents s") (auto simp: flight_front)

text \<open>What was sent and what is still queued is what was given to the queue, in order.\<close>

lemma fifo:
  assumes "valid s" "queue_run push pop flight es (s, sent) = (s', sent')"
  shows "valid s' \<and> sent' @ contents s' = sent @ contents s @ pushed es"
  using assms
proof (induction es arbitrary: s sent)
  case Nil
  then show ?case by simp
next
  case (Cons ev es)
  show ?case
  proof (cases ev)
    case (Push c m)
    with Cons.prems Cons.IH [of "push c m s" sent] show ?thesis
      by (simp add: valid_push contents_push)
  next
    case Completed
    show ?thesis
    proof (cases "flight s = []")
      case True
      with Cons Completed show ?thesis by simp
    next
      case False
      then have "contents s \<noteq> []" using Cons.prems(1) flight_empty_iff by blast
      with False Completed Cons.prems Cons.IH [of "pop s" "sent @ [hd (flight s)]"]
      show ?thesis using hd_flight [of s] by (simp add: valid_pop contents_pop)
    qed
  qed
qed

text \<open>Once nothing is in flight everything has been sent.\<close>

lemma drained:
  assumes "valid s" "queue_run push pop flight es (s, []) = (s', sent')" "flight s' = []"
  shows "sent' = contents s @ pushed es"
  using fifo [OF assms(1,2)] assms(3) flight_empty_iff [of s'] by auto

text \<open>At most one message is in flight at any time.\<close>

lemma one_in_flight: "valid s \<Longrightarrow> length (flight s) \<le> 1"
  by (simp add: flight_front)

end

section \<open>The session's queue\<close>

fun ws_writes :: "ws_op list \<Rightarrow> (string \<times> ws_completion) list" where
  "ws_writes [] = []"
| "ws_writes (WsWrite t h # ops) = (t, h) # ws_writes ops"
| "ws_writes (op # ops) = ws_writes ops"

definition texts_in_flight :: "WebSocketSession \<Rightarrow> string list" where
  "texts_in_flight w = map fst (ws_writes (ws_ops w))"

text \<open>The completion, without error, of the write in flight.\<close>

definition complete_write :: "WebSocketSession \<Rightarrow> WebSocketSession result" where
  "complete_write w =
     (case ws_writes (ws_ops w) of
        [] \<Rightarrow> Inr w
      | (t, h) # _ \<Rightarrow> onWrite NoError (length t) h (finish_ws_op (WsWrite t h) w))"

definition after_write :: "WebSocketSession \<Rightarrow> WebSocketSession" where
  "after_write w = (case complete_write w of Inl _ \<Rightarrow> w | Inr w' \<Rightarrow> w')"

definition queue_ok :: "WebSocketSession \<Rightarrow> bool" where
  "queue_ok w \<longleftrightarrow> texts_in_flight w = take 1 (queue w)"

lemma ws_writes_append [simp]: "ws_writes (xs @ ys) = ws_writes xs @ ws_writes ys"
  by (induction xs rule: ws_writes.induct) simp_all

lemma ws_writes_remove1:
  "ws_writes (remove1 op xs) =
     (case op of WsWrite t h \<Rightarrow> remove1 (t, h) (ws_writes xs) | _ \<Rightarrow> ws_writes xs)"
  by (induction xs rule: ws_writes.induct) (auto split: ws_op.split)

lemma queue_enqueue [simp]: "queue (enqueue t h w) = queue w @ [t]"
  by (simp add: enqueue_def start_ws_op_def Let_def)

lemma texts_in_flight_enqueue:
  "texts_in_flight (enqueue t h w) =
     (if queue w = [] then texts_in_flight w @ [t] else texts_in_flight w)"
  by (auto simp: enqueue_def start_ws_op_def Let_def texts_in_flight_def)

lemma complete_write_front:
  assumes "queue_ok w" "queue w = m # rest"
  shows "\<exists>w'. complete_write w = Inr w' \<and> queue w' = rest \<and> queue_ok w'"
proof -
  from assms obtain h where f: "ws_writes (ws_ops w) = [(m, h)]"
    by (auto simp: queue_ok_def texts_in_flight_def)
  then show ?thesis
    using assms(2)
    by (cases rest) (auto simp: complete_write_def onWrite_def finish_ws_op_def start_ws_op_def
        Let_def queue_ok_def texts_in_flight_def ws_writes_remove1)
qed

interpretation ws_queue: write_queue "\<lambda>h t. enqueue t h" after_write queue texts_in_flight queue_ok
proof (unfold_locales, goal_cases)
  case (1 s c m)
  then show ?case by simp
next
  case (2 s)
  then show ?case
    using complete_write_front [of s "hd (queue s)" "tl (queue s)"] by (auto simp: after_write_def)
next
  case (3 s)
  then show ?case by (simp add: queue_ok_def)
next
  case (4 s c m)
  then show ?case by (cases "queue s") (simp_all add: queue_ok_def texts_in_flight_enqueue)
next
  case (5 s)
  then show ?case
    using complete_write_front [of s "hd (queue s)" "tl (queue s)"] by (auto simp: after_write_def)
qed

text \<open>After a failed write nothing is in flight and the queue is not empty: it stays that way.\<close>

lemma failed_write_stalls:
  assumes "queue w \<noteq> []" "texts_in_flight w = []"
  shows "texts_in_flight (foldl (\<lambda>w (t, h). enqueue t h w) w msgs) = []
    \<and> queue (foldl (\<lambda>w (t, h). enqueue t h w) w msgs) = queue w @ map fst msgs"
  using assms
  by (induction msgs arbitrary: w) (auto simp: texts_in_flight_enqueue)

text \<open>
  Write errors included: at most one write is in flight, and then the queue is not empty, so
  the completion of a write never erases from an empty queue.
\<close>

definition flight_ok :: "WebSocketSession \<Rightarrow> bool" where
  "flight_ok w \<longleftrightarrow> texts_in_flight w = [] \<or> queue w \<noteq> [] \<and> length (texts_in_flight w) = 1"

lemma texts_in_flight_start:
  "(\<And>t h. op \<noteq> WsWrite t h) \<Longrightarrow> texts_in_flight (start_ws_op op w) = texts_in_flight w"
  by (cases op) (auto simp: texts_in_flight_def start_ws_op_def)

lemma texts_in_flight_finish:
  "(\<And>t h. op \<noteq> WsWrite t h) \<Longrightarrow> texts_in_flight (finish_ws_op op w) = texts_in_flight w"
  by (cases op) (auto simp: texts_in_flight_def finish_ws_op_def ws_writes_remove1)

lemma flight_ok_simps [simp]:
  "flight_ok (w\<lparr>buffer := b\<rparr>) = flight_ok w" "flight_ok (w\<lparr>uuid := u\<rparr>) = flight_ok w"
  "flight_ok (start_ws_op WsRead w) = flight_ok w" "flight_ok (start_ws_op WsClose w) = flight_ok w"
  "flight_ok (start_ws_op WsAccept w) = flight_ok w"
  "flight_ok (finish_ws_op WsRead w) = flight_ok w" "flight_ok (finish_ws_op WsClose w) = flight_ok w"
  "flight_ok (finish_ws_op WsAccept w) = flight_ok w"
  by (simp_all add: flight_ok_def texts_in_flight_start texts_in_flight_finish)
    (simp_all add: texts_in_flight_def start_ws_op_def finish_ws_op_def)

lemma flight_ok_enqueue: "flight_ok w \<Longrightarrow> flight_ok (enqueue t h w)"
  by (auto simp: flight_ok_def texts_in_flight_enqueue)

lemma in_flight_nonempty:
  assumes "flight_ok w" "WsWrite t h \<in> set (ws_ops w)"
  shows "queue w \<noteq> []" "texts_in_flight (finish_ws_op (WsWrite t h) w) = []"
proof -
  have "(t, h) \<in> set (ws_writes xs)" if "WsWrite t h \<in> set xs" for xs
    using that by (induction xs rule: ws_writes.induct) auto
  with assms(2) have m: "(t, h) \<in> set (ws_writes (ws_ops w))" by blast
  with assms(1) show "queue w \<noteq> []" by (auto simp: flight_ok_def texts_in_flight_def)
  from m assms(1) have "ws_writes (ws_ops w) = [(t, h)]"
    by (auto simp: flight_ok_def texts_in_flight_def length_Suc_conv)
  then show "texts_in_flight (finish_ws_op (WsWrite t h) w) = []"
    by (simp add: texts_in_flight_def finish_ws_op_def ws_writes_remove1)
qed

lemma flight_ok_written:
  assumes "flight_ok w" "WsWrite t h \<in> set (ws_ops w)"
  shows "\<exists>w'. onWrite err n h (finish_ws_op (WsWrite t h) w) = Inr w' \<and> flight_ok w'"
proof -
  have q: "queue (finish_ws_op (WsWrite t h) w) = queue w" by (simp add: finish_ws_op_def)
  show ?thesis
    using in_flight_nonempty [OF assms] q
    by (cases "queue w")
      (auto simp: onWrite_def Let_def flight_ok_def texts_in_flight_def start_ws_op_def)
qed

end
