(* ===== verification/Server_System.thy ===== *)
theory Server_System
  imports Tcp_Framing Ws_Queue
begin

text \<open>
  The running server: the shared state, the TCP and WebSocket sessions in memory and a clock.
  A step is one completion handler, run to its end, or an event of the environment: a
  connection, a timer that expires, the end of a session nobody refers to. Asio calls a
  handler once per operation, in any order; which operation completes, and how, is the
  environment's choice.
\<close>

section \<open>State\<close>

record server =
  clock :: nat
  srv_state :: SharedState
  tcps :: "proto \<Rightarrow> ptr \<Rightarrow> TCPSession option"
  wss :: "proto \<Rightarrow> ptr \<Rightarrow> WebSocketSession option"

definition start_server :: "string \<Rightarrow> json \<Rightarrow> nat \<Rightarrow> server" where
  "start_server dir cfg t =
     \<lparr>clock = t, srv_state = make_SharedState dir cfg, tcps = (\<lambda>_ _. None), wss = (\<lambda>_ _. None)\<rparr>"

definition at_clock :: "env \<Rightarrow> server \<Rightarrow> env" where
  "at_clock e s = e\<lparr>now := clock s\<rparr>"

definition tcp_context :: "server \<Rightarrow> TCPSession \<Rightarrow> tcp_ctx" where
  "tcp_context s t = \<lparr>self = t, shared = srv_state s, websockets = wss s\<rparr>"

definition store_tcp :: "proto \<Rightarrow> ptr \<Rightarrow> tcp_ctx \<Rightarrow> server \<Rightarrow> server" where
  "store_tcp k p c s =
     s\<lparr>srv_state := shared c, tcps := (tcps s)(k := (tcps s k)(p := Some (self c))),
       wss := websockets c\<rparr>"

definition ws_context :: "server \<Rightarrow> WebSocketSession \<Rightarrow> ws_ctx" where
  "ws_context s w = \<lparr>wself = w, wshared = srv_state s, stations = tcps s\<rparr>"

definition store_ws :: "proto \<Rightarrow> ptr \<Rightarrow> ws_ctx \<Rightarrow> server \<Rightarrow> server" where
  "store_ws k p c s =
     s\<lparr>srv_state := wshared c, tcps := stations c,
       wss := (wss s)(k := (wss s k)(p := Some (wself c)))\<rparr>"

section \<open>Completions of a TCP session\<close>

fun tcp_complete ::
  "env \<Rightarrow> proto \<Rightarrow> ptr \<Rightarrow> tcp_op \<Rightarrow> error_code \<Rightarrow> byte list \<Rightarrow> tcp_ctx \<Rightarrow> tcp_ctx result" where
  "tcp_complete e k p (ReadSome off cap) err d c =
     onReadPacketHeader e k p err (length d) (c\<lparr>self := receive off d (self c)\<rparr>)"
| "tcp_complete e k p (AsyncWrite n h) err d c =
     Inr (c\<lparr>self := onPacketWritten e err h (self c)\<rparr>)"
| "tcp_complete e k p WaitPing err d c = Inr (c\<lparr>self := onPingTimeout err (self c)\<rparr>)"
| "tcp_complete e k p WaitPong err d c = Inr (c\<lparr>self := onPongTimeout k e err (self c)\<rparr>)"
| "tcp_complete e k p SslHandshake err d c = Inr (c\<lparr>self := onHandshake err (self c)\<rparr>)"
| "tcp_complete e k p SslShutdown err d c = Inr (c\<lparr>self := onShutdown err (self c)\<rparr>)"

text \<open>
  How an operation can complete: a read without error brings at least one byte and at most
  what was asked for; a timer that fired has no error, a cancelled one is aborted; socket
  operations that were cancelled may still complete normally.
\<close>

fun data_fits :: "tcp_op \<Rightarrow> error_code \<Rightarrow> byte list \<Rightarrow> bool" where
  "data_fits (ReadSome off cap) err d = (if err = NoError then d \<noteq> [] \<and> length d \<le> cap else d = [])"
| "data_fits _ err d = (d = [])"

definition may_complete :: "tcp_op \<Rightarrow> op_status \<Rightarrow> error_code \<Rightarrow> byte list \<Rightarrow> bool" where
  "may_complete op st err d \<longleftrightarrow> data_fits op err d \<and>
     (if is_io op then True
      else st = Fired \<and> err = NoError \<or> st = Aborted \<and> err = OperationAborted)"

fun timer_due :: "tcp_op \<Rightarrow> nat \<Rightarrow> TCPSession \<Rightarrow> bool" where
  "timer_due WaitPing t s = (pingExpiry s \<le> t)"
| "timer_due WaitPong t s = (pongExpiry s \<le> t)"
| "timer_due _ t s = False"

definition fire_timer :: "tcp_op \<Rightarrow> TCPSession \<Rightarrow> TCPSession" where
  "fire_timer op s = s\<lparr>tcp_ops := (remove1 (op, Armed) (tcp_ops s)) @ [(op, Fired)]\<rparr>"

text \<open>The destructor runs when no operation holds the session any more.\<close>

definition destroy_tcp :: "proto \<Rightarrow> ptr \<Rightarrow> TCPSession \<Rightarrow> server \<Rightarrow> server" where
  "destroy_tcp k p t s =
     s\<lparr>srv_state := leave_TCPSession k (stationId t) (srv_state s),
       tcps := (tcps s)(k := (tcps s k)(p := None))\<rparr>"

text \<open>A WebSocket session is also held by the callback in the shared table.\<close>

definition listed :: "proto \<Rightarrow> ptr \<Rightarrow> SharedState \<Rightarrow> bool" where
  "listed k p st \<longleftrightarrow>
     (\<exists>u ctx. um_find (websockets_of k st) u = Some ctx \<and> ctx_callback ctx = NotifySession p)"

definition destroy_ws :: "proto \<Rightarrow> ptr \<Rightarrow> WebSocketSession \<Rightarrow> server \<Rightarrow> server" where
  "destroy_ws k p w s =
     s\<lparr>srv_state := destroy_WebSocketSession k w (srv_state s),
       wss := (wss s)(k := (wss s k)(p := None))\<rparr>"

section \<open>Steps\<close>

inductive server_step :: "env \<Rightarrow> server \<Rightarrow> server \<Rightarrow> bool" for e where
  tick: "server_step e s (s\<lparr>clock := clock s + d\<rparr>)"
| tcp_accept: "tcps s k p = None \<Longrightarrow>
    server_step e s (store_tcp k p
      (tcp_context s (run k (at_clock e s) (make_TCPSession garbage (clock s)))) s)"
| tcp_timer: "tcps s k p = Some t \<Longrightarrow> (op, Armed) \<in> set (tcp_ops t) \<Longrightarrow> timer_due op (clock s) t \<Longrightarrow>
    server_step e s (store_tcp k p (tcp_context s (fire_timer op t)) s)"
| tcp_completion: "tcps s k p = Some t \<Longrightarrow> (op, st) \<in> set (tcp_ops t) \<Longrightarrow> may_complete op st err d \<Longrightarrow>
    tcp_complete (at_clock e s) k p op err d (tcp_context s (finish_op (op, st) t)) = Inr c \<Longrightarrow>
    server_step e s (store_tcp k p c s)"
| tcp_destroy: "tcps s k p = Some t \<Longrightarrow> tcp_ops t = [] \<Longrightarrow> server_step e s (destroy_tcp k p t s)"
| ws_upgrade: "wss s k p = None \<Longrightarrow>
    server_step e s (store_ws k p (ws_context s (onRun (make_WebSocketSession garbage_uuid))) s)"
| ws_accepted: "wss s k p = Some w \<Longrightarrow> WsAccept \<in> set (ws_ops w) \<Longrightarrow>
    server_step e s (store_ws k p (onAccept k p err u (ws_context s (finish_ws_op WsAccept w))) s)"
| ws_message: "wss s k p = Some w \<Longrightarrow> WsRead \<in> set (ws_ops w) \<Longrightarrow>
    onRead k err (length d)
      (receive_message d (ws_context s (finish_ws_op WsRead w))) = Some (Inr c) \<Longrightarrow>
    server_step e s (store_ws k p c s)"
| ws_written: "wss s k p = Some w \<Longrightarrow> WsWrite txt h \<in> set (ws_ops w) \<Longrightarrow>
    onWrite err n h (finish_ws_op (WsWrite txt h) w) = Inr w' \<Longrightarrow>
    server_step e s (store_ws k p (ws_context s w') s)"
| ws_closed: "wss s k p = Some w \<Longrightarrow> WsClose \<in> set (ws_ops w) \<Longrightarrow>
    server_step e s (store_ws k p (ws_context s (finish_ws_op WsClose w)) s)"
| ws_destroy: "wss s k p = Some w \<Longrightarrow> ws_ops w = [] \<Longrightarrow> \<not> listed k p (srv_state s) \<Longrightarrow>
    server_step e s (destroy_ws k p w s)"

text \<open>
  A handler that does not return normally: an exception leaves \<open>io_context::run\<close> and ends the
  process, undefined behaviour may do anything, and a loop that does not end keeps its thread.
\<close>

inductive server_fault :: "env \<Rightarrow> server \<Rightarrow> abrupt \<Rightarrow> bool" for e where
  tcp_fault: "tcps s k p = Some t \<Longrightarrow> (op, st) \<in> set (tcp_ops t) \<Longrightarrow> may_complete op st err d \<Longrightarrow>
    tcp_complete (at_clock e s) k p op err d (tcp_context s (finish_op (op, st) t)) = Inl x \<Longrightarrow>
    server_fault e s x"
| ws_fault: "wss s k p = Some w \<Longrightarrow> WsRead \<in> set (ws_ops w) \<Longrightarrow>
    onRead k err (length d)
      (receive_message d (ws_context s (finish_ws_op WsRead w))) = Some (Inl x) \<Longrightarrow>
    server_fault e s x"
| write_fault: "wss s k p = Some w \<Longrightarrow> WsWrite txt h \<in> set (ws_ops w) \<Longrightarrow>
    onWrite err n h (finish_ws_op (WsWrite txt h) w) = Inl x \<Longrightarrow>
    server_fault e s x"

inductive server_hang :: "server \<Rightarrow> bool" where
  ws_hang: "wss s k p = Some w \<Longrightarrow> WsRead \<in> set (ws_ops w) \<Longrightarrow>
    onRead k err (length d)
      (receive_message d (ws_context s (finish_ws_op WsRead w))) = None \<Longrightarrow>
    server_hang s"

inductive_cases server_stepE: "server_step e s s'"
inductive_cases server_faultE: "server_fault e s x"

text \<open>Runs whose states, from the second on, all have a property.\<close>

inductive run_under :: "env \<Rightarrow> (server \<Rightarrow> bool) \<Rightarrow> server \<Rightarrow> server \<Rightarrow> bool" for e P s where
  run_refl: "run_under e P s s"
| run_step: "run_under e P s s' \<Longrightarrow> server_step e s' s'' \<Longrightarrow> P s'' \<Longrightarrow> run_under e P s s''"

abbreviation reaches :: "env \<Rightarrow> server \<Rightarrow> server \<Rightarrow> bool" where
  "reaches e \<equiv> run_under e (\<lambda>_. True)"

lemma run_under_invariant:
  assumes "run_under e P s s'" "I s"
    and "\<And>x y. I x \<Longrightarrow> server_step e x y \<Longrightarrow> P y \<Longrightarrow> I y"
  shows "I s'"
  using assms by (induction rule: run_under.induct) auto

lemma run_under_mono: "run_under e P s s' \<Longrightarrow> (\<And>x. P x \<Longrightarrow> Q x) \<Longrightarrow> run_under e Q s s'"
  by (induction rule: run_under.induct) (auto intro: run_under.intros)

lemma run_under_trans:
  "run_under e P s' s'' \<Longrightarrow> run_under e P s s' \<Longrightarrow> run_under e P s s''"
  by (induction rule: run_under.induct) (auto intro: run_under.intros)

section \<open>Simplification of the updates\<close>

lemma server_update_simps [simp]:
  "clock (store_tcp k p c s) = clock s" "srv_state (store_tcp k p c s) = shared c"
  "wss (store_tcp k p c s) = websockets c"
  "tcps (store_tcp k p c s) = (tcps s)(k := (tcps s k)(p := Some (self c)))"
  "clock (store_ws k p w s) = clock s" "srv_state (store_ws k p w s) = wshared w"
  "tcps (store_ws k p w s) = stations w"
  "wss (store_ws k p w s) = (wss s)(k := (wss s k)(p := Some (wself w)))"
  "srv_state (destroy_tcp k p t s) = leave_TCPSession k (stationId t) (srv_state s)"
  "tcps (destroy_tcp k p t s) = (tcps s)(k := (tcps s k)(p := None))"
  "wss (destroy_tcp k p t s) = wss s" "clock (destroy_tcp k p t s) = clock s"
  "srv_state (destroy_ws k p v s) = leave_WebSocketSession k (uuid v) (srv_state s)"
  "tcps (destroy_ws k p v s) = tcps s"
  "wss (destroy_ws k p v s) = (wss s)(k := (wss s k)(p := None))"
  "clock (destroy_ws k p v s) = clock s"
  by (simp_all add: store_tcp_def store_ws_def destroy_tcp_def destroy_ws_def
      destroy_WebSocketSession_def)

lemma context_simps [simp]:
  "self (tcp_context s t) = t" "shared (tcp_context s t) = srv_state s"
  "websockets (tcp_context s t) = wss s" "wself (ws_context s w) = w"
  "wshared (ws_context s w) = srv_state s" "stations (ws_context s w) = tcps s"
  by (simp_all add: tcp_context_def ws_context_def)

lemma start_server_simps [simp]:
  "clock (start_server r c t) = t" "srv_state (start_server r c t) = make_SharedState r c"
  "tcps (start_server r c t) k p = None" "wss (start_server r c t) k p = None"
  by (simp_all add: start_server_def)

end
