(* ===== verification/Server_Frames.thy ===== *)
theory Server_Frames
  imports Server_System
begin

text \<open>
  What a completion handler can change, as reflexive and transitive relations between the
  contexts before and after: the registration of stations, the WebSocket sessions a station's
  report reaches, and the TCP sessions a browser's request reaches. A locale states what such
  a relation has to satisfy for one packet and carries it through the read loop once.
\<close>

section \<open>Relations carried through the read loop of a station\<close>

locale packet_relation =
  fixes R :: "env \<Rightarrow> proto \<Rightarrow> ptr \<Rightarrow> tcp_ctx \<Rightarrow> tcp_ctx \<Rightarrow> bool"
  assumes R_refl: "R e k p c c"
    and R_trans: "R e k p c1 c2 \<Longrightarrow> R e k p c2 c3 \<Longrightarrow> R e k p c1 c3"
    and R_handle: "handle e k p pid view c = Inr (r, c') \<Longrightarrow> R e k p c c'"
    and R_buffer: "R e k p c (c\<lparr>self := pop_packet n (self c)\<rparr>)"
    and R_read_more: "R e k p c (c\<lparr>self := read_more e (self c)\<rparr>)"
    and R_doRead: "R e k p c (c\<lparr>self := doReadPacketHeader e (self c)\<rparr>)"
begin

lemma R_popped:
  "handle e k p pid view c = Inr (r, c') \<Longrightarrow> R e k p c (c'\<lparr>self := pop_packet n (self c')\<rparr>)"
  using R_handle R_buffer R_trans by blast

lemma R_parse: "parsePacketHeader e k p c = Inr c' \<Longrightarrow> R e k p c c'"
proof (induction "numBytesLeft (self c)" arbitrary: c rule: less_induct)
  case (less c)
  show ?case
  proof (cases "numBytesLeft (self c) = 0")
    case True
    with less.prems show ?thesis
      by (simp add: parsePacketHeader.simps [of e k p c] R_refl)
  next
    case False
    define pid where "pid = in_PacketType_of (input_buf (self c) ! 0)"
    define view where "view = take (numBytesLeft (self c)) (input_buf (self c))"
    from less.prems False obtain st n c1 where h: "handle e k p pid view c = Inr ((st, n), c1)"
      by (auto simp: parsePacketHeader.simps [of e k p c] Let_def pid_def view_def split: sum.splits)
    define c2 where "c2 = c1\<lparr>self := pop_packet n (self c1)\<rparr>"
    have R2: "R e k p c c2" using R_popped [OF h] by (simp add: c2_def)
    have st: "st \<noteq> PayloadTooBig" using handle_never_PayloadTooBig [OF h] .
    have R3: "R e k p c (c2\<lparr>self := read_more e (self c2)\<rparr>)"
      "R e k p c (c2\<lparr>self := doReadPacketHeader e (self c2)\<rparr>)"
      using R_trans [OF R2] R_read_more R_doRead by blast+
    have step: "parsePacketHeader e k p c =
        (if st = Good then
           if numBytesLeft (self c2) > 0 then parsePacketHeader e k p c2
           else Inr (c2\<lparr>self := doReadPacketHeader e (self c2)\<rparr>)
         else if st = Indeterminate then Inr (c2\<lparr>self := read_more e (self c2)\<rparr>) else Inr c2)"
      using False h st
      by (subst parsePacketHeader.simps)
        (auto simp: Let_def pid_def view_def c2_def split: ResultType.split)
    show ?thesis
    proof (cases "st = Good \<and> numBytesLeft (self c2) > 0")
      case True
      then have "0 < n \<and> n \<le> length view \<and> numBytesLeft (self c1) = numBytesLeft (self c)"
        using h handle_Good_size handle_frame(2) by fastforce
      then have "numBytesLeft (self c2) < numBytesLeft (self c)"
        using pop_packet_less [of n "self c1"] by (simp add: c2_def view_def)
      from less.hyps [OF this] True step less.prems show ?thesis
        using R_trans [OF R2] by simp
    next
      case no_more: False
      with step less.prems R2 R3 show ?thesis by (auto split: if_splits)
    qed
  qed
qed

text \<open>A fault of the loop is the fault of one handler, in a context the relation reaches.\<close>

lemma R_fault:
  "parsePacketHeader e k p c = Inl x \<Longrightarrow>
     \<exists>c1 pid view. R e k p c c1 \<and> handle e k p pid view c1 = Inl x"
proof (induction "numBytesLeft (self c)" arbitrary: c rule: less_induct)
  case (less c)
  define pid where "pid = in_PacketType_of (input_buf (self c) ! 0)"
  define view where "view = take (numBytesLeft (self c)) (input_buf (self c))"
  have ne: "numBytesLeft (self c) \<noteq> 0"
    using less.prems by (cases "numBytesLeft (self c) = 0") (auto simp: parsePacketHeader.simps [of e k p c])
  show ?case
  proof (cases "handle e k p pid view c")
    case (Inl y)
    with less.prems ne have "y = x"
      by (simp add: parsePacketHeader.simps [of e k p c] Let_def pid_def view_def)
    with Inl R_refl show ?thesis by blast
  next
    case (Inr r)
    then obtain st n c1 where h: "handle e k p pid view c = Inr ((st, n), c1)" by (cases r) auto
    define c2 where "c2 = c1\<lparr>self := pop_packet n (self c1)\<rparr>"
    have R2: "R e k p c c2" using R_popped [OF h] by (simp add: c2_def)
    have more: "st = Good" "numBytesLeft (self c2) > 0" "parsePacketHeader e k p c2 = Inl x"
      using less.prems ne h handle_never_PayloadTooBig [OF h]
      by (auto simp: parsePacketHeader.simps [of e k p c] Let_def pid_def view_def c2_def
          split: ResultType.splits if_splits)
    from more(1) h have "0 < n \<and> n \<le> length view \<and> numBytesLeft (self c1) = numBytesLeft (self c)"
      using handle_Good_size handle_frame(2) by fastforce
    then have "numBytesLeft (self c2) < numBytesLeft (self c)"
      using pop_packet_less [of n "self c1"] by (simp add: c2_def view_def)
    from less.hyps [OF this more(3)] R_trans [OF R2] show ?thesis by blast
  qed
qed

end

section \<open>Registration of stations\<close>

text \<open>
  A handler of session \<open>p\<close> only adds entries, all of them for \<open>p\<close>, and when it changes the
  registrations or the session's id, the id is registered for \<open>p\<close>.
\<close>

definition station_names :: "proto \<Rightarrow> SharedState \<Rightarrow> StationId \<Rightarrow> ptr option" where
  "station_names k st = um_find (stations_of k st)"

definition registers :: "env \<Rightarrow> proto \<Rightarrow> ptr \<Rightarrow> tcp_ctx \<Rightarrow> tcp_ctx \<Rightarrow> bool" where
  "registers e k p c c' \<longleftrightarrow>
     (\<forall>k'. k' \<noteq> k \<longrightarrow> station_names k' (shared c') = station_names k' (shared c)) \<and>
     (\<forall>sid q. station_names k (shared c) sid = Some q \<longrightarrow>
        station_names k (shared c') sid = Some q) \<and>
     (\<forall>sid q. station_names k (shared c') sid = Some q \<longrightarrow>
        station_names k (shared c) sid = Some q \<or> q = p \<and> sid < StationId_Max) \<and>
     (stationId (self c') = stationId (self c)
        \<and> station_names k (shared c') = station_names k (shared c)
      \<or> station_names k (shared c') (stationId (self c')) = Some p
        \<and> stationId (self c') < StationId_Max) \<and>
     (SharedState_ok (shared c) \<longrightarrow> SharedState_ok (shared c')) \<and>
     config (shared c') = config (shared c)"

lemma registers_same:
  "shared c' = shared c \<Longrightarrow> stationId (self c') = stationId (self c) \<Longrightarrow> registers e k p c c'"
  by (simp add: registers_def)

lemma registers_trans:
  assumes "registers e k p a b" "registers e k p b c"
  shows "registers e k p a c"
proof -
  have keeps: "station_names k (shared a) sid = Some q \<Longrightarrow> station_names k (shared c) sid = Some q"
    for sid q using assms by (simp add: registers_def)
  have adds: "station_names k (shared a) sid = Some q \<or> q = p \<and> sid < StationId_Max"
    if "station_names k (shared c) sid = Some q" for sid q
    using assms that unfolding registers_def by blast
  have own: "stationId (self c) = stationId (self a)
        \<and> station_names k (shared c) = station_names k (shared a)
      \<or> station_names k (shared c) (stationId (self c)) = Some p
        \<and> stationId (self c) < StationId_Max"
  proof (cases "stationId (self c) = stationId (self b)
      \<and> station_names k (shared c) = station_names k (shared b)")
    case True
    then show ?thesis using assms(1) by (auto simp: registers_def)
  next
    case False
    then show ?thesis using assms(2) by (auto simp: registers_def)
  qed
  show ?thesis
    using assms keeps adds own by (simp add: registers_def)
qed

lemma station_names_join:
  "station_names k' (fst (join_TCPSession k sid p st)) =
     (if k' = k \<and> station_names k st sid = None then (station_names k st)(sid \<mapsto> p)
      else station_names k' st)"
  by (auto simp: station_names_def join_TCPSession_stations um_find_try_emplace)

lemma registers_handle:
  assumes "handle e k p pid view c = Inr (r, c')"
  shows "registers e k p c c'"
proof (cases "pid = In_Handshake \<and> sizeByPacketId pid \<le> length view")
  case True
  then have "handleHandshakePacket e k p view c = Inr (r, c')"
    using assms True by (auto simp: handle_def)
  then show ?thesis
    by (auto simp: handleHandshakePacket_def Let_def bind_result_Inr_iff case_prod_unfold
        sendBadRequest_def registers_def station_names_join frame_simps
        join_TCPSession_flag station_names_def [symmetric] split: if_splits)
next
  case False
  with assms show ?thesis
    by (intro registers_same)
      (auto simp: handle_def handlePongPacket_def dest: handleWeatherStatusPacket_frame
        split: in_PacketType.splits if_splits)
qed

interpretation registering: packet_relation registers
proof (unfold_locales, goal_cases)
  case 1 then show ?case by (simp add: registers_same)
next
  case 2 then show ?case by (rule registers_trans)
next
  case 3 then show ?case by (rule registers_handle)
next
  case 4 then show ?case by (simp add: registers_same pop_packet_def Let_def)
next
  case 5 then show ?case by (simp add: registers_same read_more_def)
next
  case 6 then show ?case by (simp add: registers_same doReadPacketHeader_def)
qed

lemma run_completion_stationId [simp]: "stationId (run_completion e h s) = stationId s"
  by (cases h) (simp_all add: frame_simps)

lemma registers_complete:
  assumes "tcp_complete e k p op err d c = Inr c'"
  shows "registers e k p c c'"
proof (cases "\<exists>off cap. op = ReadSome off cap \<and> err = NoError")
  case True
  with assms obtain s where run: "parsePacketHeader e k p (c\<lparr>self := s\<rparr>) = Inr c'"
    and s: "stationId s = stationId (self c)"
    by (auto simp: onReadPacketHeader_def receive_def Let_def)
  have "registers e k p c (c\<lparr>self := s\<rparr>)" using s by (simp add: registers_same)
  from registers_trans [OF this registering.R_parse [OF run]] show ?thesis .
next
  case False
  with assms show ?thesis
    by (intro registers_same; cases op)
      (auto simp: onReadPacketHeader_def onPacketWritten_def onPingTimeout_def onPongTimeout_def
        onHandshake_def onShutdown_def TCPSession_run_def receive_def frame_simps
        split: if_splits)
qed

section \<open>WebSocket sessions a report reaches\<close>

definition ws_poked :: "WebSocketSession \<Rightarrow> WebSocketSession \<Rightarrow> bool" where
  "ws_poked w w' \<longleftrightarrow> uuid w' = uuid w \<and> buffer w' = buffer w \<and>
     (flight_ok w \<longrightarrow> flight_ok w') \<and>
     (\<exists>xs. ws_ops w' = ws_ops w @ map (\<lambda>(t, h). WsWrite t h) xs)"

lemma ws_poked_refl [simp]: "ws_poked w w"
  by (auto simp: ws_poked_def intro: exI [of _ "[]"])

lemma ws_poked_trans: "ws_poked u v \<Longrightarrow> ws_poked v w \<Longrightarrow> ws_poked u w"
  by (auto simp: ws_poked_def) (metis map_append)+

lemma rel_option_ws_poked_trans:
  "rel_option ws_poked a b \<Longrightarrow> rel_option ws_poked b c \<Longrightarrow> rel_option ws_poked a c"
  by (cases a; cases b; cases c) (auto intro: ws_poked_trans)

definition notifies :: "env \<Rightarrow> proto \<Rightarrow> ptr \<Rightarrow> tcp_ctx \<Rightarrow> tcp_ctx \<Rightarrow> bool" where
  "notifies e k p c c' \<longleftrightarrow>
     (\<forall>k. websockets_of k (shared c') = websockets_of k (shared c)) \<and>
     (\<forall>k q. rel_option ws_poked (websockets c k q) (websockets c' k q))"

lemma notifies_same:
  "shared c' = shared c \<Longrightarrow> websockets c' = websockets c \<Longrightarrow> notifies e k p c c'"
  by (simp add: notifies_def option.rel_refl)

lemma notifies_trans: "notifies e k p a b \<Longrightarrow> notifies e k p b c \<Longrightarrow> notifies e k p a c"
  by (auto simp: notifies_def) (metis rel_option_ws_poked_trans)

lemma enqueue_poked: "ws_poked w (enqueue t h w)"
proof -
  have "\<exists>xs. ws_ops (enqueue t h w) = ws_ops w @ map (\<lambda>(t, h). WsWrite t h) xs"
    by (auto simp: enqueue_def start_ws_op_def Let_def
        intro: exI [of _ "[]"] exI [of _ "[(hd (queue w @ [t]), h)]"])
  then show ?thesis
    using flight_ok_enqueue by (auto simp: ws_poked_def) (simp_all add: enqueue_def start_ws_op_def Let_def)
qed

lemma onWeatherStatusNotification_poked:
  "onWeatherStatusNotification n w = Inr w' \<Longrightarrow> ws_poked w w'"
  by (auto simp: onWeatherStatusNotification_def writeRequest_def bind_result_Inr_iff enqueue_poked)

lemma call_notification_notifies:
  assumes "call_notification k' cb n c = Inr c'"
  shows "notifies e k p c c'"
  using assms
  by (cases cb)
    (auto simp: bind_result_Inr_iff notifies_def option.rel_refl
      dest!: onWeatherStatusNotification_poked split: option.splits)

lemma handleWeatherStatusPacket_notifies:
  "handleWeatherStatusPacket view c = Inr (r, c') \<Longrightarrow> notifies e k p c c'"
  by (auto simp: handleWeatherStatusPacket_def Let_def bind_result_Inr_iff
      intro: call_notification_notifies notifies_same split: option.splits)

lemma notifies_handle:
  assumes "handle e k p pid view c = Inr (r, c')"
  shows "notifies e k p c c'"
proof (cases pid)
  case In_Handshake
  with assms have "c' = c \<or> handleHandshakePacket e k p view c = Inr (r, c')"
    by (auto simp: handle_def split: if_splits)
  then show ?thesis
    using handleHandshakePacket_shared [of e k p view c r c']
      handleHandshakePacket_frame(3) [of e k p view c r c']
    by (auto simp: notifies_def option.rel_refl frame_simps)
next
  case In_WeatherStatus
  with assms show ?thesis
    by (auto simp: handle_def notifies_same intro: handleWeatherStatusPacket_notifies
        split: if_splits)
qed (use assms in \<open>auto simp: handle_def handlePongPacket_def notifies_same split: if_splits\<close>)

interpretation notifying: packet_relation notifies
proof (unfold_locales, goal_cases)
  case 2 then show ?case by (rule notifies_trans)
next
  case 3 then show ?case by (rule notifies_handle)
qed (simp_all add: notifies_same)

lemma notifies_complete:
  assumes "tcp_complete e k p op err d c = Inr c'"
  shows "notifies e k p c c'"
proof (cases "\<exists>off cap. op = ReadSome off cap \<and> err = NoError")
  case True
  with assms obtain s where run: "parsePacketHeader e k p (c\<lparr>self := s\<rparr>) = Inr c'"
    by (auto simp: onReadPacketHeader_def Let_def)
  have "notifies e k p c (c\<lparr>self := s\<rparr>)" by (simp add: notifies_same)
  from notifies_trans [OF this notifying.R_parse [OF run]] show ?thesis .
next
  case False
  with assms show ?thesis
    by (intro notifies_same; cases op) (auto simp: onReadPacketHeader_def)
qed

text \<open>Both relations at once, for the faults of the loop.\<close>

definition affects :: "env \<Rightarrow> proto \<Rightarrow> ptr \<Rightarrow> tcp_ctx \<Rightarrow> tcp_ctx \<Rightarrow> bool" where
  "affects e k p c c' \<longleftrightarrow> registers e k p c c' \<and> notifies e k p c c'"

interpretation affecting: packet_relation affects
proof (unfold_locales, goal_cases)
  case 2 then show ?case unfolding affects_def using registers_trans notifies_trans by blast
next
  case 3 then show ?case unfolding affects_def using registers_handle notifies_handle by blast
qed (simp_all add: affects_def registering.R_refl registering.R_buffer registering.R_read_more
    registering.R_doRead notifying.R_refl notifying.R_buffer notifying.R_read_more notifying.R_doRead)

lemma completion_fault:
  assumes "tcp_complete e k p op err d c = Inl x"
  shows "\<exists>c1 pid view. affects e k p c c1 \<and> handle e k p pid view c1 = Inl x"
proof -
  from assms have "\<exists>off cap. op = ReadSome off cap" by (cases op) auto
  with assms obtain s where run: "parsePacketHeader e k p (c\<lparr>self := s\<rparr>) = Inl x"
    and s: "stationId s = stationId (self c)"
    by (auto simp: onReadPacketHeader_def receive_def Let_def split: if_splits)
  have "affects e k p c (c\<lparr>self := s\<rparr>)"
    using s by (simp add: affects_def registers_same notifies_same)
  with affecting.R_fault [OF run] affecting.R_trans show ?thesis by blast
qed

section \<open>TCP sessions a request reaches\<close>

definition tcp_poked :: "TCPSession \<Rightarrow> TCPSession \<Rightarrow> bool" where
  "tcp_poked t t' \<longleftrightarrow>
     stationId t' = stationId t \<and> input_buf t' = input_buf t \<and> numBytesLeft t' = numBytesLeft t \<and>
     pingExpiry t' = pingExpiry t \<and> pongExpiry t' = pongExpiry t \<and>
     (\<exists>ns. tcp_ops t' = tcp_ops t @ map (\<lambda>n. (AsyncWrite n LogOnly, Armed)) ns)"

lemma tcp_poked_refl [simp]: "tcp_poked t t"
  by (auto simp: tcp_poked_def intro: exI [of _ "[]"])

lemma tcp_poked_trans: "tcp_poked r s \<Longrightarrow> tcp_poked s t \<Longrightarrow> tcp_poked r t"
  by (auto simp: tcp_poked_def) (metis map_append)

lemma rel_option_tcp_poked_trans:
  "rel_option tcp_poked a b \<Longrightarrow> rel_option tcp_poked b c \<Longrightarrow> rel_option tcp_poked a c"
  by (cases a; cases b; cases c) (auto intro: tcp_poked_trans)

lemma writePacket_poked: "tcp_poked t (writePacket b LogOnly t)"
  by (auto simp: tcp_poked_def writePacket_def intro: exI [of _ "[length b]"])

definition requests :: "ws_ctx \<Rightarrow> ws_ctx \<Rightarrow> bool" where
  "requests c c' \<longleftrightarrow>
     wshared c' = wshared c \<and> uuid (wself c') = uuid (wself c) \<and>
     (flight_ok (wself c) \<longrightarrow> flight_ok (wself c')) \<and>
     (\<exists>xs. ws_ops (wself c') = ws_ops (wself c) @ xs \<and> WsAccept \<notin> set xs) \<and>
     (\<forall>k q. rel_option tcp_poked (stations c k q) (stations c' k q))"

lemma requests_refl [simp]: "requests c c"
  by (auto simp: requests_def option.rel_refl)

lemma requests_trans:
  assumes "requests a b" "requests b c"
  shows "requests a c"
proof -
  obtain xs ys where "ws_ops (wself b) = ws_ops (wself a) @ xs" "WsAccept \<notin> set xs"
    "ws_ops (wself c) = ws_ops (wself b) @ ys" "WsAccept \<notin> set ys"
    using assms by (auto simp: requests_def)
  then have "ws_ops (wself c) = ws_ops (wself a) @ (xs @ ys) \<and> WsAccept \<notin> set (xs @ ys)" by simp
  then show ?thesis
    using assms rel_option_tcp_poked_trans by (simp add: requests_def) metis
qed

lemma requests_start:
  assumes "requests c c'" "op = WsRead \<or> op = WsClose"
  shows "requests c (c'\<lparr>wself := start_ws_op op (wself c')\<rparr>)"
proof -
  have "flight_ok (start_ws_op op (wself c')) = flight_ok (wself c')" using assms(2) by auto
  with assms show ?thesis by (auto simp: requests_def) (auto simp: start_ws_op_def)
qed

lemma requests_consume [simp]: "requests c (consume n c)"
  by (auto simp: requests_def consume_def option.rel_refl)

lemma requests_visit_station: "requests c (visit_station u sp c)"
proof (cases "(u, sp, c)" rule: visit_station.cases)
  case (1 u p c)
  then show ?thesis
    by (cases "stations c Plain p")
      (auto simp: requests_def update_station_def option.rel_refl writePacket_poked)
next
  case (2 u p c)
  then show ?thesis
    by (cases "stations c SSL p")
      (auto simp: requests_def update_station_def option.rel_refl writePacket_poked)
qed simp_all

lemma requests_request_stations: "requests c (snd (request_stations js c))"
  by (induction js c rule: request_stations.induct)
    (auto split: sum.split intro: requests_trans [OF requests_visit_station])

lemma requests_handleWeatherStatusRequest: "requests c (snd (handleWeatherStatusRequest n j c))"
proof -
  have "requests c c'" if "request_stations js c = (r, c')" for js r c'
    using requests_request_stations [of c js] that by simp
  then show ?thesis
    by (auto simp: handleWeatherStatusRequest_def split: sum.split prod.split)
qed

lemma requests_enqueue: "requests c (c\<lparr>wself := enqueue t h (wself c)\<rparr>)"
proof -
  obtain xs where "ws_ops (enqueue t h (wself c)) = ws_ops (wself c) @ map (\<lambda>(t, h). WsWrite t h) xs"
    using enqueue_poked [of "wself c" t h] by (auto simp: ws_poked_def)
  then show ?thesis
    using enqueue_poked [of "wself c" t h] by (auto simp: requests_def option.rel_refl ws_poked_def)
qed

lemma requests_handleAvailableStations: "requests c (snd (handleAvailableStations n j c))"
  by (auto simp: handleAvailableStations_def writeRequest_def requests_enqueue
      bind_result_Inr_iff split: sum.split)

lemma dispatch_request_poked: "ws_poked (wself c) (wself (snd (dispatch_request n s c)))"
  by (auto simp: dispatch_request_def handleWeatherStatusRequest_frame handleAvailableStations_def
      writeRequest_def enqueue_poked bind_result_Inr_iff split: sum.split prod.split)

lemma ws_handle_poked: "ws_poked (wself c) (wself (snd (ws_handle view c)))"
  by (simp add: ws_handle_def Let_def dispatch_request_poked)

lemma requests_ws_handle: "requests c (snd (ws_handle view c))"
  by (simp add: ws_handle_def Let_def dispatch_request_def requests_handleWeatherStatusRequest
      requests_handleAvailableStations split: sum.split prod.split)

lemma requests_read_loop: "read_loop c = Some (Inr c') \<Longrightarrow> requests c c'"
proof (induction c "Inr c' :: ws_ctx result" rule: read_loop.raw_induct [rotated 1, consumes 1])
  case (1 f c)
  show ?case
  proof (cases "buffer (wself c) = []")
    case True
    with 1(2) show ?thesis by simp
  next
    case False
    obtain v c1 where h: "ws_handle (buffer (wself c)) c = (v, c1)"
      by (cases "ws_handle (buffer (wself c)) c")
    with 1(2) False obtain st n where v: "v = Inr (st, n)" by (cases v) auto
    have r1: "requests c c1" using requests_ws_handle [of c "buffer (wself c)"] h by simp
    then have r: "requests c (consume n c1)" using requests_trans requests_consume by blast
    have IH: "f (consume n c1) = Some (Inr c') \<Longrightarrow> requests c c'"
      using requests_trans [OF r] 1(1) by blast
    show ?thesis
      using 1(2) False h v r IH requests_start [of c]
      by (cases st) (auto simp: Let_def doRead_def split: if_splits)
  qed
qed

end
