(* ===== verification/Server_Invariants.thy ===== *)
theory Server_Invariants
  imports Server_Frames
begin

text \<open>
  Invariants of the running server. The tables own or name live sessions: a listed WebSocket
  session is in memory, and so is a registered station as long as no session registers twice.
  A TCP session has at most one reader, which writes inside its buffer. A session without a
  reader whose ping timer runs is never destroyed.
\<close>

section \<open>Registered stations\<close>

definition registered_alive :: "server \<Rightarrow> bool" where
  "registered_alive s \<longleftrightarrow>
     (\<forall>k sid p. station_names k (srv_state s) sid = Some p \<longrightarrow>
        sid < StationId_Max \<and> (\<exists>t. tcps s k p = Some t \<and> stationId t = sid))"

text \<open>No session is registered under two ids.\<close>

definition one_name :: "server \<Rightarrow> bool" where
  "one_name s \<longleftrightarrow>
     (\<forall>k sid sid' p. station_names k (srv_state s) sid = Some p \<longrightarrow>
        station_names k (srv_state s) sid' = Some p \<longrightarrow> sid = sid')"

lemma registered_aliveD:
  "registered_alive s \<Longrightarrow> station_names k (srv_state s) sid = Some p \<Longrightarrow>
     sid < StationId_Max \<and> (\<exists>t. tcps s k p = Some t \<and> stationId t = sid)"
  by (simp add: registered_alive_def)

lemma station_names_frames [simp]:
  "station_names k' (leave_WebSocketSession k u st) = station_names k' st"
  "station_names k' (fst (join_WebSocketSession k u ctx st)) = station_names k' st"
  by (simp_all add: station_names_def frame_simps)

lemma station_names_leave:
  "station_names k' (leave_TCPSession k sid st) =
     (if k' = k then (station_names k st)(sid := None) else station_names k' st)"
  by (simp add: station_names_def leave_TCPSession_stations um_find_erase)

lemma onRead_cases:
  "onRead k err n c = Some (Inr c') \<Longrightarrow> c' = leave_session k c \<or> requests c c'"
  by (auto simp: onRead_def split: if_splits dest: requests_read_loop)

lemma registers_old:
  assumes "registers e k p c c'" "station_names k' (shared c') sid = Some q" "k' \<noteq> k \<or> q \<noteq> p"
  shows "station_names k' (shared c) sid = Some q"
proof (cases "k' = k")
  case True
  with assms show ?thesis unfolding registers_def by blast
next
  case False
  with assms show ?thesis by (simp add: registers_def)
qed

lemma registers_new:
  assumes "registers e k p c c'" "station_names k (shared c') sid = Some q"
  shows "station_names k (shared c) sid = Some q \<or> sid < StationId_Max"
  using assms unfolding registers_def by blast

lemma registered_alive_store:
  assumes "registered_alive s" "tcps s k p = Some t" "registers e k p (tcp_context s t) c"
    and "one_name (store_tcp k p c s)"
  shows "registered_alive (store_tcp k p c s)"
  unfolding registered_alive_def
proof (intro allI impI)
  fix k' sid q
  assume reg: "station_names k' (srv_state (store_tcp k p c s)) sid = Some q"
  show "sid < StationId_Max \<and> (\<exists>t. tcps (store_tcp k p c s) k' q = Some t \<and> stationId t = sid)"
  proof (cases "k' = k \<and> q = p")
    case False
    with reg registers_old [OF assms(3)] have "station_names k' (srv_state s) sid = Some q"
      by auto
    from registered_aliveD [OF assms(1) this] False show ?thesis by auto
  next
    case True
    with reg have reg: "station_names k (shared c) sid = Some p" by simp
    have "stationId (self c) = sid"
    proof (cases "station_names k (shared c) (stationId (self c)) = Some p")
      case True
      with reg assms(4) show ?thesis by (auto simp: one_name_def)
    next
      case False
      with assms(3) have "stationId (self c) = stationId t"
        "station_names k (shared c) = station_names k (srv_state s)"
        by (auto simp: registers_def)
      with reg registered_aliveD [OF assms(1), of k sid p] assms(2) show ?thesis by auto
    qed
    moreover have "sid < StationId_Max"
      using registers_new [OF assms(3) reg] registered_aliveD [OF assms(1), of k sid p] by auto
    ultimately show ?thesis using True by simp
  qed
qed

lemma poked_some:
  "rel_option tcp_poked a b \<Longrightarrow> a = Some t \<Longrightarrow> \<exists>t'. b = Some t' \<and> tcp_poked t t'"
  by (cases b) auto

lemma registered_alive_ws:
  assumes "registered_alive s"
    and "\<And>k. station_names k (wshared c) = station_names k (srv_state s)"
    and "\<And>k q. rel_option tcp_poked (tcps s k q) (stations c k q)"
  shows "registered_alive (store_ws k p c s)"
  unfolding registered_alive_def
proof (intro allI impI)
  fix k' sid q
  assume "station_names k' (srv_state (store_ws k p c s)) sid = Some q"
  then have "station_names k' (srv_state s) sid = Some q" using assms(2) by simp
  from registered_aliveD [OF assms(1) this]
  obtain t where "sid < StationId_Max" "tcps s k' q = Some t" "stationId t = sid" by auto
  with poked_some [OF assms(3) [of k' q]] show "sid < StationId_Max \<and>
      (\<exists>t. tcps (store_ws k p c s) k' q = Some t \<and> stationId t = sid)"
    by (auto simp: tcp_poked_def)
qed

lemma finish_op_frame [simp]:
  "stationId (finish_op x t) = stationId t" "input_buf (finish_op x t) = input_buf t"
  "numBytesLeft (finish_op x t) = numBytesLeft t" "pingExpiry (finish_op x t) = pingExpiry t"
  "tcp_ops (finish_op x t) = remove1 x (tcp_ops t)"
  by (simp_all add: finish_op_def)

lemma registers_context:
  "registers e k p (tcp_context s t) c \<Longrightarrow> stationId t = stationId t' \<Longrightarrow>
     registers e k p (tcp_context s t') c"
  by (simp add: registers_def)

lemma registered_alive_step:
  assumes "registered_alive s" "server_step e s s'" "one_name s'"
  shows "registered_alive s'"
  using assms(2)
proof cases
  case (tick d)
  with assms(1) show ?thesis by (simp add: registered_alive_def)
next
  case (tcp_accept k p garbage)
  have "station_names k (srv_state s) sid \<noteq> Some p" for sid
    using registered_aliveD [OF assms(1), of k sid p] tcp_accept by auto
  with assms(1) tcp_accept(1) show ?thesis
    by (auto simp: registered_alive_def)
next
  case (tcp_timer k p t op)
  have "registers e k p (tcp_context s t) (tcp_context s (fire_timer op t))"
    by (simp add: registers_same fire_timer_def)
  with registered_alive_store [OF assms(1) tcp_timer(2)] assms(3) tcp_timer(1) show ?thesis by simp
next
  case (tcp_completion k p t op st err d c)
  have "registers (at_clock e s) k p (tcp_context s t) c"
    using registers_complete [OF tcp_completion(5)] by (rule registers_context) simp
  with registered_alive_store [OF assms(1) tcp_completion(2)] assms(3) tcp_completion(1)
  show ?thesis by simp
next
  case (tcp_destroy k p t)
  show ?thesis
    unfolding registered_alive_def
  proof (intro allI impI)
    fix k' sid q
    assume "station_names k' (srv_state s') sid = Some q"
    then have old: "station_names k' (srv_state s) sid = Some q" and "k' = k \<longrightarrow> sid \<noteq> stationId t"
      using tcp_destroy(1) by (auto simp: station_names_leave split: if_splits)
    with registered_aliveD [OF assms(1) old] tcp_destroy(1,2)
    show "sid < StationId_Max \<and> (\<exists>t. tcps s' k' q = Some t \<and> stationId t = sid)" by auto
  qed
next
  case (ws_upgrade k p g)
  with assms(1) show ?thesis by (auto intro!: registered_alive_ws simp: option.rel_refl)
next
  case (ws_accepted k p w err u)
  with assms(1) show ?thesis
    by (auto intro!: registered_alive_ws simp: onAccept_def Let_def case_prod_unfold option.rel_refl)
next
  case (ws_message k p w err d c)
  from onRead_cases [OF ws_message(4)] show ?thesis
    unfolding ws_message(1) using assms(1)
    by (auto intro!: registered_alive_ws
        simp: leave_session_def requests_def receive_message_def option.rel_refl)
next
  case (ws_written k p w msg h err n w2)
  with assms(1) show ?thesis by (auto intro!: registered_alive_ws simp: option.rel_refl)
next
  case (ws_closed k p w)
  with assms(1) show ?thesis by (auto intro!: registered_alive_ws simp: option.rel_refl)
next
  case (ws_destroy k p w)
  with assms(1) show ?thesis by (simp add: registered_alive_def)
qed

lemma station_names_make [simp]: "station_names k (make_SharedState r c) = Map.empty"
  by (cases k) (simp_all add: station_names_def make_SharedState_def)

lemma registered_alive_start [simp]: "registered_alive (start_server r c t)"
  by (simp add: registered_alive_def)

lemma registered_alive_run:
  "run_under e one_name (start_server r c t) s \<Longrightarrow> registered_alive s"
  by (erule run_under_invariant [where I = registered_alive]) (auto intro: registered_alive_step)

text \<open>Then the lookup of a station never touches freed memory.\<close>

lemma findStation_safe:
  assumes "registered_alive s"
  shows "\<exists>v. findStation (live_station (tcps s)) sid (srv_state s) = Inr v"
proof -
  have "live_station (tcps s) k p \<noteq> Freed" if "station_names k (srv_state s) sid = Some p" for k p
    using registered_aliveD [OF assms that] by (auto simp: live_station_def split: if_splits)
  then have ok: "\<exists>b. lock_weak_from_this (live_station (tcps s) k p) = Inr b"
    if "station_names k (srv_state s) sid = Some p" for k p
    using that by (cases "live_station (tcps s) k p") auto
  have "\<exists>v. findPlainStation (live_station (tcps s) Plain) sid (srv_state s) = Inr v"
    "\<exists>v. findSSLStation (live_station (tcps s) SSL) sid (srv_state s) = Inr v"
    using ok [of Plain] ok [of SSL]
    by (auto simp: findPlainStation_def findSSLStation_def station_names_def bind_result_Inr_iff
        split: option.split)
  then show ?thesis by (auto simp: findStation_def)
qed

end
