(* ===== verification/Server_Lifetimes.thy ===== *)
theory Server_Lifetimes
  imports Server_Invariants
begin

text \<open>
  Lifetimes: the table of WebSocket sessions lists live sessions only, so a weather report
  never reaches freed memory; and a TCP session that stopped reading while its ping timer runs
  is never destroyed.
\<close>

section \<open>Listed WebSocket sessions\<close>

text \<open>
  Every entry names a session in memory with the entry's UUID. A session accepts the upgrade
  once, and is not listed before it has.
\<close>

definition listed_alive :: "server \<Rightarrow> bool" where
  "listed_alive s \<longleftrightarrow>
     (\<forall>k u ctx. um_find (websockets_of k (srv_state s)) u = Some ctx \<longrightarrow>
        ctx_callback ctx = NotifySession (ctx_session ctx) \<and>
        (\<exists>w. wss s k (ctx_session ctx) = Some w \<and> uuid w = u \<and> WsAccept \<notin> set (ws_ops w))) \<and>
     (\<forall>k p w. wss s k p = Some w \<longrightarrow> count_list (ws_ops w) WsAccept \<le> 1)"

lemma listed_aliveD:
  assumes "listed_alive s" "um_find (websockets_of k (srv_state s)) u = Some ctx"
  shows "ctx_callback ctx = NotifySession (ctx_session ctx)"
    "\<exists>w. wss s k (ctx_session ctx) = Some w \<and> uuid w = u \<and> WsAccept \<notin> set (ws_ops w)"
  using assms by (auto simp: listed_alive_def)

text \<open>Sessions change, but keep their UUID and accept nothing again; entries only disappear.\<close>

definition ws_follows :: "WebSocketSession \<Rightarrow> WebSocketSession \<Rightarrow> bool" where
  "ws_follows w w' \<longleftrightarrow> uuid w' = uuid w \<and>
     count_list (ws_ops w') WsAccept \<le> count_list (ws_ops w) WsAccept"

lemma ws_follows_refl [simp]: "ws_follows w w"
  by (simp add: ws_follows_def)

lemma count_list_0: "count_list xs x = 0 \<longleftrightarrow> x \<notin> set xs"
  by (induction xs) auto

lemma count_list_append [simp]: "count_list (xs @ ys) x = count_list xs x + count_list ys x"
  by (induction xs) auto

lemma count_list_remove1:
  "count_list (remove1 y xs) x = (if x = y then count_list xs x - 1 else count_list xs x)"
  by (induction xs) (auto simp: count_list_0 Suc_diff_Suc)

lemma ws_poked_follows: "ws_poked w w' \<Longrightarrow> ws_follows w w'"
proof -
  have "count_list (map (\<lambda>(t, h). WsWrite t h) xs) WsAccept = 0" for xs
    by (auto simp: count_list_0)
  then show "ws_poked w w' \<Longrightarrow> ws_follows w w'" by (auto simp: ws_poked_def ws_follows_def)
qed

lemma listed_alive_follows:
  assumes "listed_alive s"
    and find: "\<And>k u ctx. um_find (websockets_of k (srv_state s')) u = Some ctx \<Longrightarrow>
      um_find (websockets_of k (srv_state s)) u = Some ctx"
    and old: "\<And>k p w. wss s k p = Some w \<Longrightarrow> \<exists>w'. wss s' k p = Some w' \<and> ws_follows w w'"
    and new: "\<And>k p w'. wss s' k p = Some w' \<Longrightarrow> wss s k p = None \<Longrightarrow> count_list (ws_ops w') WsAccept \<le> 1"
  shows "listed_alive s'"
  unfolding listed_alive_def
proof (intro conjI allI impI)
  fix k u ctx
  assume "um_find (websockets_of k (srv_state s')) u = Some ctx"
  note l = listed_aliveD [OF assms(1) find [OF this]]
  show "ctx_callback ctx = NotifySession (ctx_session ctx)" by (rule l(1))
  from l(2) obtain w where w: "wss s k (ctx_session ctx) = Some w" "uuid w = u"
    "WsAccept \<notin> set (ws_ops w)" by auto
  with old [OF w(1)]
  show "\<exists>w. wss s' k (ctx_session ctx) = Some w \<and> uuid w = u \<and> WsAccept \<notin> set (ws_ops w)"
    by (auto simp: ws_follows_def simp flip: count_list_0)
next
  fix k p w'
  assume w': "wss s' k p = Some w'"
  show "count_list (ws_ops w') WsAccept \<le> 1"
  proof (cases "wss s k p")
    case None
    with w' new show ?thesis by blast
  next
    case (Some w)
    with assms(1) have "count_list (ws_ops w) WsAccept \<le> 1" by (auto simp: listed_alive_def)
    with old [OF Some] w' show ?thesis by (auto simp: ws_follows_def)
  qed
qed

lemma listed_alive_tcp:
  assumes "listed_alive s" "notifies e k p (tcp_context s t) c"
  shows "listed_alive (store_tcp k p c s)"
proof (rule listed_alive_follows [OF assms(1)])
  fix k' u ctx
  assume "um_find (websockets_of k' (srv_state (store_tcp k p c s))) u = Some ctx"
  then show "um_find (websockets_of k' (srv_state s)) u = Some ctx"
    using assms(2) by (simp add: notifies_def)
next
  fix k' q w
  assume "wss s k' q = Some w"
  moreover have "rel_option ws_poked (wss s k' q) (wss (store_tcp k p c s) k' q)"
    using assms(2) by (simp add: notifies_def)
  ultimately show "\<exists>w'. wss (store_tcp k p c s) k' q = Some w' \<and> ws_follows w w'"
    by (cases "wss (store_tcp k p c s) k' q") (auto intro: ws_poked_follows)
next
  fix k' q w'
  assume "wss (store_tcp k p c s) k' q = Some w'" "wss s k' q = None"
  moreover have "rel_option ws_poked (wss s k' q) (wss (store_tcp k p c s) k' q)"
    using assms(2) by (simp add: notifies_def)
  ultimately show "count_list (ws_ops w') WsAccept \<le> 1" by simp
qed

lemma notifies_context:
  "notifies e k p (tcp_context s t) c \<longleftrightarrow> notifies e k p (tcp_context s t') c"
  by (simp add: notifies_def)

lemma websockets_find_leave:
  "um_find (websockets_of k' (leave_WebSocketSession k u st)) u' = Some ctx \<Longrightarrow>
     um_find (websockets_of k' st) u' = Some ctx \<and> (k' = k \<longrightarrow> u' \<noteq> u)"
  by (auto simp: leave_WebSocketSession_websockets um_find_erase split: if_splits)

lemma listed_alive_ws:
  assumes "listed_alive s" "wss s k p = Some w"
    and find: "\<And>k u ctx. um_find (websockets_of k (wshared c)) u = Some ctx \<Longrightarrow>
      um_find (websockets_of k (srv_state s)) u = Some ctx"
    and w: "ws_follows w (wself c)"
  shows "listed_alive (store_ws k p c s)"
  by (rule listed_alive_follows [OF assms(1)])
    (use assms in \<open>auto split: if_splits\<close>)

lemma requests_follows: "requests c c' \<Longrightarrow> ws_follows (wself c) (wself c')"
  by (auto simp: requests_def ws_follows_def simp flip: count_list_0)

lemma ws_follows_finish: "ws_follows (finish_ws_op op w) w' \<Longrightarrow> ws_follows w w'"
  by (auto simp: ws_follows_def finish_ws_op_def count_list_remove1 split: if_splits)

lemma ws_follows_finish_refl [simp]: "ws_follows w (finish_ws_op op w)"
  by (rule ws_follows_finish [OF ws_follows_refl])

lemma ws_follows_trans: "ws_follows u v \<Longrightarrow> ws_follows v w \<Longrightarrow> ws_follows u w"
  by (simp add: ws_follows_def)

lemma listed_alive_accept:
  assumes I: "listed_alive s" and w: "wss s k p = Some w" "WsAccept \<in> set (ws_ops w)"
  shows "listed_alive (store_ws k p (onAccept k p NoError u (ws_context s (finish_ws_op WsAccept w))) s)"
    (is "listed_alive ?s'")
  unfolding listed_alive_def
proof (intro conjI allI impI)
  define w' where "w' = doRead ((finish_ws_op WsAccept w)\<lparr>uuid := u\<rparr>)"
  have wss': "wss ?s' = (wss s)(k := (wss s k)(p := Some w'))"
    by (simp add: onAccept_def Let_def case_prod_unfold w'_def)
  have one: "count_list (ws_ops w) WsAccept = 1"
    using I w by (auto simp: listed_alive_def le_Suc_eq count_list_0)
  have none: "count_list (ws_ops w') WsAccept = 0"
    using one by (simp add: w'_def doRead_def start_ws_op_def finish_ws_op_def count_list_remove1)
  {
    fix k' u' ctx
    assume a: "um_find (websockets_of k' (srv_state ?s')) u' = Some ctx"
    show "ctx_callback ctx = NotifySession (ctx_session ctx)"
      and "\<exists>w. wss ?s' k' (ctx_session ctx) = Some w \<and> uuid w = u' \<and> WsAccept \<notin> set (ws_ops w)"
    proof (atomize (full), cases "um_find (websockets_of k' (srv_state s)) u' = Some ctx")
      case True
      note l = listed_aliveD [OF I True]
      have "\<not> (k' = k \<and> ctx_session ctx = p)" using l(2) w by auto
      with l show "ctx_callback ctx = NotifySession (ctx_session ctx) \<and>
          (\<exists>w. wss ?s' k' (ctx_session ctx) = Some w \<and> uuid w = u' \<and> WsAccept \<notin> set (ws_ops w))"
        unfolding wss' by auto
    next
      case False
      with a have "k' = k \<and> u' = u \<and> ctx = \<lparr>ctx_session = p, ctx_callback = NotifySession p\<rparr>"
        by (auto simp: onAccept_def Let_def case_prod_unfold join_WebSocketSession_websockets
            um_find_try_emplace split: if_splits)
      with none show "ctx_callback ctx = NotifySession (ctx_session ctx) \<and>
          (\<exists>w. wss ?s' k' (ctx_session ctx) = Some w \<and> uuid w = u' \<and> WsAccept \<notin> set (ws_ops w))"
        unfolding wss' by (simp add: count_list_0) (simp add: w'_def doRead_def start_ws_op_def)
    qed
  }
  fix k' q v
  assume "wss ?s' k' q = Some v"
  with none I show "count_list (ws_ops v) WsAccept \<le> 1"
    unfolding wss' by (auto simp: listed_alive_def split: if_splits)
qed

lemma onWrite_follows: "onWrite err n h w = Inr w' \<Longrightarrow> ws_follows w w'"
  by (auto simp: onWrite_def Let_def start_ws_op_def ws_follows_def split: if_splits list.splits)

lemma listed_alive_step:
  assumes I: "listed_alive s" and step: "server_step e s s'"
  shows "listed_alive s'"
  using step
proof cases
  case (tick d)
  with I show ?thesis by (simp add: listed_alive_def)
next
  case (tcp_accept k p garbage)
  have "notifies e k p (tcp_context s t) (tcp_context s t')" for t t'
    by (simp add: notifies_same)
  with I tcp_accept(1) show ?thesis by (auto intro: listed_alive_tcp)
next
  case (tcp_timer k p t op)
  have "notifies e k p (tcp_context s t) (tcp_context s t')" for t t'
    by (simp add: notifies_same)
  with I tcp_timer(1) show ?thesis by (auto intro: listed_alive_tcp)
next
  case (tcp_completion k p t op st err d c)
  have "notifies (at_clock e s) k p (tcp_context s t) c"
    using notifies_complete [OF tcp_completion(5)] by (simp add: notifies_def)
  with I tcp_completion(1) show ?thesis by (auto intro: listed_alive_tcp)
next
  case (tcp_destroy k p t)
  with I show ?thesis by (simp add: listed_alive_def frame_simps)
next
  case (ws_upgrade k p g)
  show ?thesis
    by (rule listed_alive_follows [OF I])
      (use ws_upgrade in \<open>auto simp: onRun_def start_ws_op_def make_WebSocketSession_def
        split: if_splits\<close>)
next
  case (ws_accepted k p w err u)
  show ?thesis
  proof (cases "err = NoError")
    case True
    with listed_alive_accept [OF I ws_accepted(2,3)] ws_accepted(1) show ?thesis by simp
  next
    case False
    then have "listed_alive (store_ws k p (ws_context s (finish_ws_op WsAccept w)) s)"
      by (intro listed_alive_ws [OF I ws_accepted(2)]) auto
    with False ws_accepted(1) show ?thesis by (simp add: onAccept_def)
  qed
next
  case (ws_message k p w err d c)
  have "listed_alive (store_ws k p c s)"
  proof (rule listed_alive_ws [OF I ws_message(2)])
    fix k' u ctx
    assume "um_find (websockets_of k' (wshared c)) u = Some ctx"
    with onRead_cases [OF ws_message(4)]
    show "um_find (websockets_of k' (srv_state s)) u = Some ctx"
      by (auto simp: leave_session_def requests_def receive_message_def
          dest: websockets_find_leave)
  next
    have "ws_follows (finish_ws_op WsRead w) (wself c)"
      using onRead_cases [OF ws_message(4)]
      by (auto simp: leave_session_def receive_message_def ws_follows_def dest!: requests_follows)
    then show "ws_follows w (wself c)" by (rule ws_follows_finish)
  qed
  with ws_message(1) show ?thesis by simp
next
  case (ws_written k p w msg h err n w2)
  have "listed_alive (store_ws k p (ws_context s w2) s)"
    by (intro listed_alive_ws [OF I ws_written(2)])
      (use onWrite_follows [OF ws_written(4)] in \<open>auto intro: ws_follows_finish\<close>)
  with ws_written(1) show ?thesis by simp
next
  case (ws_closed k p w)
  have "listed_alive (store_ws k p (ws_context s (finish_ws_op WsClose w)) s)"
    by (intro listed_alive_ws [OF I ws_closed(2)]) auto
  with ws_closed(1) show ?thesis by simp
next
  case (ws_destroy k p w)
  show ?thesis
    unfolding listed_alive_def
  proof (intro conjI allI impI)
    fix k' u ctx
    assume "um_find (websockets_of k' (srv_state s')) u = Some ctx"
    then have a: "um_find (websockets_of k' (srv_state s)) u = Some ctx"
      using ws_destroy(1) by (auto dest: websockets_find_leave)
    note l = listed_aliveD [OF I a]
    show "ctx_callback ctx = NotifySession (ctx_session ctx)" by (rule l(1))
    from a l(1) ws_destroy(4) have "\<not> (k' = k \<and> ctx_session ctx = p)"
      by (auto simp: listed_def)
    with l(2) ws_destroy(1)
    show "\<exists>w. wss s' k' (ctx_session ctx) = Some w \<and> uuid w = u \<and> WsAccept \<notin> set (ws_ops w)"
      by auto
  next
    fix k' q v
    assume "wss s' k' q = Some v"
    with I ws_destroy(1) show "count_list (ws_ops v) WsAccept \<le> 1"
      by (auto simp: listed_alive_def split: if_splits)
  qed
qed

lemma websockets_of_make [simp]: "websockets_of k (make_SharedState r c) = []"
  by (cases k) (simp_all add: make_SharedState_def)

lemma listed_alive_start [simp]: "listed_alive (start_server r c t)"
  by (auto simp: listed_alive_def)

lemma listed_alive_run: "run_under e P (start_server r c t) s \<Longrightarrow> listed_alive s"
  by (erule run_under_invariant [where I = listed_alive]) (auto intro: listed_alive_step)

section \<open>Readers of a TCP session\<close>

text \<open>Operations that read, or whose completion starts reading.\<close>

fun starts_reading :: "tcp_op \<Rightarrow> bool" where
  "starts_reading (ReadSome off cap) = True"
| "starts_reading (AsyncWrite n StartReading) = True"
| "starts_reading SslHandshake = True"
| "starts_reading _ = False"

definition readers :: "TCPSession \<Rightarrow> (tcp_op \<times> op_status) list" where
  "readers t = filter (\<lambda>x. starts_reading (fst x)) (tcp_ops t)"

lemma readers_start_op [simp]:
  "readers (start_op op t) = readers t @ (if starts_reading op then [(op, Armed)] else [])"
  by (simp add: readers_def)

lemma readers_update [simp]:
  "readers (t\<lparr>output_buf := b\<rparr>) = readers t" "readers (t\<lparr>stationId := i\<rparr>) = readers t"
  "readers (t\<lparr>input_buf := b\<rparr>) = readers t" "readers (t\<lparr>numBytesLeft := n\<rparr>) = readers t"
  "readers (t\<lparr>deadline := d\<rparr>) = readers t" "readers (t\<lparr>pingExpiry := n\<rparr>) = readers t"
  "readers (t\<lparr>pongExpiry := n\<rparr>) = readers t" "readers (t\<lparr>socketOpen := b'\<rparr>) = readers t"
  by (simp_all add: readers_def)

lemma readers_cancel:
  "map fst (readers (cancel_ops P t)) = map fst (readers t)"
proof -
  have "map fst (filter (\<lambda>x. starts_reading (fst x))
      (map (\<lambda>(x, st). if P x \<and> st = Armed then (x, Aborted) else (x, st)) xs))
    = map fst (filter (\<lambda>x. starts_reading (fst x)) xs)" for xs
    by (induction xs) (auto split: if_splits)
  then show ?thesis by (simp add: readers_def cancel_ops_def)
qed

lemma readers_cancel_Nil [simp]: "readers (cancel_ops P t) = [] \<longleftrightarrow> readers t = []"
  using readers_cancel [of P t] by (metis list.map_disc_iff)

lemma readers_timers [simp]:
  "readers (writePacket b LogOnly t) = readers t" "readers (writePacket b StartPong t) = readers t"
  "readers (startPingTimer t) = readers t"
  "readers (stop t) = [] \<longleftrightarrow> readers t = []"
  "readers (startPongTimer e t) = [] \<longleftrightarrow> readers t = []"
  "readers (restartPingTimer t) = [] \<longleftrightarrow> readers t = []"
  "readers (disconnect k e t) = [] \<longleftrightarrow> readers t = []"
  by (simp_all add: writePacket_def startPingTimer_def stop_def startPongTimer_def
      restartPingTimer_def) (cases k; simp)

section \<open>A session that is never destroyed\<close>

text \<open>Nothing will read again, and the ping timer is armed or its handler is queued.\<close>

definition live_ping :: "TCPSession \<Rightarrow> bool" where
  "live_ping t \<longleftrightarrow> (\<exists>st. st \<noteq> Aborted \<and> (WaitPing, st) \<in> set (tcp_ops t))"

definition stuck :: "TCPSession \<Rightarrow> bool" where
  "stuck t \<longleftrightarrow> readers t = [] \<and> live_ping t"

lemma ping_kept_cancel:
  assumes "(WaitPing, st) \<in> set (tcp_ops t)" "\<not> P WaitPing"
  shows "(WaitPing, st) \<in> set (tcp_ops (cancel_ops P t))"
  using assms by (force simp: cancel_ops_def)

lemma live_ping_cancel: "live_ping t \<Longrightarrow> \<not> P WaitPing \<Longrightarrow> live_ping (cancel_ops P t)"
  by (auto simp: live_ping_def intro: ping_kept_cancel)

lemma live_ping_start [simp]: "live_ping (start_op op t) \<longleftrightarrow> op = WaitPing \<or> live_ping t"
  by (auto simp: live_ping_def start_op_def)

lemma live_ping_update [simp]:
  "live_ping (t\<lparr>output_buf := b\<rparr>) = live_ping t" "live_ping (t\<lparr>stationId := i\<rparr>) = live_ping t"
  "live_ping (t\<lparr>input_buf := b\<rparr>) = live_ping t" "live_ping (t\<lparr>numBytesLeft := n\<rparr>) = live_ping t"
  "live_ping (t\<lparr>deadline := d\<rparr>) = live_ping t" "live_ping (t\<lparr>pongExpiry := n\<rparr>) = live_ping t"
  "live_ping (t\<lparr>socketOpen := b'\<rparr>) = live_ping t"
  by (simp_all add: live_ping_def)

lemma live_ping_finish:
  "live_ping t \<Longrightarrow> fst x \<noteq> WaitPing \<or> snd x = Aborted \<Longrightarrow> live_ping (finish_op x t)"
  by (cases x) (auto simp: live_ping_def in_set_remove1)

lemma live_ping_disconnect: "live_ping t \<Longrightarrow> live_ping (disconnect k e t)"
  by (cases k) (simp_all add: live_ping_cancel)

lemma live_ping_restart: "live_ping (restartPingTimer (writePacket b StartPong t))"
  by (auto simp: live_ping_def restartPingTimer_def startPingTimer_def writePacket_def)

text \<open>Only the end of a read can end the pinging, and nothing starts reading out of the blue.\<close>

lemma ping_complete:
  assumes live: "live_ping t" and op: "(op, st) \<in> set (tcp_ops t)" "may_complete op st err d"
    and "\<not> is_read op"
    and run: "tcp_complete e k p op err d (tcp_context s (finish_op (op, st) t)) = Inr c"
  shows "live_ping (self c)"
proof (cases "op = WaitPing \<and> st \<noteq> Aborted")
  case True
  with op(2) have "err = NoError" by (auto simp: may_complete_def)
  with True run show ?thesis by (auto simp: onPingTimeout_def live_ping_restart)
next
  case False
  with live have fin: "live_ping (finish_op (op, st) t)" by (auto intro: live_ping_finish)
  show ?thesis
  proof (cases op)
    case (ReadSome off cap)
    with assms(4) show ?thesis by simp
  next
    case (AsyncWrite n h)
    with run fin show ?thesis
      by (cases h) (auto simp: onPacketWritten_def startPongTimer_def doReadPacketHeader_def
          live_ping_cancel)
  next
    case WaitPing
    with False op(2) have "err = OperationAborted" by (auto simp: may_complete_def)
    with WaitPing run fin show ?thesis by (auto simp: onPingTimeout_def)
  qed (use run fin in \<open>auto simp: onPongTimeout_def onShutdown_def onHandshake_def
      TCPSession_run_def writePacket_def live_ping_disconnect live_ping_cancel\<close>)
qed

lemma quiet_complete:
  assumes "readers t = []" "(op, st) \<in> set (tcp_ops t)"
    and run: "tcp_complete e k p op err d (tcp_context s (finish_op (op, st) t)) = Inr c"
  shows "readers (self c) = []"
proof -
  have fin: "readers (finish_op (op, st) t) = []" and not_reader: "\<not> starts_reading op"
    using assms(1,2) by (auto simp: readers_def filter_empty_conv dest: notin_set_remove1)
  show ?thesis
  proof (cases op)
    case (AsyncWrite n h)
    with run fin not_reader show ?thesis by (cases h) (auto simp: onPacketWritten_def)
  qed (use run fin not_reader in \<open>auto simp: onPingTimeout_def onPongTimeout_def onShutdown_def\<close>)
qed

lemma stuck_complete:
  assumes "stuck t" "(op, st) \<in> set (tcp_ops t)" "may_complete op st err d"
    and "tcp_complete e k p op err d (tcp_context s (finish_op (op, st) t)) = Inr c"
  shows "stuck (self c)"
proof -
  have "\<not> starts_reading op"
    using assms(1,2) by (auto simp: stuck_def readers_def filter_empty_conv)
  then have "\<not> is_read op" by (cases op) auto
  with assms ping_complete quiet_complete show ?thesis unfolding stuck_def by blast
qed

lemma live_ping_fire:
  assumes "live_ping t"
  shows "live_ping (fire_timer op t)"
proof (cases "op = WaitPing")
  case True
  then show ?thesis by (auto simp: live_ping_def fire_timer_def)
next
  case False
  with assms show ?thesis by (auto simp: live_ping_def fire_timer_def in_set_remove1)
qed

lemma quiet_fire: "readers t = [] \<Longrightarrow> timer_due op n t \<Longrightarrow> readers (fire_timer op t) = []"
  by (cases op)
    (auto simp: readers_def filter_empty_conv fire_timer_def dest: notin_set_remove1)

lemma stuck_fire: "stuck t \<Longrightarrow> timer_due op n t \<Longrightarrow> stuck (fire_timer op t)"
  using live_ping_fire quiet_fire by (simp add: stuck_def)

lemma quiet_poked: "tcp_poked t t' \<Longrightarrow> readers t' = readers t"
proof -
  have "filter (\<lambda>x. starts_reading (fst x)) (map (\<lambda>n. (AsyncWrite n LogOnly, Armed)) ns) = []" for ns
    by (induction ns) auto
  then show "tcp_poked t t' \<Longrightarrow> readers t' = readers t" by (auto simp: tcp_poked_def readers_def)
qed

lemma live_ping_poked: "live_ping t \<Longrightarrow> tcp_poked t t' \<Longrightarrow> live_ping t'"
  by (auto simp: live_ping_def tcp_poked_def)

lemma stuck_poked: "stuck t \<Longrightarrow> tcp_poked t t' \<Longrightarrow> stuck t'"
  by (auto simp: stuck_def quiet_poked intro: live_ping_poked)

lemma ws_stations_poked:
  assumes "onRead k err n c = Some (Inr c')"
  shows "rel_option tcp_poked (stations c k' q) (stations c' k' q)"
  using onRead_cases [OF assms] by (auto simp: leave_session_def requests_def option.rel_refl)

lemma stuck_step:
  assumes "tcps s k p = Some t" "stuck t" "server_step e s s'"
  shows "\<exists>t'. tcps s' k p = Some t' \<and> stuck t'"
  using assms(3)
proof cases
  case (tcp_timer k' p' t' op)
  with assms show ?thesis by (auto intro: stuck_fire)
next
  case (tcp_completion k' p' t' op st err d c)
  with assms show ?thesis by (auto intro: stuck_complete)
next
  case (tcp_destroy k' p' t')
  with assms show ?thesis by (auto simp: stuck_def live_ping_def)
next
  case (ws_message k' p' w err d c)
  from poked_some [OF ws_stations_poked [OF ws_message(4), of k p], of t] assms(1)
  obtain t' where "stations c k p = Some t'" "tcp_poked t t'"
    by (auto simp: receive_message_def)
  with ws_message(1) assms(2) show ?thesis by (auto intro: stuck_poked)
qed (use assms in \<open>auto simp: onAccept_def Let_def case_prod_unfold\<close>)

lemma stuck_run:
  assumes "run_under e P s s'" "tcps s k p = Some t" "stuck t"
  shows "\<exists>t'. tcps s' k p = Some t' \<and> stuck t'"
  using assms(1)
  by (rule run_under_invariant [where I = "\<lambda>s. \<exists>t. tcps s k p = Some t \<and> stuck t"])
    (use assms(2,3) stuck_step in blast)+

section \<open>One read of a browser session\<close>

text \<open>The upgrade and the reads of a session follow each other: one of them is in flight, or none.\<close>

definition ws_readers :: "WebSocketSession \<Rightarrow> ws_op list" where
  "ws_readers w = filter (\<lambda>op. op = WsRead \<or> op = WsAccept) (ws_ops w)"

lemma ws_readers_simps [simp]:
  "ws_readers (start_ws_op op w) = ws_readers w @ (if op = WsRead \<or> op = WsAccept then [op] else [])"
  "ws_readers (w\<lparr>uuid := u\<rparr>) = ws_readers w" "ws_readers (w\<lparr>buffer := b\<rparr>) = ws_readers w"
  "ws_readers (w\<lparr>queue := q\<rparr>) = ws_readers w" "ws_readers (w\<lparr>outBuffer := t\<rparr>) = ws_readers w"
  "ws_readers (w\<lparr>completed := l\<rparr>) = ws_readers w"
  by (simp_all add: ws_readers_def start_ws_op_def)

lemma ws_readers_finish:
  "ws_readers (finish_ws_op op w) =
     (if op = WsRead \<or> op = WsAccept then remove1 op (ws_readers w) else ws_readers w)"
proof -
  have "filter P (remove1 op xs) = (if P op then remove1 op (filter P xs) else filter P xs)" for P xs
    by (induction xs) auto
  then show ?thesis by (simp add: ws_readers_def finish_ws_op_def)
qed

lemma ws_readers_poked: "ws_poked w w' \<Longrightarrow> ws_readers w' = ws_readers w"
proof -
  have "filter (\<lambda>op. op = WsRead \<or> op = WsAccept) (map (\<lambda>(t, h). WsWrite t h) xs) = []" for xs
    by (induction xs) auto
  then show "ws_poked w w' \<Longrightarrow> ws_readers w' = ws_readers w"
    by (auto simp: ws_poked_def ws_readers_def)
qed

lemma ws_readers_consume [simp]: "ws_readers (wself (consume n c)) = ws_readers (wself c)"
  by (simp add: consume_def)

lemma ws_readers_loop:
  "read_loop c = Some (Inr c') \<Longrightarrow>
     ws_readers (wself c') = ws_readers (wself c) \<or> ws_readers (wself c') = ws_readers (wself c) @ [WsRead]"
proof (induction c "Inr c' :: ws_ctx result" rule: read_loop.raw_induct [rotated 1, consumes 1])
  case (1 f c)
  show ?case
  proof (cases "buffer (wself c) = []")
    case True
    with 1(2) show ?thesis by simp
  next
    case False
    obtain v c1 where h: "ws_handle (buffer (wself c)) c = (v, c1)"
      by (cases "ws_handle (buffer (wself c)) c")
    with 1(2) False obtain st n where v: "v = Inr (st, n)" by (cases v) auto
    have same: "ws_readers (wself c1) = ws_readers (wself c)"
      using ws_readers_poked [OF ws_handle_poked [of c "buffer (wself c)"]] h by simp
    then show ?thesis
      using 1(2) 1(1) [of "consume n c1"] False h v
      by (cases st) (auto simp: Let_def doRead_def split: if_splits)
  qed
qed

definition one_ws_reader :: "server \<Rightarrow> bool" where
  "one_ws_reader s \<longleftrightarrow> (\<forall>k p w. wss s k p = Some w \<longrightarrow> length (ws_readers w) \<le> 1)"

lemma one_ws_readerD:
  assumes "one_ws_reader s" "wss s k p = Some w" "op \<in> set (ws_ops w)" "op = WsRead \<or> op = WsAccept"
  shows "ws_readers w = [op]" "ws_readers (finish_ws_op op w) = []"
proof -
  have "op \<in> set (ws_readers w)" using assms(3,4) by (simp add: ws_readers_def)
  moreover have "length (ws_readers w) \<le> 1" using assms(1,2) by (auto simp: one_ws_reader_def)
  ultimately show one: "ws_readers w = [op]" by (cases "ws_readers w") auto
  with assms(4) show "ws_readers (finish_ws_op op w) = []" by (auto simp: ws_readers_finish)
qed

lemma one_ws_reader_store:
  "one_ws_reader s \<Longrightarrow> length (ws_readers (wself c)) \<le> 1 \<Longrightarrow> one_ws_reader (store_ws k p c s)"
  by (simp add: one_ws_reader_def)

lemma ws_readers_onRead:
  assumes "onRead k err n c = Some (Inr c')"
  shows "ws_readers (wself c') = ws_readers (wself c) \<or> ws_readers (wself c') = ws_readers (wself c) @ [WsRead]"
  using assms by (auto simp: onRead_def leave_session_def dest: ws_readers_loop split: if_splits)

lemma ws_readers_onWrite: "onWrite err n h w = Inr w' \<Longrightarrow> ws_readers w' = ws_readers w"
  by (auto simp: onWrite_def Let_def split: if_splits list.splits)

lemma one_ws_reader_step:
  assumes ok: "one_ws_reader s" and step: "server_step e s s'"
  shows "one_ws_reader s'"
  using step
proof cases
  case (tcp_completion k p t op st err d c)
  have rel: "rel_option ws_poked (wss s k' q) (websockets c k' q)" for k' q
    using notifies_complete [OF tcp_completion(5)] by (simp add: notifies_def)
  have "length (ws_readers w') \<le> 1" if w': "websockets c k' q = Some w'" for k' q w'
  proof -
    from rel [of k' q] w' obtain w where "wss s k' q = Some w" "ws_poked w w'"
      by (cases "wss s k' q") auto
    with ok ws_readers_poked show ?thesis by (auto simp: one_ws_reader_def)
  qed
  with tcp_completion(1) show ?thesis by (simp add: one_ws_reader_def)
next
  case (ws_upgrade k p g)
  have "length (ws_readers (onRun (make_WebSocketSession g))) \<le> 1"
    by (simp add: onRun_def) (simp add: ws_readers_def make_WebSocketSession_def)
  with ok ws_upgrade(1) show ?thesis by (auto intro: one_ws_reader_store)
next
  case (ws_accepted k p w err u)
  have "ws_readers (finish_ws_op WsAccept w) = []"
    using one_ws_readerD(2) [OF ok ws_accepted(2,3)] by simp
  then have "length (ws_readers (wself (onAccept k p err u (ws_context s (finish_ws_op WsAccept w))))) \<le> 1"
    by (simp add: onAccept_def Let_def case_prod_unfold doRead_def)
  with ok ws_accepted(1) show ?thesis by (auto intro: one_ws_reader_store)
next
  case (ws_message k p w err d c)
  have "ws_readers (finish_ws_op WsRead w) = []"
    using one_ws_readerD(2) [OF ok ws_message(2,3)] by simp
  with ws_readers_onRead [OF ws_message(4)] have "length (ws_readers (wself c)) \<le> 1"
    by (auto simp: receive_message_def)
  with ok ws_message(1) show ?thesis by (auto intro: one_ws_reader_store)
next
  case (ws_written k p w msg h err n w2)
  have "ws_readers w2 = ws_readers w"
    using ws_readers_onWrite [OF ws_written(4)] by (simp add: ws_readers_finish)
  with ok ws_written(1,2) show ?thesis by (auto simp: one_ws_reader_def)
next
  case (ws_closed k p w)
  with ok show ?thesis by (auto simp: one_ws_reader_def ws_readers_finish)
qed (use ok in \<open>auto simp: one_ws_reader_def\<close>)

lemma one_ws_reader_start [simp]: "one_ws_reader (start_server r c t)"
  by (simp add: one_ws_reader_def)

lemma one_ws_reader_run: "run_under e P (start_server r c t) s \<Longrightarrow> one_ws_reader s"
  by (erule run_under_invariant [where I = one_ws_reader]) (auto intro: one_ws_reader_step)

section \<open>A listed session that no longer reads\<close>

text \<open>The callback in the table keeps the session, and only its own destructor would unlist it.\<close>

definition orphan :: "proto \<Rightarrow> ptr \<Rightarrow> uuid \<Rightarrow> server \<Rightarrow> bool" where
  "orphan k p u s \<longleftrightarrow>
     (\<exists>ctx. um_find (websockets_of k (srv_state s)) u = Some ctx \<and> ctx_callback ctx = NotifySession p) \<and>
     (\<exists>w. wss s k p = Some w \<and> uuid w = u \<and> WsRead \<notin> set (ws_ops w) \<and> WsAccept \<notin> set (ws_ops w))"

definition sole_uuid :: "proto \<Rightarrow> ptr \<Rightarrow> uuid \<Rightarrow> server \<Rightarrow> bool" where
  "sole_uuid k p u s \<longleftrightarrow> (\<forall>q w. wss s k q = Some w \<longrightarrow> uuid w = u \<longrightarrow> q = p)"

lemma orphan_listed: "orphan k p u s \<Longrightarrow> listed k p (srv_state s)"
  by (auto simp: orphan_def listed_def)

lemma orphan_tcp:
  assumes "orphan k p u s" "notifies e k' p' (tcp_context s t) c"
  shows "orphan k p u (store_tcp k' p' c s)"
proof -
  have rel: "rel_option ws_poked (wss s k p) (websockets c k p)"
    using assms(2) by (simp add: notifies_def)
  obtain w where w: "wss s k p = Some w" "uuid w = u" "WsRead \<notin> set (ws_ops w)" "WsAccept \<notin> set (ws_ops w)"
    using assms(1) by (auto simp: orphan_def)
  with rel obtain w' where "websockets c k p = Some w'" "ws_poked w w'"
    by (cases "websockets c k p") auto
  with w have "\<exists>w. websockets c k p = Some w \<and> uuid w = u \<and> WsRead \<notin> set (ws_ops w) \<and> WsAccept \<notin> set (ws_ops w)"
    by (auto simp: ws_poked_def)
  with assms show ?thesis by (simp add: orphan_def notifies_def)
qed

lemma um_find_leave_other:
  "u' \<noteq> u \<or> k' \<noteq> k \<Longrightarrow>
     um_find (websockets_of k (leave_WebSocketSession k' u' st)) u = um_find (websockets_of k st) u"
  by (auto simp: leave_WebSocketSession_websockets um_find_erase)

lemma orphan_ws_other:
  assumes "orphan k p u s" "k' \<noteq> k \<or> q \<noteq> p"
    and "um_find (websockets_of k (wshared c)) u = um_find (websockets_of k (srv_state s)) u"
  shows "orphan k p u (store_ws k' q c s)"
  using assms by (auto simp: orphan_def)

lemma orphan_ws_self:
  assumes "orphan k p u s" "wss s k p = Some w" "wshared c = srv_state s" "uuid (wself c) = uuid w"
    and "\<And>op. op \<in> set (ws_ops (wself c)) \<Longrightarrow> op \<in> set (ws_ops w) \<or> op \<noteq> WsRead \<and> op \<noteq> WsAccept"
  shows "orphan k p u (store_ws k p c s)"
  using assms by (auto simp: orphan_def)

lemma finish_ws_op_subset: "op \<in> set (ws_ops (finish_ws_op x w)) \<Longrightarrow> op \<in> set (ws_ops w)"
  using set_remove1_subset [of x "ws_ops w"] by (auto simp: finish_ws_op_def)

lemma onWrite_ops:
  "onWrite err n h w = Inr w' \<Longrightarrow> op \<in> set (ws_ops w') \<Longrightarrow>
     op \<in> set (ws_ops w) \<or> (\<exists>t h. op = WsWrite t h)"
  by (auto simp: onWrite_def Let_def start_ws_op_def split: if_splits list.splits)

lemma orphan_step:
  assumes o: "orphan k p u s" and sole: "sole_uuid k p u s" and step: "server_step e s s'"
  shows "orphan k p u s'"
  using step
proof cases
  case (tick d)
  with o show ?thesis by (simp add: orphan_def)
next
  case (tcp_accept k' p' garbage)
  have "notifies e k p (tcp_context s t) (tcp_context s t')" for t t' e k p
    by (simp add: notifies_same)
  with o tcp_accept(1) show ?thesis by (auto intro: orphan_tcp)
next
  case (tcp_timer k' p' t op)
  have "notifies e k p (tcp_context s t) (tcp_context s t')" for t t' e k p
    by (simp add: notifies_same)
  with o tcp_timer(1) show ?thesis by (auto intro: orphan_tcp)
next
  case (tcp_completion k' p' t op st err d c)
  have "notifies (at_clock e s) k' p' (tcp_context s t) c"
    using notifies_complete [OF tcp_completion(5)] by (simp add: notifies_def)
  with o tcp_completion(1) show ?thesis by (auto intro: orphan_tcp)
next
  case (tcp_destroy k' p' t)
  with o show ?thesis by (simp add: orphan_def frame_simps)
next
  case (ws_upgrade k' q g)
  then have "k' \<noteq> k \<or> q \<noteq> p" using o by (auto simp: orphan_def)
  with o ws_upgrade(1) show ?thesis by (auto intro: orphan_ws_other)
next
  case (ws_accepted k' q w err u')
  have other: "k' \<noteq> k \<or> q \<noteq> p" using o ws_accepted by (auto simp: orphan_def)
  have "um_find (websockets_of k (wshared (onAccept k' q err u' (ws_context s (finish_ws_op WsAccept w))))) u
      = um_find (websockets_of k (srv_state s)) u"
    using o by (auto simp: onAccept_def Let_def case_prod_unfold join_WebSocketSession_websockets
        um_find_try_emplace orphan_def)
  with orphan_ws_other [OF o other] ws_accepted(1) show ?thesis by simp
next
  case (ws_message k' q w err d c)
  have other: "k' \<noteq> k \<or> q \<noteq> p" using o ws_message by (auto simp: orphan_def)
  then have "k' \<noteq> k \<or> uuid w \<noteq> u" using sole ws_message(2) by (auto simp: sole_uuid_def)
  then have "um_find (websockets_of k (wshared c)) u = um_find (websockets_of k (srv_state s)) u"
    using onRead_cases [OF ws_message(4)]
    by (auto simp: leave_session_def requests_def receive_message_def finish_ws_op_def um_find_leave_other)
  with orphan_ws_other [OF o other] ws_message(1) show ?thesis by simp
next
  case (ws_written k' q w msg h err n w2)
  show ?thesis
  proof (cases "k' = k \<and> q = p")
    case False
    with o ws_written(1) show ?thesis by (auto intro: orphan_ws_other)
  next
    case True
    have "uuid w2 = uuid w"
      using ws_written(4) by (auto simp: onWrite_def Let_def start_ws_op_def finish_ws_op_def
          split: if_splits list.splits)
    moreover have "op \<in> set (ws_ops w2) \<Longrightarrow> op \<in> set (ws_ops w) \<or> op \<noteq> WsRead \<and> op \<noteq> WsAccept" for op
      using onWrite_ops [OF ws_written(4)] finish_ws_op_subset by fastforce
    ultimately have "orphan k p u (store_ws k p (ws_context s w2) s)"
      using ws_written(2) True by (intro orphan_ws_self [OF o, of w]) auto
    with True ws_written(1) show ?thesis by simp
  qed
next
  case (ws_closed k' q w)
  show ?thesis
  proof (cases "k' = k \<and> q = p")
    case False
    with o ws_closed(1) show ?thesis by (auto intro: orphan_ws_other)
  next
    case True
    have "orphan k p u (store_ws k p (ws_context s (finish_ws_op WsClose w)) s)"
      using ws_closed(2) True finish_ws_op_subset [of _ WsClose w]
      by (intro orphan_ws_self [OF o, of w]) (auto simp: finish_ws_op_def)
    with True ws_closed(1) show ?thesis by simp
  qed
next
  case (ws_destroy k' q w)
  have other: "k' \<noteq> k \<or> q \<noteq> p" using orphan_listed [OF o] ws_destroy by auto
  then have "k' \<noteq> k \<or> uuid w \<noteq> u" using sole ws_destroy(2) by (auto simp: sole_uuid_def)
  with o other ws_destroy(1) show ?thesis by (auto simp: orphan_def um_find_leave_other)
qed

lemma orphan_run:
  assumes "run_under e (sole_uuid k p u) s s'" "orphan k p u s" "sole_uuid k p u s"
  shows "orphan k p u s'"
proof -
  have "orphan k p u s' \<and> sole_uuid k p u s'"
    using assms(1)
    by (rule run_under_invariant [where I = "\<lambda>s. orphan k p u s \<and> sole_uuid k p u s"])
      (use assms(2,3) in \<open>auto intro: orphan_step\<close>)
  then show ?thesis ..
qed

section \<open>A session with two names\<close>

text \<open>
  A handshake takes free ids only, so a session registered under \<open>a\<close> that registers again
  carries another id from then on, and its destructor leaves with that one.
\<close>

definition renames :: "StationId \<Rightarrow> env \<Rightarrow> proto \<Rightarrow> ptr \<Rightarrow> tcp_ctx \<Rightarrow> tcp_ctx \<Rightarrow> bool" where
  "renames a e k p c c' \<longleftrightarrow> (station_names k (shared c) a = Some p \<longrightarrow>
     station_names k (shared c') a = Some p \<and>
     (stationId (self c') = stationId (self c) \<and> station_names k (shared c') = station_names k (shared c)
      \<or> stationId (self c') \<noteq> a))"

lemma renames_same:
  "shared c' = shared c \<Longrightarrow> stationId (self c') = stationId (self c) \<Longrightarrow> renames a e k p c c'"
  by (simp add: renames_def)

lemma renames_handle:
  assumes "handle e k p pid view c = Inr (r, c')"
  shows "renames a e k p c c'"
proof (cases "pid = In_Handshake \<and> sizeByPacketId pid \<le> length view")
  case True
  then have "handleHandshakePacket e k p view c = Inr (r, c')"
    using assms True by (auto simp: handle_def)
  then show ?thesis
    by (auto simp: handleHandshakePacket_def Let_def bind_result_Inr_iff case_prod_unfold
        sendBadRequest_def renames_def station_names_join frame_simps
        join_TCPSession_flag station_names_def [symmetric] split: if_splits)
next
  case False
  with assms show ?thesis
    by (intro renames_same)
      (auto simp: handle_def handlePongPacket_def dest: handleWeatherStatusPacket_frame
        split: in_PacketType.splits if_splits)
qed

interpretation renaming: packet_relation "renames a" for a
proof (unfold_locales, goal_cases)
  case 2 then show ?case by (auto simp: renames_def)
next
  case 3 then show ?case by (rule renames_handle)
qed (simp_all add: renames_same pop_packet_def Let_def read_more_def doReadPacketHeader_def)

lemma renames_complete:
  assumes "tcp_complete e k p op err d c = Inr c'"
  shows "renames a e k p c c'"
proof (cases "\<exists>off cap. op = ReadSome off cap \<and> err = NoError")
  case True
  with assms obtain s where run: "parsePacketHeader e k p (c\<lparr>self := s\<rparr>) = Inr c'"
    and s: "stationId s = stationId (self c)"
    by (auto simp: onReadPacketHeader_def receive_def Let_def)
  with renaming.R_parse [OF run, of a] show ?thesis by (simp add: renames_def)
next
  case False
  with assms show ?thesis
    by (intro renames_same; cases op)
      (auto simp: onReadPacketHeader_def onPacketWritten_def onPingTimeout_def onPongTimeout_def
        onHandshake_def onShutdown_def TCPSession_run_def receive_def frame_simps
        split: if_splits)
qed

definition misnamed :: "proto \<Rightarrow> ptr \<Rightarrow> StationId \<Rightarrow> server \<Rightarrow> bool" where
  "misnamed k p a s \<longleftrightarrow> (\<exists>t. tcps s k p = Some t \<and> stationId t \<noteq> a)"

text \<open>The session is in memory and \<open>a\<close> is still registered for it.\<close>

definition named :: "proto \<Rightarrow> ptr \<Rightarrow> StationId \<Rightarrow> server \<Rightarrow> bool" where
  "named k p a s \<longleftrightarrow> station_names k (srv_state s) a = Some p \<and> tcps s k p \<noteq> None"

lemma misnamed_step:
  assumes "misnamed k p a s" "named k p a s" "server_step e s s'" "named k p a s'"
  shows "misnamed k p a s'"
  using assms(3)
proof cases
  case (tcp_completion k' p' t op st err d c)
  show ?thesis
  proof (cases "k' = k \<and> p' = p")
    case True
    with renames_complete [OF tcp_completion(5), of a] tcp_completion(1,2) assms(1,2)
    show ?thesis by (auto simp: misnamed_def named_def renames_def)
  next
    case False
    with tcp_completion(1) assms(1) show ?thesis by (auto simp: misnamed_def)
  qed
next
  case (tcp_timer k' p' t op)
  with assms(1) show ?thesis by (auto simp: misnamed_def fire_timer_def)
next
  case (tcp_destroy k' p' t)
  with assms(1,4) show ?thesis by (auto simp: misnamed_def named_def split: if_splits)
next
  case (ws_message k' q w err d c)
  from assms(1) obtain t where t: "tcps s k p = Some t" "stationId t \<noteq> a" by (auto simp: misnamed_def)
  with poked_some [OF ws_stations_poked [OF ws_message(4), of k p], of t]
  show ?thesis unfolding ws_message(1) by (auto simp: misnamed_def receive_message_def tcp_poked_def)
qed (use assms in \<open>auto simp: misnamed_def onAccept_def Let_def case_prod_unfold\<close>)

lemma misnamed_run:
  assumes "run_under e (named k p a) s s'" "misnamed k p a s" "named k p a s"
  shows "misnamed k p a s' \<and> named k p a s'"
  using assms(1)
  by (rule run_under_invariant [where I = "\<lambda>s. misnamed k p a s \<and> named k p a s"])
    (use assms(2,3) in \<open>auto intro: misnamed_step\<close>)

text \<open>When it is destroyed the first name stays, and points to freed memory.\<close>

lemma misnamed_destroyed:
  assumes "misnamed k p a s" "named k p a s" "tcps s k p = Some t"
    and "k = Plain \<or> station_names Plain (srv_state s) a = None"
  shows "station_names k (srv_state (destroy_tcp k p t s)) a = Some p"
    "findStation (live_station (tcps (destroy_tcp k p t s))) a (srv_state (destroy_tcp k p t s))
      = Inl (Undefined DanglingPointer)"
proof -
  let ?s = "destroy_tcp k p t s"
  have "stationId t \<noteq> a" using assms(1,3) by (auto simp: misnamed_def)
  then show name: "station_names k (srv_state ?s) a = Some p"
    using assms(2) by (simp add: named_def station_names_leave)
  have freed: "live_station (tcps ?s) k p = Freed" by (simp add: live_station_def)
  show "findStation (live_station (tcps ?s)) a (srv_state ?s) = Inl (Undefined DanglingPointer)"
  proof (cases k)
    case Plain
    with name freed show ?thesis
      by (simp add: findStation_def findPlainStation_def station_names_def)
  next
    case SSL
    with assms(4) have "station_names Plain (srv_state ?s) a = None"
      by (simp add: station_names_def)
    with SSL name freed show ?thesis
      by (simp add: findStation_def findPlainStation_def findSSLStation_def station_names_def)
  qed
qed

end
