(* ===== verification/Server_Readers.thy ===== *)
theory Server_Readers
  imports Server_Lifetimes
begin

text \<open>
  Memory safety of the read path: a TCP session has at most one read in flight, the read
  starts behind the unread bytes and ends with the buffer, and at least 482 bytes are free, so
  a read never overwrites unread bytes nor the memory behind the buffer. An unknown packet ends
  the reading, and a registered session that may read is pinged.
\<close>

fun reader_place :: "tcp_op \<Rightarrow> nat \<Rightarrow> bool" where
  "reader_place (ReadSome off cap) n \<longleftrightarrow> off = n \<and> cap = MaxInputSize - n \<and> n < 30"
| "reader_place _ n \<longleftrightarrow> n = 0"

definition reader_ok :: "TCPSession \<Rightarrow> bool" where
  "reader_ok t \<longleftrightarrow> buffer_ok t \<and>
     (readers t = [] \<or>
      (\<exists>op st. readers t = [(op, st)] \<and> reader_place op (numBytesLeft t)))"

lemma readers_finish:
  assumes "readers t = [] \<or> readers t = [x]" "x \<in> set (tcp_ops t)" "starts_reading (fst x)"
  shows "readers (finish_op x t) = []"
proof -
  have "filter (\<lambda>x. starts_reading (fst x)) (remove1 x (tcp_ops t)) = remove1 x (readers t)"
    using assms(3) by (simp add: readers_def filter_remove1)
  with assms(1) show ?thesis by (auto simp: readers_def)
qed

lemma readers_finish_other:
  assumes "\<not> starts_reading (fst x)"
  shows "readers (finish_op x t) = readers t"
proof -
  have "filter (\<lambda>x. starts_reading (fst x)) (remove1 x xs) = filter (\<lambda>x. starts_reading (fst x)) xs"
    for xs using assms by (induction xs) auto
  then show ?thesis by (simp add: readers_def)
qed

lemma handle_readers_Nil:
  "handle e k p pid view c = Inr (r, c') \<Longrightarrow> readers (self c) = [] \<Longrightarrow> readers (self c') = []"
  by (cases pid)
    (auto simp: handle_def handlePongPacket_def handleHandshakePacket_def sendBadRequest_def
      Let_def case_prod_unfold bind_result_Inr_iff dest: handleWeatherStatusPacket_frame
      split: if_splits)

lemma dispatch_readers_Nil:
  "dispatch e k p fs c = Inr c' \<Longrightarrow> readers (self c) = [] \<Longrightarrow> readers (self c') = []"
  by (induction fs arbitrary: c) (auto simp: bind_result_Inr_iff dest: handle_readers_Nil)

lemma readers_with_buffer [simp]: "readers (self (with_buffer b n c)) = readers (self c)"
  by (simp add: with_buffer_def)

lemma parse_reader_ok:
  assumes "buffer_ok (self c)" "numBytesLeft (self c) \<noteq> 0" "readers (self c) = []"
    and run: "parsePacketHeader e k p c = Inr c'"
    and f: "frames (pending (self c)) = (fs, rest, bad)"
  shows "reader_ok (self c')" "bad \<Longrightarrow> readers (self c') = []"
proof -
  have "abs_feed e k p (abs_ctx c) = Inr (abs_ctx c')"
    using parsePacketHeader_refines [OF assms(1,2), of e k p] run by simp
  then obtain c1 where d: "dispatch e k p fs (with_buffer [] 0 c) = Inr c1"
    and c': "abs_ctx c' = (rest, await e rest bad c1)"
    by (auto simp: abs_feed_def abs_ctx_def f bind_result_Inr_iff)
  have buf: "buffer_ok (self c')" by (rule parsePacketHeader_buffer_ok [OF assms(1,2) run])
  have rest: "pending (self c') = rest" "numBytesLeft (self c') = length rest"
    using c' length_pending [OF buf] by (auto simp: abs_ctx_def)
  have none: "readers (self c1) = []" using dispatch_readers_Nil [OF d] assms(3) by simp
  have "readers (self c') = readers (self (snd (abs_ctx c')))" by (simp add: abs_ctx_def)
  then have "readers (self c') =
      (if bad then [] else [(ReadSome (length rest) (MaxInputSize - length rest), Armed)])"
    using c' none by (simp add: await_def)
  moreover have "\<not> bad \<Longrightarrow> length rest < 30" using f frames_rest_small by (cases bad) auto
  ultimately show "reader_ok (self c')" "bad \<Longrightarrow> readers (self c') = []"
    using buf rest by (auto simp: reader_ok_def)
qed

lemma reader_ok_same:
  assumes "reader_ok t" "readers t' = readers t" "input_buf t' = input_buf t"
    "numBytesLeft t' = numBytesLeft t"
  shows "reader_ok t'"
  using assms by (simp add: reader_ok_def buffer_ok_def)

lemma reader_ok_cancel: "reader_ok t \<Longrightarrow> reader_ok (cancel_ops P t)"
proof -
  assume ok: "reader_ok t"
  have buf: "buffer_ok (cancel_ops P t)" using ok by (simp add: reader_ok_def buffer_ok_def)
  show ?thesis
  proof (cases "readers t = []")
    case True
    with buf show ?thesis by (simp add: reader_ok_def)
  next
    case False
    with ok obtain op st where r: "readers t = [(op, st)]"
      and op: "reader_place op (numBytesLeft t)"
      by (auto simp: reader_ok_def)
    from r readers_cancel [of P t] obtain st' where "readers (cancel_ops P t) = [(op, st')]"
      by (auto simp: map_eq_Cons_conv)
    with op buf show ?thesis by (simp add: reader_ok_def)
  qed
qed

lemma reader_ok_simps [simp]:
  "reader_ok (t\<lparr>output_buf := b\<rparr>) = reader_ok t" "reader_ok (t\<lparr>deadline := d\<rparr>) = reader_ok t"
  "reader_ok (t\<lparr>pongExpiry := n\<rparr>) = reader_ok t" "reader_ok (t\<lparr>socketOpen := b'\<rparr>) = reader_ok t"
  "reader_ok (t\<lparr>pingExpiry := n\<rparr>) = reader_ok t"
  "\<not> starts_reading op \<Longrightarrow> reader_ok (start_op op t) = reader_ok t"
  by (simp_all add: reader_ok_def buffer_ok_def)

lemma reader_ok_disconnect: "reader_ok t \<Longrightarrow> reader_ok (disconnect k e t)"
  by (cases k) (simp_all add: reader_ok_cancel)

lemma reader_ok_stop: "reader_ok t \<Longrightarrow> reader_ok (stop t)"
  by (simp add: stop_def reader_ok_cancel)

lemma reader_ok_startPong: "reader_ok t \<Longrightarrow> reader_ok (startPongTimer e t)"
  by (simp add: startPongTimer_def reader_ok_cancel)

lemma reader_ok_ping: "reader_ok t \<Longrightarrow> reader_ok (onPingTimeout err t)"
  by (simp add: onPingTimeout_def restartPingTimer_def startPingTimer_def writePacket_def
      reader_ok_cancel)

lemma reader_ok_finish: "reader_ok t \<Longrightarrow> x \<in> set (tcp_ops t) \<Longrightarrow> reader_ok (finish_op x t)"
proof (cases "starts_reading (fst x)")
  case True
  assume "reader_ok t" "x \<in> set (tcp_ops t)"
  with True have "x \<in> set (readers t)" by (simp add: readers_def)
  with \<open>reader_ok t\<close> have "readers t = [x]" by (auto simp: reader_ok_def)
  with True readers_finish [of t x] \<open>x \<in> set (tcp_ops t)\<close> \<open>reader_ok t\<close> show ?thesis
    by (simp add: reader_ok_def buffer_ok_def)
next
  case False
  assume "reader_ok t"
  then show ?thesis
    by (rule reader_ok_same) (simp_all add: readers_finish_other [OF False])
qed

lemma reader_ok_doRead:
  "buffer_ok t \<Longrightarrow> readers t = [] \<Longrightarrow> numBytesLeft t = 0 \<Longrightarrow> reader_ok (doReadPacketHeader e t)"
  by (simp add: doReadPacketHeader_def reader_ok_def)

lemma reader_ok_run:
  "buffer_ok t \<Longrightarrow> readers t = [] \<Longrightarrow> numBytesLeft t = 0 \<Longrightarrow> reader_ok (TCPSession_run t)"
  by (simp add: TCPSession_run_def writePacket_def reader_ok_def buffer_ok_def)

text \<open>A completed read runs the loop on the unread bytes with the new ones behind them.\<close>

lemma received_parse:
  assumes ok: "reader_ok t" and op: "(ReadSome off cap, st) \<in> set (tcp_ops t)"
    and d: "d \<noteq> []" "length d \<le> cap"
    and run: "tcp_complete e k p (ReadSome off cap) NoError d
      (tcp_context s (finish_op (ReadSome off cap, st) t)) = Inr c"
  shows "\<exists>t'. parsePacketHeader e k p (tcp_context s t') = Inr c \<and> buffer_ok t' \<and> numBytesLeft t' \<noteq> 0
    \<and> readers t' = [] \<and> pending t' = pending t @ d \<and> socketOpen t' = socketOpen t
    \<and> tcp_ops t' = remove1 (ReadSome off cap, st) (tcp_ops t)"
proof -
  define x where "x = (ReadSome off cap, st)"
  have "x \<in> set (readers t)" using op by (simp add: readers_def x_def)
  with ok have r: "readers t = [x]" and place: "off = numBytesLeft t" "cap = MaxInputSize - off"
    by (auto simp: reader_ok_def x_def)
  have buf: "buffer_ok t" and fits: "fits d t"
    using ok d place by (auto simp: reader_ok_def fits_def)
  define t' where "t' = (receive (numBytesLeft t) d (finish_op x t))
      \<lparr>deadline := None, numBytesLeft := numBytesLeft t + length d\<rparr>"
  have "buffer_ok t'" "pending t' = pending t @ d"
    using deliver_buffer [OF buf fits, of x] by (simp_all add: t'_def buffer_ok_def pending_def)
  moreover have "numBytesLeft t' \<noteq> 0" using d by (simp add: t'_def)
  moreover have "readers t' = []"
    using readers_finish [of t x] r op by (simp add: t'_def receive_def x_def)
  moreover have "parsePacketHeader e k p (tcp_context s t') = Inr c"
    using run place(1) by (simp add: onReadPacketHeader_def Let_def x_def t'_def)
      (simp add: tcp_context_def receive_def)
  moreover have "socketOpen t' = socketOpen t" "tcp_ops t' = remove1 x (tcp_ops t)"
    by (simp_all add: t'_def receive_def finish_op_def)
  ultimately show ?thesis unfolding x_def by blast
qed

lemma reader_ok_received:
  assumes "reader_ok t" "(ReadSome off cap, st) \<in> set (tcp_ops t)" "d \<noteq> []" "length d \<le> cap"
    and "tcp_complete e k p (ReadSome off cap) NoError d
      (tcp_context s (finish_op (ReadSome off cap, st) t)) = Inr c"
  shows "reader_ok (self c)"
proof -
  obtain t' where t': "parsePacketHeader e k p (tcp_context s t') = Inr c" "buffer_ok t'"
      "numBytesLeft t' \<noteq> 0" "readers t' = []"
    using received_parse [OF assms] by blast
  obtain fs rest bad where "frames (pending t') = (fs, rest, bad)" by (cases "frames (pending t')")
  with parse_reader_ok(1) [of "tcp_context s t'" e k p c fs rest bad] t' show ?thesis by simp
qed

lemma reader_ok_complete:
  assumes ok: "reader_ok t" and op: "(op, st) \<in> set (tcp_ops t)" "may_complete op st err d"
    and run: "tcp_complete e k p op err d (tcp_context s (finish_op (op, st) t)) = Inr c"
  shows "reader_ok (self c)"
proof -
  define t1 where "t1 = finish_op (op, st) t"
  have run1: "tcp_complete e k p op err d (tcp_context s t1) = Inr c" using run by (simp add: t1_def)
  have fin: "reader_ok t1" unfolding t1_def by (rule reader_ok_finish [OF ok op(1)])
  have starting: "readers t1 = [] \<and> numBytesLeft t1 = 0"
    if "starts_reading op" "\<not> is_read op"
  proof -
    have "(op, st) \<in> set (readers t)" using op(1) that by (simp add: readers_def)
    with ok have r: "readers t = [(op, st)]" "reader_place op (numBytesLeft t)"
      by (auto simp: reader_ok_def)
    then show ?thesis
      using readers_finish [of t "(op, st)"] op(1) that by (cases op) (auto simp: t1_def)
  qed
  have buf: "buffer_ok t1" using fin by (simp add: reader_ok_def)
  show ?thesis
  proof (cases op)
    case (ReadSome off cap)
    show ?thesis
    proof (cases "err = NoError")
      case True
      with ReadSome op(2) have "d \<noteq> []" "length d \<le> cap" by (auto simp: may_complete_def)
      with reader_ok_received [OF ok] op(1) run ReadSome True show ?thesis by simp
    next
      case False
      with ReadSome op(2) have "d = []" by (auto simp: may_complete_def)
      then have "receive off d t1 = t1" by (simp add: receive_def)
      with run1 ReadSome False have "self c = disconnect k e (stop t1)"
        by (auto simp: onReadPacketHeader_def)
      with fin show ?thesis by (simp add: reader_ok_disconnect reader_ok_stop)
    qed
  next
    case (AsyncWrite n h)
    with run1 fin starting buf show ?thesis
      by (cases h) (auto simp: onPacketWritten_def reader_ok_startPong
          reader_ok_doRead split: if_splits)
  next
    case SslHandshake
    with run1 fin starting buf show ?thesis
      by (auto simp: onHandshake_def reader_ok_run)
  qed (use run1 fin in \<open>auto simp: onPongTimeout_def onShutdown_def
      reader_ok_ping reader_ok_disconnect reader_ok_cancel\<close>)
qed

lemma reader_ok_fire:
  assumes "reader_ok t" "timer_due op n t"
  shows "reader_ok (fire_timer op t)"
proof -
  have op: "\<not> starts_reading op" using assms(2) by (cases op) auto
  then have "readers (fire_timer op t) = readers t"
    using readers_finish_other [of "(op, Armed)" t]
    by (simp add: readers_def fire_timer_def finish_op_def)
  then show ?thesis
    by (intro reader_ok_same [OF assms(1)]) (simp_all add: fire_timer_def)
qed

lemma reader_ok_poked: "reader_ok t \<Longrightarrow> tcp_poked t t' \<Longrightarrow> reader_ok t'"
  by (rule reader_ok_same) (auto simp: quiet_poked tcp_poked_def)

lemma reader_ok_new: "reader_ok (run k e (make_TCPSession g n))"
  by (cases k) (simp_all add: reader_ok_def TCPSession_run_def writePacket_def make_TCPSession_def
      readers_def buffer_ok_def start_op_def)

definition readers_ok :: "server \<Rightarrow> bool" where
  "readers_ok s \<longleftrightarrow> (\<forall>k p t. tcps s k p = Some t \<longrightarrow> reader_ok t)"

lemma readers_ok_step:
  assumes ok: "readers_ok s" and step: "server_step e s s'"
  shows "readers_ok s'"
  using step
proof cases
  case (tcp_completion k p t op st err d c)
  with ok have "reader_ok (self c)" by (auto simp: readers_ok_def intro: reader_ok_complete)
  with ok tcp_completion(1) show ?thesis by (auto simp: readers_ok_def)
next
  case (tcp_timer k p t op)
  with ok show ?thesis by (auto simp: readers_ok_def intro: reader_ok_fire)
next
  case (ws_message k p w err d c)
  have "reader_ok t'" if t': "stations c k' q = Some t'" for k' q t'
  proof -
    have "rel_option tcp_poked (tcps s k' q) (stations c k' q)"
      using ws_stations_poked [OF ws_message(4), of k' q] by (simp add: receive_message_def)
    with t' obtain t where "tcps s k' q = Some t" "tcp_poked t t'"
      by (cases "tcps s k' q") auto
    with ok show ?thesis by (auto simp: readers_ok_def intro: reader_ok_poked)
  qed
  with ws_message(1) show ?thesis by (simp add: readers_ok_def)
qed (use ok in \<open>auto simp: readers_ok_def reader_ok_new onAccept_def Let_def case_prod_unfold\<close>)

lemma readers_ok_start [simp]: "readers_ok (start_server r c t)"
  by (simp add: readers_ok_def)

lemma readers_ok_run: "run_under e P (start_server r c t) s \<Longrightarrow> readers_ok s"
  by (erule run_under_invariant [where I = readers_ok]) (auto intro: readers_ok_step)

section \<open>Registered sessions are pinged\<close>

text \<open>
  What the packets of one read do to the ping timer and the connection: a live ping timer stays
  alive, a new registration starts one, and the connection is neither closed nor shut down.
\<close>

definition shutdowns :: "TCPSession \<Rightarrow> (tcp_op \<times> op_status) list" where
  "shutdowns t = filter (\<lambda>x. fst x = SslShutdown) (tcp_ops t)"

definition pings :: "env \<Rightarrow> proto \<Rightarrow> ptr \<Rightarrow> tcp_ctx \<Rightarrow> tcp_ctx \<Rightarrow> bool" where
  "pings e k p c c' \<longleftrightarrow>
     (live_ping (self c) \<longrightarrow> live_ping (self c')) \<and>
     (\<forall>sid. station_names k (shared c') sid = Some p \<longrightarrow>
        station_names k (shared c) sid = Some p \<or> live_ping (self c')) \<and>
     socketOpen (self c') = socketOpen (self c) \<and> shutdowns (self c') = shutdowns (self c)"

lemma filter_remove1_False: "\<not> P x \<Longrightarrow> filter P (remove1 x xs) = filter P xs"
  by (induction xs) auto

lemma shutdowns_cancel:
  assumes "\<not> P SslShutdown"
  shows "shutdowns (cancel_ops P t) = shutdowns t"
proof -
  have "filter (\<lambda>x. fst x = SslShutdown) (map (\<lambda>(op, st). if P op \<and> st = Armed then (op, Aborted) else (op, st)) xs)
      = filter (\<lambda>x. fst x = SslShutdown) xs" for xs
    using assms by (induction xs) (auto split: if_splits)
  then show ?thesis by (simp add: shutdowns_def cancel_ops_def)
qed

lemma shutdowns_start [simp]: "op \<noteq> SslShutdown \<Longrightarrow> shutdowns (start_op op t) = shutdowns t"
  by (simp add: shutdowns_def start_op_def)

lemma shutdowns_update [simp]:
  "shutdowns (t\<lparr>output_buf := b\<rparr>) = shutdowns t" "shutdowns (t\<lparr>stationId := i\<rparr>) = shutdowns t"
  "shutdowns (t\<lparr>input_buf := b, numBytesLeft := n\<rparr>) = shutdowns t"
  "shutdowns (t\<lparr>deadline := d\<rparr>) = shutdowns t"
  by (simp_all add: shutdowns_def)

lemma socketOpen_ops [simp]:
  "socketOpen (start_op op t) = socketOpen t" "socketOpen (cancel_ops P t) = socketOpen t"
  by (simp_all add: start_op_def cancel_ops_def)

lemma pings_handle:
  assumes "handle e k p pid view c = Inr (r, c')"
  shows "pings e k p c c'"
proof (cases pid)
  case In_Handshake
  with assms have "c' = c \<or> handleHandshakePacket e k p view c = Inr (r, c')"
    by (auto simp: handle_def split: if_splits)
  then show ?thesis
    by (auto simp: handleHandshakePacket_def Let_def bind_result_Inr_iff case_prod_unfold
        sendBadRequest_def pings_def writePacket_def startPingTimer_def station_names_join
        join_TCPSession_flag station_names_def [symmetric] split: if_splits)
next
  case In_WeatherStatus
  with assms show ?thesis
    by (auto simp: handle_def pings_def dest: handleWeatherStatusPacket_frame split: if_splits)
qed (use assms in \<open>auto simp: handle_def handlePongPacket_def pings_def live_ping_cancel
    shutdowns_cancel split: if_splits\<close>)

interpretation pinging: packet_relation pings
proof (unfold_locales, goal_cases)
  case 2 then show ?case by (auto simp: pings_def)
next
  case 3 then show ?case by (rule pings_handle)
qed (simp_all add: pings_def pop_packet_def Let_def read_more_def doReadPacketHeader_def)

text \<open>A completed read without error, and with an unknown packet among its bytes.\<close>

lemma received_pings:
  assumes "reader_ok t" "(ReadSome off cap, st) \<in> set (tcp_ops t)" "d \<noteq> []" "length d \<le> cap"
    and "tcp_complete e k p (ReadSome off cap) NoError d
      (tcp_context s (finish_op (ReadSome off cap, st) t)) = Inr c"
  shows "pings e k p (tcp_context s t) c"
    "frames (pending t @ d) = (fs, rest, True) \<Longrightarrow> readers (self c) = []"
proof -
  obtain t' where t': "parsePacketHeader e k p (tcp_context s t') = Inr c" "buffer_ok t'"
      "numBytesLeft t' \<noteq> 0" "readers t' = []" "pending t' = pending t @ d" "socketOpen t' = socketOpen t"
      "tcp_ops t' = remove1 (ReadSome off cap, st) (tcp_ops t)"
    using received_parse [OF assms] by blast
  have "live_ping t \<longrightarrow> live_ping t'" "shutdowns t' = shutdowns t"
    using t'(7) by (auto simp: live_ping_def in_set_remove1 shutdowns_def filter_remove1_False)
  with pinging.R_parse [OF t'(1)] t'(6) show "pings e k p (tcp_context s t) c"
    by (simp add: pings_def)
  show "readers (self c) = []" if "frames (pending t @ d) = (fs, rest, True)"
    using parse_reader_ok(2) [of "tcp_context s t'" e k p c fs rest True] t' that by simp
qed

text \<open>While no session has two names, a registered session that may read again is pinged.\<close>

lemma paced_complete:
  assumes ok: "reader_ok t" and paced: "readers t = [] \<or> live_ping t"
    and op: "(op, st) \<in> set (tcp_ops t)" "may_complete op st err d"
    and run: "tcp_complete e k p op err d (tcp_context s (finish_op (op, st) t)) = Inr c"
  shows "readers (self c) = [] \<or> live_ping (self c)"
proof (cases "readers t = []")
  case True
  with quiet_complete [OF True op(1) run] show ?thesis by blast
next
  case False
  with paced have live: "live_ping t" by blast
  show ?thesis
  proof (cases op)
    case (ReadSome off cap)
    show ?thesis
    proof (cases "err = NoError")
      case True
      with op(2) ReadSome have "d \<noteq> []" "length d \<le> cap" by (auto simp: may_complete_def)
      with received_pings(1) [OF ok] op(1) run ReadSome True live show ?thesis
        by (auto simp: pings_def)
    next
      case err: False
      have "(op, st) \<in> set (readers t)" using op(1) ReadSome by (simp add: readers_def)
      with ok have "readers t = [(op, st)]" by (auto simp: reader_ok_def)
      then have "readers (finish_op (op, st) t) = []"
        using readers_finish [of t "(op, st)"] op(1) ReadSome by simp
      moreover have "self c = disconnect k e (stop (receive off d (finish_op (op, st) t)))"
        using run err ReadSome by (auto simp: onReadPacketHeader_def)
      ultimately show ?thesis by (simp add: receive_def)
    qed
  qed (use ping_complete [OF live op _ run] in simp_all)
qed

definition paced :: "server \<Rightarrow> bool" where
  "paced s \<longleftrightarrow> (\<forall>k sid p t. station_names k (srv_state s) sid = Some p \<longrightarrow> tcps s k p = Some t \<longrightarrow>
     readers t = [] \<or> live_ping t)"

lemma registers_ping:
  assumes "reader_ok t" "(op, st) \<in> set (tcp_ops t)" "may_complete op st err d"
    and run: "tcp_complete e k p op err d (tcp_context s (finish_op (op, st) t)) = Inr c"
    and "station_names k (shared c) sid = Some p"
  shows "station_names k (srv_state s) sid = Some p \<or> live_ping (self c)"
proof (cases "\<exists>off cap. op = ReadSome off cap \<and> err = NoError")
  case True
  then obtain off cap where op: "op = ReadSome off cap" "err = NoError" by blast
  with assms(3) have "d \<noteq> []" "length d \<le> cap" by (auto simp: may_complete_def)
  with received_pings(1) [OF assms(1)] assms op show ?thesis by (fastforce simp: pings_def)
next
  case False
  with run have "shared c = srv_state s" by (cases op) (auto simp: onReadPacketHeader_def)
  with assms(5) show ?thesis by simp
qed

lemma paced_step:
  assumes ok: "paced s" and readers: "readers_ok s" and alive: "registered_alive s"
    and step: "server_step e s s'"
  shows "paced s'"
  using step
proof cases
  case (tcp_accept k p garbage)
  have "station_names k (srv_state s) sid \<noteq> Some p" for sid
    using registered_aliveD [OF alive, of k sid p] tcp_accept by auto
  with ok tcp_accept(1) show ?thesis by (auto simp: paced_def)
next
  case (tcp_timer k p t op)
  have "readers (fire_timer op t) = [] \<or> live_ping (fire_timer op t)"
    if "station_names k (srv_state s) sid = Some p" for sid
    using ok that tcp_timer live_ping_fire quiet_fire unfolding paced_def by blast
  with ok tcp_timer(1) show ?thesis by (auto simp: paced_def)
next
  case (tcp_completion k p t op st err d c)
  have t: "reader_ok t" using readers tcp_completion(2) by (auto simp: readers_ok_def)
  have regs: "registers (at_clock e s) k p (tcp_context s (finish_op (op, st) t)) c"
    by (rule registers_complete [OF tcp_completion(5)])
  show ?thesis
    unfolding paced_def
  proof (intro allI impI)
    fix k' sid q t'
    assume name: "station_names k' (srv_state s') sid = Some q" and t': "tcps s' k' q = Some t'"
    show "readers t' = [] \<or> live_ping t'"
    proof (cases "k' = k \<and> q = p")
      case True
      with name t' tcp_completion(1) have n: "station_names k (shared c) sid = Some p"
        and t'c: "t' = self c" by auto
      from registers_ping [OF t tcp_completion(3-5) n] show ?thesis
      proof
        assume "station_names k (srv_state s) sid = Some p"
        with ok tcp_completion(2) have "readers t = [] \<or> live_ping t" by (auto simp: paced_def)
        with paced_complete [OF t _ tcp_completion(3-5)] t'c show ?thesis by simp
      qed (simp add: t'c)
    next
      case False
      with registers_old [OF regs] name tcp_completion(1)
      have "station_names k' (srv_state s) sid = Some q" by auto
      with ok False t' tcp_completion(1) show ?thesis by (auto simp: paced_def split: if_splits)
    qed
  qed
next
  case (tcp_destroy k p t)
  with ok show ?thesis by (auto simp: paced_def station_names_leave split: if_splits)
next
  case (ws_message k p w err d c)
  have names: "station_names k' (wshared c) = station_names k' (srv_state s)" for k'
    using onRead_cases [OF ws_message(4)]
    by (auto simp: leave_session_def requests_def receive_message_def)
  have "readers t' = [] \<or> live_ping t'"
    if "station_names k' (srv_state s) sid = Some q" and t': "stations c k' q = Some t'" for k' sid q t'
  proof -
    have "rel_option tcp_poked (tcps s k' q) (stations c k' q)"
      using ws_stations_poked [OF ws_message(4), of k' q] by (simp add: receive_message_def)
    with t' obtain t where "tcps s k' q = Some t" "tcp_poked t t'"
      by (cases "tcps s k' q") auto
    with ok that(1) quiet_poked live_ping_poked show ?thesis unfolding paced_def by metis
  qed
  with ws_message(1) names show ?thesis by (auto simp: paced_def)
qed (use ok in \<open>auto simp: paced_def onAccept_def Let_def case_prod_unfold\<close>)

lemma paced_run: "run_under e one_name (start_server r c t) s \<Longrightarrow> paced s"
proof -
  assume run: "run_under e one_name (start_server r c t) s"
  have start: "paced (start_server r c t)" by (simp add: paced_def)
  have "paced s \<and> readers_ok s \<and> registered_alive s"
    by (rule run_under_invariant [OF run,
          where I = "\<lambda>s. paced s \<and> readers_ok s \<and> registered_alive s"])
      (use start in \<open>auto intro: paced_step readers_ok_step registered_alive_step\<close>)
  then show ?thesis ..
qed

end
