(* ===== verification/Ws_Framing.thy ===== *)
theory Ws_Framing
  imports Ws_Session
begin

text \<open>
  What a WebSocket session promises a browser. A message that is a sequence of length-prefixed
  requests has each request served once and in order, until one is bad; the outgoing queue
  sends the texts given to it in order, one write at a time.
\<close>

section \<open>Length-prefixed requests\<close>

definition bytes_of :: "string \<Rightarrow> byte list" where
  "bytes_of s = map (\<lambda>c. word_of_nat (of_char c)) s"

definition ws_frame :: "string \<Rightarrow> byte list" where
  "ws_frame s = le_bytes 2 (length s) @ bytes_of s"

lemma length_bytes_of [simp, size_simps]: "length (bytes_of s) = length s"
  by (simp add: bytes_of_def)

lemma chars_of_bytes_of [simp]: "chars_of (bytes_of s) = s"
proof -
  have "char_of (unat (word_of_nat (of_char c) :: byte)) = c" for c
    by (simp add: unsigned_of_nat take_bit_eq_mod)
  then show ?thesis by (simp add: chars_of_def bytes_of_def comp_def)
qed

lemma length_ws_frame [size_simps]: "length (ws_frame s) = length s + 2"
  by (simp add: ws_frame_def)

lemma ws_frame_nonempty [simp]: "ws_frame s \<noteq> []"
proof -
  have "0 < length (ws_frame s)" by (simp add: length_ws_frame)
  then show ?thesis by simp
qed

lemma ws_frame_size:
  assumes "length s < 65536"
  shows "le_nat (take 2 (ws_frame s @ rest)) = length s"
  using assms le_nat_bytes [of 2 "length s"] by (simp add: ws_frame_def)

text \<open>
  The specification: serve the payloads in turn, stop at the first one that is bad. The flag
  says whether all were served.
\<close>

fun serve :: "string list \<Rightarrow> ws_ctx \<Rightarrow> (bool \<times> ws_ctx) result" where
  "serve [] c = Inr (True, c)"
| "serve (p # ps) c =
     (case catch_exceptions (dispatch_request (length p + 2) p c) of
        (Inl x, c') \<Rightarrow> Inl x
      | (Inr (st, n), c') \<Rightarrow> if st = Good then serve ps c' else Inr (False, c'))"

definition after_serving :: "bool \<times> ws_ctx \<Rightarrow> ws_ctx" where
  "after_serving = (\<lambda>(served, c).
     c\<lparr>wself := if served then doRead (wself c) else start_ws_op WsClose (wself c)\<rparr>)"

definition with_message :: "byte list \<Rightarrow> ws_ctx \<Rightarrow> ws_ctx" where
  "with_message b c = c\<lparr>wself := (wself c)\<lparr>buffer := b\<rparr>\<rparr>"

lemma with_message_simps [simp]:
  "wshared (with_message b c) = wshared c" "stations (with_message b c) = stations c"
  "buffer (wself (with_message b c)) = b" "uuid (wself (with_message b c)) = uuid (wself c)"
  "with_message b (with_message b' c) = with_message b c"
  "consume n (with_message b c) = with_message (drop n b) c"
  by (simp_all add: with_message_def consume_def)

subsection \<open>Handlers do not touch the message\<close>

lemma visit_station_message:
  "visit_station u sp (with_message b c) = with_message b (visit_station u sp c)"
  by (cases "(u, sp, c)" rule: visit_station.cases)
    (simp_all add: update_station_def with_message_def)

lemma request_stations_message:
  "request_stations js (with_message b c) =
     (fst (request_stations js c), with_message b (snd (request_stations js c)))"
  by (induction js c rule: request_stations.induct)
    (auto simp: visit_station_message split: sum.split)

lemma handleWeatherStatusRequest_message:
  "handleWeatherStatusRequest n j (with_message b c) =
     (fst (handleWeatherStatusRequest n j c), with_message b (snd (handleWeatherStatusRequest n j c)))"
  by (auto simp: handleWeatherStatusRequest_def request_stations_message split: sum.split prod.split)

lemma writeRequest_message:
  "writeRequest j h (w\<lparr>buffer := b\<rparr>) =
     bind_result (writeRequest j h w) (\<lambda>w. Inr (w\<lparr>buffer := b\<rparr>))"
  by (cases "JSON_dump j") (simp_all add: writeRequest_def enqueue_def start_ws_op_def Let_def)

lemma handleAvailableStations_message:
  "handleAvailableStations n j (with_message b c) =
     (fst (handleAvailableStations n j c), with_message b (snd (handleAvailableStations n j c)))"
proof -
  have "wself (with_message b c) = (wself c)\<lparr>buffer := b\<rparr>" by (simp add: with_message_def)
  then show ?thesis
    by (cases "writeRequest (stations_json (allStationIds (wshared c))) LogAvailableStations (wself c)")
      (simp_all add: handleAvailableStations_def stations_response_eq writeRequest_message
        with_message_def)
qed

lemma dispatch_request_message:
  "dispatch_request n p (with_message b c) =
     (fst (dispatch_request n p c), with_message b (snd (dispatch_request n p c)))"
  by (auto simp: dispatch_request_def handleWeatherStatusRequest_message
      handleAvailableStations_message split: sum.split prod.split)

lemma catch_dispatch_message:
  "catch_exceptions (dispatch_request n p (with_message b c)) =
     (fst (catch_exceptions (dispatch_request n p c)),
      with_message b (snd (catch_exceptions (dispatch_request n p c))))"
proof -
  have "catch_exceptions (r, with_message b c') =
      (fst (catch_exceptions (r, c')), with_message b (snd (catch_exceptions (r, c'))))" for r c'
    by (cases "(r, c')" rule: catch_exceptions.cases) auto
  then show ?thesis by (simp add: dispatch_request_message)
qed

subsection \<open>The loop refines the specification\<close>

lemma ws_handle_frame:
  assumes "length (ws_frame p @ rest) \<le> MaxPayloadSize"
  shows "ws_handle (ws_frame p @ rest) c =
     catch_exceptions (dispatch_request (length p + 2) p c)"
proof -
  have "length p < 65536" using assms by (simp add: MaxPayloadSize_def size_simps)
  note size = ws_frame_size [OF this, of rest]
  have "take (length p) (drop 2 (ws_frame p @ rest)) = bytes_of p"
    by (simp add: ws_frame_def)
  with size assms show ?thesis
    by (simp add: ws_handle_def Let_def size_simps del: drop_append)
qed

lemma served_consumes_frame:
  assumes "catch_exceptions (dispatch_request n p c) = (Inr (st, m), c')"
  shows "st = Good \<and> m = n \<or> st = Bad"
proof -
  have "fst (catch_exceptions (dispatch_request n p c)) = Inr (st, m)" using assms by simp
  from catch_exceptions_cases [OF this] show ?thesis
    by (auto dest: dispatch_request_verdict)
qed

lemma read_loop_step:
  assumes "length (ws_frame p @ rest) \<le> MaxPayloadSize"
  shows "read_loop (with_message (ws_frame p @ rest) c) =
     (case catch_exceptions (dispatch_request (length p + 2) p c) of
        (Inl x, c') \<Rightarrow> Some (Inl x)
      | (Inr (st, n), c') \<Rightarrow>
          if st = Good then
            if rest \<noteq> [] then read_loop (with_message rest c')
            else Some (Inr (after_serving (True, with_message [] c')))
          else Some (Inr (after_serving (False, with_message (drop n (ws_frame p @ rest)) c'))))"
proof -
  have ne: "ws_frame p @ rest \<noteq> []" by simp
  obtain v c' where r: "catch_exceptions (dispatch_request (length p + 2) p c) = (v, c')"
    by (cases "catch_exceptions (dispatch_request (length p + 2) p c)")
  have h: "ws_handle (ws_frame p @ rest) (with_message (ws_frame p @ rest) c) =
      (v, with_message (ws_frame p @ rest) c')"
    using r by (simp add: ws_handle_frame [OF assms] catch_dispatch_message del: catch_exceptions_frame)
  show ?thesis
  proof (cases v)
    case (Inl x)
    with h r ne show ?thesis by (subst read_loop.simps) simp
  next
    case (Inr y)
    then obtain st n where v: "v = Inr (st, n)" by (cases y) auto
    from r v have "st = Good \<and> n = length p + 2 \<or> st = Bad"
      using served_consumes_frame by metis
    moreover have "drop (length p + 2) (ws_frame p @ rest) = rest"
      by (simp add: size_simps)
    ultimately show ?thesis
      using h r v ne by (subst read_loop.simps) (auto simp: after_serving_def Let_def)
  qed
qed

lemma after_serving_message:
  "with_message b (after_serving (x, with_message b' c)) = with_message b (after_serving (x, c))"
  by (simp add: after_serving_def with_message_def doRead_def start_ws_op_def)

lemma read_loop_serves:
  assumes "length (concat (map ws_frame (p # ps))) \<le> MaxPayloadSize"
  shows "map_option (\<lambda>r. bind_result r (\<lambda>c'. Inr (with_message [] c')))
       (read_loop (with_message (concat (map ws_frame (p # ps))) c)) =
     Some (bind_result (serve (p # ps) c) (\<lambda>r. Inr (with_message [] (after_serving r))))"
  using assms
proof (induction ps arbitrary: p c)
  case Nil
  have "length (ws_frame p @ []) \<le> MaxPayloadSize" using Nil by simp
  note step = read_loop_step [OF this, of c]
  then show ?case
    by (simp add: after_serving_message split: sum.split prod.split)
next
  case (Cons q qs)
  have fits: "length (ws_frame p @ concat (map ws_frame (q # qs))) \<le> MaxPayloadSize"
    "length (concat (map ws_frame (q # qs))) \<le> MaxPayloadSize"
    using Cons.prems by simp_all
  have ne: "concat (map ws_frame (q # qs)) \<noteq> []"
    by simp
  note step = read_loop_step [OF fits(1), of c]
  have "concat (map ws_frame (p # q # qs)) = ws_frame p @ concat (map ws_frame (q # qs))" by simp
  with step ne Cons.IH [OF fits(2)] show ?case
    by (simp add: after_serving_message del: concat.simps list.map serve.simps(2)
        split: sum.split prod.split) (simp add: after_serving_message split: sum.split prod.split)
qed

text \<open>A bad request ends the serving, whatever is behind it in the message.\<close>

lemma read_loop_bad:
  assumes "length (concat (map ws_frame ps) @ rest) \<le> MaxPayloadSize"
    and "serve ps c = Inr (False, c1)"
  shows "\<exists>b. read_loop (with_message (concat (map ws_frame ps) @ rest) c) =
     Some (Inr (after_serving (False, with_message b c1)))"
  using assms
proof (induction ps arbitrary: c)
  case Nil
  then show ?case by simp
next
  case (Cons p ps)
  let ?more = "concat (map ws_frame ps) @ rest"
  have fits: "length (ws_frame p @ ?more) \<le> MaxPayloadSize" "length ?more \<le> MaxPayloadSize"
    using Cons.prems(1) by simp_all
  obtain v c' where r: "catch_exceptions (dispatch_request (length p + 2) p c) = (v, c')"
    by (cases "catch_exceptions (dispatch_request (length p + 2) p c)")
  with Cons.prems(2) obtain st n where v: "v = Inr (st, n)" by (cases v) auto
  note step = read_loop_step [OF fits(1), of c]
  show ?case
  proof (cases "st = Good")
    case True
    with Cons.prems(2) r v have good: "serve ps c' = Inr (False, c1)" by simp
    then have "ps \<noteq> []" by auto
    then have "?more \<noteq> []" by (cases ps) auto
    with step r v True Cons.IH [OF fits(2) good] show ?thesis by simp
  next
    case False
    with Cons.prems(2) r v have "c1 = c'" by simp
    with step r v False show ?thesis by auto
  qed
qed

end
