(* ===== verification/Json_Rounding.thy ===== *)
theory Json_Rounding
  imports Complex_Main Json_Number
begin

text \<open>
  \<open>strtod\<close> rounds to nearest: a quotient strictly between the midpoints to the neighbours of a
  double is read as that double. The midpoints are the boundaries \<open>compute_boundaries\<close> of the
  printer works with.
\<close>

section \<open>Binary logarithms of quotients\<close>

lemma ilog2_bounds:
  assumes "0 < n"
  shows "2 ^ ilog2 n \<le> n" "n < 2 ^ Suc (ilog2 n)"
proof -
  have "2 ^ ilog2 n \<le> n \<and> n < 2 ^ Suc (ilog2 n)" using assms
  proof (induction n rule: ilog2.induct)
    case (1 n)
    show ?case
    proof (cases "n < 2")
      case True
      then have "n = 1" using 1(2) by simp
      then show ?thesis by (simp add: ilog2.simps)
    next
      case False
      then have "2 ^ ilog2 (n div 2) \<le> n div 2" "n div 2 < 2 ^ Suc (ilog2 (n div 2))" using 1 by simp_all
      moreover have "n mod 2 < 2" by simp
      ultimately have "2 * 2 ^ ilog2 (n div 2) \<le> n \<and> n < 2 * (2 * 2 ^ ilog2 (n div 2))"
        using div_mult_mod_eq [of n 2] by (simp, linarith)
      then show ?thesis using False by (simp add: ilog2.simps [of n])
    qed
  qed
  then show "2 ^ ilog2 n \<le> n" "n < 2 ^ Suc (ilog2 n)" by simp_all
qed

lemma real_ilog2_bounds:
  assumes "0 < n"
  shows "2 powi int (ilog2 n) \<le> real n" "real n < 2 powi (int (ilog2 n) + 1)"
proof -
  have "real (2 ^ ilog2 n) \<le> real n" "real n < real (2 ^ Suc (ilog2 n))"
    using ilog2_bounds [OF assms] by (simp_all only: of_nat_le_iff of_nat_less_iff)
  then show "2 powi int (ilog2 n) \<le> real n" "real n < 2 powi (int (ilog2 n) + 1)"
    by (simp_all add: power_int_add)
qed

lemma powi_split: "0 \<le> e \<Longrightarrow> 2 powi e = real (2 ^ nat e)"
  "e < 0 \<Longrightarrow> 2 powi e = inverse (real (2 ^ nat (- e)))"
  by (simp_all add: power_int_def power_one_over inverse_eq_divide)

text \<open>The comparison that corrects the difference of the logarithms.\<close>

lemma below_power:
  assumes "0 < den"
  shows "(if 0 \<le> e then num < den * 2 ^ nat e else num * 2 ^ nat (- e) < den)
    \<longleftrightarrow> real num / real den < 2 powi e"
proof (cases "0 \<le> e")
  case True
  have "real num / real den < 2 powi e \<longleftrightarrow> real num < real (den * 2 ^ nat e)"
    using assms True by (simp add: powi_split divide_less_eq mult.commute)
  then show ?thesis using True by (simp only: of_nat_less_iff if_True)
next
  case False
  have "real num / real den < 2 powi e \<longleftrightarrow> real (num * 2 ^ nat (- e)) < real den"
    using assms False by (simp add: powi_split field_simps)
  then show ?thesis using False by (simp only: of_nat_less_iff if_False)
qed

lemma floor_log2_bounds:
  assumes "0 < num" "0 < den"
  shows "2 powi floor_log2 num den \<le> real num / real den"
    "real num / real den < 2 powi (floor_log2 num den + 1)"
proof -
  define a b where "a = int (ilog2 num)" and "b = int (ilog2 den)"
  define x where "x = real num / real den"
  have n: "2 powi a \<le> real num" "real num < 2 powi (a + 1)"
    and d: "2 powi b \<le> real den" "real den < 2 powi (b + 1)"
    using real_ilog2_bounds assms unfolding a_def b_def by blast+
  have "x < 2 powi (a + 1) / 2 powi b"
    unfolding x_def by (rule frac_less) (use n d in simp_all)
  then have up: "x < 2 powi (a - b + 1)" by (simp add: power_int_diff power_int_add)
  have "2 powi a / 2 powi (b + 1) < x"
    unfolding x_def by (rule frac_less2) (use n d assms in simp_all)
  then have low: "2 powi (a - b - 1) < x" by (simp add: power_int_diff power_int_add)
  have f: "floor_log2 num den = (if x < 2 powi (a - b) then a - b - 1 else a - b)"
    unfolding floor_log2_def Let_def below_power [OF assms(2)] x_def a_def b_def ..
  show "2 powi floor_log2 num den \<le> real num / real den"
    "real num / real den < 2 powi (floor_log2 num den + 1)"
    unfolding x_def [symmetric] f using up low by auto
qed

section \<open>Doubles\<close>

text \<open>Mantissa and exponent of the bits of a double that is not negative.\<close>

definition binade :: "nat \<Rightarrow> nat" where
  "binade b = max 1 (b div 2 ^ 52)"

definition mantissa :: "nat \<Rightarrow> nat" where
  "mantissa b = (if b div 2 ^ 52 = 0 then b mod 2 ^ 52 else b mod 2 ^ 52 + 2 ^ 52)"

definition unit_of :: "nat \<Rightarrow> real" where
  "unit_of b = 2 powi (int (binade b) - 1075)"

definition double_value :: "nat \<Rightarrow> real" where
  "double_value b = real (mantissa b) * unit_of b"

definition closer_below :: "nat \<Rightarrow> bool" where
  "closer_below b \<longleftrightarrow> b mod 2 ^ 52 = 0 \<and> 1 < b div 2 ^ 52"

text \<open>The midpoints to the neighbours.\<close>

definition midpoint_above :: "nat \<Rightarrow> real" where
  "midpoint_above b = (real (mantissa b) + 1 / 2) * unit_of b"

definition midpoint_below :: "nat \<Rightarrow> real" where
  "midpoint_below b = (real (mantissa b) - (if closer_below b then 1 / 4 else 1 / 2)) * unit_of b"

lemma unit_pos [simp]: "0 < unit_of b"
  by (simp add: unit_of_def)

lemma mantissa_less: "mantissa b < 2 ^ 53"
proof -
  define m where "m = b mod 2 ^ 52"
  have "m < 2 ^ 52" by (simp add: m_def)
  then show ?thesis unfolding mantissa_def m_def [symmetric] by simp
qed

lemma mantissa_normal: "binade b \<noteq> 1 \<Longrightarrow> 2 ^ 52 \<le> mantissa b"
  by (cases "b div 2 ^ 52 = 0") (simp_all only: mantissa_def binade_def if_True if_False le_add2 max_0R max.absorb1 le0)

lemma mantissa_pos: "0 < b \<Longrightarrow> 0 < mantissa b"
proof (cases "b div 2 ^ 52 = 0")
  case True
  assume "0 < b"
  moreover have "b mod 2 ^ 52 = b" using True by (simp add: div_eq_0_iff)
  ultimately show ?thesis unfolding mantissa_def if_P [OF True] by simp
qed (simp add: mantissa_def)

lemma bits_mantissa: "(binade b - 1) * 2 ^ 52 + mantissa b = b"
proof (cases "b div 2 ^ 52")
  case 0
  then have "b < 2 ^ 52" by (simp add: div_eq_0_iff)
  then show ?thesis by (simp add: mantissa_def binade_def)
next
  case (Suc k)
  then have "b = Suc k * 2 ^ 52 + b mod 2 ^ 52" by (metis div_mult_mod_eq)
  then show ?thesis using Suc by (simp add: mantissa_def binade_def)
qed

lemma closer_below_mantissa: "closer_below b \<longleftrightarrow> mantissa b = 2 ^ 52 \<and> 1 < binade b"
  by (auto simp: closer_below_def mantissa_def binade_def max_def)

section \<open>Rounding\<close>

lemma round_half_even_close:
  assumes "0 < d" "\<bar>real n / real d - real q\<bar> < 1 / 2"
  shows "round_half_even n d = q"
proof -
  define r where "r = round_half_even n d"
  have "real (2 * (d * r)) \<le> real (2 * n + d)" "real (2 * n) \<le> real (2 * (d * r) + d)"
    using round_half_even_near [OF assms(1), of n] unfolding r_def by (simp_all only: of_nat_le_iff)
  then have "real d * real r \<le> real n + real d / 2" "real n \<le> real d * real r + real d / 2" by simp_all
  then have "real r - 1 / 2 \<le> real n / real d" "real n / real d \<le> real r + 1 / 2"
    using assms(1) by (simp_all add: pos_le_divide_eq pos_divide_le_eq right_diff_distrib distrib_right
        left_diff_distrib distrib_left mult.commute)
  then have "\<bar>real n / real d - real r\<bar> \<le> 1 / 2" by linarith
  with assms(2) have "\<bar>real r - real q\<bar> < 1" by linarith
  then have "r = q" by linarith
  then show ?thesis by (simp add: r_def)
qed

lemma scaled_round:
  assumes "0 < den" "\<bar>real num / real den * 2 powi (52 - e) - real q\<bar> < 1 / 2"
  shows "(if e \<le> 52 then round_half_even (num * 2 ^ nat (52 - e)) den
          else round_half_even num (den * 2 ^ nat (e - 52))) = q"
proof (cases "e \<le> 52")
  case True
  then have p: "2 powi (52 - e) = real (2 ^ nat (52 - e))" by (intro powi_split) simp
  have "real (num * 2 ^ nat (52 - e)) / real den = real num / real den * 2 powi (52 - e)" unfolding p by simp
  with assms(2) have "round_half_even (num * 2 ^ nat (52 - e)) den = q"
    by (intro round_half_even_close [OF assms(1)]) (simp only:)
  then show ?thesis using True by simp
next
  case False
  then have "real num / real (den * 2 ^ nat (e - 52)) = real num / real den * 2 powi (52 - e)"
    by (simp add: powi_split field_simps)
  then show ?thesis using round_half_even_close [of "den * 2 ^ nat (e - 52)" num q] assms False by simp
qed

lemma powi_le_2: "e \<le> f \<Longrightarrow> (2 :: real) powi e \<le> 2 powi f"
  by (simp add: power_int_increasing)

lemma powi_less_2: "(2 :: real) powi e < 2 powi f \<longleftrightarrow> e < f"
  by (metis not_le power_int_increasing power_int_strict_increasing one_le_numeral one_less_numeral_iff semiring_norm(76))

text \<open>A scaled quotient decides the exponent and the mantissa.\<close>

lemma double_bits_scaled:
  assumes "0 < num" "0 < den" "- 1022 \<le> e"
    and "real num / real den < 2 powi (e + 1)" "e = - 1022 \<or> 2 powi e \<le> real num / real den"
    and "\<bar>real num / real den * 2 powi (52 - e) - real q\<bar> < 1 / 2"
  shows "double_bits num den = min (nat (e + 1022) * 2 ^ 52 + q) infinity_bits"
proof -
  define L where "L = floor_log2 num den"
  have L: "2 powi L \<le> real num / real den" "real num / real den < 2 powi (L + 1)"
    using floor_log2_bounds assms(1,2) unfolding L_def by blast+
  have "2 powi L < (2 :: real) powi (e + 1)" using L(1) assms(4) by linarith
  then have le: "L \<le> e" by (simp add: powi_less_2)
  have "max L (- 1022) = e"
  proof (cases "e = - 1022")
    case False
    then have "2 powi e < (2 :: real) powi (L + 1)" using L(2) assms(5) by linarith
    then show ?thesis using le assms(3) by (simp add: powi_less_2)
  qed (use le in simp)
  then show ?thesis
    using assms(1) scaled_round [OF assms(2,6)] by (simp add: double_bits_def L_def [symmetric])
qed

theorem double_bits_nearest:
  assumes "0 < b" "b < infinity_bits" "0 < den"
    and "midpoint_below b < real num / real den" "real num / real den < midpoint_above b"
  shows "double_bits num den = b"
proof -
  define x where "x = real num / real den"
  define K f where "K = binade b" and "f = mantissa b"
  define y where "y = x * 2 powi (1075 - int K)"
  have K: "1 \<le> K" by (simp add: K_def binade_def)
  have xy: "x = y * 2 powi (int K - 1075)" by (simp add: y_def flip: power_int_add mult.assoc)
  have unit: "unit_of b = 2 powi (int K - 1075)" by (simp add: unit_of_def K_def)
  have y: "real f - (if closer_below b then 1 / 4 else 1 / 2) < y" "y < real f + 1 / 2"
    using assms(4,5) unfolding midpoint_below_def midpoint_above_def unit x_def [symmetric] xy f_def
    by (simp_all add: mult_less_cancel_right_pos)
  have near: "\<bar>y - real f\<bar> < 1 / 2" using y unfolding abs_less_iff by (simp split: if_splits)
  have f: "real f \<le> 2 ^ 53 - 1" "1 \<le> real f"
    using mantissa_less [of b] mantissa_pos [OF assms(1)] by (simp_all add: f_def)
  have "0 < y" using y(1) f(2) by (simp split: if_splits)
  then have num: "0 < num" using assms(3) unfolding y_def x_def by (simp add: zero_less_mult_iff zero_less_divide_iff)
  have b: "(K - 1) * 2 ^ 52 + f = b" by (simp only: K_def f_def bits_mantissa)
  have p53: "2 powi (int K - 1022) = (2 :: real) ^ 53 * 2 powi (int K - 1075)"
    using power_int_add [of "2 :: real" 53 "int K - 1075"] by (simp add: algebra_simps)
  have p52: "2 powi (int K - 1023) = (2 :: real) ^ 52 * 2 powi (int K - 1075)"
    using power_int_add [of "2 :: real" 52 "int K - 1075"] by (simp add: algebra_simps)
  have p51: "2 powi (int K - 1024) = (2 :: real) ^ 51 * 2 powi (int K - 1075)"
    using power_int_add [of "2 :: real" 51 "int K - 1075"] by (simp add: algebra_simps)
  have up: "x < 2 powi (int K - 1022)"
    unfolding p53 xy by (rule mult_strict_right_mono) (use y(2) f in simp_all)
  show ?thesis
  proof (cases "K = 1 \<or> 2 ^ 52 \<le> y")
    case True
    have low: "int K - 1023 = - 1022 \<or> 2 powi (int K - 1023) \<le> x"
    proof (cases "K = 1")
      case False
      then have "2 ^ 52 \<le> y" using True by simp
      then show ?thesis unfolding p52 xy by (auto intro: mult_right_mono)
    qed simp
    have "double_bits num den = min (nat (int K - 1023 + 1022) * 2 ^ 52 + f) infinity_bits"
      by (rule double_bits_scaled) (use num assms(3) K up low near in \<open>simp_all add: x_def y_def algebra_simps\<close>)
    also have "nat (int K - 1023 + 1022) = K - 1" using K by simp
    finally show ?thesis using b assms(2) by simp
  next
    case False
    then have K2: "2 \<le> K" and y52: "y < 2 ^ 52" using K by simp_all
    then have "2 ^ 52 \<le> f" using mantissa_normal [of b] by (simp add: K_def f_def)
    moreover have "real f < 2 ^ 52 + 1" using y(1) y52 by (simp split: if_splits)
    then have "f < 2 ^ 52 + 1" by (simp flip: of_nat_less_iff)
    ultimately have f52: "f = 2 ^ 52" by simp
    then have c: "closer_below b" using K2 by (simp add: closer_below_mantissa f_def K_def)
    then have y4: "2 ^ 52 - 1 / 4 < y" using y(1) f52 by simp
    have twice: "x * 2 powi (52 - (int K - 1024)) = 2 * y"
      using power_int_add [of "2 :: real" 1 "1075 - int K"] by (simp add: y_def algebra_simps)
    have "double_bits num den = min (nat (int K - 1024 + 1022) * 2 ^ 52 + 2 ^ 53) infinity_bits"
    proof (rule double_bits_scaled [OF num assms(3)])
      show "- 1022 \<le> int K - 1024" using K2 by simp
      show "real num / real den < 2 powi (int K - 1024 + 1)"
        unfolding x_def [symmetric] using y52 p52 by (simp add: xy)
      show "int K - 1024 = - 1022 \<or> 2 powi (int K - 1024) \<le> real num / real den"
        unfolding x_def [symmetric] p51 xy using y4 by (auto intro: mult_right_mono)
      show "\<bar>real num / real den * 2 powi (52 - (int K - 1024)) - real (2 ^ 53)\<bar> < 1 / 2"
        unfolding x_def [symmetric] twice using y4 y52 by simp
    qed
    moreover have "nat (int K - 1024 + 1022) * 2 ^ 52 + 2 ^ 53 = b"
    proof -
      have "nat (int K - 1024 + 1022) = K - 2" using K2 by simp
      moreover have "(K - 2) * 2 ^ 52 + 2 ^ 53 = (K - 1) * 2 ^ 52 + 2 ^ 52"
      proof -
        obtain j where "K = j + 2" using K2 by (metis le_add_diff_inverse2)
        then show ?thesis by simp
      qed
      ultimately show ?thesis using b f52 by simp
    qed
    ultimately show ?thesis using assms(2) by simp
  qed
qed

end
