(* ===== verification/Json_Grisu_Scale.thy ===== *)
theory Json_Grisu_Scale
  imports Json_Grisu Json_Rounding
begin

text \<open>
  The scaling step of Grisu2: the neighbours of a double have a common exponent, the table of
  cached powers is accurate to half a unit and covers every exponent, and a product is rounded
  to nearest. So a scaled boundary is less than one unit away from the true one.
\<close>

unbundle bit_operations_syntax

section \<open>The product of two significands\<close>

lemma drop_bit_of_nat:
  assumes "n < 2 ^ 64"
  shows "drop_bit k (word_of_nat n :: 64 word) = word_of_nat (n div 2 ^ k)"
proof (rule word_unat_eq_iff [THEN iffD2])
  have "n div 2 ^ k \<le> n" by simp
  then have "n div 2 ^ k < 2 ^ 64" using assms by linarith
  then have "unat (word_of_nat (n div 2 ^ k) :: 64 word) = n div 2 ^ k" "unat (word_of_nat n :: 64 word) = n"
    using assms by (simp_all add: unat_of_nat take_bit_nat_eq_self)
  then show "unat (drop_bit k (word_of_nat n :: 64 word)) = unat (word_of_nat (n div 2 ^ k) :: 64 word)"
    by (simp only: unat_drop_bit_eq) (simp only: drop_bit_eq_div)
qed

lemma low_half_of_nat: "(word_of_nat n :: 64 word) AND 0xFFFFFFFF = word_of_nat (n mod 2 ^ 32)"
  using mask_of_nat [of n 32] by (simp add: mask_eq_exp_minus_1)

text \<open>The four partial products, over natural numbers.\<close>

definition half_products :: "nat \<Rightarrow> nat \<Rightarrow> nat" where
  "half_products u v =
     (let a = u mod 2 ^ 32; b = u div 2 ^ 32; c = v mod 2 ^ 32; d = v div 2 ^ 32;
          q = a * c div 2 ^ 32 + a * d mod 2 ^ 32 + b * c mod 2 ^ 32 + 2 ^ 31
      in b * d + b * c div 2 ^ 32 + a * d div 2 ^ 32 + q div 2 ^ 32)"

lemma half_products_rounds: "half_products u v = (u * v + 2 ^ 63) div 2 ^ 64"
proof -
  define a b c d where "a = u mod 2 ^ 32" and "b = u div 2 ^ 32" and "c = v mod 2 ^ 32" and "d = v div 2 ^ 32"
  define q where "q = a * c div 2 ^ 32 + a * d mod 2 ^ 32 + b * c mod 2 ^ 32 + 2 ^ 31"
  define h where "h = b * d + b * c div 2 ^ 32 + a * d div 2 ^ 32 + q div 2 ^ 32"
  have "u = b * 2 ^ 32 + a" "v = d * 2 ^ 32 + c" unfolding a_def b_def c_def d_def by simp_all
  then have uv: "u * v = 2 ^ 64 * (b * d) + 2 ^ 32 * (a * d) + 2 ^ 32 * (b * c) + a * c"
    by (simp add: algebra_simps)
  have m: "x = 2 ^ 32 * (x div 2 ^ 32) + x mod 2 ^ 32" for x :: nat by simp
  have "x = 2 ^ 32 * y + z \<Longrightarrow> 2 ^ 32 * x = 2 ^ 64 * y + 2 ^ 32 * z" for x y z :: nat by simp
  note mm = this [OF m]
  define r where "r = 2 ^ 32 * (q mod 2 ^ 32) + a * c mod 2 ^ 32"
  have "q mod 2 ^ 32 < 2 ^ 32" "a * c mod 2 ^ 32 < 2 ^ 32" by simp_all
  then have "r < 2 ^ 64" unfolding r_def by simp
  moreover have "u * v + 2 ^ 63 = 2 ^ 64 * h + r"
  proof -
    define p0 p1 p2 where "p0 = a * c" and "p1 = a * d" and "p2 = b * c"
    have "2 ^ 32 * q = 2 ^ 32 * (p0 div 2 ^ 32) + 2 ^ 32 * (p1 mod 2 ^ 32) + 2 ^ 32 * (p2 mod 2 ^ 32) + 2 ^ 63"
      by (simp add: q_def p0_def p1_def p2_def)
    moreover have "2 ^ 32 * q = 2 ^ 64 * (q div 2 ^ 32) + 2 ^ 32 * (q mod 2 ^ 32)" by (rule mm)
    moreover have "2 ^ 32 * p1 = 2 ^ 64 * (p1 div 2 ^ 32) + 2 ^ 32 * (p1 mod 2 ^ 32)" by (rule mm)
    moreover have "2 ^ 32 * p2 = 2 ^ 64 * (p2 div 2 ^ 32) + 2 ^ 32 * (p2 mod 2 ^ 32)" by (rule mm)
    moreover have "2 ^ 64 * h = 2 ^ 64 * (b * d) + 2 ^ 64 * (p2 div 2 ^ 32) + 2 ^ 64 * (p1 div 2 ^ 32) + 2 ^ 64 * (q div 2 ^ 32)"
      by (simp add: h_def p1_def p2_def)
    ultimately show ?thesis
      using m [of p0] unfolding uv r_def p0_def [symmetric] p1_def [symmetric] p2_def [symmetric] by linarith
  qed
  ultimately have "(u * v + 2 ^ 63) div 2 ^ 64 = h" by simp
  then show ?thesis by (simp add: half_products_def Let_def a_def b_def c_def d_def q_def h_def)
qed

lemma less_square: "x < 2 ^ 32 \<Longrightarrow> y < 2 ^ 32 \<Longrightarrow> x * y < (2 ^ 64 :: nat)"
  using mult_strict_mono [of x "2 ^ 32" y "2 ^ 32"] by simp

lemma diyfp_mul_of_nat:
  assumes "u < 2 ^ 64" "v < 2 ^ 64"
  shows "fp_f (diyfp_mul (make_diyfp (word_of_nat u) e) (make_diyfp (word_of_nat v) e'))
    = word_of_nat (half_products u v)"
proof -
  have d: "u div 2 ^ 32 < 2 ^ 32" "v div 2 ^ 32 < 2 ^ 32" "u mod 2 ^ 32 < 2 ^ 32" "v mod 2 ^ 32 < 2 ^ 32"
    using assms by (simp_all add: div_less_iff_less_mult)
  note p = less_square [OF d(3,4)] less_square [OF d(3,2)] less_square [OF d(1,4)]
  let ?q = "(u mod 2 ^ 32) * (v mod 2 ^ 32) div 2 ^ 32 + (u mod 2 ^ 32) * (v div 2 ^ 32) mod 2 ^ 32
    + (u div 2 ^ 32) * (v mod 2 ^ 32) mod 2 ^ 32 + 2 ^ 31"
  have "(u mod 2 ^ 32) * (v mod 2 ^ 32) div 2 ^ 32 < 2 ^ 32"
    using p(1) by (simp add: div_less_iff_less_mult)
  moreover have "(u mod 2 ^ 32) * (v div 2 ^ 32) mod 2 ^ 32 < 2 ^ 32"
    "(u div 2 ^ 32) * (v mod 2 ^ 32) mod 2 ^ 32 < 2 ^ 32" by simp_all
  ultimately have "?q < 2 ^ 32 + 2 ^ 32 + 2 ^ 32 + 2 ^ 31" by (intro add_strict_right_mono add_strict_mono)
  then have q: "?q < 2 ^ 64" by (rule less_trans) simp
  have s: "push_bit (64 - 32 - 1) 1 = (word_of_nat (2 ^ 31) :: 64 word)" by simp
  show ?thesis
    unfolding diyfp_mul_def Let_def make_diyfp_def diyfp.simps low_half_of_nat
      drop_bit_of_nat [OF assms(1)] drop_bit_of_nat [OF assms(2)] of_nat_mult [symmetric]
      drop_bit_of_nat [OF p(1)] drop_bit_of_nat [OF p(2)] drop_bit_of_nat [OF p(3)] s of_nat_add [symmetric]
      drop_bit_of_nat [OF q]
    unfolding half_products_def Let_def ..
qed

lemma unat_diyfp_mul:
  "unat (fp_f (diyfp_mul x y)) = (unat (fp_f x) * unat (fp_f y) + 2 ^ 63) div 2 ^ 64"
proof -
  define u v where "u = unat (fp_f x)" and "v = unat (fp_f y)"
  have b: "u < 2 ^ 64" "v < 2 ^ 64"
    unfolding u_def v_def using unsigned_less [of "fp_f x", where 'a = nat] unsigned_less [of "fp_f y", where 'a = nat]
    by simp_all
  have x: "x = make_diyfp (word_of_nat u) (fp_e x)" "y = make_diyfp (word_of_nat v) (fp_e y)"
    by (simp_all add: make_diyfp_def u_def v_def)
  have "u * v \<le> (2 ^ 64 - 1) * (2 ^ 64 - 1)" using b by (intro mult_le_mono) simp_all
  then have "(u * v + 2 ^ 63) div 2 ^ 64 < 2 ^ 64" by (simp add: div_less_iff_less_mult)
  moreover have "fp_f (diyfp_mul x y) = word_of_nat ((u * v + 2 ^ 63) div 2 ^ 64)"
    using diyfp_mul_of_nat [OF b, of "fp_e x" "fp_e y"] unfolding x [symmetric] half_products_rounds .
  ultimately show ?thesis unfolding u_def [symmetric] v_def [symmetric] by (simp add: unat_of_nat)
qed

lemma fp_e_diyfp_mul [simp]: "fp_e (diyfp_mul x y) = fp_e x + fp_e y + 64"
  by (simp add: diyfp_mul_def Let_def make_diyfp_def)

text \<open>The product is rounded to nearest.\<close>

lemma diyfp_mul_near:
  "\<bar>real (unat (fp_f (diyfp_mul x y))) - real (unat (fp_f x)) * real (unat (fp_f y)) / 2 ^ 64\<bar> \<le> 1 / 2"
proof -
  define p where "p = unat (fp_f x) * unat (fp_f y)"
  define h where "h = (p + 2 ^ 63) div 2 ^ 64"
  have "2 ^ 64 * h + (p + 2 ^ 63) mod 2 ^ 64 = p + 2 ^ 63" "(p + 2 ^ 63) mod 2 ^ 64 < 2 ^ 64"
    unfolding h_def by simp_all
  then have "2 ^ 64 * h \<le> p + 2 ^ 63" "p + 2 ^ 63 < 2 ^ 64 * h + 2 ^ 64" by linarith+
  then have "real (2 ^ 64 * h) \<le> real (p + 2 ^ 63)" "real (p + 2 ^ 63) < real (2 ^ 64 * h + 2 ^ 64)"
    by (simp_all only: of_nat_le_iff of_nat_less_iff)
  then have "real h - 1 / 2 \<le> real p / 2 ^ 64" "real p / 2 ^ 64 \<le> real h + 1 / 2"
    by (simp_all add: pos_le_divide_eq pos_divide_le_eq)
  then have "\<bar>real h - real p / 2 ^ 64\<bar> \<le> 1 / 2" by linarith
  then show ?thesis by (simp add: unat_diyfp_mul p_def h_def)
qed

section \<open>The cached powers\<close>

text \<open>An entry is within half a unit of the power of ten it stands for, and normalized.\<close>

definition cached_near :: "64 word \<times> int \<times> int \<Rightarrow> bool" where
  "cached_near c =
     (case c of (f, e, k) \<Rightarrow>
        2 ^ 63 \<le> unat f \<and> \<bar>real (unat f) - 10 powi k / 2 powi e\<bar> \<le> 1 / 2)"

text \<open>The check along the table, with the power of five carried from entry to entry.\<close>

fun near_up :: "nat \<Rightarrow> (64 word \<times> int \<times> int) list \<Rightarrow> bool" where
  "near_up p [] = True"
| "near_up p ((f, e, k) # t) =
     (let u = 2 ^ nat (e - k); a = unat f * u; b = p * 2 ^ nat (k - e)
      in 2 ^ 63 \<le> unat f \<and> 2 * a \<le> 2 * b + u \<and> 2 * b \<le> 2 * a + u \<and> near_up (p * 390625) t)"

fun near_down :: "nat \<Rightarrow> (64 word \<times> int \<times> int) list \<Rightarrow> bool" where
  "near_down p [] = True"
| "near_down p ((f, e, k) # t) =
     (let a = unat f * p; b = 2 ^ nat (k - e)
      in 2 ^ 63 \<le> unat f \<and> 2 * a \<le> 2 * b + p \<and> 2 * b \<le> 2 * a + p \<and> near_down (p * 390625) t)"

lemma powi_quotient: "10 powi k / 2 powi e = 5 powi k * real (2 ^ nat (k - e)) / real (2 ^ nat (e - k))"
proof -
  have "(10 :: real) powi k = 5 powi k * 2 powi k" using power_int_mult_distrib [of "5 :: real" 2 k] by simp
  then have "(10 :: real) powi k / 2 powi e = 5 powi k * 2 powi (k - e)" by (simp add: power_int_diff)
  then show ?thesis by (cases "e \<le> k") (simp_all add: power_int_def power_one_over inverse_eq_divide)
qed

lemma half_unit:
  assumes "0 < u" "2 * (f * u) \<le> 2 * b + u" "2 * b \<le> 2 * (f * u) + (u :: nat)"
  shows "\<bar>real f - real b / real u\<bar> \<le> 1 / 2"
proof -
  have "real (2 * (f * u)) \<le> real (2 * b + u)" "real (2 * b) \<le> real (2 * (f * u) + u)"
    using assms(2,3) by (simp_all only: of_nat_le_iff)
  then have "real f - 1 / 2 \<le> real b / real u" "real b / real u \<le> real f + 1 / 2"
    using assms(1) by (simp_all add: pos_le_divide_eq pos_divide_le_eq left_diff_distrib distrib_right)
  then show ?thesis by linarith
qed

text \<open>The exponents of ten in steps of eight.\<close>

fun steps_of_eight :: "int \<Rightarrow> int \<Rightarrow> (64 word \<times> int \<times> int) list \<Rightarrow> bool" where
  "steps_of_eight d k [] = True"
| "steps_of_eight d k ((f, e, k') # t) \<longleftrightarrow> k' = k \<and> steps_of_eight d (k + d) t"

lemma near_up_near:
  "near_up p t \<Longrightarrow> steps_of_eight 8 k t \<Longrightarrow> real p = 5 powi k \<Longrightarrow> list_all cached_near t"
proof (induction p t arbitrary: k rule: near_up.induct)
  case (2 p f e k' t)
  let ?u = "2 ^ nat (e - k) :: nat"
  have "\<bar>real (unat f) - real (p * 2 ^ nat (k - e)) / real ?u\<bar> \<le> 1 / 2"
    by (rule half_unit) (use 2(2,3) in \<open>simp_all add: Let_def\<close>)
  moreover have "real (p * 390625) = 5 powi (k + 8)" using 2(4) by (simp add: power_int_add)
  ultimately show ?case
    using 2 by (auto simp: cached_near_def powi_quotient Let_def)
qed simp

lemma near_down_near:
  "near_down p t \<Longrightarrow> steps_of_eight (- 8) k t \<Longrightarrow> real p = 5 powi (- k) \<Longrightarrow> list_all (\<lambda>(f, e, k). e \<le> k) t
     \<Longrightarrow> list_all cached_near t"
proof (induction p t arbitrary: k rule: near_down.induct)
  case (2 p f e k' t)
  have p: "real p = inverse (5 powi k)" using 2(4) by (simp add: power_int_minus)
  then have "0 < p" by (metis inverse_positive_iff_positive of_nat_0_less_iff zero_less_numeral zero_less_power_int)
  then have "\<bar>real (unat f) - real (2 ^ nat (k - e)) / real p\<bar> \<le> 1 / 2"
    by (rule half_unit) (use 2(2,3) in \<open>simp_all add: Let_def\<close>)
  moreover have "real (2 ^ nat (k - e)) / real p = 10 powi k / 2 powi e"
    using 2(3,5) unfolding powi_quotient p by (simp add: field_simps)
  moreover have "real (p * 390625) = 5 powi (- (k + - 8))" using 2(4) by (simp add: power_int_diff power_int_minus field_simps)
  ultimately show ?case
    using 2 by (auto simp: cached_near_def Let_def)
qed simp

lemma kCachedPowers_up: "near_up 625 (drop 38 kCachedPowers)"
  by (simp add: kCachedPowers_def)

lemma kCachedPowers_down: "near_down 625 (rev (take 38 kCachedPowers))"
  by (simp add: kCachedPowers_def)

lemma kCachedPowers_near: "c \<in> set kCachedPowers \<Longrightarrow> cached_near c"
proof -
  have "list_all cached_near (drop 38 kCachedPowers)"
    by (rule near_up_near [OF kCachedPowers_up, of 4]) (simp_all add: kCachedPowers_def)
  moreover have "list_all cached_near (rev (take 38 kCachedPowers))"
    by (rule near_down_near [OF kCachedPowers_down, of "- 4"]) (simp_all add: kCachedPowers_def)
  moreover have "set kCachedPowers = set (rev (take 38 kCachedPowers)) \<union> set (drop 38 kCachedPowers)"
    by (metis append_take_drop_id set_append set_rev)
  moreover assume "c \<in> set kCachedPowers"
  ultimately show ?thesis by (auto simp: list_all_iff)
qed

text \<open>
  The entry chosen for a binary exponent brings the product into the range of \<open>digit_gen\<close>. The
  index only falls with the exponent, so it is enough to look at the ends of the stretches on
  which it is constant.
\<close>

definition scaled_exponent :: "int \<Rightarrow> int" where
  "scaled_exponent e = e + fst (snd (kCachedPowers ! cached_power_index e)) + 64"

definition in_range :: "int \<Rightarrow> bool" where
  "in_range e \<longleftrightarrow> cached_power_index e < 79 \<and> kAlpha \<le> scaled_exponent e \<and> scaled_exponent e \<le> kGamma"

lemma trunc_div_mono: "a \<le> a' \<Longrightarrow> 0 < b \<Longrightarrow> trunc_div a b \<le> trunc_div a' b"
proof -
  assume "a \<le> a'" "0 < b"
  then have "(- a') div b \<le> (- a) div b" "a div b \<le> a' div b" by (simp_all add: zdiv_mono1)
  moreover have "a < 0 \<Longrightarrow> 0 \<le> (- a) div b" "0 \<le> a' \<Longrightarrow> 0 \<le> a' div b"
    using \<open>0 < b\<close> by (simp_all add: pos_imp_zdiv_nonneg_iff)
  ultimately show ?thesis using \<open>a \<le> a'\<close> by (auto simp: trunc_div_def)
qed

lemma cached_power_index_antimono: "e \<le> e' \<Longrightarrow> cached_power_index e' \<le> cached_power_index e"
proof -
  assume "e \<le> e'"
  then have "trunc_div ((kAlpha - e' - 1) * 78913) (2 ^ 18) \<le> trunc_div ((kAlpha - e - 1) * 78913) (2 ^ 18)"
    by (intro trunc_div_mono) simp_all
  moreover have "(if kAlpha - e' - 1 > 0 then 1 else 0) \<le> (if kAlpha - e - 1 > 0 then 1 else (0 :: int))"
    using \<open>e \<le> e'\<close> by simp
  ultimately show ?thesis
    unfolding cached_power_index_def Let_def by (intro nat_mono trunc_div_mono) simp_all
qed

fun covered :: "int \<Rightarrow> int list \<Rightarrow> bool" where
  "covered lo [] = True"
| "covered lo (hi # t) \<longleftrightarrow>
     in_range lo \<and> in_range hi \<and> cached_power_index lo = cached_power_index hi \<and> covered (hi + 1) t"

lemma in_range_between:
  assumes "in_range lo" "in_range hi" "cached_power_index lo = cached_power_index hi" "lo \<le> e" "e \<le> hi"
  shows "in_range e"
proof -
  have i: "cached_power_index e = cached_power_index lo"
    using cached_power_index_antimono [OF assms(4)] cached_power_index_antimono [OF assms(5)] assms(3) by simp
  then have "scaled_exponent lo \<le> scaled_exponent e" "scaled_exponent e \<le> scaled_exponent hi"
    using assms(3-5) by (simp_all add: scaled_exponent_def)
  then show ?thesis using assms(1,2) i by (simp add: in_range_def)
qed

lemma covered_in_range: "covered lo t \<Longrightarrow> lo \<le> e \<Longrightarrow> t \<noteq> [] \<Longrightarrow> e \<le> last t \<Longrightarrow> in_range e"
proof (induction lo t rule: covered.induct)
  case (2 lo hi t)
  show ?case
  proof (cases "e \<le> hi")
    case True
    then show ?thesis using 2(2,3) in_range_between by auto
  next
    case False
    then show ?thesis using 2 by (auto split: if_splits)
  qed
qed simp

definition stretches :: "int list" where
  "stretches =
     [- 1111, - 1085, - 1058, - 1032, - 1005, - 978, - 952, - 925, - 899, - 872, - 845, - 819, - 792, - 766,
      - 739, - 713, - 686, - 659, - 633, - 606, - 580, - 553, - 527, - 500, - 473, - 447, - 420, - 394, - 367,
      - 341, - 314, - 287, - 261, - 234, - 208, - 181, - 155, - 128, - 101, - 75, - 48, - 22, 5, 32, 58, 85,
      111, 138, 164, 191, 218, 244, 271, 297, 324, 350, 377, 404, 430, 457, 483, 510, 536, 563, 590, 616, 643,
      669, 696, 722, 749, 776, 802, 829, 855, 882, 909, 935, 960]"

lemma stretches_covered: "covered (- 1137) stretches"
  by code_simp

lemma cached_power_in_range:
  assumes "- 1137 \<le> e" "e \<le> 960"
  shows "in_range e"
  by (rule covered_in_range [OF stretches_covered assms(1)]) (use assms(2) in \<open>simp_all add: stretches_def\<close>)

end
