(* ===== verification/Json_Grisu_Bounds.thy ===== *)
theory Json_Grisu_Bounds
  imports Json_Grisu_Scale
begin

text \<open>
  The boundaries \<open>compute_boundaries\<close> hands to the digit generation are the midpoints to the
  neighbouring doubles, on a common exponent; scaled by a cached power and moved by one unit
  they enclose only numbers strictly between the midpoints.
\<close>

unbundle bit_operations_syntax

section \<open>Normalization\<close>

definition fp_value :: "diyfp \<Rightarrow> real" where
  "fp_value x = real (unat (fp_f x)) * 2 powi fp_e x"

lemma unat_push_bit:
  assumes "unat (w :: 64 word) * 2 ^ n < 2 ^ 64"
  shows "unat (push_bit n w) = unat w * 2 ^ n"
  using assms unfolding unsigned_push_bit_eq
  by (simp add: push_bit_eq_mult take_bit_nat_eq_self)

lemma drop_bit_top: "drop_bit 63 w = 0 \<longleftrightarrow> unat (w :: 64 word) < 2 ^ 63"
proof -
  have "drop_bit 63 w = 0 \<longleftrightarrow> unat (drop_bit 63 w) = 0" by (simp only: unsigned_eq_0_iff)
  also have "\<dots> \<longleftrightarrow> unat w < 2 ^ 63" unfolding unat_drop_bit_eq by (simp add: drop_bit_eq_div div_eq_0_iff)
  finally show ?thesis .
qed

lemma diyfp_normalize_shift:
  assumes "fp_f x \<noteq> 0"
  shows "\<exists>s. diyfp_normalize x = make_diyfp (push_bit s (fp_f x)) (fp_e x - int s)
    \<and> 2 ^ 63 \<le> unat (fp_f x) * 2 ^ s \<and> unat (fp_f x) * 2 ^ s < 2 ^ 64"
  using assms
proof (induction x rule: diyfp_normalize.induct)
  case (1 x)
  show ?case
  proof (cases "drop_bit 63 (fp_f x) = 0")
    case False
    then show ?thesis
      using 1(2) unsigned_less [of "fp_f x", where 'a = nat] diyfp_normalize.simps [of x]
      by (intro exI [of _ 0]) (simp add: drop_bit_top make_diyfp_def not_less)
  next
    case True
    let ?y = "make_diyfp (push_bit 1 (fp_f x)) (fp_e x - 1)"
    have "unat (fp_f x) * 2 ^ 1 < 2 ^ 64" using True by (simp add: drop_bit_top)
    then have u: "unat (push_bit 1 (fp_f x)) = 2 * unat (fp_f x)" by (subst unat_push_bit) simp_all
    have "fp_f ?y \<noteq> 0" using u 1(2) unsigned_eq_0_iff [of "fp_f x", where 'a = nat] by (auto simp: make_diyfp_def)
    then obtain s where s: "diyfp_normalize ?y = make_diyfp (push_bit s (fp_f ?y)) (fp_e ?y - int s)"
      "2 ^ 63 \<le> unat (fp_f ?y) * 2 ^ s" "unat (fp_f ?y) * 2 ^ s < 2 ^ 64"
      using 1(1) 1(2) True by blast
    have "diyfp_normalize x = diyfp_normalize ?y"
      using 1(2) True by (simp add: diyfp_normalize.simps [of x])
    then show ?thesis
      using s u by (intro exI [of _ "Suc s"]) (simp add: make_diyfp_def push_bit_double)
  qed
qed

section \<open>The neighbours of a double\<close>

lemma unat_fraction: "unat (bits AND (push_bit 52 1 - 1) :: 64 word) = unat bits mod 2 ^ 52"
proof -
  have m: "push_bit 52 1 - 1 = (mask 52 :: 64 word)" by (simp add: mask_eq_exp_minus_1)
  show ?thesis unfolding m take_bit_eq_mask [symmetric] unsigned_take_bit_eq by (simp only: take_bit_eq_mod)
qed

lemma unat_exponent: "unat (drop_bit 52 bits :: 64 word) = unat bits div 2 ^ 52"
  unfolding unat_drop_bit_eq by (simp add: drop_bit_eq_div)

lemma double_parts_mantissa:
  "unat (fp_f (double_parts bits)) = mantissa (unat bits)"
  "fp_e (double_parts bits) = int (binade (unat bits)) - 1075"
proof -
  have m: "unat bits mod 2 ^ 52 < 2 ^ 52" by simp
  then have "unat ((bits AND (push_bit 52 1 - 1)) + push_bit 52 1) = unat bits mod 2 ^ 52 + 2 ^ 52"
    by (simp add: unat_word_ariths unat_fraction [simplified])
  then show "unat (fp_f (double_parts bits)) = mantissa (unat bits)"
    using unat_fraction [of bits]
    by (simp add: double_parts_def Let_def make_diyfp_def mantissa_def unat_exponent)
  show "fp_e (double_parts bits) = int (binade (unat bits)) - 1075"
    by (auto simp: double_parts_def Let_def make_diyfp_def binade_def unat_exponent max_def)
qed

lemma powi_2_add: "(2 :: real) powi (m + n) = 2 powi m * 2 powi n"
  by (simp add: power_int_add)

text \<open>Twice and four times a mantissa, up to one, still fit the significand.\<close>

lemma unat_multiples:
  assumes "unat (f :: 64 word) < 2 ^ 53" "0 < unat f"
  shows "unat (2 * f + 1) = 2 * unat f + 1" "unat (2 * f - 1) = 2 * unat f - 1" "unat (4 * f - 1) = 4 * unat f - 1"
proof -
  have t: "unat (2 * f) = 2 * unat f" "unat (4 * f) = 4 * unat f" using assms(1) by (simp_all add: unat_word_ariths)
  then show "unat (2 * f + 1) = 2 * unat f + 1" using assms(1) by (simp add: unat_word_ariths)
  have "(1 :: 64 word) \<le> 2 * f" "(1 :: 64 word) \<le> 4 * f" using t assms(2) by (simp_all add: word_le_nat_alt)
  then show "unat (2 * f - 1) = 2 * unat f - 1" "unat (4 * f - 1) = 4 * unat f - 1"
    using t by (simp_all add: unat_sub)
qed

lemma normalized_shift:
  assumes "m < 2 ^ 54" "2 ^ 63 \<le> m * 2 ^ s" "m * 2 ^ s < (2 :: nat) ^ 64" "3 \<le> m"
  shows "10 \<le> s" "s \<le> 62" "2 ^ 53 \<le> m \<Longrightarrow> s = 10"
proof -
  have "(2 :: nat) ^ 63 < 2 ^ (54 + s)" using assms(1,2) by (simp add: power_add mult_strict_right_mono le_less_trans)
  then have "63 < 54 + s" by (rule power_less_imp_less_exp [rotated]) simp
  then show s: "10 \<le> s" by simp
  have "(3 :: nat) * 2 ^ s < 2 ^ 64" using assms(3,4) by (meson le_less_trans mult_le_mono1)
  then have "(2 :: nat) ^ Suc s < 2 ^ 64" by simp
  then have "Suc s < 64" by (rule power_less_imp_less_exp [rotated]) simp
  then show "s \<le> 62" by simp
  show "s = 10" if "2 ^ 53 \<le> m"
  proof -
    have "2 ^ 53 * 2 ^ s \<le> m * 2 ^ s" using that by (rule mult_le_mono1)
    then have "(2 :: nat) ^ (53 + s) < 2 ^ 64" using assms(3) by (simp only: power_add)
    then have "53 + s < 64" by (rule power_less_imp_less_exp [rotated]) simp
    then show ?thesis using s by simp
  qed
qed

definition boundaries_of :: "boundaries \<Rightarrow> nat \<Rightarrow> bool" where
  "boundaries_of w b \<longleftrightarrow>
     fp_e (b_minus w) = fp_e (b_plus w) \<and> - 1137 \<le> fp_e (b_plus w) \<and> fp_e (b_plus w) \<le> 960
     \<and> fp_value (b_plus w) = midpoint_above b \<and> fp_value (b_minus w) = midpoint_below b
     \<and> 2 ^ 63 \<le> unat (fp_f (b_plus w))
     \<and> unat (fp_f (b_minus w)) + 9 \<le> unat (fp_f (b_plus w))
     \<and> unat (fp_f (b_plus w)) \<le> 10 ^ 16 * (unat (fp_f (b_plus w)) - (unat (fp_f (b_minus w)) + 9))"

theorem compute_boundaries_midpoints:
  assumes "0 < unat bits" "unat bits < infinity_bits"
  shows "boundaries_of (compute_boundaries bits) (unat bits)"
proof -
  define b where "b = unat bits"
  define f where "f = fp_f (double_parts bits)"
  define e where "e = fp_e (double_parts bits)"
  have f: "unat f = mantissa b" "e = int (binade b) - 1075"
    by (simp_all add: f_def e_def b_def double_parts_mantissa)
  have fb: "unat f < 2 ^ 53" "0 < unat f" using mantissa_less [of b] mantissa_pos [of b] assms(1) f(1) by (simp_all add: b_def)
  note u = unat_multiples [OF fb]
  have c: "((bits AND (push_bit 52 1 - 1)) = 0 \<and> unat (drop_bit 52 bits) > 1) \<longleftrightarrow> closer_below b"
    unfolding closer_below_def b_def unsigned_eq_0_iff [symmetric, where 'a = nat] unat_fraction unat_exponent ..
  obtain s where s: "diyfp_normalize (make_diyfp (2 * f + 1) (e - 1)) = make_diyfp (push_bit s (2 * f + 1)) (e - 1 - int s)"
    "2 ^ 63 \<le> (2 * unat f + 1) * 2 ^ s" "(2 * unat f + 1) * 2 ^ s < 2 ^ 64"
  proof -
    have "fp_f (make_diyfp (2 * f + 1) (e - 1)) \<noteq> 0"
      unfolding unsigned_eq_0_iff [symmetric, where 'a = nat] by (simp add: make_diyfp_def u)
    from diyfp_normalize_shift [OF this] show thesis using that by (auto simp: make_diyfp_def u)
  qed
  have b2: "2 * unat f + 1 < 2 ^ 54" "3 \<le> 2 * unat f + 1" using fb by simp_all
  note sh = normalized_shift [OF b2(1) s(2,3) b2(2)]
  have up: "unat (push_bit s (2 * f + 1)) = (2 * unat f + 1) * 2 ^ s"
    using s(3) u(1) by (subst unat_push_bit) simp_all
  define U where "U = (2 :: real) powi (e - 1 - int s)"
  have "unit_of b = 2 powi (1 + int s + (e - 1 - int s))" by (simp add: unit_of_def f)
  also have "\<dots> = 2 * 2 ^ s * U" unfolding U_def powi_2_add [of "1 + int s"] powi_2_add [of 1] by simp
  finally have unit: "unit_of b = 2 * 2 ^ s * U" .
  have mid: "(2 * real (unat f) + 1) * 2 ^ s * U = midpoint_above b"
    by (simp add: midpoint_above_def unit f algebra_simps)
  have "binade b \<noteq> 1 \<Longrightarrow> 2 ^ 53 \<le> 2 * unat f + 1" using mantissa_normal [of b] by (simp add: f)
  then have ten: "binade b \<noteq> 1 \<Longrightarrow> s = 10" using sh(3) by blast
  have bl: "1 \<le> binade b" "binade b \<le> 2046"
    using assms(2) unfolding b_def infinity_bits_def by (simp_all add: binade_def div_less_iff_less_mult flip: less_Suc_eq_le)
  have range: "- 1137 \<le> e - 1 - int s" "e - 1 - int s \<le> 960"
    using sh(1,2) bl ten f(2) by (cases "binade b = 1"; simp)+
  show ?thesis
  proof (cases "closer_below b")
    case True
    then have m: "unat f = 2 ^ 52" "s = 10" using ten f(1) by (auto simp: closer_below_mantissa)
    have lo: "unat (push_bit 9 (4 * f - 1)) = (4 * unat f - 1) * 2 ^ 9"
      using m u(3) by (subst unat_push_bit) simp_all
    have "compute_boundaries bits =
        \<lparr>b_w = diyfp_normalize (double_parts bits),
         b_minus = make_diyfp (push_bit 9 (4 * f - 1)) (e - 1 - int s),
         b_plus = make_diyfp (push_bit s (2 * f + 1)) (e - 1 - int s)\<rparr>"
      using c True s(1) m(2)
      by (simp add: compute_boundaries_def Let_def f_def e_def diyfp_normalize_to_def) (simp add: make_diyfp_def)
    moreover have "(4 * 2 ^ 52 - 1) * 2 ^ 9 * U = midpoint_below b"
      using True f m by (simp add: midpoint_below_def unit)
    ultimately show ?thesis
      unfolding b_def [symmetric] using mid range s(2) up lo m
      by (simp add: boundaries_of_def fp_value_def make_diyfp_def u U_def)
  next
    case False
    have "(2 * unat f - 1) * 2 ^ s \<le> (2 * unat f + 1) * 2 ^ s" by (rule mult_le_mono1) simp
    then have lo: "unat (push_bit s (2 * f - 1)) = (2 * unat f - 1) * 2 ^ s"
      using s(3) u(2) by (subst unat_push_bit) simp_all
    have "compute_boundaries bits =
        \<lparr>b_w = diyfp_normalize (double_parts bits),
         b_minus = make_diyfp (push_bit s (2 * f - 1)) (e - 1 - int s),
         b_plus = make_diyfp (push_bit s (2 * f + 1)) (e - 1 - int s)\<rparr>"
      using c False s(1)
      by (auto simp add: compute_boundaries_def Let_def f_def e_def diyfp_normalize_to_def) (simp_all add: make_diyfp_def)
    moreover have "boundaries_of \<lparr>b_w = v, b_minus = make_diyfp (push_bit s (2 * f - 1)) (e - 1 - int s),
        b_plus = make_diyfp (push_bit s (2 * f + 1)) (e - 1 - int s)\<rparr> b" for v
    proof -
      define P M where "P = (2 * unat f + 1) * 2 ^ s" and "M = (2 * unat f - 1) * 2 ^ s"
      have "(2 :: nat) ^ 10 \<le> 2 ^ s" using sh(1) by (rule power_increasing) simp
      moreover have PM: "P = M + 2 * 2 ^ s" using fb(2) by (cases "unat f") (simp_all add: P_def M_def algebra_simps)
      ultimately have gap: "M + 9 \<le> P" "2 ^ 11 - 9 \<le> P - (M + 9)" by simp_all
      have "2 ^ 64 \<le> 10 ^ 16 * (P - (M + 9))" using gap(2) by simp
      then have wide: "P \<le> 10 ^ 16 * (P - (M + 9))" using s(3) unfolding P_def [symmetric] by linarith
      have "real M * U = midpoint_below b"
        using False fb(2) by (simp add: M_def midpoint_below_def unit f of_nat_diff algebra_simps)
      moreover have "real P * U = midpoint_above b" using mid by (simp add: P_def algebra_simps)
      ultimately show ?thesis
        unfolding boundaries_of_def fp_value_def make_diyfp_def boundaries.simps diyfp.simps up lo
          P_def [symmetric] M_def [symmetric] U_def [symmetric]
        using range s(2) gap(1) wide unfolding P_def [symmetric] by simp
    qed
    ultimately show ?thesis unfolding b_def [symmetric] by simp
  qed
qed

section \<open>Scaled boundaries\<close>

lemma real_word_bounds: "0 \<le> real (unat (w :: 64 word))" "real (unat (w :: 64 word)) < 2 ^ 64"
  by (rule of_nat_0_le_iff)
    (use unsigned_less [of w, where 'a = nat] in \<open>simp only: of_nat_less_numeral_power_cancel_iff len_num1 len_bit0, simp\<close>)

text \<open>Rounding and the error of the cached power together stay below one unit.\<close>

lemma scaled_near:
  assumes "cached_near (cf, ce, ck)"
  shows "\<bar>real (unat (fp_f (diyfp_mul x (make_diyfp cf ce)))) - real (unat (fp_f x)) * (10 powi ck / 2 powi ce / 2 ^ 64)\<bar> < 1"
proof -
  define h u c t where "h = real (unat (fp_f (diyfp_mul x (make_diyfp cf ce))))" and "u = real (unat (fp_f x))"
    and "c = real (unat cf)" and "t = (10 :: real) powi ck / 2 powi ce"
  have u: "0 \<le> u" "u < 2 ^ 64" unfolding u_def by (rule real_word_bounds)+
  have "\<bar>h - u * c / 2 ^ 64\<bar> \<le> 1 / 2"
    using diyfp_mul_near [of x "make_diyfp cf ce"] by (simp add: h_def u_def c_def make_diyfp_def)
  moreover have "\<bar>u * c / 2 ^ 64 - u * (t / 2 ^ 64)\<bar> < 1 / 2"
  proof -
    have "\<bar>c - t\<bar> \<le> 1 / 2" using assms by (simp add: cached_near_def c_def t_def)
    then have "u * \<bar>c - t\<bar> \<le> u * (1 / 2)" using u(1) by (rule mult_left_mono)
    then have "\<bar>u * (c - t)\<bar> < 2 ^ 64 / 2" using u by (simp add: abs_mult)
    moreover have "u * c / 2 ^ 64 - u * (t / 2 ^ 64) = u * (c - t) / 2 ^ 64" by (simp add: field_simps)
    ultimately show ?thesis by (simp only: abs_divide) simp
  qed
  ultimately have "\<bar>h - u * (t / 2 ^ 64)\<bar> < 1" by linarith
  then show ?thesis by (simp add: h_def u_def t_def)
qed

text \<open>What the digit generation works with: bounds below two to the 64 that are far enough apart.\<close>

definition scaled_bounds :: "diyfp \<Rightarrow> diyfp \<Rightarrow> bool" where
  "scaled_bounds lo hi \<longleftrightarrow>
     fp_e lo = fp_e hi \<and> kAlpha \<le> fp_e hi \<and> fp_e hi \<le> kGamma \<and> 2 ^ 61 \<le> unat (fp_f hi)
     \<and> 0 < unat (fp_f lo) \<and> unat (fp_f lo) < unat (fp_f hi)
     \<and> unat (fp_f hi) \<le> 10 ^ 16 * (unat (fp_f hi) - unat (fp_f lo))"

lemma cached_power_in_table:
  assumes "boundaries_of w b"
  obtains cf ce ck where "get_cached_power_for_binary_exponent (fp_e (b_plus w)) = (cf, ce, ck)"
    "cached_near (cf, ce, ck)" "kAlpha \<le> fp_e (b_plus w) + ce + 64" "fp_e (b_plus w) + ce + 64 \<le> kGamma"
proof -
  obtain cf ce ck where c: "get_cached_power_for_binary_exponent (fp_e (b_plus w)) = (cf, ce, ck)"
    by (metis prod_cases3)
  have r: "in_range (fp_e (b_plus w))" using assms by (intro cached_power_in_range) (simp_all add: boundaries_of_def)
  then have "kCachedPowers ! cached_power_index (fp_e (b_plus w)) \<in> set kCachedPowers"
    by (intro nth_mem) (simp add: in_range_def kCachedPowers_def)
  then have "cached_near (cf, ce, ck)"
    using c kCachedPowers_near by (simp add: get_cached_power_for_binary_exponent_def)
  then show thesis
    using that [OF c] r c by (simp add: in_range_def scaled_exponent_def get_cached_power_for_binary_exponent_def)
qed

theorem scaled_boundaries:
  assumes "boundaries_of w b" "get_cached_power_for_binary_exponent (fp_e (b_plus w)) = (cf, ce, ck)"
    and "lo = diyfp_mul (b_minus w) (make_diyfp cf ce)" "hi = diyfp_mul (b_plus w) (make_diyfp cf ce)"
    and "M_minus = make_diyfp (fp_f lo + 1) (fp_e lo)" "M_plus = make_diyfp (fp_f hi - 1) (fp_e hi)"
  shows "scaled_bounds M_minus M_plus"
    "midpoint_below b < fp_value M_minus * 10 powi (- ck)" "fp_value M_plus * 10 powi (- ck) < midpoint_above b"
proof -
  obtain "cached_near (cf, ce, ck)" and range: "kAlpha \<le> fp_e (b_plus w) + ce + 64" "fp_e (b_plus w) + ce + 64 \<le> kGamma"
    using cached_power_in_table [OF assms(1)] assms(2) by (metis prod.inject)
  note near = scaled_near [OF this(1)]
  define x where "x = (10 :: real) powi ck / 2 powi ce / 2 ^ 64"
  define up um where "up = unat (fp_f (b_plus w))" and "um = unat (fp_f (b_minus w))"
  define hp hm where "hp = unat (fp_f hi)" and "hm = unat (fp_f lo)"
  have hp: "\<bar>real hp - real up * x\<bar> < 1" and hm: "\<bar>real hm - real um * x\<bar> < 1"
    using near [of "b_plus w"] near [of "b_minus w"] by (simp_all add: hp_def hm_def up_def um_def assms(3,4) x_def)
  have "\<bar>real (unat cf) - 2 ^ 64 * x\<bar> \<le> 1 / 2" "2 ^ 63 \<le> real (unat cf)"
    using \<open>cached_near (cf, ce, ck)\<close> by (simp_all add: cached_near_def x_def flip: of_nat_le_iff [where 'a = real])
  then have x: "4 / 9 \<le> x" unfolding abs_le_iff by simp
  have u: "2 ^ 63 \<le> up" "um + 9 \<le> up" "up \<le> 10 ^ 16 * (up - (um + 9))"
    using assms(1) by (simp_all add: boundaries_of_def up_def um_def)
  have "real up \<le> real (10 ^ 16 * (up - (um + 9)))" "real (2 ^ 63) \<le> real up"
    using u(1,3) by (simp_all only: of_nat_le_iff)
  then have ur: "2 ^ 63 \<le> real up" "real up \<le> 10 ^ 16 * (real up - real um - 9)"
    using u(2) by (simp_all add: of_nat_diff)
  have "4 / 9 * 2 ^ 63 \<le> x * real up" using x ur(1) by (intro mult_mono) simp_all
  then have big: "2 ^ 61 + 1 \<le> real hp" using hp by (simp add: abs_less_iff algebra_simps)
  then have "real (2 ^ 61 + 1) \<le> real hp" by simp
  then have big_nat: "2 ^ 61 + 1 \<le> hp" by (simp only: of_nat_le_iff)
  have "real up * x \<le> 10 ^ 16 * (real up - real um - 9) * x" using ur(2) x by (intro mult_right_mono) simp_all
  also have "\<dots> \<le> 10 ^ 16 * (real up * x - real um * x - 4)"
    using x by (simp add: algebra_simps)
  also have "\<dots> < 10 ^ 16 * (real hp - real hm - 2)" using hp hm by (simp add: abs_less_iff)
  finally have wide: "real up * x < 10 ^ 16 * (real hp - real hm - 2)" .
  have "0 < real up * x" using ur(1) x by (intro mult_pos_pos) simp_all
  then have apart: "real hm + 2 < real hp" using wide by simp
  then have "real (hm + 2) < real hp" by simp
  then have apart_nat: "hm + 2 < hp" by (simp only: of_nat_less_iff)
  have hp64: "hp < 2 ^ 64" using unsigned_less [of "fp_f hi", where 'a = nat] by (simp add: hp_def)
  have lo: "unat (fp_f M_minus) = hm + 1" "fp_e M_minus = fp_e (b_minus w) + ce + 64"
  proof -
    show "unat (fp_f M_minus) = hm + 1"
      using hp64 apart_nat by (simp add: assms(5) make_diyfp_def unat_word_ariths hm_def [symmetric])
  qed (simp add: assms(3,5) make_diyfp_def)
  have "0 < hp" using big by (cases hp) simp_all
  then have "(1 :: 64 word) \<le> fp_f hi" by (simp add: word_le_nat_alt hp_def)
  then have hi: "unat (fp_f M_plus) = hp - 1" "fp_e M_plus = fp_e (b_plus w) + ce + 64"
    by (simp_all add: assms(4,6) make_diyfp_def unat_sub hp_def)
  have e: "fp_e (b_minus w) = fp_e (b_plus w)" using assms(1) by (simp add: boundaries_of_def)
  have "real (hp - 1) \<le> real (10 ^ 16 * (hp - 1 - (hm + 1)))"
    using wide hp apart big by (simp add: of_nat_diff abs_less_iff)
  then have "hp - 1 \<le> 10 ^ 16 * (hp - 1 - (hm + 1))" by (simp only: of_nat_le_iff)
  then show "scaled_bounds M_minus M_plus"
    using apart_nat big_nat range unfolding scaled_bounds_def lo hi e by (intro conjI) simp_all
  have v: "fp_value (b_plus w) = midpoint_above b" "fp_value (b_minus w) = midpoint_below b"
    using assms(1) by (simp_all add: boundaries_of_def)
  define p where "p = (2 :: real) powi (fp_e (b_plus w))"
  have s: "2 powi (fp_e (b_plus w) + ce + 64) * 10 powi (- ck) * x = p"
    by (simp add: x_def p_def powi_2_add power_int_minus field_simps)
  have pos: "0 < 2 powi (fp_e (b_plus w) + ce + 64) * (10 :: real) powi (- ck)" by simp
  have "real um * x < real (hm + 1)" "real (hp - 1) < real up * x" using hm hp big by (simp_all add: abs_less_iff)
  note mult_strict_right_mono [OF this(1) pos] mult_strict_right_mono [OF this(2) pos]
  moreover have "midpoint_below b = real um * p" "midpoint_above b = real up * p"
    using v unfolding fp_value_def um_def up_def p_def e by (simp_all only:)
  ultimately show "midpoint_below b < fp_value M_minus * 10 powi (- ck)"
    "fp_value M_plus * 10 powi (- ck) < midpoint_above b"
    unfolding fp_value_def lo hi e s [symmetric] by (simp_all add: algebra_simps)
qed

end
