(* ===== verification/Json_Grisu_Digits.thy ===== *)
theory Json_Grisu_Digits
  imports Json_Grisu_Bounds
begin

text \<open>
  The digit generation of Grisu2: both loops end within their fuel, and the digits they leave,
  after \<open>grisu2_round\<close> has moved the last one, lie between the two bounds, start and end with a
  digit other than zero and are at most 17.
\<close>

unbundle bit_operations_syntax

section \<open>Digit strings without a leading zero\<close>

definition shaped :: "string \<Rightarrow> bool" where
  "shaped s \<longleftrightarrow> list_all is_digit s \<and> (s \<noteq> [] \<longrightarrow> hd s \<noteq> CHR ''0'')"

lemma digit_is_zero: "n < 10 \<Longrightarrow> digit n = CHR ''0'' \<longleftrightarrow> n = 0"
  by (simp add: digit_def char_of_eq_iff take_bit_nat_eq_self)

lemma digit_is_digit: "n < 10 \<Longrightarrow> is_digit (digit n)"
  by (simp add: is_digit_def digit_def less_eq_char_def)

lemma shaped_snoc: "shaped s \<Longrightarrow> d < 10 \<Longrightarrow> (s = [] \<Longrightarrow> 0 < d) \<Longrightarrow> shaped (s @ [digit d])"
  by (cases s) (auto simp: shaped_def digit_is_digit digit_is_zero)

lemma shaped_value: "shaped s \<Longrightarrow> s \<noteq> [] \<Longrightarrow> 10 ^ (length s - 1) \<le> digits_value s"
proof (induction s rule: rev_induct)
  case (snoc c s)
  show ?case
  proof (cases "s = []")
    case True
    then have "is_digit c" "c \<noteq> CHR ''0''" using snoc(2) by (simp_all add: shaped_def)
    then have "digit_value c \<noteq> 0" using is_digit_value [of c] digit_is_zero [of 0] by (metis zero_less_numeral)
    then show ?thesis using True digits_value_snoc [of "[]" c] by (simp add: digits_value_def)
  next
    case False
    then have "shaped s" using snoc(2) by (simp add: shaped_def)
    then have "10 ^ (length s - 1) \<le> digits_value s" using snoc(1) False by simp
    moreover have "(10 :: nat) ^ length s = 10 * 10 ^ (length s - 1)" using False by (cases s) simp_all
    ultimately show ?thesis by simp
  qed
qed simp

lemma shaped_pos: "shaped s \<Longrightarrow> s \<noteq> [] \<Longrightarrow> 1 \<le> digits_value s"
  using shaped_value [of s] by (meson le_trans one_le_numeral one_le_power)

section \<open>The last digit\<close>

lemma decrement_last_digit: "d < 10 \<Longrightarrow> decrement_last (s @ [digit (Suc d)]) = s @ [digit d]"
proof -
  assume "d < 10"
  then have "of_char (digit (Suc d)) + 255 = 256 + (48 + d)" by (simp add: digit_def)
  moreover have "char_of (256 + (48 + d)) = (digit d :: char)"
    unfolding digit_def char_of_eq_iff take_bit_eq_mod using mod_add_self1 [of 256 "48 + d"] by simp
  ultimately show ?thesis by (simp add: decrement_last_def)
qed

text \<open>The digit is moved by less than its value, and the rest stays within \<open>delta\<close>.\<close>

lemma grisu2_round_digit:
  "d < 10 \<Longrightarrow> unat rest \<le> unat delta \<Longrightarrow> unat delta < unat rest + d * unat ten_k
     \<Longrightarrow> \<exists>j < d. grisu2_round (s @ [digit d]) dst delta rest ten_k = s @ [digit (d - j)]
       \<and> unat rest + j * unat ten_k \<le> unat delta"
proof (induction d arbitrary: rest)
  case (Suc d)
  define c where "c \<longleftrightarrow> dst \<le> delta \<and> 0 < ten_k \<and> rest < dst \<and> delta - rest \<ge> ten_k
    \<and> (rest + ten_k < dst \<or> dst - rest > rest + ten_k - dst)"
  have unfold: "grisu2_round (s @ [digit (Suc d)]) dst delta rest ten_k =
      (if c then grisu2_round (s @ [digit d]) dst delta (rest + ten_k) ten_k else s @ [digit (Suc d)])"
    by (subst grisu2_round.simps) (simp only: c_def [symmetric] decrement_last_digit [OF Suc_lessD [OF Suc(2)]])
  show ?case
  proof (cases c)
    case True
    have "unat (delta - rest) = unat delta - unat rest" using Suc(3) by (simp add: unat_sub word_le_nat_alt)
    moreover have "unat ten_k \<le> unat (delta - rest)" using True by (simp add: c_def word_le_nat_alt)
    ultimately have le: "unat rest + unat ten_k \<le> unat delta" using Suc(3) by linarith
    then have r: "unat (rest + ten_k) = unat rest + unat ten_k"
      using unsigned_less [of delta, where 'a = nat] by (simp add: unat_word_ariths)
    obtain j where "j < d" "grisu2_round (s @ [digit d]) dst delta (rest + ten_k) ten_k = s @ [digit (d - j)]"
      "unat rest + unat ten_k + j * unat ten_k \<le> unat delta"
      using Suc.IH [of "rest + ten_k"] Suc(2,4) le r by auto
    then show ?thesis unfolding unfold using True by (intro exI [of _ "Suc j"]) simp
  next
    case False
    then show ?thesis unfolding unfold using Suc(3) by (intro exI [of _ 0]) simp
  qed
qed simp

section \<open>What the loops leave\<close>

text \<open>\<open>t\<close> is the value of a unit of the last digit, in the scale of \<open>lo\<close> and \<open>hi\<close>.\<close>

definition chosen :: "string \<Rightarrow> nat \<Rightarrow> nat \<Rightarrow> nat \<Rightarrow> bool" where
  "chosen s t lo hi \<longleftrightarrow> shaped s \<and> s \<noteq> [] \<and> last s \<noteq> CHR ''0''
     \<and> lo \<le> digits_value s * t \<and> digits_value s * t \<le> hi \<and> hi - lo < 10 * t"

lemma chosen_length:
  assumes "chosen s t lo hi" "hi \<le> 10 ^ 16 * (hi - lo)"
  shows "length s \<le> 17"
proof -
  have "digits_value s * t < 10 ^ 17 * t"
  proof -
    have "10 ^ 16 * (hi - lo) < 10 ^ 16 * (10 * t)" using assms(1) by (simp add: chosen_def)
    moreover have "digits_value s * t \<le> hi" using assms(1) by (simp add: chosen_def)
    ultimately have "digits_value s * t < 10 ^ 16 * (10 * t)" using assms(2) by (meson le_less_trans le_trans)
    also have "10 ^ 16 * (10 * t) = 10 ^ 17 * t" by simp
    finally show ?thesis .
  qed
  then have "digits_value s < 10 ^ 17" by simp
  moreover have "10 ^ (length s - 1) \<le> digits_value s" using assms(1) shaped_value by (simp add: chosen_def)
  ultimately have "(10 :: nat) ^ (length s - 1) < 10 ^ 17" by linarith
  then have "length s - 1 < 17" by (rule power_less_imp_less_exp [rotated]) simp
  then show ?thesis by simp
qed

lemma chosen_round:
  assumes "shaped s" "d < 10" "unat rest < unat ten_k" "unat rest \<le> unat delta" "unat delta < unat rest + d * unat ten_k"
    and "hi = (10 * digits_value s + d) * unat ten_k + unat rest" "unat delta = hi - lo" "lo \<le> hi"
  shows "chosen (grisu2_round (s @ [digit d]) dst delta rest ten_k) (unat ten_k) lo hi"
proof -
  obtain j where j: "j < d" "grisu2_round (s @ [digit d]) dst delta rest ten_k = s @ [digit (d - j)]"
    "unat rest + j * unat ten_k \<le> unat delta"
    using grisu2_round_digit [OF assms(2,4,5)] by blast
  define t where "t = unat ten_k"
  obtain i where i: "d = i + j" "0 < i" using j(1) by (metis add.commute less_imp_add_positive)
  have sp: "hi = (10 * digits_value s + i) * t + (unat rest + j * t)"
    unfolding assms(6) t_def i(1) by (simp add: algebra_simps)
  have "shaped (s @ [digit i])" using shaped_snoc assms(1,2) i by simp
  moreover have "digit i \<noteq> CHR ''0''" using i assms(2) by (simp add: digit_is_zero)
  moreover have "lo \<le> (10 * digits_value s + i) * t"
    using sp j(3) assms(7,8) unfolding t_def by linarith
  moreover have "hi - lo < 10 * t"
  proof -
    have "d * t \<le> 9 * t" using assms(2) by (intro mult_le_mono1) simp
    then show ?thesis using assms(3,5,7) unfolding t_def by linarith
  qed
  ultimately show ?thesis
    using sp i assms(2) unfolding j(2) t_def [symmetric] chosen_def by simp
qed

section \<open>The integral part\<close>

lemma find_largest_pow10_spec:
  assumes "find_largest_pow10 n = (k, p)" "0 < unat n"
  shows "0 < k" "k \<le> 10" "unat p = 10 ^ (k - 1)" "10 ^ (k - 1) \<le> unat n" "unat n < 10 ^ k"
proof -
  have "unat n < 10 ^ 10" using unsigned_less [of n, where 'a = nat] by simp
  then have "0 < k \<and> k \<le> 10 \<and> unat p = 10 ^ (k - 1) \<and> 10 ^ (k - 1) \<le> unat n \<and> unat n < 10 ^ k"
    using assms unfolding find_largest_pow10_def by (auto simp: word_le_nat_alt split: if_splits)
  then show "0 < k" "k \<le> 10" "unat p = 10 ^ (k - 1)" "10 ^ (k - 1) \<le> unat n" "unat n < 10 ^ k" by simp_all
qed

lemma unat_div_mod: "unat (a div b :: 'a :: len word) = unat a div unat b" "unat (a mod b :: 'a :: len word) = unat a mod unat b"
  by (simp_all add: unat_div unat_mod)

lemma unat_up: "unat (ucast (r :: 32 word) :: 64 word) = unat r"
proof -
  have "unat r < 2 ^ 64" using unsigned_less [of r, where 'a = nat] by simp
  then show ?thesis by (simp add: unsigned_ucast_eq take_bit_nat_eq_self)
qed

lemma char_of_digit: "char_of (48 + n) = digit n"
  by (simp add: digit_def)

text \<open>What is known before a digit of the integral part is made.\<close>

definition integral_state ::
  "nat \<Rightarrow> nat \<Rightarrow> 32 word \<Rightarrow> string \<Rightarrow> 64 word \<Rightarrow> 64 word \<Rightarrow> nat \<Rightarrow> nat \<Rightarrow> bool" where
  "integral_state s n p1 buffer p2 delta lo hi \<longleftrightarrow>
     shaped buffer \<and> unat p1 < 10 ^ n \<and> unat p2 < 2 ^ s \<and> hi < 2 ^ 64 \<and> lo \<le> hi
     \<and> hi = (digits_value buffer * 10 ^ n + unat p1) * 2 ^ s + unat p2
     \<and> unat delta = hi - lo \<and> hi - lo < unat p1 * 2 ^ s + unat p2
     \<and> (buffer = [] \<longrightarrow> 0 < n \<and> 10 ^ (n - 1) \<le> unat p1)"

lemma integral_unit_fits:
  assumes "integral_state s (Suc n) p1 buffer p2 delta lo hi"
  shows "10 ^ n * 2 ^ s \<le> hi"
proof -
  have "10 ^ n \<le> digits_value buffer * 10 ^ Suc n + unat p1"
  proof (cases "buffer = []")
    case False
    then have "1 \<le> digits_value buffer" using assms shaped_pos by (simp add: integral_state_def)
    then have "1 * 10 ^ n \<le> digits_value buffer * 10 ^ Suc n" by (intro mult_le_mono) simp_all
    then show ?thesis by (simp only: mult_1 trans_le_add1)
  qed (use assms in \<open>simp add: integral_state_def\<close>)
  then have "10 ^ n * 2 ^ s \<le> (digits_value buffer * 10 ^ Suc n + unat p1) * 2 ^ s" by (rule mult_le_mono1)
  also have "\<dots> \<le> hi" using assms unfolding integral_state_def by (metis le_add1)
  finally show ?thesis .
qed

text \<open>One digit: the word operations of the loop over natural numbers.\<close>

lemma integral_digit:
  assumes "integral_state s (Suc n) p1 buffer p2 delta lo hi" "unat pow10 = 10 ^ n"
    and "d = p1 div pow10" "r = p1 mod pow10" "rest = push_bit s (ucast r) + p2"
    and "ten = push_bit s (ucast pow10 :: 64 word)"
  shows "unat d < 10" "unat p1 = unat d * 10 ^ n + unat r" "unat r < 10 ^ n"
    "unat rest = unat r * 2 ^ s + unat p2" "unat ten = 10 ^ n * 2 ^ s" "unat rest < unat ten"
proof -
  have p1: "unat p1 < 10 * 10 ^ n" and p2: "unat p2 < 2 ^ s" and hi: "hi < 2 ^ 64"
    and sum: "hi = (digits_value buffer * 10 ^ Suc n + unat p1) * 2 ^ s + unat p2"
    using assms(1) by (simp_all add: integral_state_def)
  show "unat d < 10" using p1 by (simp add: assms(2,3) unat_div_mod div_less_iff_less_mult)
  show split: "unat p1 = unat d * 10 ^ n + unat r"
    unfolding assms(3,4) unat_div_mod assms(2) by (rule div_mult_mod_eq [symmetric])
  show r: "unat r < 10 ^ n" by (simp add: assms(2,4) unat_div_mod)
  have "unat r \<le> unat p1" using split by simp
  then have "unat r * 2 ^ s + unat p2 \<le> hi" unfolding sum by (intro add_le_mono1 mult_le_mono1) simp
  then have fits: "unat r * 2 ^ s + unat p2 < 2 ^ 64" using hi by simp
  then have "unat (push_bit s (ucast r :: 64 word)) = unat r * 2 ^ s" by (subst unat_push_bit) (simp_all add: unat_up)
  then show rest: "unat rest = unat r * 2 ^ s + unat p2" using fits by (simp add: assms(5) unat_word_ariths)
  show ten: "unat ten = 10 ^ n * 2 ^ s"
    using integral_unit_fits [OF assms(1)] hi unfolding assms(6) by (subst unat_push_bit) (simp_all add: unat_up assms(2))
  have "(unat r + 1) * 2 ^ s \<le> 10 ^ n * 2 ^ s" using r by (intro mult_le_mono1) simp
  then show "unat rest < unat ten" unfolding rest ten using p2 by simp
qed

lemma integral_digits_spec:
  "integral_state s n p1 buffer p2 delta lo hi \<Longrightarrow> 0 < n \<longrightarrow> unat pow10 = 10 ^ (n - 1) \<Longrightarrow> s = nat (- e) \<Longrightarrow>
   (case integral_digits n p1 pow10 buffer p2 e delta dst of
      (Some (b, m), _) \<Rightarrow> chosen b (10 ^ m * 2 ^ s) lo hi
    | (None, b) \<Rightarrow> integral_state s 0 0 b p2 delta lo hi)"
proof (induction n arbitrary: p1 pow10 buffer)
  case 0
  then have "p1 = 0" by (simp add: integral_state_def unsigned_eq_0_iff)
  then show ?case using 0 by simp
next
  case (Suc n)
  define d r rest ten where "d = p1 div pow10" and "r = p1 mod pow10"
    and "rest = push_bit s (ucast r) + p2" and "ten = push_bit s (ucast pow10 :: 64 word)"
  have pow: "unat pow10 = 10 ^ n" using Suc(3) by simp
  note digit = integral_digit [OF Suc(2) pow d_def r_def rest_def ten_def]
  have st: "shaped buffer" "hi = (digits_value buffer * 10 ^ Suc n + unat p1) * 2 ^ s + unat p2" "lo \<le> hi"
    "unat delta = hi - lo" "hi - lo < unat p1 * 2 ^ s + unat p2" "buffer = [] \<longrightarrow> 0 < Suc n \<and> 10 ^ (Suc n - 1) \<le> unat p1"
    using Suc(2) unfolding integral_state_def by blast+
  have sum: "unat p1 * 2 ^ s + unat p2 = unat rest + unat d * unat ten"
    unfolding digit(2,4,5) by (simp add: algebra_simps)
  have step: "integral_digits (Suc n) p1 pow10 buffer p2 e delta dst =
      (if rest \<le> delta then (Some (grisu2_round (buffer @ [digit (unat d)]) dst delta rest ten, n), buffer @ [digit (unat d)])
       else integral_digits n r (pow10 div 10) (buffer @ [digit (unat d)]) p2 e delta dst)"
    by (simp add: Let_def char_of_digit d_def r_def rest_def ten_def Suc(4))
  show ?case
  proof (cases "rest \<le> delta")
    case True
    have "chosen (grisu2_round (buffer @ [digit (unat d)]) dst delta rest ten) (unat ten) lo hi"
    proof (rule chosen_round [OF st(1) digit(1,6)])
      show "unat rest \<le> unat delta" using True by (simp add: word_le_nat_alt)
      show "unat delta < unat rest + unat d * unat ten" using st(4,5) sum by simp
      show "hi = (10 * digits_value buffer + unat d) * unat ten + unat rest"
        unfolding st(2) using sum digit(5) by (simp add: algebra_simps)
    qed (use st in simp_all)
    then show ?thesis unfolding step using True digit(5) by simp
  next
    case False
    have pos: "buffer = [] \<Longrightarrow> 0 < unat d" using st(6) digit(2,3) by (cases "unat d") simp_all
    have "integral_state s n r (buffer @ [digit (unat d)]) p2 delta lo hi"
      unfolding integral_state_def
    proof (intro conjI impI)
      show "hi = (digits_value (buffer @ [digit (unat d)]) * 10 ^ n + unat r) * 2 ^ s + unat p2"
        unfolding st(2) digit(2) using digit(1) by (simp add: algebra_simps)
      show "hi - lo < unat r * 2 ^ s + unat p2"
        using False st(4) digit(4) by (simp add: word_le_nat_alt)
    qed (use Suc(2) st digit shaped_snoc pos in \<open>simp_all add: integral_state_def\<close>)
    moreover have "0 < n \<longrightarrow> unat (pow10 div 10) = 10 ^ (n - 1)"
      by (cases n) (simp_all add: unat_div_mod pow)
    ultimately show ?thesis unfolding step using False Suc.IH Suc(4) by simp
  qed
qed

section \<open>The fractional part\<close>

definition fractional_state :: "nat \<Rightarrow> nat \<Rightarrow> string \<Rightarrow> 64 word \<Rightarrow> 64 word \<Rightarrow> nat \<Rightarrow> nat \<Rightarrow> bool" where
  "fractional_state s m buffer p2 delta lo hi \<longleftrightarrow>
     shaped buffer \<and> buffer \<noteq> [] \<and> unat p2 < 2 ^ s \<and> s \<le> 60 \<and> lo \<le> hi
     \<and> hi * 10 ^ m = digits_value buffer * 2 ^ s + unat p2
     \<and> unat delta = (hi - lo) * 10 ^ m \<and> unat delta < unat p2"

lemma unat_low_bits: "unat (w AND (push_bit s 1 - 1) :: 64 word) = unat w mod 2 ^ s"
proof -
  have m: "push_bit s 1 - 1 = (mask s :: 64 word)" by (simp add: mask_eq_exp_minus_1 push_bit_eq_mult)
  show ?thesis unfolding m take_bit_eq_mask [symmetric] unsigned_take_bit_eq by (simp only: take_bit_eq_mod)
qed

lemma unat_high_bits: "unat (drop_bit s w :: 64 word) = unat w div 2 ^ s"
  unfolding unat_drop_bit_eq by (simp only: drop_bit_eq_div)

lemma unat_times_ten: "unat w < 2 ^ 60 \<Longrightarrow> unat (w * 10 :: 64 word) = 10 * unat w"
  by (simp add: unat_word_ariths)

lemma fractional_digits_spec:
  "fractional_state s m buffer p2 delta lo hi \<Longrightarrow> 2 ^ s \<le> (hi - lo) * 10 ^ (m + fuel) \<Longrightarrow> s = nat (- e)
     \<Longrightarrow> \<exists>b k. fractional_digits fuel m buffer p2 (push_bit s 1) e delta dst = Some (b, k)
       \<and> chosen b (2 ^ s) (lo * 10 ^ k) (hi * 10 ^ k)"
proof (induction fuel arbitrary: m buffer p2 delta dst)
  case 0
  then show ?case by (simp add: fractional_state_def)
next
  case (Suc fuel)
  define q d r delta' where "q = p2 * 10" and "d = drop_bit s q" and "r = q AND (push_bit s 1 - 1)" and "delta' = delta * 10"
  have st: "shaped buffer" "buffer \<noteq> []" "unat p2 < 2 ^ s" "s \<le> 60" "lo \<le> hi"
    "hi * 10 ^ m = digits_value buffer * 2 ^ s + unat p2" "unat delta = (hi - lo) * 10 ^ m" "unat delta < unat p2"
    using Suc(2) by (simp_all add: fractional_state_def)
  have "(2 :: nat) ^ s \<le> 2 ^ 60" using st(4) by (intro power_increasing) simp_all
  then have small: "unat p2 < 2 ^ 60" "unat delta < 2 ^ 60" using st(3,8) by simp_all
  have q: "unat q = 10 * unat p2" and delta': "unat delta' = 10 * unat delta"
    unfolding q_def delta'_def using small by (simp_all add: unat_times_ten)
  have split: "unat q = unat d * 2 ^ s + unat r" unfolding d_def r_def unat_high_bits unat_low_bits by (rule div_mult_mod_eq [symmetric])
  have d: "unat d < 10" using st(3) q by (simp add: d_def unat_high_bits div_less_iff_less_mult)
  have r: "unat r < 2 ^ s" unfolding r_def unat_low_bits by simp
  have one: "unat (push_bit s 1 :: 64 word) = 2 ^ s"
    using \<open>2 ^ s \<le> 2 ^ 60\<close> by (subst unat_push_bit) simp_all
  have hi: "hi * 10 ^ Suc m = (10 * digits_value buffer + unat d) * 2 ^ s + unat r"
  proof -
    have "hi * 10 ^ Suc m = 10 * (digits_value buffer * 2 ^ s + unat p2)" using st(6) by simp
    then show ?thesis using q split by (simp add: algebra_simps)
  qed
  have step: "fractional_digits (Suc fuel) m buffer p2 (push_bit s 1) e delta dst =
      (if r \<le> delta' then Some (grisu2_round (buffer @ [digit (unat d)]) (dst * 10) delta' r (push_bit s 1), m + 1)
       else fractional_digits fuel (m + 1) (buffer @ [digit (unat d)]) r (push_bit s 1) e delta' (dst * 10))"
    by (simp add: Let_def char_of_digit d_def r_def q_def delta'_def Suc(4))
  show ?case
  proof (cases "r \<le> delta'")
    case True
    have "chosen (grisu2_round (buffer @ [digit (unat d)]) (dst * 10) delta' r (push_bit s 1))
        (unat (push_bit s 1 :: 64 word)) (lo * 10 ^ Suc m) (hi * 10 ^ Suc m)"
    proof (rule chosen_round [OF st(1) d])
      show "unat delta' < unat r + unat d * unat (push_bit s 1 :: 64 word)"
        using st(8) q split delta' one by simp
      show "unat delta' = hi * 10 ^ Suc m - lo * 10 ^ Suc m"
        using delta' st(7) by (simp add: diff_mult_distrib)
      show "lo * 10 ^ Suc m \<le> hi * 10 ^ Suc m" using st(5) by (rule mult_le_mono1)
    qed (use r one True hi in \<open>simp_all add: word_le_nat_alt\<close>)
    then show ?thesis unfolding step using True one by auto
  next
    case False
    have "fractional_state s (Suc m) (buffer @ [digit (unat d)]) r delta' lo hi"
      unfolding fractional_state_def using False st hi r d delta' shaped_snoc by (simp add: word_le_nat_alt)
    moreover have "2 ^ s \<le> (hi - lo) * 10 ^ (Suc m + fuel)" using Suc(3) by simp
    ultimately show ?thesis unfolding step using False Suc.IH [of "Suc m"] Suc(4) by simp
  qed
qed

section \<open>All digits\<close>

text \<open>A digit string and an exponent that denote a number between two scaled values.\<close>

definition denotes_between :: "real \<Rightarrow> real \<Rightarrow> string \<Rightarrow> int \<Rightarrow> bool" where
  "denotes_between lo hi s n \<longleftrightarrow> shaped s \<and> s \<noteq> [] \<and> last s \<noteq> CHR ''0'' \<and> length s \<le> 17
     \<and> lo \<le> real (digits_value s) * 10 powi n \<and> real (digits_value s) * 10 powi n \<le> hi"

lemma chosen_scaled:
  assumes "chosen s t (lo * k) (hi * k)" "hi \<le> 10 ^ 16 * (hi - lo)" "0 < k"
    and "real t * u / real k = 10 powi n" "0 < u"
  shows "denotes_between (real lo * u) (real hi * u) s n"
proof -
  have "hi * k \<le> 10 ^ 16 * (hi * k - lo * k)"
    using mult_le_mono1 [OF assms(2), of k] by (simp add: diff_mult_distrib algebra_simps)
  then have "length s \<le> 17" using chosen_length assms(1) by blast
  moreover have "real (lo * k) \<le> real (digits_value s * t)" "real (digits_value s * t) \<le> real (hi * k)"
    using assms(1) by (simp_all only: chosen_def of_nat_le_iff)
  then have "real (lo * k) * (u / real k) \<le> real (digits_value s * t) * (u / real k)"
    "real (digits_value s * t) * (u / real k) \<le> real (hi * k) * (u / real k)"
    using assms(3,5) by (simp_all only: mult_right_mono divide_nonneg_nonneg less_imp_le of_nat_0_le_iff)
  ultimately show ?thesis
    using assms(1,3) unfolding denotes_between_def assms(4) [symmetric] by (simp add: chosen_def field_simps)
qed

theorem grisu2_digit_gen_spec:
  assumes "scaled_bounds lo hi"
  shows "\<exists>s n. grisu2_digit_gen lo w hi = Some (s, n) \<and> denotes_between (fp_value lo) (fp_value hi) s n"
proof -
  define l h s where "l = unat (fp_f lo)" and "h = unat (fp_f hi)" and "s = nat (- fp_e hi)"
  have b: "fp_e lo = fp_e hi" "2 ^ 61 \<le> h" "0 < l" "l < h" "h \<le> 10 ^ 16 * (h - l)"
    using assms by (simp_all add: scaled_bounds_def l_def h_def)
  have "- 60 \<le> fp_e hi" "fp_e hi \<le> - 32" using assms by (simp_all add: scaled_bounds_def kAlpha_def kGamma_def)
  then have s: "32 \<le> s" "s \<le> 60" "fp_e hi = - int s" by (simp_all add: s_def)
  have h64: "h < 2 ^ 64" using unsigned_less [of "fp_f hi", where 'a = nat] by (simp add: h_def)
  define delta where "delta = fp_f (diyfp_sub hi lo)"
  have delta: "unat delta = h - l"
    using b(4) by (simp add: delta_def diyfp_sub_def make_diyfp_def unat_sub word_le_nat_alt h_def l_def)
  define p1 where "p1 = (ucast (drop_bit s (fp_f hi)) :: 32 word)"
  define p2 where "p2 = fp_f hi AND (push_bit s 1 - 1)"
  have p2: "unat p2 = h mod 2 ^ s" unfolding p2_def h_def by (rule unat_low_bits)
  have "(2 :: nat) ^ 32 \<le> 2 ^ s" "(2 :: nat) ^ s \<le> 2 ^ 60"
    by (rule power_increasing [OF s(1)], simp) (rule power_increasing [OF s(2)], simp)
  then have top: "h div 2 ^ s < 2 ^ 32" "0 < h div 2 ^ s"
    using h64 b(2) by (simp_all add: div_less_iff_less_mult div_greater_zero_iff)
  then have p1: "unat p1 = h div 2 ^ s"
    unfolding p1_def unsigned_ucast_eq unat_high_bits h_def [symmetric]
    by (simp add: take_bit_nat_eq_self unsigned_take_bit_eq unat_high_bits h_def [symmetric])
  obtain k pow10 where k: "find_largest_pow10 p1 = (k, pow10)" by (metis surj_pair)
  have "0 < unat p1" using top p1 by simp
  note pow = find_largest_pow10_spec [OF k this]
  have "integral_state s k p1 [] p2 delta l h"
    unfolding integral_state_def p1 p2 div_mult_mod_eq add_0 mult_0
    using b(3,4) pow [unfolded p1] h64 delta div_mult_mod_eq [of h "2 ^ s"] by (simp add: shaped_def digits_value_def)
  note step = integral_digits_spec [OF this _ s_def]
  have ints: "case integral_digits k p1 pow10 [] p2 (fp_e hi) delta (fp_f (diyfp_sub hi w)) of
      (Some (b, m), _) \<Rightarrow> chosen b (10 ^ m * 2 ^ s) l h
    | (None, b) \<Rightarrow> integral_state s 0 0 b p2 delta l h"
    by (rule step) (use pow(3) in simp)
  have fpv: "fp_value lo = real l * 2 powi (- int s)" "fp_value hi = real h * 2 powi (- int s)"
    by (simp_all add: fp_value_def l_def h_def b(1) s(3))
  have unit: "2 ^ s * 2 powi (- int s) = (1 :: real)" by (simp add: power_int_minus)
  obtain r buf where r: "integral_digits k p1 pow10 [] p2 (fp_e hi) delta (fp_f (diyfp_sub hi w)) = (r, buf)"
    by (metis surj_pair)
  have gen: "grisu2_digit_gen lo w hi =
      (case (r, buf) of
         (Some (buffer, n), _) \<Rightarrow> Some (buffer, int n)
       | (None, buffer) \<Rightarrow>
           (case fractional_digits digit_fuel 0 buffer p2 (push_bit s 1) (fp_e hi) delta (fp_f (diyfp_sub hi w)) of
              Some (buffer, m) \<Rightarrow> Some (buffer, - int m)
            | None \<Rightarrow> None))"
    unfolding grisu2_digit_gen_def Let_def delta_def [symmetric] s_def [symmetric] p1_def [symmetric]
      p2_def [symmetric] k prod.case r ..
  show ?thesis
  proof (cases r)
    case (Some bm)
    obtain bf m where bm: "bm = (bf, m)" by (metis surj_pair)
    have "chosen bf (10 ^ m * 2 ^ s) (l * 1) (h * 1)" using ints r Some bm by simp
    then have "denotes_between (fp_value lo) (fp_value hi) bf (int m)"
      unfolding fpv by (rule chosen_scaled) (use b(5) unit in \<open>simp_all add: mult.assoc\<close>)
    then show ?thesis unfolding gen Some bm by simp
  next
    case None
    then have "integral_state s 0 0 buf p2 delta l h" using ints r by simp
    then have "fractional_state s 0 buf p2 delta l h"
      using s(2) by (auto simp: integral_state_def fractional_state_def)
    moreover have "2 ^ s \<le> (h - l) * 10 ^ (0 + digit_fuel)"
    proof -
      have "1 * 10 ^ 20 \<le> (h - l) * 10 ^ 20" using b(4) by (intro mult_le_mono1) simp
      then show ?thesis using \<open>2 ^ s \<le> 2 ^ 60\<close> by (simp add: digit_fuel_def)
    qed
    ultimately obtain bf m where f: "fractional_digits digit_fuel 0 buf p2 (push_bit s 1) (fp_e hi) delta (fp_f (diyfp_sub hi w)) = Some (bf, m)"
      "chosen bf (2 ^ s) (l * 10 ^ m) (h * 10 ^ m)"
      using fractional_digits_spec [of s 0 buf p2 delta l h digit_fuel "fp_e hi"] s_def by blast
    from f(2) have "denotes_between (fp_value lo) (fp_value hi) bf (- int m)"
      unfolding fpv by (rule chosen_scaled) (use b(5) unit in \<open>simp_all add: power_int_minus inverse_eq_divide\<close>)
    then show ?thesis unfolding gen None using f(1) by simp
  qed
qed

theorem grisu2_between:
  assumes "0 < unat bits" "unat bits < infinity_bits"
  obtains s n where "grisu2 bits = Some (s, n)" "shaped s" "s \<noteq> []" "last s \<noteq> CHR ''0''" "length s \<le> 17"
    "midpoint_below (unat bits) < real (digits_value s) * 10 powi n"
    "real (digits_value s) * 10 powi n < midpoint_above (unat bits)"
proof -
  define w where "w = compute_boundaries bits"
  obtain cf ce ck where c: "get_cached_power_for_binary_exponent (fp_e (b_plus w)) = (cf, ce, ck)"
    by (metis prod_cases3)
  let ?lo = "diyfp_mul (b_minus w) (make_diyfp cf ce)" and ?hi = "diyfp_mul (b_plus w) (make_diyfp cf ce)"
  let ?M_minus = "make_diyfp (fp_f ?lo + 1) (fp_e ?lo)" and ?M_plus = "make_diyfp (fp_f ?hi - 1) (fp_e ?hi)"
  note sc = scaled_boundaries [OF compute_boundaries_midpoints [OF assms, folded w_def] c refl refl refl refl]
  obtain s n where g: "grisu2_digit_gen ?M_minus (diyfp_mul (b_w w) (make_diyfp cf ce)) ?M_plus = Some (s, n)"
    and d: "denotes_between (fp_value ?M_minus) (fp_value ?M_plus) s n"
    using grisu2_digit_gen_spec [OF sc(1)] by blast
  have p: "(10 :: real) powi (- ck + n) = 10 powi n * 10 powi (- ck)"
    using power_int_add [of "10 :: real" "- ck" n] by simp
  have k: "fp_value ?M_minus * 10 powi (- ck) \<le> real (digits_value s) * 10 powi n * 10 powi (- ck)"
    "real (digits_value s) * 10 powi n * 10 powi (- ck) \<le> fp_value ?M_plus * 10 powi (- ck)"
    using d unfolding denotes_between_def by (auto intro!: mult_right_mono)
  show thesis
  proof (rule that)
    show "grisu2 bits = Some (s, - ck + n)"
      by (simp only: grisu2_def Let_def w_def [symmetric] grisu2_scaled_def c prod.case g option.case)
    show "midpoint_below (unat bits) < real (digits_value s) * 10 powi (- ck + n)"
      "real (digits_value s) * 10 powi (- ck + n) < midpoint_above (unat bits)"
      unfolding p using sc(2,3) k by (simp_all only: mult.assoc)
  qed (use d in \<open>simp_all add: denotes_between_def\<close>)
qed

end
