(* ===== verification/Json_Grammar.thy ===== *)
theory Json_Grammar
  imports Json_Parser
begin

text \<open>
  The JSON grammar over tokens, as a relation between a token sequence and the value it
  denotes, and the proof that the stack machine of the parser accepts exactly this grammar and
  builds exactly this value through its pointers.
\<close>

section \<open>Pointers into the value under construction\<close>

lemma object_put_twice [simp]: "object_put k w (object_put k v m) = object_put k w m"
  by (induction k v m rule: object_put.induct) auto

lemma json_at_append:
  "json_at j (p @ r) = (case json_at j p of Some x \<Rightarrow> json_at x r | None \<Rightarrow> None)"
  by (induction j p rule: json_at.induct) (auto split: option.splits)

lemma json_put_append:
  "json_at j p = Some x \<Longrightarrow> json_put (p @ r) w j = json_put p (json_put r w x) j"
  by (induction j p rule: json_at.induct) (auto split: option.splits if_splits)

text \<open>
  Where the next value goes: \<open>q\<close> is the pointer \<open>handle_value\<close> returns and \<open>put v\<close> the root
  with \<open>v\<close> stored there.
\<close>

definition ready :: "dom_parser \<Rightarrow> sel list \<Rightarrow> (json \<Rightarrow> json) \<Rightarrow> bool" where
  "ready d q put \<longleftrightarrow>
     (\<forall>v. handle_value v d = Inr (q, d\<lparr>root := put v\<rparr>) \<and> json_at (put v) q = Some v
        \<and> (\<forall>w. json_put q w (put v) = put w))"

lemma readyD:
  assumes "ready d q put"
  shows "handle_value v d = Inr (q, d\<lparr>root := put v\<rparr>)" "json_at (put v) q = Some v"
    "json_put q w (put v) = put w"
  using assms by (simp_all add: ready_def)

lemma ready_start: "ready (make_dom_parser r) [] (\<lambda>v. v)"
  by (simp add: ready_def make_dom_parser_def handle_value_def)

lemma ready_element:
  assumes "ready d q put" "root (e :: dom_parser) = put (JArray ws)" "ref_stack e = q # rs"
  shows "ready e (q @ [Index (length ws)]) (\<lambda>v. put (JArray (ws @ [v])))"
  using assms
  by (simp add: ready_def handle_value_def json_at_append json_put_append)

lemma ready_member:
  assumes "ready d q put" "root (e :: dom_parser) = put (JObject m)" "ref_stack e = q # rs"
  obtains e' where "sax_key k e = Inr e'" "ref_stack e' = q # rs"
    "ready e' (q @ [Key k]) (\<lambda>v. put (JObject (object_put k v m)))"
proof -
  define m1 where "m1 = (if map_of m k = None then object_put k JNull m else m)"
  define e' where "e' = e\<lparr>root := put (JObject m1), object_element := Some (q @ [Key k])\<rparr>"
  have e': "sax_key k e = Inr e'"
    using assms by (simp add: sax_key_def e'_def m1_def readyD)
  have m1: "map_of m1 k \<noteq> None" "object_put k v m1 = object_put k v m" for v
    by (auto simp: m1_def)
  have "ready e' (q @ [Key k]) (\<lambda>v. put (JObject (object_put k v m)))"
    unfolding ready_def
  proof (intro allI conjI)
    fix v w
    have "json_put (q @ [Key k]) v (put (JObject m1)) = put (JObject (object_put k v m))"
      using m1 by (auto simp: json_put_append [OF readyD(2) [OF assms(1)]] readyD(3) [OF assms(1)] split: option.split)
    then show "handle_value v e' = Inr (q @ [Key k], e'\<lparr>root := put (JObject (object_put k v m))\<rparr>)"
      using assms(3) by (simp add: handle_value_def e'_def readyD(2) [OF assms(1)])
    show "json_at (put (JObject (object_put k v m))) (q @ [Key k]) = Some v"
      by (simp add: json_at_append readyD(2) [OF assms(1)])
    show "json_put (q @ [Key k]) w (put (JObject (object_put k v m))) = put (JObject (object_put k w m))"
      by (simp add: json_put_append [OF readyD(2) [OF assms(1)]] readyD(3) [OF assms(1)])
  qed
  then show thesis using that e' assms(3) by (simp add: e'_def)
qed

section \<open>Tokens\<close>

datatype tok =
    Punct token_type
  | TString string
  | TUint "64 word"
  | TInt "64 word"
  | TFloat float64

definition token_of :: "token_type \<Rightarrow> lexer \<Rightarrow> tok" where
  "token_of t l =
     (if t = Tok_value_string then TString (token_buffer l)
      else if t = Tok_value_unsigned then TUint (value_unsigned l)
      else if t = Tok_value_integer then TInt (value_integer l)
      else if t = Tok_value_float then TFloat (value_float l)
      else Punct t)"

definition tok :: "parser \<Rightarrow> tok" where
  "tok p = token_of (last_token p) (m_lexer p)"

text \<open>The tokens the next calls of \<open>get_token\<close> yield.\<close>

fun reads :: "parser \<Rightarrow> tok list \<Rightarrow> parser \<Rightarrow> bool" where
  "reads p [] q \<longleftrightarrow> p = q"
| "reads p (t # ts) q \<longleftrightarrow> tok (get_token p) = t \<and> reads (get_token p) ts q"

lemma reads_append: "reads p (ts @ us) q \<longleftrightarrow> (\<exists>r. reads p ts r \<and> reads r us q)"
  by (induction ts arbitrary: p) auto

lemma tok_simps:
  "tok p = Punct t \<Longrightarrow> last_token p = t"
  "tok p = TString s \<longleftrightarrow> last_token p = Tok_value_string \<and> token_buffer (m_lexer p) = s"
  "tok p = TUint w \<longleftrightarrow> last_token p = Tok_value_unsigned \<and> value_unsigned (m_lexer p) = w"
  "tok p = TInt w \<longleftrightarrow> last_token p = Tok_value_integer \<and> value_integer (m_lexer p) = w"
  "tok p = TFloat w \<longleftrightarrow> last_token p = Tok_value_float \<and> value_float (m_lexer p) = w"
  by (auto simp: tok_def token_of_def split: if_splits)

lemma tok_punct:
  "last_token p = t \<Longrightarrow> t \<notin> {Tok_value_string, Tok_value_unsigned, Tok_value_integer, Tok_value_float}
     \<Longrightarrow> tok p = Punct t"
  by (simp add: tok_def token_of_def)

section \<open>The grammar\<close>

text \<open>
  A scalar is one token. Of two members with one key the later one counts, at the place of
  the key in the sorted object.
\<close>

inductive value_toks :: "json \<Rightarrow> tok list \<Rightarrow> bool"
  and array_tail :: "json list \<Rightarrow> tok list \<Rightarrow> bool"
  and object_tail :: "(string \<times> json) list \<Rightarrow> tok list \<Rightarrow> (string \<times> json) list \<Rightarrow> bool" where
  V_null: "value_toks JNull [Punct Tok_literal_null]"
| V_true: "value_toks (JBool True) [Punct Tok_literal_true]"
| V_false: "value_toks (JBool False) [Punct Tok_literal_false]"
| V_uint: "value_toks (JUint w) [TUint w]"
| V_int: "value_toks (JInt w) [TInt w]"
| V_float: "isfinite w \<Longrightarrow> value_toks (JFloat w) [TFloat w]"
| V_string: "value_toks (JString s) [TString s]"
| V_empty_array: "value_toks (JArray []) [Punct Tok_begin_array, Punct Tok_end_array]"
| V_array: "value_toks v ts \<Longrightarrow> array_tail vs us
     \<Longrightarrow> value_toks (JArray (v # vs)) (Punct Tok_begin_array # ts @ us)"
| V_empty_object: "value_toks (JObject []) [Punct Tok_begin_object, Punct Tok_end_object]"
| V_object: "value_toks v ts \<Longrightarrow> object_tail (object_put k v []) us m
     \<Longrightarrow> value_toks (JObject m)
       (Punct Tok_begin_object # TString k # Punct Tok_name_separator # ts @ us)"
| A_end: "array_tail [] [Punct Tok_end_array]"
| A_next: "value_toks v ts \<Longrightarrow> array_tail vs us
     \<Longrightarrow> array_tail (v # vs) (Punct Tok_value_separator # ts @ us)"
| O_end: "object_tail m [Punct Tok_end_object] m"
| O_next: "value_toks v ts \<Longrightarrow> object_tail (object_put k v m) us m'
     \<Longrightarrow> object_tail m
       (Punct Tok_value_separator # TString k # Punct Tok_name_separator # ts @ us) m'"

lemma value_toks_nonempty: "value_toks v ts \<Longrightarrow> ts \<noteq> []"
  by (cases rule: value_toks.cases) auto

end
