(* ===== verification/Json_Complete.thy ===== *)
theory Json_Complete
  imports Json_Grammar
begin

text \<open>
  The parser accepts every token sequence of the grammar and builds the value it denotes.
\<close>

section \<open>Rounds of the loop\<close>

lemma sax_break:
  assumes "value_switch st p d = Inr (Break p' d')"
  shows "sax_parse_internal False st p d = sax_parse_internal True st p' d'"
  using assms
  by (simp add: sax_parse_internal.simps [of False st p d] sax_parse_internal.simps [of True st p' d']
      parse_round_def)

lemma sax_continue:
  assumes "parse_round s st p d = Inr (Continue s' st' p' d')"
  shows "sax_parse_internal s st p d = sax_parse_internal s' st' p' d'"
  using assms by (simp add: sax_parse_internal.simps [of s st p d])

lemma sax_switch_continue:
  "value_switch st p d = Inr (Continue s' st' p' d')
     \<Longrightarrow> sax_parse_internal False st p d = sax_parse_internal s' st' p' d'"
  by (rule sax_continue) (simp add: parse_round_def)

lemma sax_state_continue:
  "state_evaluation st p d = Inr (Continue s' st' p' d')
     \<Longrightarrow> sax_parse_internal True st p d = sax_parse_internal s' st' p' d'"
  by (rule sax_continue) (simp add: parse_round_def)

lemma key_and_separator_ok:
  assumes "tok p = TString k" "tok (get_token p) = Punct Tok_name_separator" "sax_key k d = Inr d'"
  shows "key_and_separator p d = Inr (get_token p, d')"
  using assms tok_simps(1) [OF assms(2)] by (simp add: key_and_separator_def tok_simps Let_def)

lemma ready_handles:
  assumes "ready d q put"
  shows "sax_value v d = Inr (d\<lparr>root := put v\<rparr>)"
    "start_array d = Inr (d\<lparr>root := put (JArray []), ref_stack := q # ref_stack d\<rparr>)"
    "start_object d = Inr (d\<lparr>root := put (JObject []), ref_stack := q # ref_stack d\<rparr>)"
  by (simp_all add: sax_value_def start_array_def start_object_def readyD(1) [OF assms])

section \<open>Completeness\<close>

definition parses_value :: "json \<Rightarrow> tok list \<Rightarrow> bool" where
  "parses_value v ts \<longleftrightarrow>
     (\<forall>p (d :: dom_parser) st q put p'. tok p = hd ts \<longrightarrow> reads p (tl ts) p' \<longrightarrow> ready d q put \<longrightarrow>
        (\<exists>d' :: dom_parser. sax_parse_internal False st p d = sax_parse_internal True st p' d'
           \<and> root d' = put v \<and> ref_stack d' = ref_stack d))"

definition parses_elements :: "json list \<Rightarrow> tok list \<Rightarrow> bool" where
  "parses_elements vs ts \<longleftrightarrow>
     (\<forall>p (d :: dom_parser) d0 st q put ws rs p'. reads p ts p' \<longrightarrow> ready d0 q put \<longrightarrow>
        root d = put (JArray ws) \<longrightarrow> ref_stack d = q # rs \<longrightarrow>
        (\<exists>d' :: dom_parser. sax_parse_internal True (True # st) p d = sax_parse_internal True st p' d'
           \<and> root d' = put (JArray (ws @ vs)) \<and> ref_stack d' = rs))"

definition parses_members :: "(string \<times> json) list \<Rightarrow> tok list \<Rightarrow> (string \<times> json) list \<Rightarrow> bool" where
  "parses_members m ts m' \<longleftrightarrow>
     (\<forall>p (d :: dom_parser) d0 st q put rs p'. reads p ts p' \<longrightarrow> ready d0 q put \<longrightarrow>
        root d = put (JObject m) \<longrightarrow> ref_stack d = q # rs \<longrightarrow>
        (\<exists>d' :: dom_parser. sax_parse_internal True (False # st) p d = sax_parse_internal True st p' d'
           \<and> root d' = put (JObject m') \<and> ref_stack d' = rs))"

lemma parses_valueD:
  assumes "parses_value v ts" "tok p = hd ts" "reads p (tl ts) p'" "ready d q put"
  obtains d' where "sax_parse_internal False st p d = sax_parse_internal True st p' d'"
    "root d' = put v" "ref_stack d' = ref_stack d"
  using assms unfolding parses_value_def by blast

lemma parses_elementsD:
  assumes "parses_elements vs ts" "reads p ts p'" "ready d0 q put" "root d = put (JArray ws)"
    "ref_stack d = q # rs"
  obtains d' where "sax_parse_internal True (True # st) p d = sax_parse_internal True st p' d'"
    "root d' = put (JArray (ws @ vs))" "ref_stack d' = rs"
  using assms unfolding parses_elements_def by blast

lemma parses_membersD:
  assumes "parses_members m ts m'" "reads p ts p'" "ready d0 q put" "root d = put (JObject m)"
    "ref_stack d = q # rs"
  obtains d' where "sax_parse_internal True (False # st) p d = sax_parse_internal True st p' d'"
    "root d' = put (JObject m')" "ref_stack d' = rs"
  using assms unfolding parses_members_def by blast

lemma parses_scalar:
  assumes "\<And>p (d :: dom_parser) st. tok p = t \<Longrightarrow>
      value_switch st p d = bind_result (sax_value v d) (\<lambda>d. Inr (Break p d))"
  shows "parses_value v [t]"
  unfolding parses_value_def
proof (intro allI impI)
  fix p st q put p' and d :: dom_parser
  assume a: "tok p = hd [t]" "reads p (tl [t]) p'" "ready d q put"
  then have "value_switch st p d = Inr (Break p' (d\<lparr>root := put v\<rparr>))"
    using assms [of p st d] ready_handles(1) [OF a(3), of v] by simp
  then show "\<exists>d' :: dom_parser. sax_parse_internal False st p d = sax_parse_internal True st p' d'
      \<and> root d' = put v \<and> ref_stack d' = ref_stack d"
    using sax_break by (intro exI [of _ "d\<lparr>root := put v\<rparr>"]) simp
qed

lemma value_toks_hd:
  assumes "value_toks v ts"
  obtains t us where "ts = t # us" "t \<noteq> Punct Tok_end_array" "t \<noteq> Punct Tok_end_object"
  using assms by (cases rule: value_toks.cases) auto

text \<open>The elements of an array behind its first, and the first.\<close>

lemma parses_array:
  assumes "value_toks v ts" "parses_value v ts" "parses_elements vs us"
  shows "parses_value (JArray (v # vs)) (Punct Tok_begin_array # ts @ us)"
  unfolding parses_value_def
proof (intro allI impI)
  fix p st q put p' and d :: dom_parser
  assume a: "tok p = hd (Punct Tok_begin_array # ts @ us)"
    "reads p (tl (Punct Tok_begin_array # ts @ us)) p'" "ready d q put"
  obtain t ts' where ts: "ts = t # ts'" "t \<noteq> Punct Tok_end_array" using value_toks_hd [OF assms(1)] .
  then obtain p2 where p1: "tok (get_token p) = t" "reads (get_token p) ts' p2" "reads p2 us p'"
    using a(2) by (auto simp: reads_append)
  define d1 where "d1 = d\<lparr>root := put (JArray []), ref_stack := q # ref_stack d\<rparr>"
  have "last_token (get_token p) \<noteq> Tok_end_array" using p1(1) ts(2) tok_punct by auto
  then have "value_switch st p d = Inr (Continue False (True # st) (get_token p) d1)"
    using a tok_simps(1) [of p] ready_handles(2) [OF a(3)]
    by (simp add: value_switch_def begin_array_case_def Let_def d1_def)
  then have s1: "sax_parse_internal False st p d = sax_parse_internal False (True # st) (get_token p) d1"
    by (rule sax_switch_continue)
  have r1: "ready d1 (q @ [Index (length ([] :: json list))]) (\<lambda>v. put (JArray ([] @ [v])))"
    by (rule ready_element [OF a(3), of d1 "[]" "ref_stack d"]) (simp_all add: d1_def)
  obtain d2 where d2: "sax_parse_internal False (True # st) (get_token p) d1
      = sax_parse_internal True (True # st) p2 d2"
    "root d2 = put (JArray [v])" "ref_stack d2 = q # ref_stack d"
    using parses_valueD [OF assms(2) _ _ r1, of "get_token p" p2 "True # st"] p1 ts(1)
    by (auto simp: d1_def)
  obtain d3 where "sax_parse_internal True (True # st) p2 d2 = sax_parse_internal True st p' d3"
    "root d3 = put (JArray ([v] @ vs))" "ref_stack d3 = ref_stack d"
    using parses_elementsD [OF assms(3) p1(3) a(3) d2(2,3)] .
  then show "\<exists>d' :: dom_parser. sax_parse_internal False st p d = sax_parse_internal True st p' d'
      \<and> root d' = put (JArray (v # vs)) \<and> ref_stack d' = ref_stack d"
    using s1 d2(1) by auto
qed

lemma parses_next_element:
  assumes "value_toks v ts" "parses_value v ts" "parses_elements vs us"
  shows "parses_elements (v # vs) (Punct Tok_value_separator # ts @ us)"
  unfolding parses_elements_def
proof (intro allI impI)
  fix p st q put ws rs p' and d d0 :: dom_parser
  assume a: "reads p (Punct Tok_value_separator # ts @ us) p'" "ready d0 q put"
    "root d = put (JArray ws)" "ref_stack d = q # rs"
  obtain t ts' where ts: "ts = t # ts'" using value_toks_hd [OF assms(1)] by metis
  define p1 where "p1 = get_token p"
  obtain p3 where p: "tok p1 = Punct Tok_value_separator" "tok (get_token p1) = t"
    "reads (get_token p1) ts' p3" "reads p3 us p'"
    using a(1) ts by (auto simp: reads_append p1_def)
  have "state_evaluation (True # st) p d = Inr (Continue False (True # st) (get_token p1) d)"
    using tok_simps(1) [OF p(1)] by (simp add: state_evaluation_def array_evaluation_def Let_def p1_def)
  then have s1: "sax_parse_internal True (True # st) p d = sax_parse_internal False (True # st) (get_token p1) d"
    by (rule sax_state_continue)
  obtain d2 where d2: "sax_parse_internal False (True # st) (get_token p1) d
      = sax_parse_internal True (True # st) p3 d2"
    "root d2 = put (JArray (ws @ [v]))" "ref_stack d2 = q # rs"
    using parses_valueD [OF assms(2) _ _ ready_element [OF a(2-4)], of "get_token p1" p3 "True # st"] p ts a(4)
    by auto
  obtain d3 where "sax_parse_internal True (True # st) p3 d2 = sax_parse_internal True st p' d3"
    "root d3 = put (JArray ((ws @ [v]) @ vs))" "ref_stack d3 = rs"
    using parses_elementsD [OF assms(3) p(4) a(2) d2(2,3)] .
  then show "\<exists>d' :: dom_parser. sax_parse_internal True (True # st) p d = sax_parse_internal True st p' d'
      \<and> root d' = put (JArray (ws @ v # vs)) \<and> ref_stack d' = rs"
    using s1 d2(1) by auto
qed

lemma parses_last_element: "parses_elements [] [Punct Tok_end_array]"
  unfolding parses_elements_def
proof (intro allI impI)
  fix p st q put ws rs p' and d d0 :: dom_parser
  assume a: "reads p [Punct Tok_end_array] p'" "ready d0 q put" "root d = put (JArray ws)" "ref_stack d = q # rs"
  then have "last_token (get_token p) = Tok_end_array" "p' = get_token p" using tok_simps(1) by auto
  then have "state_evaluation (True # st) p d = Inr (Continue True st p' (end_array d))"
    by (simp add: state_evaluation_def array_evaluation_def Let_def)
  then show "\<exists>d' :: dom_parser. sax_parse_internal True (True # st) p d = sax_parse_internal True st p' d'
      \<and> root d' = put (JArray (ws @ [])) \<and> ref_stack d' = rs"
    using sax_state_continue a(3,4) by (intro exI [of _ "end_array d"]) (simp add: end_array_def)
qed

text \<open>A member: its key, the separator and its value, with the members behind it.\<close>

lemma parses_member:
  assumes "value_toks v ts" "parses_value v ts" "parses_members (object_put k v m) us m'"
    and "tok p = TString k" "reads p (Punct Tok_name_separator # ts @ us) p'" "ready d0 q put"
    "root d = put (JObject m)" "ref_stack d = q # rs"
  obtains d1 p1 d' where "key_and_separator p d = Inr (p1, d1)"
    "sax_parse_internal False (False # st) (get_token p1) d1 = sax_parse_internal True st p' d'"
    "root d' = put (JObject m')" "ref_stack d' = rs"
proof -
  obtain t ts' where ts: "ts = t # ts'" using value_toks_hd [OF assms(1)] by metis
  define p1 where "p1 = get_token p"
  obtain p3 where p: "tok p1 = Punct Tok_name_separator" "tok (get_token p1) = t"
    "reads (get_token p1) ts' p3" "reads p3 us p'"
    using assms(5) ts by (auto simp: reads_append p1_def)
  obtain d1 where d1: "sax_key k d = Inr d1" "ref_stack d1 = q # rs"
    "ready d1 (q @ [Key k]) (\<lambda>v. put (JObject (object_put k v m)))"
    by (rule ready_member [OF assms(6-8)])
  have k: "key_and_separator p d = Inr (p1, d1)"
    using key_and_separator_ok [OF assms(4) _ d1(1)] p(1) by (simp add: p1_def)
  obtain d2 where d2: "sax_parse_internal False (False # st) (get_token p1) d1
      = sax_parse_internal True (False # st) p3 d2"
    "root d2 = put (JObject (object_put k v m))" "ref_stack d2 = q # rs"
    using parses_valueD [OF assms(2) _ _ d1(3), of "get_token p1" p3 "False # st"] p ts d1(2) by auto
  obtain d3 where d3: "sax_parse_internal True (False # st) p3 d2 = sax_parse_internal True st p' d3"
    "root d3 = put (JObject m')" "ref_stack d3 = rs"
    using parses_membersD [OF assms(3) p(4) assms(6) d2(2,3)] .
  show thesis by (rule that [OF k _ d3(2,3)]) (simp add: d2(1) d3(1))
qed

lemma parses_object:
  assumes "value_toks v ts" "parses_value v ts" "parses_members (object_put k v []) us m"
  shows "parses_value (JObject m)
    (Punct Tok_begin_object # TString k # Punct Tok_name_separator # ts @ us)"
  unfolding parses_value_def
proof (intro allI impI)
  fix p st q put p' and d :: dom_parser
  assume a: "tok p = hd (Punct Tok_begin_object # TString k # Punct Tok_name_separator # ts @ us)"
    "reads p (tl (Punct Tok_begin_object # TString k # Punct Tok_name_separator # ts @ us)) p'" "ready d q put"
  define d1 where "d1 = d\<lparr>root := put (JObject []), ref_stack := q # ref_stack d\<rparr>"
  have t: "tok (get_token p) = TString k" "reads (get_token p) (Punct Tok_name_separator # ts @ us) p'"
    using a(2) by simp_all
  have d1: "root d1 = put (JObject [])" "ref_stack d1 = q # ref_stack d" by (simp_all add: d1_def)
  obtain e p1 d' where e: "key_and_separator (get_token p) d1 = Inr (p1, e)"
    "sax_parse_internal False (False # st) (get_token p1) e = sax_parse_internal True st p' d'"
    "root d' = put (JObject m)" "ref_stack d' = ref_stack d"
    by (rule parses_member [OF assms t a(3) d1])
  have "last_token (get_token p) \<noteq> Tok_end_object" using t(1) tok_simps(2) by auto
  then have f: "value_switch st p d = Inr (Continue False (False # st) (get_token p1) e)"
    using a(1) tok_simps(1) [of p] ready_handles(3) [OF a(3)] e(1)
    by (simp add: value_switch_def begin_object_case_def Let_def d1_def)
  then show "\<exists>d' :: dom_parser. sax_parse_internal False st p d = sax_parse_internal True st p' d'
      \<and> root d' = put (JObject m) \<and> ref_stack d' = ref_stack d"
    using e(2-4) by (intro exI [of _ d']) (simp add: sax_switch_continue [OF f])
qed

lemma parses_next_member:
  assumes "value_toks v ts" "parses_value v ts" "parses_members (object_put k v m) us m'"
  shows "parses_members m
    (Punct Tok_value_separator # TString k # Punct Tok_name_separator # ts @ us) m'"
  unfolding parses_members_def
proof (intro allI impI)
  fix p st q put rs p' and d d0 :: dom_parser
  assume a: "reads p (Punct Tok_value_separator # TString k # Punct Tok_name_separator # ts @ us) p'"
    "ready d0 q put" "root d = put (JObject m)" "ref_stack d = q # rs"
  define p1 where "p1 = get_token p"
  have t: "tok p1 = Punct Tok_value_separator" "tok (get_token p1) = TString k"
    "reads (get_token p1) (Punct Tok_name_separator # ts @ us) p'"
    using a(1) by (simp_all add: p1_def)
  obtain e p2 d' where e: "key_and_separator (get_token p1) d = Inr (p2, e)"
    "sax_parse_internal False (False # st) (get_token p2) e = sax_parse_internal True st p' d'"
    "root d' = put (JObject m')" "ref_stack d' = rs"
    by (rule parses_member [OF assms t(2,3) a(2-4)])
  have f: "state_evaluation (False # st) p d = Inr (Continue False (False # st) (get_token p2) e)"
    using tok_simps(1) [OF t(1)] e(1)
    by (simp add: state_evaluation_def object_evaluation_def Let_def p1_def)
  then show "\<exists>d' :: dom_parser. sax_parse_internal True (False # st) p d = sax_parse_internal True st p' d'
      \<and> root d' = put (JObject m') \<and> ref_stack d' = rs"
    using e(2-4) by (intro exI [of _ d']) (simp add: sax_state_continue [OF f])
qed

lemma parses_last_member: "parses_members m [Punct Tok_end_object] m"
  unfolding parses_members_def
proof (intro allI impI)
  fix p st q put rs p' and d d0 :: dom_parser
  assume a: "reads p [Punct Tok_end_object] p'" "ready d0 q put" "root d = put (JObject m)" "ref_stack d = q # rs"
  then have "last_token (get_token p) = Tok_end_object" "p' = get_token p" using tok_simps(1) by auto
  then have "state_evaluation (False # st) p d = Inr (Continue True st p' (end_object d))"
    by (simp add: state_evaluation_def object_evaluation_def Let_def)
  then show "\<exists>d' :: dom_parser. sax_parse_internal True (False # st) p d = sax_parse_internal True st p' d'
      \<and> root d' = put (JObject m) \<and> ref_stack d' = rs"
    using sax_state_continue a(3,4) by (intro exI [of _ "end_object d"]) (simp add: end_object_def)
qed

lemma parses_empty:
  "parses_value (JArray []) [Punct Tok_begin_array, Punct Tok_end_array]"
  "parses_value (JObject []) [Punct Tok_begin_object, Punct Tok_end_object]"
proof -
  show "parses_value (JArray []) [Punct Tok_begin_array, Punct Tok_end_array]"
    unfolding parses_value_def
  proof (intro allI impI)
    fix p st q put p' and d :: dom_parser
    assume a: "tok p = hd [Punct Tok_begin_array, Punct Tok_end_array]"
      "reads p (tl [Punct Tok_begin_array, Punct Tok_end_array]) p'" "ready d q put"
    then have "last_token p = Tok_begin_array" "last_token (get_token p) = Tok_end_array" "p' = get_token p"
      using tok_simps(1) by auto
    then have "value_switch st p d = Inr (Break p' (d\<lparr>root := put (JArray [])\<rparr>))"
      using ready_handles(2) [OF a(3)]
      by (simp add: value_switch_def begin_array_case_def Let_def end_array_def)
    then show "\<exists>d' :: dom_parser. sax_parse_internal False st p d = sax_parse_internal True st p' d'
        \<and> root d' = put (JArray []) \<and> ref_stack d' = ref_stack d"
      using sax_break by fastforce
  qed
  show "parses_value (JObject []) [Punct Tok_begin_object, Punct Tok_end_object]"
    unfolding parses_value_def
  proof (intro allI impI)
    fix p st q put p' and d :: dom_parser
    assume a: "tok p = hd [Punct Tok_begin_object, Punct Tok_end_object]"
      "reads p (tl [Punct Tok_begin_object, Punct Tok_end_object]) p'" "ready d q put"
    then have "last_token p = Tok_begin_object" "last_token (get_token p) = Tok_end_object" "p' = get_token p"
      using tok_simps(1) by auto
    then have "value_switch st p d = Inr (Break p' (d\<lparr>root := put (JObject [])\<rparr>))"
      using ready_handles(3) [OF a(3)]
      by (simp add: value_switch_def begin_object_case_def Let_def end_object_def)
    then show "\<exists>d' :: dom_parser. sax_parse_internal False st p d = sax_parse_internal True st p' d'
        \<and> root d' = put (JObject []) \<and> ref_stack d' = ref_stack d"
      using sax_break by fastforce
  qed
qed

lemma grammar_complete:
  "value_toks v ts \<Longrightarrow> parses_value v ts"
  "array_tail vs us \<Longrightarrow> parses_elements vs us"
  "object_tail m ws m' \<Longrightarrow> parses_members m ws m'"
proof (induction v ts and vs us and m ws m' rule: value_toks_array_tail_object_tail.inducts)
  case V_null show ?case by (rule parses_scalar) (auto simp: value_switch_def dest: tok_simps(1))
next
  case V_true show ?case by (rule parses_scalar) (auto simp: value_switch_def dest: tok_simps(1))
next
  case V_false show ?case by (rule parses_scalar) (auto simp: value_switch_def dest: tok_simps(1))
next
  case V_uint show ?case by (rule parses_scalar) (auto simp: value_switch_def tok_simps)
next
  case V_int show ?case by (rule parses_scalar) (auto simp: value_switch_def tok_simps)
next
  case V_float
  then show ?case
    by (intro parses_scalar) (auto simp: value_switch_def value_float_case_def tok_simps Let_def)
next
  case V_string show ?case by (rule parses_scalar) (auto simp: value_switch_def tok_simps)
qed (simp_all add: parses_empty parses_array parses_object parses_last_element parses_next_element
      parses_last_member parses_next_member)

end
