(* ===== verification/Json_Sound.thy ===== *)
theory Json_Sound
  imports Json_Complete
begin

text \<open>
  The parser accepts only token sequences of the grammar: a run from the start of a value either
  throws one of the two parse exceptions or reads a value of the grammar and goes on behind it
  with this value stored. No pointer of the parser ever dangles.
\<close>

section \<open>The exceptions of the parser\<close>

fun parse_failure :: "'a result \<Rightarrow> bool" where
  "parse_failure (Inl (Throw (Json_parse_error s))) = True"
| "parse_failure (Inl (Throw (Json_out_of_range i s))) = (i = 406)"
| "parse_failure _ = False"

lemma syntax_error_failure [simp]: "parse_failure (syntax_error t c p)"
  by (simp add: syntax_error_def parse_error_create_def)

lemma failure_bind [simp]: "parse_failure r \<Longrightarrow> parse_failure (bind_result r f)"
  by (cases r rule: parse_failure.cases) simp_all

lemma failure_switch: "parse_failure (value_switch st p d) \<Longrightarrow> parse_failure (sax_parse_internal False st p d)"
  by (cases "value_switch st p d" rule: parse_failure.cases)
    (simp_all add: sax_parse_internal.simps [of False] parse_round_def)

lemma failure_state: "parse_failure (state_evaluation st p d) \<Longrightarrow> parse_failure (sax_parse_internal True st p d)"
  by (cases "state_evaluation st p d" rule: parse_failure.cases)
    (simp_all add: sax_parse_internal.simps [of True] parse_round_def)

lemma reads_remaining: "reads p ts q \<Longrightarrow> remaining q \<le> remaining p"
proof (induction ts arbitrary: p)
  case (Cons t ts)
  then show ?case using remaining_get_token(2) [of p] by (fastforce intro: order.trans)
qed simp

section \<open>What a run finds\<close>

definition value_found :: "parser \<Rightarrow> dom_parser \<Rightarrow> (json \<Rightarrow> json) \<Rightarrow> bool list \<Rightarrow> bool" where
  "value_found p d put st \<longleftrightarrow>
     (\<exists>v ts p' d'. value_toks v ts \<and> tok p = hd ts \<and> reads p (tl ts) p'
        \<and> sax_parse_internal False st p d = sax_parse_internal True st p' d'
        \<and> root d' = put v \<and> ref_stack d' = ref_stack d)"

definition finds_value :: "parser \<Rightarrow> bool" where
  "finds_value p \<longleftrightarrow>
     (\<forall>d q put st. ready d q put \<longrightarrow>
        parse_failure (sax_parse_internal False st p d) \<or> value_found p d put st)"

lemma value_foundI:
  "value_toks v (t # ts) \<Longrightarrow> tok p = t \<Longrightarrow> reads p ts p'
     \<Longrightarrow> sax_parse_internal False st p d = sax_parse_internal True st p' d'
     \<Longrightarrow> root d' = put v \<Longrightarrow> ref_stack d' = ref_stack d \<Longrightarrow> value_found p d put st"
  unfolding value_found_def by (intro exI [of _ v] exI [of _ "t # ts"]) auto

definition finds_elements :: "parser \<Rightarrow> bool" where
  "finds_elements p \<longleftrightarrow>
     (\<forall>(d :: dom_parser) d0 q put st ws rs. ready d0 q put \<longrightarrow> root d = put (JArray ws) \<longrightarrow> ref_stack d = q # rs \<longrightarrow>
        parse_failure (sax_parse_internal True (True # st) p d) \<or>
        (\<exists>vs ts p' d'. array_tail vs ts \<and> reads p ts p'
           \<and> sax_parse_internal True (True # st) p d = sax_parse_internal True st p' d'
           \<and> root d' = put (JArray (ws @ vs)) \<and> ref_stack d' = rs))"

definition finds_members :: "parser \<Rightarrow> bool" where
  "finds_members p \<longleftrightarrow>
     (\<forall>(d :: dom_parser) d0 q put st m rs. ready d0 q put \<longrightarrow> root d = put (JObject m) \<longrightarrow> ref_stack d = q # rs \<longrightarrow>
        parse_failure (sax_parse_internal True (False # st) p d) \<or>
        (\<exists>m' ts p' d'. object_tail m ts m' \<and> reads p ts p'
           \<and> sax_parse_internal True (False # st) p d = sax_parse_internal True st p' d'
           \<and> root d' = put (JObject m') \<and> ref_stack d' = rs))"

lemma finds_valueE:
  assumes "finds_value p" "ready d q put"
  obtains "parse_failure (sax_parse_internal False st p d)"
  | v t ts p' d' where "value_toks v (t # ts)" "tok p = t" "reads p ts p'"
      "sax_parse_internal False st p d = sax_parse_internal True st p' d'"
      "root d' = put v" "ref_stack d' = ref_stack d"
proof -
  have "parse_failure (sax_parse_internal False st p d) \<or> value_found p d put st"
    using assms unfolding finds_value_def by blast
  then show thesis
    unfolding value_found_def
  proof (elim disjE exE conjE)
    fix v ts p' d'
    assume "value_toks v ts" "tok p = hd ts" "reads p (tl ts) p'"
      "sax_parse_internal False st p d = sax_parse_internal True st p' d'"
      "root d' = put v" "ref_stack d' = ref_stack d"
    then show thesis using that(2) [of v "hd ts" "tl ts" p' d'] value_toks_nonempty by simp
  qed (rule that(1))
qed

lemma finds_elementsE:
  assumes "finds_elements p" "ready d0 q put" "root d = put (JArray ws)" "ref_stack d = q # rs"
  obtains "parse_failure (sax_parse_internal True (True # st) p d)"
  | vs ts p' d' where "array_tail vs ts" "reads p ts p'"
      "sax_parse_internal True (True # st) p d = sax_parse_internal True st p' d'"
      "root d' = put (JArray (ws @ vs))" "ref_stack d' = rs"
  using assms unfolding finds_elements_def by blast

lemma finds_membersE:
  assumes "finds_members p" "ready d0 q put" "root d = put (JObject m)" "ref_stack d = q # rs"
  obtains "parse_failure (sax_parse_internal True (False # st) p d)"
  | m' ts p' d' where "object_tail m ts m'" "reads p ts p'"
      "sax_parse_internal True (False # st) p d = sax_parse_internal True st p' d'"
      "root d' = put (JObject m')" "ref_stack d' = rs"
  using assms unfolding finds_members_def by blast

section \<open>Elements and members\<close>

text \<open>A value and the elements behind it, from the place the next element goes to.\<close>

lemma finds_value_elements:
  assumes "finds_value p" "\<And>p'. remaining p' \<le> remaining p \<Longrightarrow> finds_elements p'"
    and "ready d0 q put" "root d = put (JArray ws)" "ref_stack d = q # rs"
  obtains "parse_failure (sax_parse_internal False (True # st) p d)"
  | v t ts vs us p' d' where "value_toks v (t # ts)" "tok p = t" "array_tail vs us" "reads p (ts @ us) p'"
      "sax_parse_internal False (True # st) p d = sax_parse_internal True st p' d'"
      "root d' = put (JArray (ws @ v # vs))" "ref_stack d' = rs"
proof (rule finds_valueE [OF assms(1) ready_element [OF assms(3-5)], of "True # st"])
  fix v t ts p2 d2
  assume v: "value_toks v (t # ts)" "tok p = t" "reads p ts p2"
    "sax_parse_internal False (True # st) p d = sax_parse_internal True (True # st) p2 d2"
    "root d2 = put (JArray (ws @ [v]))" "ref_stack d2 = ref_stack d"
  have s: "ref_stack d2 = q # rs" using v(6) assms(5) by simp
  show thesis
  proof (rule finds_elementsE [OF assms(2) [OF reads_remaining [OF v(3)]] assms(3) v(5) s, of st])
    fix vs us p' d'
    assume e: "array_tail vs us" "reads p2 us p'"
      "sax_parse_internal True (True # st) p2 d2 = sax_parse_internal True st p' d'"
      "root d' = put (JArray ((ws @ [v]) @ vs))" "ref_stack d' = rs"
    have "reads p (ts @ us) p'" using v(3) e(2) by (auto simp: reads_append)
    then show thesis using that(2) [OF v(1,2) e(1) _ _ _ e(5)] v(4) e(3,4) by simp
  qed (use that(1) v(4) in simp)
qed (rule that(1))

text \<open>The same for the members of an object, from the key on.\<close>

lemma finds_key_members:
  assumes "finds_value (get_token (get_token p))"
    "\<And>p'. remaining p' \<le> remaining (get_token (get_token p)) \<Longrightarrow> finds_members p'"
    and "ready d0 q put" "root (d :: dom_parser) = put (JObject m)" "ref_stack d = q # rs"
  obtains "parse_failure (key_and_separator p d)"
  | p1 e where "key_and_separator p d = Inr (p1, e)"
      "parse_failure (sax_parse_internal False (False # st) (get_token p1) e)"
  | k v ts us m' p1 e p' d' where "key_and_separator p d = Inr (p1, e)"
      "value_toks v ts" "object_tail (object_put k v m) us m'"
      "tok p = TString k" "reads p (Punct Tok_name_separator # ts @ us) p'"
      "sax_parse_internal False (False # st) (get_token p1) e = sax_parse_internal True st p' d'"
      "root d' = put (JObject m')" "ref_stack d' = rs"
proof -
  define k where "k = token_buffer (m_lexer p)"
  define p1 where "p1 = get_token p"
  obtain e where e: "sax_key k d = Inr e" "ref_stack e = q # rs"
    "ready e (q @ [Key k]) (\<lambda>v. put (JObject (object_put k v m)))"
    by (rule ready_member [OF assms(3-5)])
  show thesis
  proof (cases "last_token p = Tok_value_string \<and> last_token p1 = Tok_name_separator")
    case False
    then have "parse_failure (key_and_separator p d)"
      using e(1) by (auto simp: key_and_separator_def Let_def p1_def k_def)
    then show thesis by (rule that(1))
  next
    case True
    then have t: "tok p = TString k" "tok p1 = Punct Tok_name_separator"
      by (simp_all add: tok_simps(2) k_def tok_punct)
    have ks: "key_and_separator p d = Inr (p1, e)"
      using key_and_separator_ok [OF t(1) _ e(1)] t(2) by (simp add: p1_def)
    show thesis
    proof (rule finds_valueE [OF assms(1) e(3), of "False # st"])
      assume "parse_failure (sax_parse_internal False (False # st) (get_token (get_token p)) e)"
      then show thesis using that(2) [OF ks] by (simp add: p1_def)
    next
      fix v t' ts p2 d2
      assume v: "value_toks v (t' # ts)" "tok (get_token (get_token p)) = t'" "reads (get_token (get_token p)) ts p2"
        "sax_parse_internal False (False # st) (get_token (get_token p)) e = sax_parse_internal True (False # st) p2 d2"
        "root d2 = put (JObject (object_put k v m))" "ref_stack d2 = ref_stack e"
      have s: "ref_stack d2 = q # rs" using v(6) e(2) by simp
      show thesis
      proof (rule finds_membersE [OF assms(2) [OF reads_remaining [OF v(3)]] assms(3) v(5) s, of st])
        assume "parse_failure (sax_parse_internal True (False # st) p2 d2)"
        then show thesis using that(2) [OF ks] v(4) by (simp add: p1_def)
      next
        fix m' us p' d'
        assume o: "object_tail (object_put k v m) us m'" "reads p2 us p'"
          "sax_parse_internal True (False # st) p2 d2 = sax_parse_internal True st p' d'"
          "root d' = put (JObject m')" "ref_stack d' = rs"
        have "reads p (Punct Tok_name_separator # (t' # ts) @ us) p'"
          using t(2) v(2,3) o(2) by (auto simp: p1_def reads_append)
        then show thesis
          using that(3) [OF ks v(1) o(1) t(1), of p' d'] o(4,5) v(4) o(3) by (simp add: p1_def)
      qed
    qed
  qed
qed

section \<open>Soundness\<close>

lemma finds_scalar:
  assumes "value_toks v [tok p]"
    "\<And>st (d :: dom_parser). value_switch st p d = bind_result (sax_value v d) (\<lambda>d. Inr (Break p d))"
  shows "finds_value p"
  unfolding finds_value_def
proof (intro allI impI disjI2)
  fix q put st and d :: dom_parser
  assume r: "ready d q put"
  have "sax_parse_internal False st p d = sax_parse_internal True st p (d\<lparr>root := put v\<rparr>)"
    by (rule sax_break) (simp add: assms(2) ready_handles(1) [OF r])
  then show "value_found p d put st"
    by (intro value_foundI [OF assms(1), where p' = p and d' = "d\<lparr>root := put v\<rparr>"]) simp_all
qed

lemma finds_array:
  assumes "last_token p = Tok_begin_array"
    "\<And>p'. remaining p' < remaining p \<Longrightarrow> finds_value p'" "\<And>p'. remaining p' < remaining p \<Longrightarrow> finds_elements p'"
  shows "finds_value p"
  unfolding finds_value_def
proof (intro allI impI)
  fix q put st and d :: dom_parser
  assume r: "ready d q put"
  define d1 where "d1 = d\<lparr>root := put (JArray []), ref_stack := q # ref_stack d\<rparr>"
  define p1 where "p1 = get_token p"
  have d1: "root d1 = put (JArray [])" "ref_stack d1 = q # ref_stack d" by (simp_all add: d1_def)
  have less: "remaining p1 < remaining p"
    using remaining_get_token(1) [of p] assms(1) by (simp add: p1_def final_token_def)
  have t: "tok p = Punct Tok_begin_array" using assms(1) by (simp add: tok_punct)
  show "parse_failure (sax_parse_internal False st p d) \<or> value_found p d put st"
  proof (cases "last_token p1 = Tok_end_array")
    case True
    then have "reads p [Punct Tok_end_array] p1" by (simp add: tok_punct p1_def)
    moreover obtain d' where "sax_parse_internal False st p d = sax_parse_internal True st p1 d'"
      "root d' = put (JArray [])" "ref_stack d' = ref_stack d"
      by (rule parses_valueD [OF parses_empty(1) _ _ r, of p p1 st])
        (use t \<open>reads p [Punct Tok_end_array] p1\<close> in auto)
    ultimately show ?thesis using value_foundI [OF V_empty_array t] by blast
  next
    case False
    then have sw: "value_switch st p d = Inr (Continue False (True # st) p1 d1)"
      using assms(1) ready_handles(2) [OF r]
      by (simp add: value_switch_def begin_array_case_def Let_def d1_def p1_def)
    note s = sax_switch_continue [OF sw]
    have el: "finds_elements p'" if "remaining p' \<le> remaining p1" for p'
      using assms(3) less that by simp
    show ?thesis
    proof (rule finds_value_elements [OF assms(2) [OF less] el r d1, where st = st])
      assume "parse_failure (sax_parse_internal False (True # st) p1 d1)"
      then show ?thesis using s by simp
    next
      fix v t' ts vs us p' d'
      assume v: "value_toks v (t' # ts)" "tok p1 = t'" "array_tail vs us" "reads p1 (ts @ us) p'"
        "sax_parse_internal False (True # st) p1 d1 = sax_parse_internal True st p' d'"
        "root d' = put (JArray ([] @ v # vs))" "ref_stack d' = ref_stack d"
      have "value_toks (JArray (v # vs)) (Punct Tok_begin_array # (t' # ts) @ us)"
        using v(1,3) by (rule V_array)
      moreover have "reads p ((t' # ts) @ us) p'" using v(2,4) by (simp add: p1_def)
      ultimately show ?thesis using value_foundI [OF _ t, of _ _ p' st d d' put] s v(5-7) by auto
    qed
  qed
qed

lemma finds_object:
  assumes "last_token p = Tok_begin_object"
    "\<And>p'. remaining p' < remaining p \<Longrightarrow> finds_value p'" "\<And>p'. remaining p' < remaining p \<Longrightarrow> finds_members p'"
  shows "finds_value p"
  unfolding finds_value_def
proof (intro allI impI)
  fix q put st and d :: dom_parser
  assume r: "ready d q put"
  define d1 where "d1 = d\<lparr>root := put (JObject []), ref_stack := q # ref_stack d\<rparr>"
  define p1 where "p1 = get_token p"
  have d1: "root d1 = put (JObject [])" "ref_stack d1 = q # ref_stack d" by (simp_all add: d1_def)
  have "remaining p1 < remaining p"
    using remaining_get_token(1) [of p] assms(1) by (simp add: p1_def final_token_def)
  then have less: "remaining (get_token (get_token p1)) < remaining p"
    using remaining_get_token(2) by (meson le_less_trans)
  have t: "tok p = Punct Tok_begin_object" using assms(1) by (simp add: tok_punct)
  show "parse_failure (sax_parse_internal False st p d) \<or> value_found p d put st"
  proof (cases "last_token p1 = Tok_end_object")
    case True
    then have "reads p [Punct Tok_end_object] p1" by (simp add: tok_punct p1_def)
    moreover obtain d' where "sax_parse_internal False st p d = sax_parse_internal True st p1 d'"
      "root d' = put (JObject [])" "ref_stack d' = ref_stack d"
      by (rule parses_valueD [OF parses_empty(2) _ _ r, of p p1 st])
        (use t \<open>reads p [Punct Tok_end_object] p1\<close> in auto)
    ultimately show ?thesis using value_foundI [OF V_empty_object t] by blast
  next
    case False
    then have sw: "value_switch st p d = bind_result (key_and_separator p1 d1) (\<lambda>(p, d).
         Inr (Continue False (False # st) (get_token p) d))"
      using assms(1) ready_handles(3) [OF r]
      by (simp add: value_switch_def begin_object_case_def Let_def d1_def p1_def)
    have mem: "finds_members p'" if "remaining p' \<le> remaining (get_token (get_token p1))" for p'
      using assms(3) less that by simp
    show ?thesis
    proof (rule finds_key_members [OF assms(2) [OF less] mem r d1, where st = st])
      assume "parse_failure (key_and_separator p1 d1)"
      then show ?thesis using failure_switch [of st p d] sw by simp
    next
      fix p2 e
      assume "key_and_separator p1 d1 = Inr (p2, e)"
        "parse_failure (sax_parse_internal False (False # st) (get_token p2) e)"
      then show ?thesis using sax_switch_continue [of st p d False "False # st" "get_token p2" e] sw by simp
    next
      fix k v ts us m' p2 e p' d'
      assume v: "key_and_separator p1 d1 = Inr (p2, e)"
        "value_toks v ts" "object_tail (object_put k v []) us m'" "tok p1 = TString k"
        "reads p1 (Punct Tok_name_separator # ts @ us) p'"
        "sax_parse_internal False (False # st) (get_token p2) e = sax_parse_internal True st p' d'"
        "root d' = put (JObject m')" "ref_stack d' = ref_stack d"
      have "sax_parse_internal False st p d = sax_parse_internal True st p' d'"
        using sax_switch_continue [of st p d False "False # st" "get_token p2" e] sw v(1,6) by simp
      moreover have "reads p (TString k # Punct Tok_name_separator # ts @ us) p'" using v(4,5) by (simp add: p1_def)
      ultimately show ?thesis using value_foundI [OF V_object [OF v(2,3)] t] v(7,8) by blast
    qed
  qed
qed

lemma tok_kinds:
  obtains "tok p = TString (token_buffer (m_lexer p))" "last_token p = Tok_value_string"
  | "tok p = TUint (value_unsigned (m_lexer p))" "last_token p = Tok_value_unsigned"
  | "tok p = TInt (value_integer (m_lexer p))" "last_token p = Tok_value_integer"
  | "tok p = TFloat (value_float (m_lexer p))" "last_token p = Tok_value_float"
  | "tok p = Punct (last_token p)"
  by (cases "last_token p") (simp_all add: tok_def token_of_def)

lemma finds_value_step:
  assumes "\<And>p'. remaining p' < remaining p \<Longrightarrow> finds_value p' \<and> finds_elements p' \<and> finds_members p'"
  shows "finds_value p"
proof -
  have other: "finds_value p" if "\<And>st (d :: dom_parser). parse_failure (value_switch st p d)"
    using that failure_switch by (simp add: finds_value_def)
  have literal: "finds_value p" if "last_token p = t" "value_toks v [Punct t]"
      "t \<in> {Tok_literal_null, Tok_literal_true, Tok_literal_false}"
      "\<And>st (d :: dom_parser). value_switch st p d = bind_result (sax_value v d) (\<lambda>d. Inr (Break p d))" for v t
    by (rule finds_scalar [of v]) (use that in \<open>auto simp: tok_punct\<close>)
  show ?thesis
  proof (cases "last_token p")
    case Tok_begin_array then show ?thesis using finds_array assms by blast
  next
    case Tok_begin_object then show ?thesis using finds_object assms by blast
  next
    case Tok_literal_null
    then show ?thesis by (rule literal) (simp_all add: V_null value_switch_def Tok_literal_null)
  next
    case Tok_literal_true
    then show ?thesis by (rule literal) (simp_all add: V_true value_switch_def Tok_literal_true)
  next
    case Tok_literal_false
    then show ?thesis by (rule literal) (simp_all add: V_false value_switch_def Tok_literal_false)
  next
    case Tok_value_string
    then show ?thesis
      by (intro finds_scalar [of "JString (token_buffer (m_lexer p))"])
        (simp_all add: V_string value_switch_def tok_def token_of_def)
  next
    case Tok_value_unsigned
    then show ?thesis
      by (intro finds_scalar [of "JUint (value_unsigned (m_lexer p))"])
        (simp_all add: V_uint value_switch_def tok_def token_of_def)
  next
    case Tok_value_integer
    then show ?thesis
      by (intro finds_scalar [of "JInt (value_integer (m_lexer p))"])
        (simp_all add: V_int value_switch_def tok_def token_of_def)
  next
    case Tok_value_float
    show ?thesis
    proof (cases "isfinite (value_float (m_lexer p))")
      case True
      then show ?thesis using Tok_value_float
        by (intro finds_scalar [of "JFloat (value_float (m_lexer p))"])
          (simp_all add: V_float value_switch_def value_float_case_def tok_def token_of_def Let_def)
    next
      case False
      then show ?thesis using Tok_value_float
        by (intro other) (simp add: value_switch_def value_float_case_def Let_def out_of_range_create_def)
    qed
  qed (rule other, simp add: value_switch_def)+
qed

lemma finds_elements_step:
  assumes "\<And>p'. remaining p' < remaining p \<Longrightarrow> finds_value p' \<and> finds_elements p' \<and> finds_members p'"
  shows "finds_elements p"
  unfolding finds_elements_def
proof (intro allI impI)
  fix q put st ws rs and d d0 :: dom_parser
  assume a: "ready d0 q put" "root d = put (JArray ws)" "ref_stack d = q # rs"
  define p1 where "p1 = get_token p"
  consider (more) "last_token p1 = Tok_value_separator" | (closed) "last_token p1 = Tok_end_array"
    | (bad) "last_token p1 \<noteq> Tok_value_separator" "last_token p1 \<noteq> Tok_end_array" by blast
  then show "parse_failure (sax_parse_internal True (True # st) p d) \<or>
      (\<exists>vs ts p' d'. array_tail vs ts \<and> reads p ts p'
         \<and> sax_parse_internal True (True # st) p d = sax_parse_internal True st p' d'
         \<and> root d' = put (JArray (ws @ vs)) \<and> ref_stack d' = rs)"
  proof cases
    case bad
    then have "parse_failure (state_evaluation (True # st) p d)"
      by (simp add: state_evaluation_def array_evaluation_def Let_def p1_def)
    then show ?thesis using failure_state by blast
  next
    case closed
    then have r: "reads p [Punct Tok_end_array] p1" by (simp add: tok_punct p1_def)
    obtain d' where "sax_parse_internal True (True # st) p d = sax_parse_internal True st p1 d'"
      "root d' = put (JArray (ws @ []))" "ref_stack d' = rs"
      by (rule parses_elementsD [OF parses_last_element r a, where st = st])
    then show ?thesis using A_end r by (intro disjI2 exI conjI)
  next
    case more
    then have sw: "state_evaluation (True # st) p d = Inr (Continue False (True # st) (get_token p1) d)"
      by (simp add: state_evaluation_def array_evaluation_def Let_def p1_def)
    note s = sax_state_continue [OF sw]
    have "remaining p1 < remaining p"
      using remaining_get_token(3) [of p] more by (simp add: p1_def final_token_def)
    then have "remaining (get_token p1) < remaining p"
      using remaining_get_token(2) by (meson le_less_trans)
    then have val: "finds_value (get_token p1)"
      and el: "\<And>p'. remaining p' \<le> remaining (get_token p1) \<Longrightarrow> finds_elements p'"
      using assms by (blast, meson le_less_trans)
    have t: "tok p1 = Punct Tok_value_separator" using more by (simp add: tok_punct)
    show ?thesis
    proof (rule finds_value_elements [OF val el a, where st = st])
      assume "parse_failure (sax_parse_internal False (True # st) (get_token p1) d)"
      then show ?thesis using s by simp
    next
      fix v t' ts vs us p' d'
      assume v: "value_toks v (t' # ts)" "tok (get_token p1) = t'" "array_tail vs us"
        "reads (get_token p1) (ts @ us) p'"
        "sax_parse_internal False (True # st) (get_token p1) d = sax_parse_internal True st p' d'"
        "root d' = put (JArray (ws @ v # vs))" "ref_stack d' = rs"
      have "array_tail (v # vs) (Punct Tok_value_separator # (t' # ts) @ us)" using v(1,3) by (rule A_next)
      moreover have "reads p (Punct Tok_value_separator # (t' # ts) @ us) p'" using t v(2,4) by (simp add: p1_def)
      ultimately show ?thesis using s v(5-7) by metis
    qed
  qed
qed

lemma finds_members_step:
  assumes "\<And>p'. remaining p' < remaining p \<Longrightarrow> finds_value p' \<and> finds_elements p' \<and> finds_members p'"
  shows "finds_members p"
  unfolding finds_members_def
proof (intro allI impI)
  fix q put st m rs and d d0 :: dom_parser
  assume a: "ready d0 q put" "root d = put (JObject m)" "ref_stack d = q # rs"
  define p1 where "p1 = get_token p"
  consider (more) "last_token p1 = Tok_value_separator" | (closed) "last_token p1 = Tok_end_object"
    | (bad) "last_token p1 \<noteq> Tok_value_separator" "last_token p1 \<noteq> Tok_end_object" by blast
  then show "parse_failure (sax_parse_internal True (False # st) p d) \<or>
      (\<exists>m' ts p' d'. object_tail m ts m' \<and> reads p ts p'
         \<and> sax_parse_internal True (False # st) p d = sax_parse_internal True st p' d'
         \<and> root d' = put (JObject m') \<and> ref_stack d' = rs)"
  proof cases
    case bad
    then have "parse_failure (state_evaluation (False # st) p d)"
      by (simp add: state_evaluation_def object_evaluation_def Let_def p1_def)
    then show ?thesis using failure_state by blast
  next
    case closed
    then have r: "reads p [Punct Tok_end_object] p1" by (simp add: tok_punct p1_def)
    obtain d' where "sax_parse_internal True (False # st) p d = sax_parse_internal True st p1 d'"
      "root d' = put (JObject m)" "ref_stack d' = rs"
      by (rule parses_membersD [OF parses_last_member r a, where st = st])
    then show ?thesis using O_end r by (intro disjI2 exI conjI)
  next
    case more
    define p2 where "p2 = get_token p1"
    have sw: "state_evaluation (False # st) p d = bind_result (key_and_separator p2 d) (\<lambda>(p, d).
         Inr (Continue False (False # st) (get_token p) d))"
      using more by (simp add: state_evaluation_def object_evaluation_def Let_def p1_def p2_def)
    have "remaining p1 < remaining p"
      using remaining_get_token(3) [of p] more by (simp add: p1_def final_token_def)
    then have "remaining (get_token (get_token p2)) < remaining p"
      using remaining_get_token(2) unfolding p2_def by (meson le_less_trans)
    then have val: "finds_value (get_token (get_token p2))"
      and mem: "\<And>p'. remaining p' \<le> remaining (get_token (get_token p2)) \<Longrightarrow> finds_members p'"
      using assms by (blast, meson le_less_trans)
    have t: "tok p1 = Punct Tok_value_separator" using more by (simp add: tok_punct)
    show ?thesis
    proof (rule finds_key_members [OF val mem a, where st = st])
      assume "parse_failure (key_and_separator p2 d)"
      then show ?thesis using failure_state [of "False # st" p d] sw by simp
    next
      fix p3 e
      assume f: "key_and_separator p2 d = Inr (p3, e)"
        "parse_failure (sax_parse_internal False (False # st) (get_token p3) e)"
      have "sax_parse_internal True (False # st) p d = sax_parse_internal False (False # st) (get_token p3) e"
        by (rule sax_state_continue) (simp add: sw f(1))
      then show ?thesis using f(2) by simp
    next
      fix k v ts us m' p3 e p' d'
      assume v: "key_and_separator p2 d = Inr (p3, e)"
        "value_toks v ts" "object_tail (object_put k v m) us m'" "tok p2 = TString k"
        "reads p2 (Punct Tok_name_separator # ts @ us) p'"
        "sax_parse_internal False (False # st) (get_token p3) e = sax_parse_internal True st p' d'"
        "root d' = put (JObject m')" "ref_stack d' = rs"
      have s: "sax_parse_internal True (False # st) p d = sax_parse_internal False (False # st) (get_token p3) e"
        by (rule sax_state_continue) (simp add: sw v(1))
      have "reads p (Punct Tok_value_separator # TString k # Punct Tok_name_separator # ts @ us) p'"
        using t v(4,5) by (simp add: p1_def p2_def)
      then show ?thesis using O_next [OF v(2,3)] s v(6-8) by metis
    qed
  qed
qed

lemma finds: "finds_value p \<and> finds_elements p \<and> finds_members p"
  by (induction p rule: measure_induct_rule [where f = remaining])
    (blast intro: finds_value_step finds_elements_step finds_members_step)

section \<open>The whole text\<close>

text \<open>The tokens of a text: what \<open>get_token\<close> yields, up to the end of the input.\<close>

definition tokens :: "string \<Rightarrow> tok list \<Rightarrow> bool" where
  "tokens s ts \<longleftrightarrow> ts \<noteq> [] \<and> last ts = Punct Tok_end_of_input
     \<and> tok (make_parser s False) = hd ts \<and> (\<exists>p. reads (make_parser s False) (tl ts) p)"

lemma reads_last: "reads p ts q \<Longrightarrow> last (tok p # ts) = tok q"
  by (induction ts arbitrary: p) auto

lemma reads_functional: "reads p ts q \<Longrightarrow> reads p us q' \<Longrightarrow> length ts = length us \<Longrightarrow> ts = us"
proof (induction ts arbitrary: p us)
  case (Cons t ts)
  then show ?case by (cases us) auto
qed simp

lemma sax_return: "sax_parse_internal True [] p d = Inr (p, d)"
  by (simp add: sax_parse_internal.simps [of True] parse_round_def state_evaluation_def)

lemma json_parse_cases:
  obtains "parse_failure (json_parse s)"
  | v ts where "json_parse s = Inr v" "value_toks v ts" "tokens s (ts @ [Punct Tok_end_of_input])"
proof -
  define p where "p = make_parser s False"
  have "parse_failure (sax_parse_internal False [] p (make_dom_parser JNull)) \<or>
      value_found p (make_dom_parser JNull) (\<lambda>v. v) []"
    using finds [of p] ready_start [of JNull] by (auto simp: finds_value_def)
  then show thesis
  proof
    assume "parse_failure (sax_parse_internal False [] p (make_dom_parser JNull))"
    then show thesis using that(1) by (simp add: json_parse_def parser_parse_def p_def)
  next
    assume "value_found p (make_dom_parser JNull) (\<lambda>v. v) []"
    then obtain v ts p' d' where v: "value_toks v ts" "tok p = hd ts" "reads p (tl ts) p'"
      "sax_parse_internal False [] p (make_dom_parser JNull) = sax_parse_internal True [] p' d'" "root d' = v"
      unfolding value_found_def by blast
    then have r: "json_parse s = (let p' = get_token p' in
        if last_token p' \<noteq> Tok_end_of_input then syntax_error Tok_end_of_input ''value'' p' else Inr v)"
      by (simp add: json_parse_def parser_parse_def p_def sax_return Let_def)
    show thesis
    proof (cases "last_token (get_token p') = Tok_end_of_input")
      case True
      then have "reads p (tl ts @ [Punct Tok_end_of_input]) (get_token p')"
        using v(3) by (auto simp: reads_append tok_punct)
      then have "tokens s (ts @ [Punct Tok_end_of_input])"
        using v(2) value_toks_nonempty [OF v(1)] by (auto simp: tokens_def p_def)
      then show thesis using that(2) v(1) r True by simp
    next
      case False
      then show thesis using that(1) r by (simp add: Let_def)
    qed
  qed
qed

lemma json_parse_accepts:
  assumes "value_toks v ts" "tokens s (ts @ [Punct Tok_end_of_input])"
  shows "json_parse s = Inr v"
proof -
  define p where "p = make_parser s False"
  obtain t us where ts: "ts = t # us" using value_toks_hd [OF assms(1)] by metis
  obtain p' where p: "tok p = t" "reads p us p'" "tok (get_token p') = Punct Tok_end_of_input"
    using assms(2) ts by (auto simp: tokens_def p_def reads_append)
  obtain d' where "sax_parse_internal False [] p (make_dom_parser JNull) = sax_parse_internal True [] p' d'" "root d' = v"
    by (rule parses_valueD [OF _ _ _ ready_start [of JNull], of v ts p p' "[]"])
      (use grammar_complete(1) [OF assms(1)] ts p in auto)
  then show ?thesis using tok_simps(1) [OF p(3)]
    by (simp add: json_parse_def parser_parse_def sax_return Let_def flip: p_def)
qed

end
