(* ===== verification/Json_Utf8.thy ===== *)
theory Json_Utf8
  imports Json_Lexer
begin

text \<open>
  Well-formed UTF-8 as the encodings of scalar values, and the byte ranges the lexer checks:
  a lead byte and its followers lie in them exactly when they encode a scalar value.
\<close>

section \<open>Scalar values\<close>

definition scalar :: "nat \<Rightarrow> bool" where
  "scalar cp \<longleftrightarrow> cp < 0xD800 \<or> 0xE000 \<le> cp \<and> cp \<le> 0x10FFFF"

definition utf8_valid :: "string \<Rightarrow> bool" where
  "utf8_valid s \<longleftrightarrow> (\<exists>cps. (\<forall>cp \<in> set cps. scalar cp) \<and> s = concat (map utf8_bytes cps))"

lemma utf8_valid_Nil [simp]: "utf8_valid []"
  by (auto simp: utf8_valid_def intro: exI [of _ "[]"])

lemma utf8_valid_append: "utf8_valid s \<Longrightarrow> utf8_valid t \<Longrightarrow> utf8_valid (s @ t)"
  unfolding utf8_valid_def by (metis Un_iff concat_append map_append set_append)

lemma utf8_valid_bytes: "scalar cp \<Longrightarrow> utf8_valid (utf8_bytes cp)"
  unfolding utf8_valid_def by (rule exI [of _ "[cp]"]) simp

lemma code_char_of: "n < 256 \<Longrightarrow> code (char_of n :: char) = n"
  by (simp add: of_char_of)

lemma code_less: "code c < 256"
  using nat_of_char_less_256 [of c] by simp

lemma char_of_code [simp]: "char_of (code c) = (c :: char)"
  by simp

text \<open>The base-64 digits of a code point.\<close>

lemma base64_digits:
  obtains a b c d where "cp = 64 * (64 * (64 * a + b) + c) + (d :: nat)" "b < 64" "c < 64" "d < 64"
proof -
  obtain x d where "cp = 64 * x + d" "d < 64" using quotient_remainder [of 64 cp] by auto
  moreover obtain y c where "x = 64 * y + c" "c < 64" using quotient_remainder [of 64 x] by auto
  moreover obtain a b where "y = 64 * a + b" "b < 64" using quotient_remainder [of 64 y] by auto
  ultimately show thesis using that by blast
qed

lemma base64_div:
  assumes "b < 64" "c < 64" "d < (64 :: nat)"
  shows "(64 * (64 * (64 * a + b) + c) + d) div 262144 = a"
    "(64 * (64 * (64 * a + b) + c) + d) div 4096 = 64 * a + b"
    "(64 * (64 * (64 * a + b) + c) + d) div 64 = 64 * (64 * a + b) + c"
    "(64 * (64 * (64 * a + b) + c) + d) mod 64 = d"
proof -
  show d: "(64 * (64 * (64 * a + b) + c) + d) div 64 = 64 * (64 * a + b) + c"
    using assms(3) by simp
  have "(64 * x + d) mod 64 = d" for x using assms(3) by simp
  then show "(64 * (64 * (64 * a + b) + c) + d) mod 64 = d" .
  have "n div 4096 = n div 64 div 64" for n :: nat by (simp add: div_mult2_eq [of n 64 64, simplified])
  with d show e: "(64 * (64 * (64 * a + b) + c) + d) div 4096 = 64 * a + b"
    using assms(2) by simp
  have "n div 262144 = n div 4096 div 64" for n :: nat by (simp add: div_mult2_eq [of n 4096 64, simplified])
  with e show "(64 * (64 * (64 * a + b) + c) + d) div 262144 = a" using assms(1) by simp
qed

lemma base64_mod:
  assumes "b < 64" "c < 64" "d < (64 :: nat)"
  shows "(64 * (64 * (64 * a + b) + c) + d) div 4096 mod 64 = b"
    "(64 * (64 * (64 * a + b) + c) + d) div 64 mod 64 = c"
proof -
  have m: "(64 * x + y) mod 64 = y" if "y < 64" for x y :: nat using that by simp
  show "(64 * (64 * (64 * a + b) + c) + d) div 4096 mod 64 = b"
    unfolding base64_div(2) [OF assms] using m assms(1) by simp
  show "(64 * (64 * (64 * a + b) + c) + d) div 64 mod 64 = c"
    unfolding base64_div(3) [OF assms] by (rule m [OF assms(2)])
qed

section \<open>Lead bytes and their followers\<close>

definition follows :: "nat \<Rightarrow> string \<Rightarrow> bool" where
  "follows b bs \<longleftrightarrow> (case utf8_ranges b of
     None \<Rightarrow> False
   | Some rs \<Rightarrow> list_all2 (\<lambda>(lo, hi) c. lo \<le> code c \<and> code c \<le> hi) rs bs)"

text \<open>A scalar value beyond ASCII is a lead byte and its followers.\<close>

lemma utf8_bytes_follow:
  assumes "scalar cp" "0x80 \<le> cp"
  shows "\<exists>c bs. utf8_bytes cp = c # bs \<and> 0x80 \<le> code c \<and> follows (code c) bs"
proof -
  obtain a b c d where cp: "cp = 64 * (64 * (64 * a + b) + c) + d" and l: "b < 64" "c < 64" "d < 64"
    by (rule base64_digits)
  note div = base64_div [OF l, of a, folded cp] base64_mod [OF l, of a, folded cp]
  have a: "a \<le> 4" using assms cp by (auto simp: scalar_def)
  consider "cp \<le> 0x7FF" | "0x7FF < cp" "cp \<le> 0xFFFF" | "0xFFFF < cp" by linarith
  then show ?thesis
  proof cases
    case 1
    then have ab: "a = 0" "b = 0" using cp by simp_all
    then have "c < 32" "2 \<le> c" using 1 cp assms(2) l by simp_all
    with ab show ?thesis
      using 1 assms(2) l div by (simp add: utf8_bytes_def follows_def utf8_ranges_def of_char_of)
  next
    case 2
    then have a0: "a = 0" using cp by simp
    then have "b < 16" "b = 0 \<Longrightarrow> 32 \<le> c" "b = 13 \<Longrightarrow> c < 32"
      using 2 cp assms l by (simp_all add: scalar_def)
    with a0 show ?thesis
      using 2 l div by (auto simp: utf8_bytes_def follows_def utf8_ranges_def of_char_of)
  next
    case 3
    then have "a = 0 \<Longrightarrow> 16 \<le> b" "a = 4 \<Longrightarrow> b < 16"
      using cp assms l by (simp_all add: scalar_def)
    then show ?thesis
      using 3 a l div(1,4-6) by (auto simp: utf8_bytes_def follows_def utf8_ranges_def of_char_of)
  qed
qed

lemma continuation:
  assumes "0x80 \<le> code c" "code c \<le> 0xBF"
  obtains d where "c = char_of (0x80 + d :: nat)" "d < 64" "code c = 0x80 + d"
proof
  show "c = char_of (0x80 + (code c - 0x80))" using assms(1) by simp
  show "code c - 0x80 < 64" "code c = 0x80 + (code c - 0x80)" using assms by linarith+
qed

lemma two_bytes:
  assumes "2 \<le> x" "x < 32" "y < 64"
  shows "utf8_bytes (64 * x + y) = [char_of (0xC0 + x), char_of (0x80 + y)]" "scalar (64 * x + y)"
  using assms by (simp_all add: utf8_bytes_def scalar_def)

lemma three_bytes:
  assumes "x < 16" "y < 64" "z < 64" "x = 0 \<Longrightarrow> 32 \<le> y" "x = 13 \<Longrightarrow> y < 32"
  shows "utf8_bytes (64 * (64 * x + y) + z) = [char_of (0xE0 + x), char_of (0x80 + y), char_of (0x80 + z)]"
    "scalar (64 * (64 * x + y) + z)"
proof -
  note d = base64_div [OF _ assms(2,3), of x 0, simplified] base64_mod [OF _ assms(2,3), of x 0, simplified]
  have "0x800 \<le> 64 * (64 * x + y) + z" using assms(4) by (cases "x = 0") auto
  moreover have "64 * (64 * x + y) + z \<le> 0xFFFF" using assms by simp
  moreover have x: "x < 64" using assms(1) by simp
  ultimately show "utf8_bytes (64 * (64 * x + y) + z) = [char_of (0xE0 + x), char_of (0x80 + y), char_of (0x80 + z)]"
    using d [OF x] by (simp add: utf8_bytes_def)
  show "scalar (64 * (64 * x + y) + z)"
    using assms by (cases "x < 13"; cases "x = 13") (auto simp: scalar_def)
qed

lemma four_bytes:
  assumes "w \<le> 4" "x < 64" "y < 64" "z < 64" "w = 0 \<Longrightarrow> 16 \<le> x" "w = 4 \<Longrightarrow> x < 16"
  shows "utf8_bytes (64 * (64 * (64 * w + x) + y) + z) =
      [char_of (0xF0 + w), char_of (0x80 + x), char_of (0x80 + y), char_of (0x80 + z)]"
    "scalar (64 * (64 * (64 * w + x) + y) + z)"
proof -
  define cp where "cp = 64 * (64 * (64 * w + x) + y) + z"
  note d = base64_div [OF assms(2-4), of w, folded cp_def] base64_mod [OF assms(2-4), of w, folded cp_def]
  have "0xFFFF < cp" using assms(5) by (cases "w = 0") (auto simp: cp_def)
  then show "utf8_bytes (64 * (64 * (64 * w + x) + y) + z) =
      [char_of (0xF0 + w), char_of (0x80 + x), char_of (0x80 + y), char_of (0x80 + z)]"
    unfolding cp_def [symmetric] using d(1,4-6) by (simp add: utf8_bytes_def)
  have "cp \<le> 0x10FFFF" using assms by (cases "w = 4") (auto simp: cp_def)
  with \<open>0xFFFF < cp\<close> show "scalar (64 * (64 * (64 * w + x) + y) + z)"
    unfolding cp_def [symmetric] by (simp add: scalar_def)
qed

lemma lead:
  assumes "lo \<le> code c"
  obtains x where "c = char_of (lo + x)" "x = code c - lo"
  using assms that [of "code c - lo"] by simp

text \<open>And a lead byte with its followers is a scalar value.\<close>

lemma follows_scalar:
  assumes "follows (code c) bs"
  obtains cp where "scalar cp" "0x80 \<le> cp" "c # bs = utf8_bytes cp"
proof -
  have cont: "\<exists>d. c = char_of (0x80 + d :: nat) \<and> d < 64 \<and> code c = 0x80 + d"
    if "0x80 \<le> code c" "code c \<le> 0xBF" for c
    using continuation [OF that] by metis
  obtain rs where rs: "utf8_ranges (code c) = Some rs"
    "list_all2 (\<lambda>(lo, hi) c. lo \<le> code c \<and> code c \<le> hi) rs bs"
    using assms by (auto simp: follows_def split: option.splits)
  consider "0xC2 \<le> code c" "code c \<le> 0xDF" "rs = [(0x80, 0xBF)]"
    | "0xE0 \<le> code c" "code c \<le> 0xEF"
      "\<exists>lo hi. rs = [(lo, hi), (0x80, 0xBF)] \<and> 0x80 \<le> lo \<and> hi \<le> 0xBF \<and> (code c = 0xE0 \<longrightarrow> lo = 0xA0)
         \<and> (code c = 0xED \<longrightarrow> hi = 0x9F)"
    | "0xF0 \<le> code c" "code c \<le> 0xF4"
      "\<exists>lo hi. rs = [(lo, hi), (0x80, 0xBF), (0x80, 0xBF)] \<and> 0x80 \<le> lo \<and> hi \<le> 0xBF
         \<and> (code c = 0xF0 \<longrightarrow> lo = 0x90) \<and> (code c = 0xF4 \<longrightarrow> hi = 0x8F)"
    using rs(1) by (auto simp: utf8_ranges_def split: if_splits)
  then show thesis
  proof cases
    case 1
    then obtain b where b: "bs = [b]" "0x80 \<le> code b" "code b \<le> 0xBF"
      using rs(2) by (auto simp: list_all2_Cons1)
    obtain y :: nat where y: "b = char_of (0x80 + y)" "y < 64" using cont b by blast
    have c: "c = char_of (0xC0 + (code c - 0xC0))" using 1 by simp
    show thesis
      using that two_bytes [of "code c - 0xC0" y] 1 b(1) y c by fastforce
  next
    case 2
    then obtain lo hi where r: "rs = [(lo, hi), (0x80, 0xBF)]" "0x80 \<le> lo" "hi \<le> 0xBF"
      "code c = 0xE0 \<longrightarrow> lo = 0xA0" "code c = 0xED \<longrightarrow> hi = 0x9F" by blast
    then obtain b1 b2 where b: "bs = [b1, b2]" "lo \<le> code b1" "code b1 \<le> hi"
      "0x80 \<le> code b2" "code b2 \<le> 0xBF"
      using rs(2) by (auto simp: list_all2_Cons1)
    obtain y :: nat where y: "b1 = char_of (0x80 + y)" "y < 64" "code b1 = 0x80 + y"
      using cont [of b1] b r by fastforce
    obtain z :: nat where z: "b2 = char_of (0x80 + z)" "z < 64" using cont b by blast
    define x where "x = code c - 0xE0"
    have c: "c = char_of (0xE0 + x)" using 2 by (simp add: x_def)
    have x: "x < 16" "x = 0 \<Longrightarrow> 32 \<le> y" "x = 13 \<Longrightarrow> y < 32"
      using 2 r b y by (auto simp: x_def)
    show thesis
    proof (rule that [OF three_bytes(2) [OF x(1) y(2) z(2) x(2,3)]])
      show "0x80 \<le> 64 * (64 * x + y) + z" using x by (cases "x = 0") auto
      show "c # bs = utf8_bytes (64 * (64 * x + y) + z)"
        using three_bytes(1) [OF x(1) y(2) z(2) x(2,3)] b(1) y(1) z(1) c by simp
    qed simp_all
  next
    case 3
    then obtain lo hi where r: "rs = [(lo, hi), (0x80, 0xBF), (0x80, 0xBF)]" "0x80 \<le> lo" "hi \<le> 0xBF"
      "code c = 0xF0 \<longrightarrow> lo = 0x90" "code c = 0xF4 \<longrightarrow> hi = 0x8F" by blast
    then obtain b1 b2 b3 where b: "bs = [b1, b2, b3]" "lo \<le> code b1" "code b1 \<le> hi"
      "0x80 \<le> code b2" "code b2 \<le> 0xBF" "0x80 \<le> code b3" "code b3 \<le> 0xBF"
      using rs(2) by (auto simp: list_all2_Cons1)
    obtain x :: nat where x: "b1 = char_of (0x80 + x)" "x < 64" "code b1 = 0x80 + x"
      using cont [of b1] b r by fastforce
    obtain y :: nat where y: "b2 = char_of (0x80 + y)" "y < 64" using cont b by blast
    obtain z :: nat where z: "b3 = char_of (0x80 + z)" "z < 64" using cont b by blast
    define w where "w = code c - 0xF0"
    have c: "c = char_of (0xF0 + w)" using 3 by (simp add: w_def)
    have w: "w \<le> 4" "w = 0 \<Longrightarrow> 16 \<le> x" "w = 4 \<Longrightarrow> x < 16"
      using 3 r b x by (auto simp: w_def)
    show thesis
    proof (rule that [OF four_bytes(2) [OF w(1) x(2) y(2) z(2) w(2,3)]])
      show "0x80 \<le> 64 * (64 * (64 * w + x) + y) + z" using w by (cases "w = 0") auto
      show "c # bs = utf8_bytes (64 * (64 * (64 * w + x) + y) + z)"
        using four_bytes(1) [OF w(1) x(2) y(2) z(2) w(2,3)] b(1) x(1) y(1) z(1) c by simp
    qed simp_all
  qed
qed

lemma follows_valid: "follows (code c) bs \<Longrightarrow> utf8_valid (c # bs)"
  using follows_scalar utf8_valid_bytes by metis

lemma ascii_valid: "code c < 0x80 \<Longrightarrow> utf8_valid [c]"
  using utf8_valid_bytes [of "code c"] by (simp add: utf8_bytes_def scalar_def)

end
