(* ===== verification/Json_Strings.thy ===== *)
theory Json_Strings
  imports Json_Utf8 Json_Scan
begin

text \<open>
  What \<open>scan_string\<close> does with the characters it is given: which escape or byte sequence adds
  which characters to the token buffer, and that the buffer of a scanned string is UTF-8.
\<close>

section \<open>Reading a known text\<close>

text \<open>\<open>l'\<close> is \<open>l\<close> after some characters: \<open>rest\<close> is still to come and \<open>s\<close> was added to the buffer.\<close>

definition advanced :: "lexer \<Rightarrow> string \<Rightarrow> string \<Rightarrow> lexer \<Rightarrow> bool" where
  "advanced l rest s l' \<longleftrightarrow>
     eof_ok l' \<and> \<not> next_unget l' \<and> pending_chars l' = rest \<and> token_buffer l' = token_buffer l @ s
       \<and> ignore_comments l' = ignore_comments l \<and> decimal_point_char l' = decimal_point_char l"

lemma advancedD:
  assumes "advanced l r s l'"
  shows "eof_ok l'" "\<not> next_unget l'" "pending_chars l' = r" "token_buffer l' = token_buffer l @ s"
  using assms by (simp_all add: advanced_def)

lemma advanced_get:
  assumes "eof_ok l" "pending_chars l = c # rest"
  shows "current (lexer_get l) = Some c" "advanced l rest [] (lexer_get l)"
  using assms by (simp_all add: advanced_def current_get pending_get_tl)

lemma advanced_trans: "advanced l r s l' \<Longrightarrow> advanced l' r' t l'' \<Longrightarrow> advanced l r' (s @ t) l''"
  by (simp add: advanced_def)

lemma advanced_trans_Nil: "advanced l r [] l' \<Longrightarrow> advanced l' r' t l'' \<Longrightarrow> advanced l r' t l''"
  using advanced_trans by fastforce

lemma advanced_add: "advanced l r s l' \<Longrightarrow> advanced l r (s @ [c]) (lexer_add c l')"
  by (simp add: advanced_def)

lemma advanced_add_current: "advanced l r s l' \<Longrightarrow> current l' = Some c \<Longrightarrow> advanced l r (s @ [c]) (add_current l')"
  by (simp add: advanced_def current_char_def)

lemma advanced_add_all: "advanced l r s l' \<Longrightarrow> advanced l r (s @ t) (fold lexer_add t l')"
proof (induction t arbitrary: s l')
  case (Cons c t)
  show ?case using Cons.IH [OF advanced_add [OF Cons.prems, of c]] by simp
qed simp

text \<open>\<open>text\<close> inside a string literal stands for the characters \<open>s\<close>.\<close>

definition unescapes :: "string \<Rightarrow> string \<Rightarrow> bool" where
  "unescapes text s \<longleftrightarrow>
     (\<forall>l rest. eof_ok l \<longrightarrow> pending_chars l = text @ rest \<longrightarrow> \<not> next_unget l \<longrightarrow>
        (\<exists>l'. scan_string_loop l = scan_string_loop l' \<and> advanced l rest s l'))"

lemma unescapesD:
  assumes "unescapes text s" "eof_ok l" "pending_chars l = text @ rest" "\<not> next_unget l"
  obtains l' where "scan_string_loop l = scan_string_loop l'" "advanced l rest s l'"
  using assms by (auto simp: unescapes_def)

lemma unescapes_Nil: "unescapes [] []"
  by (auto simp: unescapes_def advanced_def)

lemma unescapes_append:
  assumes "unescapes a s" "unescapes b t"
  shows "unescapes (a @ b) (s @ t)"
  unfolding unescapes_def
proof (intro allI impI)
  fix l rest
  assume l: "eof_ok l" "pending_chars l = (a @ b) @ rest" "\<not> next_unget l"
  then obtain l1 where l1: "scan_string_loop l = scan_string_loop l1" "advanced l (b @ rest) s l1"
    using unescapesD [OF assms(1), of l "b @ rest"] by auto
  obtain l2 where "scan_string_loop l1 = scan_string_loop l2" "advanced l1 rest t l2"
    by (rule unescapesD [OF assms(2) advancedD(1,3,2) [OF l1(2)]])
  with l1 show "\<exists>l'. scan_string_loop l = scan_string_loop l' \<and> advanced l rest (s @ t) l'"
    using advanced_trans by metis
qed

lemma unescapes_concat:
  "\<forall>x \<in> set xs. unescapes (f x) (g x) \<Longrightarrow> unescapes (concat (map f xs)) (concat (map g xs))"
  by (induction xs) (simp_all add: unescapes_Nil unescapes_append)

lemma unescapesI:
  assumes "c \<noteq> dquote"
    and "\<And>l rest. eof_ok l \<Longrightarrow> current l = Some c \<Longrightarrow> \<not> next_unget l \<Longrightarrow> pending_chars l = text @ rest
           \<Longrightarrow> \<exists>l'. scan_char c l = (True, l') \<and> advanced l rest s l'"
  shows "unescapes (c # text) s"
  unfolding unescapes_def
proof (intro allI impI)
  fix l rest
  assume l: "eof_ok l" "pending_chars l = (c # text) @ rest" "\<not> next_unget l"
  then have g: "current (lexer_get l) = Some c" "advanced l (text @ rest) [] (lexer_get l)"
    using advanced_get [of l c "text @ rest"] by simp_all
  then obtain l' where l': "scan_char c (lexer_get l) = (True, l')" "advanced (lexer_get l) rest s l'"
    using assms(2) [of "lexer_get l" rest] advancedD [OF g(2)] by blast
  have "scan_string_loop l = scan_string_loop l'"
    using g(1) l'(1) assms(1) by (simp add: scan_string_loop.simps [of l] Let_def)
  with g l' show "\<exists>l'. scan_string_loop l = scan_string_loop l' \<and> advanced l rest s l'"
    using advanced_trans_Nil by blast
qed

lemma advanced_self: "eof_ok l \<Longrightarrow> \<not> next_unget l \<Longrightarrow> pending_chars l = rest \<Longrightarrow> advanced l rest [] l"
  by (simp add: advanced_def)

subsection \<open>Plain characters\<close>

lemma unescapes_ascii:
  assumes "0x1F < code c" "code c \<le> 0x7F" "c \<noteq> dquote" "c \<noteq> backslash"
  shows "unescapes [c] [c]"
proof (rule unescapesI [OF assms(3)])
  fix l rest
  assume "eof_ok l" "current l = Some c" "\<not> next_unget l" "pending_chars l = [] @ rest"
  then have "advanced l rest [c] (add_current l)"
    using advanced_add_current [OF advanced_self] by fastforce
  then show "\<exists>l'. scan_char c l = (True, l') \<and> advanced l rest [c] l'"
    using assms by (simp add: scan_char_def)
qed

lemma next_bytes_ok:
  assumes "list_all2 (\<lambda>(lo, hi) c. lo \<le> code c \<and> code c \<le> hi) rs bs"
    and "eof_ok l" "pending_chars l = bs @ rest" "\<not> next_unget l"
  shows "\<exists>l'. next_bytes rs l = (True, l') \<and> advanced l rest bs l'"
  using assms
proof (induction rs bs arbitrary: l rule: list_all2_induct)
  case Nil
  then show ?case using advanced_self by simp
next
  case (Cons r rs b bs)
  obtain lo hi where r: "r = (lo, hi)" by (cases r)
  have g: "current (lexer_get l) = Some b" "advanced l (bs @ rest) [] (lexer_get l)"
    using advanced_get [of l b "bs @ rest"] Cons.prems by simp_all
  then have a: "advanced l (bs @ rest) [b] (add_current (lexer_get l))"
    using advanced_add_current by fastforce
  then obtain l' where "next_bytes rs (add_current (lexer_get l)) = (True, l')"
      "advanced (add_current (lexer_get l)) rest bs l'"
    using Cons.IH [of "add_current (lexer_get l)"] advancedD [OF a] by blast
  then show ?case
    using g(1) Cons.hyps(1) r advanced_trans [OF a] by (auto simp: Let_def)
qed

lemma unescapes_follows:
  assumes "follows (code c) bs" "0x80 \<le> code c"
  shows "unescapes (c # bs) (c # bs)"
proof (rule unescapesI)
  show "c \<noteq> dquote" using assms(2) by (auto simp: dquote_def)
  have b: "c \<noteq> backslash" using assms(2) by (auto simp: backslash_def)
  obtain rs where rs: "utf8_ranges (code c) = Some rs"
    "list_all2 (\<lambda>(lo, hi) c. lo \<le> code c \<and> code c \<le> hi) rs bs"
    using assms(1) by (auto simp: follows_def split: option.splits)
  fix l rest
  assume l: "eof_ok l" "current l = Some c" "\<not> next_unget l" "pending_chars l = bs @ rest"
  then have a: "advanced l (bs @ rest) [c] (add_current l)"
    using advanced_add_current [OF advanced_self] by fastforce
  then obtain l' where l': "next_bytes rs (add_current l) = (True, l')" "advanced (add_current l) rest bs l'"
    using next_bytes_ok [OF rs(2), of "add_current l" rest] advancedD [OF a] by blast
  have "scan_char c l = (True, l')"
    using assms(2) b rs(1) l'(1) by (simp add: scan_char_def next_byte_in_range_def)
  moreover have "advanced l rest (c # bs) l'" using advanced_trans [OF a l'(2)] by simp
  ultimately show "\<exists>l'. scan_char c l = (True, l') \<and> advanced l rest (c # bs) l'" by blast
qed

subsection \<open>Escapes\<close>

lemma scan_char_escape: "scan_char backslash l = scan_escape l"
  by (simp add: scan_char_def)

lemma backslash_not_dquote: "backslash \<noteq> dquote"
  by (simp add: backslash_def dquote_def)

lemma unescapes_simple:
  assumes "simple_escape c = Some d"
  shows "unescapes [backslash, c] [d]"
proof (rule unescapesI [OF backslash_not_dquote])
  fix l rest
  assume "eof_ok l" "pending_chars l = [c] @ rest" "\<not> next_unget l"
  then have g: "current (lexer_get l) = Some c" "advanced l rest [] (lexer_get l)"
    using advanced_get [of l c rest] by simp_all
  then show "\<exists>l'. scan_char backslash l = (True, l') \<and> advanced l rest [d] l'"
    using assms advanced_add [OF g(2), of d] by (simp add: scan_char_escape scan_escape_def Let_def)
qed

end
