(* ===== verification/Json_Escapes.thy ===== *)
theory Json_Escapes
  imports Json_Strings Json_Serializer
begin

text \<open>
  The escapes the serializer writes, read back by the lexer: four hexadecimal digits, single
  code units and surrogate pairs, and what a whole string literal leaves in the token buffer.
\<close>

section \<open>Hexadecimal digits\<close>

lemma lower_hex_value:
  assumes "n < 16"
  shows "hex_value (Some (lower_hex n)) = Some n"
  using assms by (auto simp: lower_hex_def hex_value_def digit_def less_eq_char_def of_char_of)

lemma read_hex_digits:
  assumes "list_all (\<lambda>d. d < 16) ds" "length ds = length fs" "eof_ok l" "\<not> next_unget l"
    and "pending_chars l = map lower_hex ds @ rest"
  shows "\<exists>l'. read_hex fs n l = (Some (n + sum_list (map2 (\<lambda>d f. d * 2 ^ f) ds fs)), l')
     \<and> advanced l rest [] l'"
  using assms
proof (induction ds arbitrary: fs n l)
  case Nil
  then show ?case by (simp add: advanced_self)
next
  case (Cons d ds)
  then obtain f fs' where fs: "fs = f # fs'" by (cases fs) auto
  have g: "current (lexer_get l) = Some (lower_hex d)" "advanced l (map lower_hex ds @ rest) [] (lexer_get l)"
    using advanced_get [of l "lower_hex d" "map lower_hex ds @ rest"] Cons.prems by simp_all
  have "\<exists>l'. read_hex fs' (n + d * 2 ^ f) (lexer_get l)
      = (Some (n + d * 2 ^ f + sum_list (map2 (\<lambda>d f. d * 2 ^ f) ds fs')), l') \<and> advanced (lexer_get l) rest [] l'"
    using Cons.IH [of fs' "lexer_get l" "n + d * 2 ^ f"] Cons.prems fs advancedD [OF g(2)] by simp
  then show ?case
    using g lower_hex_value [of d] Cons.prems(1) fs advanced_trans_Nil [OF g(2)]
    by (auto simp: Let_def add.assoc)
qed

lemma hex4_value:
  assumes "n < (65536 :: nat)"
  shows "n div 4096 mod 16 * 4096 + (n div 256 mod 16 * 256 + (n div 16 mod 16 * 16 + n mod 16)) = n"
proof -
  have "n mod 16 + 16 * (n div 16) = n" by simp
  moreover have "n div 16 mod 16 + 16 * (n div 256) = n div 16"
    using div_mult2_eq [of n 16 16] by simp
  moreover have "n div 256 mod 16 + 16 * (n div 4096) = n div 256"
    using div_mult2_eq [of n 256 16] by simp
  moreover have "n div 4096 mod 16 = n div 4096" using assms by simp
  ultimately show ?thesis by linarith
qed

lemma get_codepoint_hex4:
  assumes "n < 65536" "eof_ok l" "\<not> next_unget l" "pending_chars l = hex4 n @ rest"
  shows "\<exists>l'. get_codepoint l = (Some n, l') \<and> advanced l rest [] l'"
proof -
  define a b c d where "a = n div 4096 mod 16" and "b = n div 256 mod 16" and "c = n div 16 mod 16"
    and "d = n mod 16"
  have n: "a * 4096 + (b * 256 + (c * 16 + d)) = n"
    using hex4_value [OF assms(1)] unfolding a_def b_def c_def d_def .
  have "list_all (\<lambda>d. d < 16) [a, b, c, d]" by (simp add: a_def b_def c_def d_def)
  moreover have "pending_chars l = map lower_hex [a, b, c, d] @ rest"
    using assms(4) by (simp add: hex4_def a_def b_def c_def d_def)
  ultimately have "\<exists>l'. read_hex [12, 8, 4, 0] 0 l
      = (Some (0 + sum_list (map2 (\<lambda>d f. d * 2 ^ f) [a, b, c, d] [12, 8, 4, 0])), l') \<and> advanced l rest [] l'"
    by (intro read_hex_digits) (use assms in simp_all)
  moreover have "0 + sum_list (map2 (\<lambda>d f. d * 2 ^ f) [a, b, c, d] [12, 8, 4, 0]) = n"
    using n by simp
  ultimately show ?thesis unfolding get_codepoint_def by metis
qed

section \<open>Code points\<close>

lemma unescapes_unicode:
  assumes "n < 65536" "scalar n"
  shows "unescapes (unicode_escape n) (utf8_bytes n)"
  unfolding unicode_escape_def
proof (rule unescapesI [OF backslash_not_dquote])
  fix l rest
  assume l: "eof_ok l" "pending_chars l = (CHR ''u'' # hex4 n) @ rest" "\<not> next_unget l"
  then have g: "current (lexer_get l) = Some CHR ''u''" "advanced l (hex4 n @ rest) [] (lexer_get l)"
    using advanced_get [of l "CHR ''u''" "hex4 n @ rest"] by simp_all
  obtain l1 where l1: "get_codepoint (lexer_get l) = (Some n, l1)" "advanced (lexer_get l) rest [] l1"
    using get_codepoint_hex4 [OF assms(1) advancedD(1-3) [OF g(2)]] by blast
  have "simple_escape CHR ''u'' = None" by (simp add: simple_escape_def dquote_def backslash_def)
  then have "scan_char backslash l = (True, add_codepoint n l1)"
    using assms g(1) l1(1)
    by (auto simp: scan_char_escape scan_escape_def scan_unicode_escape_def Let_def scalar_def)
  moreover have "advanced l rest (utf8_bytes n) (add_codepoint n l1)"
    using advanced_add_all [OF advanced_trans_Nil [OF g(2) l1(2)], of "utf8_bytes n"]
    by (simp add: add_codepoint_def)
  ultimately show "\<exists>l'. scan_char backslash l = (True, l') \<and> advanced l rest (utf8_bytes n) l'" by blast
qed

lemma unescapes_surrogates:
  assumes "0x10000 \<le> cp" "cp \<le> 0x10FFFF"
  shows "unescapes (unicode_escape (0xD7C0 + cp div 1024) @ unicode_escape (0xDC00 + cp mod 1024)) (utf8_bytes cp)"
proof -
  define hi lo where "hi = 0xD7C0 + cp div 1024" and "lo = 0xDC00 + cp mod 1024"
  have hi: "0xD800 \<le> hi" "hi \<le> 0xDBFF" using assms by (simp_all add: hi_def) 
  have lo: "0xDC00 \<le> lo" "lo \<le> 0xDFFF" by (simp_all add: lo_def)
  have cp: "hi * 1024 + lo - 0x35FDC00 = cp" by (simp add: hi_def lo_def algebra_simps)
  have "unescapes (backslash # (CHR ''u'' # hex4 hi) @ unicode_escape lo) (utf8_bytes cp)"
  proof (rule unescapesI [OF backslash_not_dquote])
    fix l rest
    assume l: "eof_ok l" "pending_chars l = ((CHR ''u'' # hex4 hi) @ unicode_escape lo) @ rest" "\<not> next_unget l"
    then have g: "current (lexer_get l) = Some CHR ''u''"
      "advanced l (hex4 hi @ backslash # CHR ''u'' # hex4 lo @ rest) [] (lexer_get l)"
      using advanced_get [of l "CHR ''u''" "hex4 hi @ backslash # CHR ''u'' # hex4 lo @ rest"]
      by (simp_all add: unicode_escape_def)
    obtain l1 where l1: "get_codepoint (lexer_get l) = (Some hi, l1)"
      "advanced (lexer_get l) (backslash # CHR ''u'' # hex4 lo @ rest) [] l1"
      using get_codepoint_hex4 [OF _ advancedD(1-3) [OF g(2)]] hi by fastforce
    have g2: "current (lexer_get l1) = Some backslash" "advanced l1 (CHR ''u'' # hex4 lo @ rest) [] (lexer_get l1)"
      using advanced_get [OF advancedD(1,3) [OF l1(2)]] by simp_all
    have g3: "current (lexer_get (lexer_get l1)) = Some CHR ''u''"
      "advanced (lexer_get l1) (hex4 lo @ rest) [] (lexer_get (lexer_get l1))"
      using advanced_get [OF advancedD(1,3) [OF g2(2)]] by simp_all
    obtain l2 where l2: "get_codepoint (lexer_get (lexer_get l1)) = (Some lo, l2)"
      "advanced (lexer_get (lexer_get l1)) rest [] l2"
      using get_codepoint_hex4 [OF _ advancedD(1-3) [OF g3(2)]] lo by fastforce
    have "simple_escape CHR ''u'' = None" by (simp add: simple_escape_def dquote_def backslash_def)
    then have "scan_char backslash l = (True, add_codepoint cp l2)"
      using g(1) l1(1) hi g2(1) g3(1) l2(1) lo cp
      by (simp add: scan_char_escape scan_escape_def scan_unicode_escape_def scan_second_surrogate_def Let_def)
    moreover have "advanced l rest [] l2"
      using g(2) l1(2) g2(2) g3(2) l2(2) by (meson advanced_trans_Nil)
    then have "advanced l rest (utf8_bytes cp) (add_codepoint cp l2)"
      using advanced_add_all [of l rest "[]" l2 "utf8_bytes cp"] by (simp add: add_codepoint_def)
    ultimately show "\<exists>l'. scan_char backslash l = (True, l') \<and> advanced l rest (utf8_bytes cp) l'" by blast
  qed
  then show ?thesis by (simp add: unicode_escape_def hi_def lo_def)
qed

section \<open>Whole literals\<close>

lemma scan_string_reads:
  assumes "unescapes text s" "eof_ok l" "\<not> next_unget l" "pending_chars l = text @ dquote # rest"
  shows "\<exists>l'. scan_string l = (Tok_value_string, l') \<and> eof_ok l' \<and> pending_chars l' = rest
     \<and> token_buffer l' = s \<and> ignore_comments l' = ignore_comments l
     \<and> decimal_point_char l' = decimal_point_char l"
proof -
  obtain l1 where l1: "scan_string l = scan_string_loop l1" "advanced (lexer_reset l) (dquote # rest) s l1"
    by (rule unescapesD [OF assms(1), of "lexer_reset l" "dquote # rest"])
      (use assms in \<open>simp_all add: scan_string_def\<close>)
  have g: "current (lexer_get l1) = Some dquote" "advanced l1 rest [] (lexer_get l1)"
    using advanced_get [OF advancedD(1,3) [OF l1(2)]] by simp_all
  then have "scan_string l = (Tok_value_string, lexer_get l1)"
    using l1(1) by (simp add: scan_string_loop.simps [of l1] Let_def)
  then show ?thesis using g(2) l1(2) by (simp add: advanced_def)
qed

end
