(* ===== verification/Json_Tokens.thy ===== *)
theory Json_Tokens
  imports Json_Sound Json_Escapes
begin

text \<open>
  Which tokens a text is made of, said of the text alone: white space, then the spelling of a
  token that the next character does not prolong, and so on. The lexer yields exactly these
  tokens, whatever state earlier tokens left it in.
\<close>

section \<open>Where the lexer stands\<close>

definition fresh :: "lexer \<Rightarrow> string \<Rightarrow> bool" where
  "fresh l s \<longleftrightarrow> eof_ok l \<and> pending_chars l = s \<and> \<not> ignore_comments l \<and> decimal_point_char l = CHR ''.''"

definition standing :: "lexer \<Rightarrow> char \<Rightarrow> string \<Rightarrow> bool" where
  "standing l c s \<longleftrightarrow> fresh l s \<and> current l = Some c \<and> \<not> next_unget l"

lemma fresh_make [simp]: "fresh (make_lexer s False) s"
  by (simp add: fresh_def) (simp add: make_lexer_def)

lemma standing_get: "fresh l (c # s) \<Longrightarrow> standing (lexer_get l) c s"
  by (simp add: standing_def fresh_def current_get pending_get_tl)

lemma get_at_end: "fresh l [] \<Longrightarrow> current (lexer_get l) = None \<and> fresh (lexer_get l) []"
  by (simp add: fresh_def current_get pending_get_tl)

lemma fresh_unget_get: "fresh l s \<Longrightarrow> fresh (lexer_unget (lexer_get l)) s"
  by (simp add: fresh_def unget_get)

lemma fresh_frame [simp]:
  "fresh (lexer_add c l) s = fresh l s" "fresh (add_current l) s = fresh l s"
  "fresh (lexer_reset l) s = fresh l s"
  "fresh (l\<lparr>value_unsigned := w\<rparr>) s = fresh l s" "fresh (l\<lparr>value_integer := w\<rparr>) s = fresh l s"
  "fresh (l\<lparr>value_float := w\<rparr>) s = fresh l s"
  by (simp_all add: fresh_def pending_chars_def eof_ok_def)

section \<open>From one token to the next\<close>

definition spaces :: "string \<Rightarrow> bool" where
  "spaces s \<longleftrightarrow> list_all (\<lambda>c. whitespace (Some c)) s"

lemma spaces_simps [simp]:
  "spaces []" "spaces (c # s) \<longleftrightarrow> whitespace (Some c) \<and> spaces s" "spaces (a @ b) \<longleftrightarrow> spaces a \<and> spaces b"
  by (simp_all add: spaces_def)

lemma skip_bom_none:
  assumes "fresh l s" "\<forall>r. s \<noteq> CHR 0xEF # r"
  shows "\<exists>l'. skip_bom l = (True, l') \<and> fresh l' s"
proof -
  have "current (lexer_get l) \<noteq> Some CHR 0xEF"
    using assms get_at_end [of l] standing_get [of l]
    by (cases s) (auto simp: standing_def)
  then show ?thesis using fresh_unget_get [OF assms(1)] by (simp add: skip_bom_def Let_def)
qed

lemma skip_spaces_to:
  "fresh l (w @ c # s) \<Longrightarrow> spaces w \<Longrightarrow> \<not> whitespace (Some c) \<Longrightarrow> standing (skip_whitespace l) c s"
proof (induction w arbitrary: l)
  case Nil
  then have "standing (lexer_get l) c s" by (simp add: standing_get)
  then show ?case using Nil(3) by (simp add: skip_whitespace.simps [of l] Let_def standing_def)
next
  case (Cons d w)
  then have "standing (lexer_get l) d (w @ c # s)" by (simp add: standing_get)
  then show ?case using Cons by (simp add: skip_whitespace.simps [of l] Let_def standing_def)
qed

lemma skip_spaces_end:
  "fresh l w \<Longrightarrow> spaces w \<Longrightarrow> fresh (skip_whitespace l) [] \<and> current (skip_whitespace l) = None"
proof (induction w arbitrary: l)
  case Nil
  then show ?case using get_at_end [of l] by (simp add: skip_whitespace.simps [of l] Let_def whitespace_def)
next
  case (Cons d w)
  then have "standing (lexer_get l) d w" by (simp add: standing_get)
  then show ?case using Cons by (simp add: skip_whitespace.simps [of l] Let_def standing_def)
qed

lemma scan_from:
  assumes "fresh l s" "\<forall>r. s \<noteq> CHR 0xEF # r"
  obtains l' where "fresh l' s"
    "scan l = (case skip_comments (skip_whitespace l') of (False, k) \<Rightarrow> (Tok_parse_error, k) | (True, k) \<Rightarrow> scan_token k)"
proof (cases "chars_read_total (position l) = 0")
  case True
  then show ?thesis using skip_bom_none [OF assms] that by (auto simp: scan_def Let_def)
next
  case False
  then show ?thesis using assms(1) that by (simp add: scan_def Let_def)
qed

lemma no_comments: "\<not> ignore_comments l \<Longrightarrow> skip_comments l = (True, l)"
  by (simp add: skip_comments.simps)

lemma scan_to:
  assumes "fresh l (w @ c # s)" "spaces w" "\<not> whitespace (Some c)" "c \<noteq> CHR 0xEF"
  obtains k where "scan l = scan_token k" "standing k c s"
proof -
  have "\<forall>r. w @ c # s \<noteq> CHR 0xEF # r" using assms(2,4) by (cases w) (auto simp: whitespace_def)
  then obtain l' where l': "fresh l' (w @ c # s)"
    "scan l = (case skip_comments (skip_whitespace l') of (False, k) \<Rightarrow> (Tok_parse_error, k) | (True, k) \<Rightarrow> scan_token k)"
    using scan_from [OF assms(1)] by metis
  have k: "standing (skip_whitespace l') c s" using skip_spaces_to [OF l'(1) assms(2,3)] .
  then have "skip_comments (skip_whitespace l') = (True, skip_whitespace l')"
    by (intro no_comments) (simp add: standing_def fresh_def)
  then show thesis using that [of "skip_whitespace l'"] l'(2) k by simp
qed

lemma scan_end:
  assumes "fresh l w" "spaces w"
  shows "\<exists>k. scan l = (Tok_end_of_input, k)"
proof -
  have "\<forall>r. w \<noteq> CHR 0xEF # r" using assms(2) by (cases w) (auto simp: whitespace_def)
  then obtain l' where l': "fresh l' w"
    "scan l = (case skip_comments (skip_whitespace l') of (False, k) \<Rightarrow> (Tok_parse_error, k) | (True, k) \<Rightarrow> scan_token k)"
    using scan_from [OF assms(1)] by metis
  have k: "fresh (skip_whitespace l') []" "current (skip_whitespace l') = None"
    using skip_spaces_end [OF l'(1) assms(2)] by auto
  then show ?thesis using l'(2) by (simp add: no_comments fresh_def scan_token_def)
qed

section \<open>Spellings\<close>

text \<open>What may not follow a number.\<close>

definition prolongs :: "char \<Rightarrow> bool" where
  "prolongs c \<longleftrightarrow> is_digit c \<or> c = CHR ''.'' \<or> c = CHR ''e'' \<or> c = CHR ''E''"

fun delimited :: "tok \<Rightarrow> string \<Rightarrow> bool" where
  "delimited (Punct t) s = True"
| "delimited (TString x) s = True"
| "delimited _ s = (case s of [] \<Rightarrow> True | c # _ \<Rightarrow> \<not> prolongs c)"

definition spells :: "string \<Rightarrow> tok \<Rightarrow> bool" where
  "spells text t \<longleftrightarrow>
     (\<exists>c s. text = c # s \<and> \<not> whitespace (Some c) \<and> c \<noteq> CHR 0xEF \<and>
        (\<forall>l rest. standing l c (s @ rest) \<longrightarrow> delimited t rest \<longrightarrow>
           (\<exists>ty l'. scan_token l = (ty, l') \<and> token_of ty l' = t \<and> fresh l' rest)))"

inductive denotes :: "string \<Rightarrow> tok list \<Rightarrow> bool" where
  D_end: "spaces w \<Longrightarrow> denotes w []"
| D_tok: "spaces w \<Longrightarrow> spells text t \<Longrightarrow> delimited t rest \<Longrightarrow> denotes rest ts
     \<Longrightarrow> denotes (w @ text @ rest) (t # ts)"

lemma get_token_spells:
  assumes "spells text t" "fresh (m_lexer p) (w @ text @ rest)" "spaces w" "delimited t rest"
  shows "tok (get_token p) = t \<and> fresh (m_lexer (get_token p)) rest"
proof -
  obtain c s where c: "text = c # s" "\<not> whitespace (Some c)" "c \<noteq> CHR 0xEF"
    and s: "\<And>l rest. standing l c (s @ rest) \<Longrightarrow> delimited t rest \<Longrightarrow>
           \<exists>ty l'. scan_token l = (ty, l') \<and> token_of ty l' = t \<and> fresh l' rest"
    using assms(1) unfolding spells_def by blast
  obtain k where k: "scan (m_lexer p) = scan_token k" "standing k c (s @ rest)"
    using scan_to [OF _ assms(3) c(2,3), of "m_lexer p" "s @ rest"] assms(2) c(1) by auto
  show ?thesis using s [OF k(2) assms(4)] k(1) by (auto simp: get_token_def tok_def)
qed

lemma denotes_reads:
  "denotes s ts \<Longrightarrow> fresh (m_lexer p) s \<Longrightarrow> \<exists>q. reads p (ts @ [Punct Tok_end_of_input]) q"
proof (induction arbitrary: p rule: denotes.induct)
  case (D_end w)
  obtain k where "scan (m_lexer p) = (Tok_end_of_input, k)" using scan_end [OF D_end(2,1)] by blast
  then have "tok (get_token p) = Punct Tok_end_of_input" by (simp add: get_token_def tok_punct)
  then show ?case by simp
next
  case (D_tok w s t rest ts)
  then show ?case using get_token_spells [OF D_tok(2,6,1,3)] by simp
qed

lemma denotes_tokens:
  assumes "denotes s ts"
  shows "tokens s (ts @ [Punct Tok_end_of_input])"
proof -
  define p where "p = \<lparr>last_token = Tok_uninitialized, m_lexer = make_lexer s False\<rparr>"
  obtain q where "reads p (ts @ [Punct Tok_end_of_input]) q"
    using denotes_reads [OF assms, of p] by (auto simp: p_def)
  moreover have "last (ts @ [Punct Tok_end_of_input]) = Punct Tok_end_of_input" by simp
  ultimately show ?thesis
    by (cases "ts @ [Punct Tok_end_of_input]") (auto simp del: last_snoc simp: tokens_def make_parser_def p_def)
qed

section \<open>Punctuation, literals, strings\<close>

lemma spells_punct:
  "spells ''['' (Punct Tok_begin_array)" "spells '']'' (Punct Tok_end_array)"
  "spells ''{'' (Punct Tok_begin_object)" "spells ''}'' (Punct Tok_end_object)"
  "spells '':'' (Punct Tok_name_separator)" "spells '','' (Punct Tok_value_separator)"
  by (simp_all add: spells_def whitespace_def standing_def scan_token_def token_of_def)

lemma literal_rest_reads:
  "fresh l (cs @ rest) \<Longrightarrow> \<exists>l'. scan_literal_rest cs t l = (t, l') \<and> fresh l' rest"
proof (induction cs arbitrary: l)
  case (Cons c cs)
  then have "standing (lexer_get l) c (cs @ rest)" by (simp add: standing_get)
  then show ?case using Cons.IH [of "lexer_get l"] by (simp add: Let_def standing_def current_char_def)
qed simp

lemma spells_literal:
  assumes "\<And>l. current l = Some c \<Longrightarrow> scan_token l = scan_literal (c # cs) ty l"
    "\<not> whitespace (Some c)" "c \<noteq> CHR 0xEF" "\<And>l. token_of ty l = t"
  shows "spells (c # cs) t"
  unfolding spells_def
proof (intro exI [of _ c] exI [of _ cs] conjI allI impI)
  fix l rest
  assume l: "standing l c (cs @ rest)"
  then obtain l' where "scan_literal_rest cs ty l = (ty, l')" "fresh l' rest"
    using literal_rest_reads [of l cs rest ty] by (auto simp: standing_def)
  then show "\<exists>ty l'. scan_token l = (ty, l') \<and> token_of ty l' = t \<and> fresh l' rest"
    using assms(1,4) l by (simp add: standing_def scan_literal_def)
qed (use assms(2,3) in simp_all)

lemma spells_literals:
  "spells ''true'' (Punct Tok_literal_true)" "spells ''false'' (Punct Tok_literal_false)"
  "spells ''null'' (Punct Tok_literal_null)"
  by (rule spells_literal [where ty = Tok_literal_true] spells_literal [where ty = Tok_literal_false]
      spells_literal [where ty = Tok_literal_null]; simp add: scan_token_def whitespace_def token_of_def)+

lemma spells_string:
  assumes "unescapes text s"
  shows "spells (dquote # text @ [dquote]) (TString s)"
  unfolding spells_def
proof (intro exI [of _ dquote] exI [of _ "text @ [dquote]"] conjI allI impI)
  fix l rest
  assume l: "standing l dquote ((text @ [dquote]) @ rest)"
  have "scan_token l = scan_string l"
    using l by (simp add: standing_def scan_token_def) (simp add: dquote_def)
  moreover obtain l' where "scan_string l = (Tok_value_string, l')" "fresh l' rest" "token_buffer l' = s"
    using scan_string_reads [OF assms, of l rest] l by (auto simp: standing_def fresh_def)
  ultimately show "\<exists>ty l'. scan_token l = (ty, l') \<and> token_of ty l' = TString s \<and> fresh l' rest"
    by (simp add: token_of_def)
qed (simp_all add: whitespace_def dquote_def)

end
