(* ===== verification/Json_Numerals.thy ===== *)
theory Json_Numerals
  imports Json_Tokens
begin

text \<open>
  Number literals: the texts the automaton of \<open>scan_number\<close> accepts and the token each of them
  becomes, and the decimal texts of integers the serializer writes.
\<close>

section \<open>The parts of a number\<close>

definition stops :: "string \<Rightarrow> bool" where
  "stops s \<longleftrightarrow> (case s of [] \<Rightarrow> True | c # _ \<Rightarrow> \<not> prolongs c)"

definition digits :: "string \<Rightarrow> bool" where
  "digits s \<longleftrightarrow> s \<noteq> [] \<and> list_all is_digit s"

definition whole_part :: "string \<Rightarrow> bool" where
  "whole_part s \<longleftrightarrow> s = ''0'' \<or> digits s \<and> hd s \<noteq> CHR ''0''"

definition fraction_part :: "string \<Rightarrow> bool" where
  "fraction_part s \<longleftrightarrow> s = [] \<or> hd s = CHR ''.'' \<and> digits (tl s)"

definition exponent_part :: "string \<Rightarrow> bool" where
  "exponent_part s \<longleftrightarrow> s = [] \<or>
     (\<exists>c sg ds. s = c # sg @ ds \<and> exponent_char (Some c) \<and> sg \<in> {[], ''+'', ''-''} \<and> digits ds)"

text \<open>The token of a number whose text was classified as \<open>t\<close>.\<close>

definition conversion :: "token_type \<Rightarrow> string \<Rightarrow> tok" where
  "conversion t s =
     (if t = Tok_value_unsigned \<and> snd (strtoull s) then TUint (fst (strtoull s))
      else if t = Tok_value_integer \<and> snd (strtoll s) then TInt (fst (strtoll s))
      else TFloat (strtod CHR ''.'' s))"

definition yields :: "token_type \<times> lexer \<Rightarrow> token_type \<Rightarrow> string \<Rightarrow> string \<Rightarrow> bool" where
  "yields r t s rest \<longleftrightarrow> token_of (fst r) (snd r) = conversion t s \<and> fresh (snd r) rest"

lemma yields_done:
  assumes "fresh l rest" "token_buffer l = s"
  shows "yields (number_done t (lexer_get l)) t s rest"
proof -
  have "fresh (lexer_unget (lexer_get l)) rest" using assms(1) by (rule fresh_unget_get)
  moreover have "decimal_point_char l = CHR ''.''" using assms(1) by (simp add: fresh_def)
  ultimately show ?thesis
    using assms(2)
    by (simp add: yields_def number_done_def Let_def conversion_def token_of_def split: prod.split)
qed

lemma stops_current:
  assumes "fresh l rest" "stops rest"
  shows "\<not> digit_char (current (lexer_get l))" "current (lexer_get l) \<noteq> Some CHR ''.''"
    "\<not> exponent_char (current (lexer_get l))"
  using assms get_at_end [of l] standing_get [of l]
  by (cases rest; auto simp: stops_def prolongs_def digit_char_def exponent_char_def standing_def)+

lemma standing_add: "standing l c s \<Longrightarrow> fresh (add_current l) s \<and> token_buffer (add_current l) = token_buffer l @ [c]"
  by (simp add: standing_def current_char_def)

lemma standing_current: "standing l c s \<Longrightarrow> current l = Some c"
  by (simp add: standing_def)

lemma token_buffer_step:
  assumes "fresh l (c # s)"
  shows "fresh (add_current (lexer_get l)) s" "token_buffer (add_current (lexer_get l)) = token_buffer l @ [c]"
    "current (lexer_get l) = Some c"
  using standing_add [OF standing_get [OF assms]] standing_current [OF standing_get [OF assms]] by simp_all

lemma digit_not:
  "is_digit c \<Longrightarrow> c \<noteq> CHR ''.'' \<and> c \<noteq> CHR ''+'' \<and> c \<noteq> CHR ''-'' \<and> c \<noteq> CHR ''e'' \<and> c \<noteq> CHR ''E''"
  by (auto simp: is_digit_def less_eq_char_def)

section \<open>The labels\<close>

lemma yields_any2:
  "fresh l (ds @ rest) \<Longrightarrow> list_all is_digit ds \<Longrightarrow> stops rest
     \<Longrightarrow> yields (number_any2 t l) t (token_buffer l @ ds) rest"
proof (induction ds arbitrary: l)
  case Nil
  then show ?case
    using stops_current(1) [of l rest] yields_done [of l rest _ t]
    by (simp add: number_any2.simps [of t l] Let_def)
next
  case (Cons d ds)
  then show ?case
    using Cons.IH [of "add_current (lexer_get l)"] token_buffer_step [of l d "ds @ rest"]
    by (simp add: number_any2.simps [of t l] Let_def digit_char_def)
qed

lemma yields_exponent:
  assumes "fresh l (sg @ ds @ rest)" "sg \<in> {[], ''+'', ''-''}" "digits ds" "stops rest"
  shows "yields (number_exponent l) Tok_value_float (token_buffer l @ sg @ ds) rest"
proof -
  obtain d es where ds: "ds = d # es" "is_digit d" "list_all is_digit es"
    using assms(3) by (cases ds) (auto simp: digits_def)
  show ?thesis
  proof (cases "sg = []")
    case True
    then show ?thesis
      using token_buffer_step [of l d "es @ rest"] assms(1,4) ds digit_not [of d]
        yields_any2 [of "add_current (lexer_get l)" es rest Tok_value_float]
      by (simp add: number_exponent_def Let_def digit_char_def)
  next
    case False
    then obtain c where c: "sg = [c]" "c = CHR ''+'' \<or> c = CHR ''-''" using assms(2) by auto
    let ?l = "add_current (lexer_get l)"
    have l: "fresh ?l (d # es @ rest)" "token_buffer ?l = token_buffer l @ [c]" "current (lexer_get l) = Some c"
      using token_buffer_step [of l c "ds @ rest"] assms(1) c(1) ds(1) by simp_all
    show ?thesis
      using token_buffer_step [OF l(1)] l(2,3) c assms(4) ds
        yields_any2 [of "add_current (lexer_get ?l)" es rest Tok_value_float]
      by (auto simp: number_exponent_def number_sign_def Let_def digit_char_def)
  qed
qed

lemma yields_decimal2:
  "fresh l (ds @ x @ rest) \<Longrightarrow> list_all is_digit ds \<Longrightarrow> exponent_part x \<Longrightarrow> stops rest
     \<Longrightarrow> yields (number_decimal2 Tok_value_float l) Tok_value_float (token_buffer l @ ds @ x) rest"
proof (induction ds arbitrary: l)
  case Nil
  show ?case
  proof (cases "x = []")
    case True
    then show ?thesis
      using Nil stops_current(1,3) [of l rest] yields_done [of l rest _ Tok_value_float]
      by (simp add: number_decimal2.simps [of _ l] Let_def)
  next
    case False
    then obtain c sg es where x: "x = c # sg @ es" "exponent_char (Some c)" "sg \<in> {[], ''+'', ''-''}" "digits es"
      using Nil(3) by (auto simp: exponent_part_def)
    have "\<not> digit_char (Some c)" using x(2) digit_not by (auto simp: exponent_char_def digit_char_def)
    then show ?thesis
      using token_buffer_step [of l c "sg @ es @ rest"] Nil(1,4) x
        yields_exponent [of "add_current (lexer_get l)" sg es rest]
      by (simp add: number_decimal2.simps [of _ l] Let_def)
  qed
next
  case (Cons d ds)
  then show ?case
    using Cons.IH [of "add_current (lexer_get l)"] token_buffer_step [of l d "ds @ x @ rest"]
    by (simp add: number_decimal2.simps [of _ l] Let_def digit_char_def)
qed

lemma yields_decimal1:
  assumes "fresh l (ds @ x @ rest)" "digits ds" "exponent_part x" "stops rest"
  shows "yields (number_decimal1 l) Tok_value_float (token_buffer l @ ds @ x) rest"
proof -
  obtain d es where ds: "ds = d # es" "is_digit d" "list_all is_digit es"
    using assms(2) by (cases ds) (auto simp: digits_def)
  then show ?thesis
    using token_buffer_step [of l d "es @ x @ rest"] assms
      yields_decimal2 [of "add_current (lexer_get l)" es x rest]
    by (simp add: number_decimal1_def Let_def digit_char_def)
qed

text \<open>The end of a number: what the labels zero and any1 have in common.\<close>

definition number_tail :: "token_type \<Rightarrow> lexer \<Rightarrow> token_type \<times> lexer" where
  "number_tail t l' =
     (if current l' = Some CHR ''.'' then number_decimal1 (lexer_add (decimal_point_char l') l')
      else if exponent_char (current l') then number_exponent (add_current l')
      else number_done t l')"

lemma yields_tail:
  assumes "fresh l (f @ x @ rest)" "fraction_part f" "exponent_part x" "stops rest"
  shows "yields (number_tail t (lexer_get l)) (if f = [] \<and> x = [] then t else Tok_value_float)
    (token_buffer l @ f @ x) rest"
    "\<not> digit_char (current (lexer_get l))"
proof -
  have dot: "decimal_point_char (lexer_get l) = CHR ''.''" using assms(1) by (simp add: fresh_def)
  consider (f) ds where "f = CHR ''.'' # ds" "digits ds"
    | (x) c sg ds where "f = []" "x = c # sg @ ds" "exponent_char (Some c)" "sg \<in> {[], ''+'', ''-''}" "digits ds"
    | (plain) "f = []" "x = []"
    using assms(2,3) by (cases f) (auto simp: fraction_part_def exponent_part_def)
  then have "yields (number_tail t (lexer_get l)) (if f = [] \<and> x = [] then t else Tok_value_float)
      (token_buffer l @ f @ x) rest \<and> \<not> digit_char (current (lexer_get l))"
  proof cases
    case f
    have s: "standing (lexer_get l) CHR ''.'' (ds @ x @ rest)"
      using standing_get [of l "CHR ''.''" "ds @ x @ rest"] assms(1) f(1) by simp
    then have "fresh (lexer_add CHR ''.'' (lexer_get l)) (ds @ x @ rest)" by (simp add: standing_def)
    from yields_decimal1 [OF this f(2) assms(3,4)] show ?thesis
      using standing_current [OF s] f(1) dot
      by (simp add: number_tail_def digit_char_def is_digit_def less_eq_char_def)
  next
    case x
    then have "c \<noteq> CHR ''.''" "\<not> digit_char (Some c)"
      using digit_not by (auto simp: exponent_char_def digit_char_def)
    then show ?thesis
      using token_buffer_step [of l c "sg @ ds @ rest"] assms(1,4) x
        yields_exponent [of "add_current (lexer_get l)" sg ds rest]
      by (simp add: number_tail_def)
  next
    case plain
    then show ?thesis
      using assms(1,4) stops_current [of l rest] yields_done [of l rest _ t] by (simp add: number_tail_def)
  qed
  then show "yields (number_tail t (lexer_get l)) (if f = [] \<and> x = [] then t else Tok_value_float)
      (token_buffer l @ f @ x) rest" "\<not> digit_char (current (lexer_get l))" by simp_all
qed

lemma yields_zero:
  assumes "fresh l (f @ x @ rest)" "fraction_part f" "exponent_part x" "stops rest"
  shows "yields (number_zero t l) (if f = [] \<and> x = [] then t else Tok_value_float) (token_buffer l @ f @ x) rest"
  using yields_tail(1) [OF assms] by (simp add: number_zero_def number_tail_def Let_def)

lemma yields_any1:
  "fresh l (ds @ f @ x @ rest) \<Longrightarrow> list_all is_digit ds \<Longrightarrow> fraction_part f \<Longrightarrow> exponent_part x \<Longrightarrow> stops rest
     \<Longrightarrow> yields (number_any1 t l) (if f = [] \<and> x = [] then t else Tok_value_float) (token_buffer l @ ds @ f @ x) rest"
proof (induction ds arbitrary: l)
  case Nil
  then have "fresh l (f @ x @ rest)" by simp
  note yields_tail [OF this Nil(3-5)]
  then show ?case by (simp add: number_any1.simps [of t l] number_tail_def Let_def)
next
  case (Cons d ds)
  then show ?case
    using Cons.IH [of "add_current (lexer_get l)"] token_buffer_step [of l d "ds @ f @ x @ rest"]
    by (simp add: number_any1.simps [of t l] Let_def digit_char_def)
qed

section \<open>Whole numbers\<close>

text \<open>A number without its sign, from the state the lexer has read its first digit in.\<close>

lemma yields_unsigned:
  assumes "standing l c (w @ f @ x @ rest)" "whole_part (c # w)" "fraction_part f" "exponent_part x" "stops rest"
  shows "c = CHR ''0'' \<Longrightarrow> yields (number_zero t (add_current l)) (if f = [] \<and> x = [] then t else Tok_value_float)
      (token_buffer l @ c # w @ f @ x) rest"
    "c \<noteq> CHR ''0'' \<Longrightarrow> yields (number_any1 t (add_current l)) (if f = [] \<and> x = [] then t else Tok_value_float)
      (token_buffer l @ c # w @ f @ x) rest"
proof -
  have l: "fresh (add_current l) (w @ f @ x @ rest)" "token_buffer (add_current l) = token_buffer l @ [c]"
    using standing_add [OF assms(1)] by simp_all
  show "c = CHR ''0'' \<Longrightarrow> yields (number_zero t (add_current l)) (if f = [] \<and> x = [] then t else Tok_value_float)
      (token_buffer l @ c # w @ f @ x) rest"
    using yields_zero [OF _ assms(3-5), of "add_current l" t] l assms(2) by (simp add: whole_part_def)
  show "c \<noteq> CHR ''0'' \<Longrightarrow> yields (number_any1 t (add_current l)) (if f = [] \<and> x = [] then t else Tok_value_float)
      (token_buffer l @ c # w @ f @ x) rest"
    using yields_any1 [OF l(1) _ assms(3-5), of t] l(2) assms(2) by (simp add: whole_part_def digits_def)
qed

definition number_class :: "string \<Rightarrow> string \<Rightarrow> string \<Rightarrow> token_type" where
  "number_class sg f x =
     (if f = [] \<and> x = [] then if sg = [] then Tok_value_unsigned else Tok_value_integer else Tok_value_float)"

lemma number_class_simps:
  "number_class [] f x = (if f = [] \<and> x = [] then Tok_value_unsigned else Tok_value_float)"
  "number_class ''-'' f x = (if f = [] \<and> x = [] then Tok_value_integer else Tok_value_float)"
  by (simp_all add: number_class_def)

lemma whole_part_digit: "whole_part (c # w) \<Longrightarrow> is_digit c"
  by (auto simp: whole_part_def digits_def is_digit_def less_eq_char_def)

lemma scan_number_yields:
  assumes "sg \<in> {[], ''-''}" "whole_part w" "fraction_part f" "exponent_part x"
    "standing l c (s @ rest)" "c # s = sg @ w @ f @ x" "stops rest"
  shows "yields (scan_number l) (number_class sg f x) (sg @ w @ f @ x) rest"
proof -
  obtain d v where w: "w = d # v" using assms(2) by (cases w) (auto simp: whole_part_def digits_def)
  have d: "is_digit d" using assms(2) w whole_part_digit by simp
  show ?thesis
  proof (cases "sg = []")
    case True
    then have "standing (lexer_reset l) d (v @ f @ x @ rest)" using assms(5,6) w by (simp add: standing_def)
    note u = yields_unsigned [OF this assms(2) [unfolded w] assms(3,4,7)]
    show ?thesis
      using u [of Tok_value_unsigned] assms(5,6) True w d digit_not [OF d]
      by (cases "d = CHR ''0''")
        (simp_all add: scan_number_def Let_def standing_def digit_char_def number_class_simps split del: if_split)
  next
    case False
    then have s: "sg = ''-''" "c = CHR ''-''" "s = w @ f @ x" using assms(1,6) by simp_all
    have k: "standing (lexer_reset l) CHR ''-'' (d # v @ f @ x @ rest)" using assms(5) s w by (simp add: standing_def)
    let ?l = "add_current (lexer_reset l)"
    have l: "fresh ?l (d # v @ f @ x @ rest)" "token_buffer ?l = ''-''" using standing_add [OF k] by simp_all
    note u = yields_unsigned [OF standing_get [OF l(1)] assms(2) [unfolded w] assms(3,4,7)]
    show ?thesis
      using u [of Tok_value_integer] l(2) standing_current [OF standing_get [OF l(1)]] standing_current [OF k] s w d
      by (cases "d = CHR ''0''")
        (simp_all add: scan_number_def number_minus_def Let_def digit_char_def number_class_simps split del: if_split)
  qed
qed

lemma scan_minus: "current l = Some CHR ''-'' \<Longrightarrow> scan_token l = scan_number l"
  by (simp add: scan_token_def dquote_def)

lemma digit_starts:
  assumes "is_digit c" "current l = Some c"
  shows "scan_token l = scan_number l"
proof -
  have "c \<notin> {CHR ''['', CHR '']'', CHR ''{'', CHR ''}'', CHR '':'', CHR '','', CHR ''t'', CHR ''f'', CHR ''n'', dquote}"
    using assms(1) by (auto simp: is_digit_def less_eq_char_def dquote_def)
  then show ?thesis using assms by (simp add: scan_token_def)
qed

lemma spells_number:
  assumes "sg \<in> {[], ''-''}" "whole_part w" "fraction_part f" "exponent_part x"
  shows "spells (sg @ w @ f @ x) (conversion (number_class sg f x) (sg @ w @ f @ x))"
proof -
  obtain d v where w: "w = d # v" using assms(2) by (cases w) (auto simp: whole_part_def digits_def)
  obtain c s where c: "sg @ w @ f @ x = c # s" using w by (cases sg) auto
  have cd: "c = CHR ''-'' \<or> is_digit c" using c w assms(1,2) whole_part_digit by auto
  then have start: "\<not> whitespace (Some c)" "c \<noteq> CHR 0xEF"
    by (auto simp: whitespace_def is_digit_def less_eq_char_def)
  have num: "scan_token l = scan_number l" if "current l = Some c" for l
    using cd that digit_starts scan_minus by blast
  show ?thesis
    unfolding spells_def
  proof (intro exI [of _ c] exI [of _ s] conjI allI impI)
    fix l rest
    assume l: "standing l c (s @ rest)"
      "delimited (conversion (number_class sg f x) (sg @ w @ f @ x)) rest"
    have "stops rest" using l(2) by (auto simp: stops_def conversion_def split: if_splits)
    then have "yields (scan_number l) (number_class sg f x) (sg @ w @ f @ x) rest"
      using scan_number_yields [OF assms l(1) c [symmetric]] by simp
    then show "\<exists>ty l'. scan_token l = (ty, l')
        \<and> token_of ty l' = conversion (number_class sg f x) (sg @ w @ f @ x) \<and> fresh l' rest"
      using num [OF standing_current [OF l(1)]] by (cases "scan_number l") (simp add: yields_def)
  qed (use start c in simp_all)
qed

section \<open>Decimal texts of integers\<close>

lemma is_digit_digit [simp]: "n < 10 \<Longrightarrow> is_digit (digit n)"
  by (simp add: is_digit_def digit_def less_eq_char_def)

lemma digit_zero: "n < 10 \<Longrightarrow> digit n = CHR ''0'' \<longleftrightarrow> n = 0"
  by (simp add: digit_def char_of_eq_iff take_bit_nat_eq_self)

lemma decimal_all_digits: "list_all is_digit (decimal n)"
  using decimal_digits [of n] by (auto simp: list_all_iff)

lemma decimal_not_Nil [simp]: "decimal n \<noteq> []"
  by (subst decimal.simps) simp

lemma decimal_hd: "0 < n \<Longrightarrow> hd (decimal n) \<noteq> CHR ''0''"
proof (induction n rule: decimal.induct)
  case (1 n)
  then show ?case by (cases "n < 10") (simp_all add: decimal.simps [of n] digit_zero)
qed

lemma decimal_zero: "decimal 0 = ''0''"
  by (simp add: decimal.simps digit_zero)

lemma whole_part_decimal: "whole_part (decimal n)"
  using decimal_hd [of n] decimal_all_digits [of n]
  by (cases "n = 0") (simp_all add: whole_part_def digits_def decimal_zero)

lemma takeWhile_decimal: "takeWhile is_digit (decimal n) = decimal n"
  using decimal_all_digits [of n] by (simp add: list_all_iff takeWhile_eq_all_conv)

lemma decimal_positive: "decimal n \<noteq> CHR ''-'' # s"
  using decimal_all_digits [of n] by (auto simp: is_digit_def less_eq_char_def)

lemma empty_parts [simp]: "fraction_part []" "exponent_part []"
  by (simp_all add: fraction_part_def exponent_part_def)

lemma spells_decimal:
  assumes "n < 2 ^ 64"
  shows "spells (decimal n) (TUint (word_of_nat n))"
  using spells_number [of "[]" "decimal n" "[]" "[]"] assms
  by (simp add: whole_part_decimal number_class_simps conversion_def strtoull_def takeWhile_decimal)

lemma spells_negative:
  assumes "n \<le> 2 ^ 63"
  shows "spells (''-'' @ decimal n) (TInt (- word_of_nat n))"
  using spells_number [of "''-''" "decimal n" "[]" "[]"] assms
  by (simp add: whole_part_decimal number_class_simps conversion_def takeWhile_decimal)

subsection \<open>The digits the serializer writes\<close>

lemma length_decimal: "length (decimal n) = (if n < 10 then 1 else length (decimal (n div 10)) + 1)"
  by (subst decimal.simps) simp

lemma decimal_two:
  assumes "10 \<le> n"
  shows "decimal n = (if n < 100 then [] else decimal (n div 100)) @ [digit (n div 10 mod 10), digit (n mod 10)]"
proof -
  have "n div 10 < 10 \<longleftrightarrow> n < 100" by (simp add: div_less_iff_less_mult)
  then show ?thesis
    using assms by (auto simp: decimal.simps [of n] decimal.simps [of "n div 10"] simp flip: div_mult2_eq)
qed

lemma digits_to_99_nth:
  assumes "i < 100"
  shows "digits_to_99 ! i ! 0 = digit (i div 10)" "digits_to_99 ! i ! 1 = digit (i mod 10)"
  using assms by (simp_all add: digits_to_99_def)

lemma fill_digits_writes:
  assumes "length (decimal (unat v)) \<le> p" "p \<le> length buf"
  shows "fill_digits v p buf = take (p - length (decimal (unat v))) buf @ decimal (unat v) @ drop p buf"
  using assms
proof (induction v p buf rule: fill_digits.induct)
  case (1 v p buf)
  define n where "n = unat v"
  have le: "v \<ge> 100 \<longleftrightarrow> 100 \<le> n" "v \<ge> 10 \<longleftrightarrow> 10 \<le> n" by (simp_all add: n_def word_le_nat_alt)
  have two: "buf[p - 1 := x, p - 2 := y] = take (p - 2) buf @ [y, x] @ drop p buf" if "2 \<le> p" for x y
    using that 1(3) by (intro nth_equalityI) (auto simp: nth_append nth_list_update nth_Cons')
  consider (many) "100 \<le> n" | (two) "10 \<le> n" "n < 100" | (one) "n < 10" by linarith
  then show ?case
  proof cases
    case many
    have len: "length (decimal n) = length (decimal (n div 100)) + 2" using many by (subst decimal_two) simp_all
    have i: "unat (v mod 100) = n mod 100" "unat (v div 100) = n div 100" by (simp_all add: n_def unat_mod unat_div)
    let ?b = "buf[p - 1 := digits_to_99 ! unat (v mod 100) ! 1, p - 2 := digits_to_99 ! unat (v mod 100) ! 0]"
    have b: "?b = take (p - 2) buf @ [digit (n div 10 mod 10), digit (n mod 10)] @ drop p buf"
      using 1(2) len two digits_to_99_nth [of "n mod 100"]
      by (simp add: i n_def [symmetric] mod_mult2_eq [of n 10 10, simplified] )
    have "fill_digits v p buf = fill_digits (v div 100) (p - 2) ?b"
      using many le by (simp add: fill_digits.simps [of v] Let_def)
    also have "\<dots> = take (p - 2 - length (decimal (n div 100))) ?b @ decimal (n div 100) @ drop (p - 2) ?b"
      using 1(1) [OF _ refl] many le 1(2,3) len by (simp add: i n_def [symmetric])
    also have "\<dots> = take (p - length (decimal n)) buf @ decimal n @ drop p buf"
      using many len 1(2,3) unfolding b by (subst (2) decimal_two) (simp_all add: n_def [symmetric])
    finally show ?thesis by (simp add: n_def)
  next
    case two
    then have "decimal n = [digit (n div 10), digit (n mod 10)]" by (subst decimal_two) simp_all
    then show ?thesis
      using two le 1(2) digits_to_99_nth [of n] \<open>\<And>x y. 2 \<le> p \<Longrightarrow> buf[p - 1 := x, p - 2 := y] = _\<close>
      by (simp add: fill_digits.simps [of v] Let_def n_def [symmetric] numeral_2_eq_2)
  next
    case one
    then have "decimal n = [digit n]" by (subst decimal.simps) simp
    then show ?thesis
      using one le 1(2,3) by (simp add: fill_digits.simps [of v] Let_def n_def [symmetric] digit_def upd_conv_take_nth_drop)
  qed
qed

lemma count_digits_length: "count_digits k x = k + length (decimal (unat x)) - 1"
proof (induction k x rule: count_digits.induct)
  case (1 k x)
  define n where "n = unat x"
  have lt: "x < 10 \<longleftrightarrow> n < 10" "x < 100 \<longleftrightarrow> n < 100" "x < 1000 \<longleftrightarrow> n < 1000" "x < 10000 \<longleftrightarrow> n < 10000"
    by (simp_all add: n_def word_less_nat_alt)
  have d: "n div 10 div 10 = n div 100" "n div 100 div 10 = n div 1000" "n div 1000 div 10 = n div 10000"
    by (simp_all flip: div_mult2_eq)
  show ?case
  proof (cases "n < 10000")
    case True
    then show ?thesis
      by (auto simp: count_digits.simps [of k x] lt n_def [symmetric] length_decimal [of n] length_decimal [of "n div 10"]
          length_decimal [of "n div 100"] length_decimal [of "n div 1000"] d div_less_iff_less_mult)
  next
    case False
    have "count_digits k x = count_digits (k + 4) (x div 10000)"
      using False lt by (simp add: count_digits.simps [of k x])
    also have "\<dots> = k + 4 + length (decimal (n div 10000)) - 1"
      using 1 False lt by (simp add: n_def unat_div)
    also have "length (decimal n) = length (decimal (n div 10000)) + 4"
      using False by (simp add: length_decimal [of n] length_decimal [of "n div 10"]
          length_decimal [of "n div 100"] length_decimal [of "n div 1000"] d div_less_iff_less_mult)
    then have "k + 4 + length (decimal (n div 10000)) - 1 = k + length (decimal n) - 1" by simp
    finally show ?thesis by (simp add: n_def)
  qed
qed

lemma length_decimal_bound: "n < 10 ^ k \<Longrightarrow> 0 < k \<Longrightarrow> length (decimal n) \<le> k"
proof (induction k arbitrary: n)
  case (Suc k)
  show ?case
  proof (cases "n < 10")
    case False
    then have "n div 10 < 10 ^ k" "0 < k"
      using Suc.prems by (simp add: div_less_iff_less_mult mult.commute, cases k) simp_all
    then show ?thesis using Suc.IH [of "n div 10"] False by (simp add: length_decimal [of n])
  qed (simp add: length_decimal)
qed simp

text \<open>The text of an integer, whatever earlier numbers left in the buffer.\<close>

definition int_text :: "bool \<Rightarrow> 64 word \<Rightarrow> string" where
  "int_text is_signed x =
     (if is_signed \<and> sint x < 0 then ''-'' @ decimal (unat (- x)) else decimal (unat x))"

lemma length_decimal_word: "length (decimal (unat (x :: 64 word))) \<le> 20"
  using unsigned_less [of x, where 'a = nat] by (intro length_decimal_bound) simp_all

lemma remove_sign_minus: "remove_sign x = - x"
  by (simp add: remove_sign_def)

lemma dump_integer_text:
  assumes "length buf = 64"
  shows "fst (dump_integer is_signed x buf) = int_text is_signed x" "length (snd (dump_integer is_signed x buf)) = 64"
proof -
  define neg where "neg \<longleftrightarrow> is_signed \<and> sint x < 0"
  define b where "b = (if neg then buf[0 := CHR ''-''] else buf)"
  define y where "y = (if neg then - x else x)"
  have b: "length b = 64" by (simp add: b_def assms)
  have n: "(if neg then 1 else 0) + count_digits 1 y = (if neg then 1 else 0) + length (decimal (unat y))"
    by (simp add: count_digits_length)
  have f: "fill_digits y ((if neg then 1 else 0) + length (decimal (unat y))) b
      = take (if neg then 1 else 0) b @ decimal (unat y) @ drop ((if neg then 1 else 0) + length (decimal (unat y))) b"
    using length_decimal_word [of y] b by (subst fill_digits_writes) simp_all
  have t: "take (if neg then 1 else 0) b = (if neg then ''-'' else [])"
    using assms by (cases buf) (simp_all add: b_def)
  have u: "dump_integer is_signed x buf =
      (let m = (if neg then 1 else 0) + count_digits 1 y; c = fill_digits y m b in (take m c, c))" if "x \<noteq> 0"
    unfolding dump_integer_def Let_def neg_def b_def y_def remove_sign_minus using that by simp
  have eq: "dump_integer is_signed x buf =
      (let m = (if neg then 1 else 0) + length (decimal (unat y));
           c = (if neg then ''-'' else []) @ decimal (unat y) @ drop m b in (take m c, c))" if "x \<noteq> 0"
    unfolding u [OF that] Let_def n f t ..
  show "fst (dump_integer is_signed x buf) = int_text is_signed x"
  proof (cases "x = 0")
    case False
    then show ?thesis using eq by (simp add: Let_def int_text_def neg_def [symmetric] y_def)
  qed (simp add: dump_integer_def int_text_def decimal_zero)
  show "length (snd (dump_integer is_signed x buf)) = 64"
  proof (cases "x = 0")
    case False
    then show ?thesis using eq b length_decimal_word [of y] by (simp add: Let_def)
  qed (simp add: dump_integer_def assms)
qed

text \<open>Read back, an integer that is not negative is unsigned.\<close>

definition int_token :: "bool \<Rightarrow> 64 word \<Rightarrow> tok" where
  "int_token is_signed x = (if is_signed \<and> sint x < 0 then TInt x else TUint x)"

lemma spells_int_text: "spells (int_text is_signed x) (int_token is_signed x)"
proof (cases "is_signed \<and> sint x < 0")
  case True
  have "uint (- x) \<le> 2 ^ 63"
  proof -
    have "x \<noteq> 0" using True by auto
    moreover have "uint x < 18446744073709551616" using uint_lt2p [of x] by simp
    ultimately have "uint (- x) = 2 ^ 64 - uint x"
      by (simp add: uint_word_ariths zmod_zminus1_eq_if uint_0_iff)
    moreover have "sint x = uint x - 2 ^ 64 \<or> sint x = uint x" "uint x < 2 ^ 64" "- (2 ^ 63) \<le> sint x"
      using uint_lt2p [of x] sint_ge [of x] by (auto simp: sint_uint signed_take_bit_eq_take_bit_minus take_bit_int_eq_self)
    ultimately show ?thesis using True uint_ge_0 [of x] by linarith
  qed
  then have "unat (- x) \<le> 2 ^ 63" by (simp add: nat_le_iff flip: nat_uint_eq)
  then show ?thesis using spells_negative [of "unat (- x)"] True by (simp add: int_text_def int_token_def)
next
  case False
  then show ?thesis
    using spells_decimal [of "unat x"] unsigned_less [of x, where 'a = nat] by (auto simp: int_text_def int_token_def)
qed

end
