(* ===== verification/Json_Float_Text.thy ===== *)
theory Json_Float_Text
  imports Json_Grisu_Digits Json_Numerals
begin

text \<open>
  The text of a double: \<open>format_buffer\<close> writes the digits as a JSON number literal of at most 24
  characters and a sign, and \<open>strtod\<close> reads the literal back as the double it was written for.
\<close>

unbundle bit_operations_syntax

section \<open>Decimal texts\<close>

lemma digits_value_append: "digits_value (a @ b) = digits_value a * 10 ^ length b + digits_value b"
proof (induction b rule: rev_induct)
  case (snoc c b)
  have "digits_value (a @ b @ [c]) = 10 * digits_value (a @ b) + digit_value c"
    by (simp only: append_assoc [symmetric] digits_value_snoc)
  then show ?case using snoc by (simp add: algebra_simps)
qed (simp add: digits_value_def)

lemma digits_value_zeros: "digits_value (replicate n CHR ''0'') = 0"
proof (induction n)
  case (Suc n)
  have "digits_value (CHR ''0'' # replicate n CHR ''0'') = digits_value [CHR ''0''] * 10 ^ n + 0"
    using digits_value_append [of "[CHR ''0'']" "replicate n CHR ''0''"] Suc by simp
  then show ?case by (simp add: digits_value_def digit_value_def)
qed (simp add: digits_value_def)

text \<open>The double nearest to a decimal mantissa and exponent.\<close>

definition decimal_bits :: "nat \<Rightarrow> int \<Rightarrow> nat" where
  "decimal_bits m e =
     (if 0 \<le> e then double_bits (m * 10 ^ nat e) 1 else double_bits m (10 ^ nat (- e)))"

lemma decimal_bits_nearest:
  assumes "0 < b" "b < infinity_bits"
    and "midpoint_below b < real m * 10 powi e" "real m * 10 powi e < midpoint_above b"
  shows "decimal_bits m e = b"
proof (cases "0 \<le> e")
  case True
  then have v: "real (m * 10 ^ nat e) / real 1 = real m * 10 powi e" by (simp add: power_int_def)
  have "double_bits (m * 10 ^ nat e) 1 = b"
    by (rule double_bits_nearest [OF assms(1,2)]) (unfold v, use assms in simp_all)
  then show ?thesis using True by (simp add: decimal_bits_def)
next
  case False
  then have v: "real m / real (10 ^ nat (- e)) = real m * 10 powi e"
    by (simp add: power_int_def power_one_over field_simps)
  have "double_bits m (10 ^ nat (- e)) = b"
    by (rule double_bits_nearest [OF assms(1,2)]) (unfold v, use assms in simp_all)
  then show ?thesis using False by (simp add: decimal_bits_def)
qed

definition starts_no_digit :: "string \<Rightarrow> bool" where
  "starts_no_digit s \<longleftrightarrow> (case s of [] \<Rightarrow> True | c # _ \<Rightarrow> \<not> is_digit c \<and> c \<noteq> CHR ''.'')"

lemma takeWhile_digits:
  assumes "list_all is_digit w" "case r of [] \<Rightarrow> True | c # _ \<Rightarrow> \<not> is_digit c"
  shows "takeWhile is_digit (w @ r) = w" "dropWhile is_digit (w @ r) = r"
  using assms by (cases r; auto simp: list_all_iff takeWhile_append takeWhile_eq_all_conv dropWhile_append dropWhile_eq_Nil_conv)+

lemma not_digit_dot [simp]: "\<not> is_digit CHR ''.''"
  by (simp add: is_digit_def less_eq_char_def)

lemma strtod_unsigned_parts:
  assumes "list_all is_digit w" "list_all is_digit ds" "starts_no_digit x"
  shows "strtod_unsigned CHR ''.'' (w @ CHR ''.'' # ds @ x)
      = decimal_bits (digits_value (w @ ds)) (split_exponent x - int (length ds))"
    "strtod_unsigned CHR ''.'' (w @ x) = decimal_bits (digits_value w) (split_exponent x)"
proof -
  have x: "case x of [] \<Rightarrow> True | c # _ \<Rightarrow> \<not> is_digit c"
    using assms(3) by (simp add: starts_no_digit_def split: list.splits)
  have "takeWhile is_digit (w @ CHR ''.'' # ds @ x) = w" "dropWhile is_digit (w @ CHR ''.'' # ds @ x) = CHR ''.'' # ds @ x"
    using takeWhile_digits [OF assms(1), of "CHR ''.'' # ds @ x"] by simp_all
  moreover note takeWhile_digits [OF assms(2) x]
  ultimately show "strtod_unsigned CHR ''.'' (w @ CHR ''.'' # ds @ x)
      = decimal_bits (digits_value (w @ ds)) (split_exponent x - int (length ds))"
    by (simp add: strtod_unsigned_def Let_def decimal_bits_def)
  show "strtod_unsigned CHR ''.'' (w @ x) = decimal_bits (digits_value w) (split_exponent x)"
    using takeWhile_digits [OF assms(1) x] assms(3)
    by (simp add: strtod_unsigned_def Let_def decimal_bits_def starts_no_digit_def split: list.splits)
qed

section \<open>Exponents\<close>

lemma split_exponent_sign:
  assumes "list_all is_digit ds"
  shows "split_exponent (CHR ''e'' # ''-'' @ ds) = - int (digits_value ds)"
    "split_exponent (CHR ''e'' # ''+'' @ ds) = int (digits_value ds)"
proof -
  have d: "takeWhile is_digit ds = ds" using assms by (simp add: takeWhile_eq_all_conv list_all_iff)
  show "split_exponent (CHR ''e'' # ''-'' @ ds) = - int (digits_value ds)"
    "split_exponent (CHR ''e'' # ''+'' @ ds) = int (digits_value ds)" by (simp_all add: split_exponent_def d)
qed

lemma append_exponent_digits:
  assumes "\<bar>e\<bar> < 1000"
  obtains ds where "append_exponent e = (if e < 0 then ''-'' else ''+'') @ ds" "digits ds"
    "int (digits_value ds) = \<bar>e\<bar>" "length ds \<le> 3"
proof -
  define k where "k = nat \<bar>e\<bar>"
  have k: "k < 1000" "int k = \<bar>e\<bar>" using assms by (simp_all add: k_def)
  define ds where "ds = (if k < 10 then [CHR ''0'', digit k]
    else if k < 100 then [digit (k div 10), digit (k mod 10)]
    else [digit (k div 100), digit (k mod 100 div 10), digit (k mod 100 mod 10)])"
  have z: "CHR ''0'' = digit 0" using digit_zero [of 0] by simp
  have "k div 100 < 10" "k mod 100 div 10 < 10" using k(1) by (simp_all add: div_less_iff_less_mult)
  moreover have "k < 100 \<Longrightarrow> k div 10 < 10" by (simp add: div_less_iff_less_mult)
  moreover have "100 * (k div 100) + (10 * (k mod 100 div 10) + k mod 100 mod 10) = k" by simp
  ultimately have "digits ds" "digits_value ds = k" "length ds \<le> 3"
    unfolding ds_def z by (auto simp: digits_def digits_value_def)
  moreover have "append_exponent e = (if e < 0 then ''-'' else ''+'') @ ds"
    unfolding append_exponent_def Let_def k_def [symmetric] ds_def by simp
  ultimately show thesis using that k(2) by metis
qed

lemma exponent_text:
  assumes "\<bar>e\<bar> < 1000"
  shows "exponent_part (CHR ''e'' # append_exponent e)" "split_exponent (CHR ''e'' # append_exponent e) = e"
    "length (append_exponent e) \<le> 4"
proof -
  obtain ds where ds: "append_exponent e = (if e < 0 then ''-'' else ''+'') @ ds" "digits ds"
    "int (digits_value ds) = \<bar>e\<bar>" "length ds \<le> 3"
    using append_exponent_digits [OF assms] .
  show "exponent_part (CHR ''e'' # append_exponent e)"
    unfolding exponent_part_def ds(1) using ds(2) by (intro disjI2 exI [of _ "CHR ''e''"] exI [of _ "if e < 0 then ''-'' else ''+''"] exI [of _ ds]) (simp add: exponent_char_def)
  show "split_exponent (CHR ''e'' # append_exponent e) = e"
    unfolding ds(1) using split_exponent_sign [of ds] ds(2,3) by (auto simp: digits_def)
  show "length (append_exponent e) \<le> 4" unfolding ds(1) using ds(4) by simp
qed

section \<open>Literals\<close>

text \<open>A JSON literal of a float, of at most 23 characters, that \<open>strtod\<close> reads as a number with the value \<open>v\<close>.\<close>

definition float_literal :: "string \<Rightarrow> real \<Rightarrow> bool" where
  "float_literal t v \<longleftrightarrow>
     (\<exists>w f x. t = w @ f @ x \<and> whole_part w \<and> fraction_part f \<and> exponent_part x \<and> (f \<noteq> [] \<or> x \<noteq> []))
     \<and> length t \<le> 23
     \<and> (\<exists>m e. strtod_unsigned CHR ''.'' t = decimal_bits m e \<and> real m * 10 powi e = v)"

lemma whole_part_digits: "whole_part w \<Longrightarrow> list_all is_digit w"
  by (auto simp: whole_part_def digits_def is_digit_def less_eq_char_def)

lemma exponent_starts: "exponent_part x \<Longrightarrow> starts_no_digit x"
  using digit_not [of "CHR ''e''"] digit_not [of "CHR ''E''"]
  by (auto simp: exponent_part_def starts_no_digit_def exponent_char_def)

lemma literal_fraction:
  assumes "whole_part w" "digits ds" "exponent_part x" "length (w @ CHR ''.'' # ds @ x) \<le> 23"
    and "real (digits_value (w @ ds)) * 10 powi (split_exponent x - int (length ds)) = v"
  shows "float_literal (w @ CHR ''.'' # ds @ x) v"
  unfolding float_literal_def
proof (intro conjI)
  show "\<exists>w' f x'. w @ CHR ''.'' # ds @ x = w' @ f @ x' \<and> whole_part w' \<and> fraction_part f \<and> exponent_part x' \<and> (f \<noteq> [] \<or> x' \<noteq> [])"
    using assms(1-3) by (intro exI [of _ w] exI [of _ "CHR ''.'' # ds"] exI [of _ x]) (simp add: fraction_part_def)
  show "\<exists>m e. strtod_unsigned CHR ''.'' (w @ CHR ''.'' # ds @ x) = decimal_bits m e \<and> real m * 10 powi e = v"
    using strtod_unsigned_parts(1) [OF whole_part_digits [OF assms(1)] _ exponent_starts [OF assms(3)], of ds] assms(2,5)
    by (auto simp: digits_def)
qed (use assms(4) in simp)

lemma literal_exponent:
  assumes "whole_part w" "exponent_part x" "x \<noteq> []" "length (w @ x) \<le> 23"
    and "real (digits_value w) * 10 powi split_exponent x = v"
  shows "float_literal (w @ x) v"
  unfolding float_literal_def
proof (intro conjI)
  show "\<exists>w' f x'. w @ x = w' @ f @ x' \<and> whole_part w' \<and> fraction_part f \<and> exponent_part x' \<and> (f \<noteq> [] \<or> x' \<noteq> [])"
    using assms(1-3) by (intro exI [of _ w] exI [of _ "[]"] exI [of _ x]) simp
  show "\<exists>m e. strtod_unsigned CHR ''.'' (w @ x) = decimal_bits m e \<and> real m * 10 powi e = v"
    using strtod_unsigned_parts(2) [OF whole_part_digits [OF assms(1)] _ exponent_starts [OF assms(2)], of "[]"] assms(5)
    by auto
qed (use assms(4) in simp)

lemma shaped_whole: "shaped s \<Longrightarrow> s \<noteq> [] \<Longrightarrow> whole_part s"
  by (simp add: shaped_def whole_part_def digits_def)

lemma whole_part_prefix: "list_all is_digit (a @ b) \<Longrightarrow> hd (a @ b) \<noteq> CHR ''0'' \<Longrightarrow> a \<noteq> [] \<Longrightarrow> whole_part a"
  by (simp add: whole_part_def digits_def)

lemma digits_parts: "list_all is_digit (a @ b) \<Longrightarrow> b \<noteq> [] \<Longrightarrow> digits b"
  by (simp add: digits_def)

lemma is_digit_zero [simp]: "is_digit CHR ''0''"
  by (simp add: is_digit_def)

lemma empty_exponent [simp]: "split_exponent [] = 0"
  by (simp add: split_exponent_def)

theorem format_buffer_literal:
  assumes "shaped s" "s \<noteq> []" "length s \<le> 17" "\<bar>int (length s) + n - 1\<bar> < 1000"
  shows "float_literal (format_buffer s n (- 4) 15) (real (digits_value s) * 10 powi n)"
proof -
  define k where "k = int (length s)"
  define N where "N = k + n"
  note e = exponent_text [OF assms(4), folded k_def, folded N_def]
  have sh: "whole_part s" "list_all is_digit s" "hd s \<noteq> CHR ''0''"
    using assms(1,2) shaped_whole by (auto simp: shaped_def)
  consider (zeros) "k \<le> N" "N \<le> 15" | (point) "0 < N" "N < k" "N \<le> 15" | (small) "- 4 < N" "N \<le> 0"
    | (single) "\<not> (k \<le> N \<and> N \<le> 15)" "\<not> (0 < N \<and> N \<le> 15)" "\<not> (- 4 < N \<and> N \<le> 0)" "length s = 1"
    | (exponent) "\<not> (k \<le> N \<and> N \<le> 15)" "\<not> (0 < N \<and> N \<le> 15)" "\<not> (- 4 < N \<and> N \<le> 0)" "1 < length s"
  proof -
    have "length s = 1 \<or> 1 < length s" using assms(2) by (cases s) auto
    then show thesis using that by linarith
  qed
  then show ?thesis
  proof cases
    case zeros
    define z where "z = replicate (nat n) CHR ''0''"
    have t: "format_buffer s n (- 4) 15 = (s @ z) @ CHR ''.'' # ''0'' @ []"
      using zeros by (simp add: format_buffer_def Let_def k_def N_def z_def)
    have "digits_value ((s @ z) @ ''0'') = digits_value s * 10 ^ (nat n + 1)"
      by (simp add: digits_value_append digits_value_zeros z_def) (simp add: digits_value_def digit_value_def)
    moreover have "(10 :: real) ^ (nat n + 1) * 10 powi (- 1) = 10 powi n"
      using zeros by (simp add: power_int_def k_def N_def)
    moreover have "whole_part (s @ z)" using sh assms(2) by (auto simp: whole_part_def digits_def z_def list_all_iff)
    ultimately show ?thesis
      unfolding t using zeros assms(3) by (intro literal_fraction) (simp_all add: digits_def z_def k_def N_def mult.assoc)
  next
    case point
    define a b where "a = take (nat N) s" and "b = drop (nat N) s"
    have s: "s = a @ b" by (simp add: a_def b_def)
    have l: "a \<noteq> []" "b \<noteq> []" "int (length b) = - n"
      using point assms(2) by (auto simp: a_def b_def k_def N_def)
    have t: "format_buffer s n (- 4) 15 = a @ CHR ''.'' # b @ []"
      using point by (simp add: format_buffer_def Let_def k_def N_def a_def b_def)
    show ?thesis
      unfolding t
    proof (rule literal_fraction)
      show "whole_part a" using whole_part_prefix sh l s by metis
      show "digits b" using digits_parts sh l s by metis
      show "length (a @ CHR ''.'' # b @ []) \<le> 23" using assms(3) by (simp add: s)
    qed (simp_all add: l(3) flip: s)
  next
    case small
    define z where "z = replicate (nat (- N)) CHR ''0''"
    have t: "format_buffer s n (- 4) 15 = ''0'' @ CHR ''.'' # (z @ s) @ []"
    proof -
      have "\<not> k \<le> N" using small assms(2) by (cases s) (simp_all add: k_def)
      then show ?thesis using small unfolding format_buffer_def Let_def z_def k_def N_def by simp
    qed
    have "digits_value (''0'' @ z @ s) = digits_value s"
      using digits_value_append [of "''0'' @ z" s] digits_value_append [of "''0''" z]
      by (simp add: digits_value_zeros z_def) (simp add: digits_value_def digit_value_def)
    moreover have "int (length (z @ s)) = - n" using small by (simp add: z_def N_def k_def)
    moreover have "digits (z @ s)" using sh assms(2) by (auto simp: digits_def z_def list_all_iff)
    moreover have "length z \<le> 3" using small by (simp add: z_def)
    ultimately show ?thesis
      unfolding t using assms(3) by (intro literal_fraction) (simp_all add: whole_part_def)
  next
    case single
    have t: "format_buffer s n (- 4) 15 = s @ CHR ''e'' # append_exponent (N - 1)"
      unfolding format_buffer_def Let_def k_def [symmetric] N_def [symmetric] if_not_P [OF single(1)]
        if_not_P [OF single(2)] if_not_P [OF single(3)] using single(4) by (simp add: k_def)
    show ?thesis
      unfolding t by (rule literal_exponent [OF sh(1) e(1)]) (use e(2,3) single(4) in \<open>simp_all add: N_def k_def\<close>)
  next
    case exponent
    define a b where "a = take 1 s" and "b = drop 1 s"
    have s: "s = a @ b" by (simp add: a_def b_def)
    have l: "a \<noteq> []" "b \<noteq> []" "length b = length s - 1" using exponent(4) assms(2) by (auto simp: a_def b_def)
    have t: "format_buffer s n (- 4) 15 = a @ CHR ''.'' # b @ CHR ''e'' # append_exponent (N - 1)"
      unfolding format_buffer_def Let_def k_def [symmetric] N_def [symmetric] if_not_P [OF exponent(1)]
        if_not_P [OF exponent(2)] if_not_P [OF exponent(3)] using exponent(4) by (simp add: k_def a_def b_def)
    show ?thesis
      unfolding t
    proof (rule literal_fraction [OF _ _ e(1)])
      show "whole_part a" using whole_part_prefix sh l s by metis
      show "digits b" using digits_parts sh l s by metis
      show "length (a @ CHR ''.'' # b @ CHR ''e'' # append_exponent (N - 1)) \<le> 23"
        using assms(3) e(3) by (simp add: s)
      show "real (digits_value (a @ b)) * 10 powi (split_exponent (CHR ''e'' # append_exponent (N - 1)) - int (length b))
          = real (digits_value s) * 10 powi n"
        unfolding e(2) l(3) s [symmetric] using exponent(4) by (simp add: of_nat_diff N_def k_def)
    qed
  qed
qed

section \<open>The exponent fits three digits\<close>

lemma midpoint_bounds:
  assumes "0 < b" "b < infinity_bits"
  shows "2 powi (- 1075) \<le> midpoint_below b" "midpoint_above b \<le> 2 powi 1024"
proof -
  have k: "1 \<le> binade b" "binade b \<le> 2046"
    using assms(2) unfolding infinity_bits_def by (simp_all add: binade_def div_less_iff_less_mult flip: less_Suc_eq_le)
  have lo: "2 powi (- 1074) \<le> unit_of b" and hi: "unit_of b \<le> 2 powi 971"
    unfolding unit_of_def using k by (intro powi_le_2; simp)+
  have "real 1 \<le> real (mantissa b)" "real (mantissa b) < real (2 ^ 53)"
    using mantissa_pos [OF assms(1)] mantissa_less [of b] by (simp_all only: of_nat_le_iff of_nat_less_iff)
  then have m: "1 / 2 \<le> real (mantissa b) - (if closer_below b then 1 / 4 else 1 / 2)"
    "real (mantissa b) + 1 / 2 \<le> 2 ^ 53"
    using mantissa_less [of b] by simp_all
  have "1 / 2 * 2 powi (- 1074) \<le> midpoint_below b"
    unfolding midpoint_below_def using m(1) lo by (rule mult_mono) (use m(1) in simp_all)
  then show "2 powi (- 1075) \<le> midpoint_below b" using powi_2_add [of "- 1" "- 1074"] by simp
  have "midpoint_above b \<le> 2 ^ 53 * 2 powi 971"
    unfolding midpoint_above_def using m(2) hi by (rule mult_mono) (simp_all add: less_imp_le)
  also have "2 ^ 53 * 2 powi 971 = (2 :: real) powi 1024" using powi_2_add [of 53 971] by simp
  finally show "midpoint_above b \<le> 2 powi 1024" .
qed

lemma powi_10_less: "(10 :: real) powi a < 10 powi b \<Longrightarrow> a < b"
proof (rule ccontr)
  assume "(10 :: real) powi a < 10 powi b" "\<not> a < b"
  moreover from this have "(10 :: real) powi b \<le> 10 powi a" by (intro power_int_increasing) simp_all
  ultimately show False by linarith
qed

lemma decimal_exponent_bound:
  assumes "0 < b" "b < infinity_bits" "1 \<le> m" "m < 10 ^ 17"
    and "midpoint_below b < real m * 10 powi n" "real m * 10 powi n < midpoint_above b"
  shows "- 376 < n" "n < 342"
proof -
  have "1 * 10 powi n \<le> real m * 10 powi n" using assms(3) by (intro mult_right_mono) simp_all
  then have "10 powi n < (2 :: real) powi 1024" using assms(6) midpoint_bounds(2) [OF assms(1,2)] by linarith
  also have "\<dots> \<le> (2 ^ 3) powi 342" using powi_le_2 [of 1024 "3 * 342"] unfolding power_int_mult by simp
  also have "\<dots> \<le> (10 :: real) powi 342" by (intro power_int_mono) simp_all
  finally show "n < 342" by (rule powi_10_less)
  have "real m \<le> real (10 ^ 17)" using less_imp_le [OF assms(4)] by (simp only: of_nat_le_iff)
  then have "real m * 10 powi n \<le> 10 ^ 17 * 10 powi n" by (intro mult_right_mono) simp_all
  then have "2 powi (- 1075) < (10 :: real) ^ 17 * 10 powi n" using assms(5) midpoint_bounds(1) [OF assms(1,2)] by linarith
  also have "\<dots> = 10 powi (17 + n)" by (simp add: power_int_add)
  finally have low: "2 powi (- 1075) < (10 :: real) powi (17 + n)" .
  have "(2 :: real) powi 1077 \<le> (2 ^ 3) powi 359" using powi_le_2 [of 1077 "3 * 359"] unfolding power_int_mult by simp
  also have "\<dots> \<le> (10 :: real) powi 359" by (intro power_int_mono) simp_all
  finally have "(10 :: real) powi (- 359) \<le> 2 powi (- 1077)"
    unfolding power_int_minus by (intro le_imp_inverse_le) simp_all
  also have "\<dots> \<le> 2 powi (- 1075)" by (rule powi_le_2) simp
  also note low
  finally have "- 359 < 17 + n" by (rule powi_10_less)
  then show "- 376 < n" by simp
qed

section \<open>Text of a double\<close>

lemma unsigned_part:
  fixes x :: float64
  shows "unat (x AND (push_bit 63 1 - 1)) = unat x mod 2 ^ 63" "bit x 63 \<longleftrightarrow> 2 ^ 63 \<le> unat x"
proof -
  show "unat (x AND (push_bit 63 1 - 1)) = unat x mod 2 ^ 63" by (rule unat_low_bits)
  have "unat x div 2 ^ 63 < 2" using unsigned_less [of x, where 'a = nat] by (simp add: div_less_iff_less_mult)
  moreover have "bit x 63 \<longleftrightarrow> odd (unat x div 2 ^ 63)" 
    using bit_unsigned_iff [of x 63, where 'a = nat] by (simp add: bit_iff_odd [of "unat x"])
  ultimately show "bit x 63 \<longleftrightarrow> 2 ^ 63 \<le> unat x"
    by (cases "unat x div 2 ^ 63") (auto simp: div_eq_0_iff)
qed

lemma finite_magnitude:
  assumes "isfinite x"
  shows "unat x mod 2 ^ 63 < infinity_bits"
proof -
  have "unat x mod 2 ^ 63 div 2 ^ 52 = float64_exp x"
  proof -
    have "unat x mod (2 ^ 52 * 2 ^ 11) = 2 ^ 52 * (unat x div 2 ^ 52 mod 2 ^ 11) + unat x mod 2 ^ 52"
      by (rule mod_mult2_eq)
    then show ?thesis by (simp add: float64_exp_def)
  qed
  then have "unat x mod 2 ^ 63 div 2 ^ 52 \<noteq> 2047" "unat x mod 2 ^ 63 div 2 ^ 52 < 2 ^ 11"
    using assms by (simp_all add: isfinite_def float64_exp_def)
  then have "unat x mod 2 ^ 63 div 2 ^ 52 < 2047" by simp
  then show ?thesis unfolding infinity_bits_def by (simp add: div_less_iff_less_mult)
qed

lemma strtod_signed:
  assumes "whole_part w" "sg = (if neg then ''-'' else [])"
  shows "strtod CHR ''.'' (sg @ w @ r) = word_of_nat ((if neg then 2 ^ 63 else 0) + strtod_unsigned CHR ''.'' (w @ r))"
proof -
  obtain c v where w: "w = c # v" using assms(1) by (cases w) (auto simp: whole_part_def digits_def)
  then have "c \<noteq> CHR ''-''" using assms(1) whole_part_digit digit_not by blast
  then show ?thesis using assms(2) w by (simp add: strtod_def)
qed

text \<open>The literal of the magnitude.\<close>

lemma magnitude_literal:
  assumes "m < infinity_bits" "unat bits = m"
  obtains w f x where
    "(if bits = 0 then Some ''0.0'' else case grisu2 bits of None \<Rightarrow> None
      | Some (buf, e) \<Rightarrow> Some (format_buffer buf e (- 4) 15)) = Some (w @ f @ x)"
    "whole_part w" "fraction_part f" "exponent_part x" "f \<noteq> [] \<or> x \<noteq> []"
    "length (w @ f @ x) \<le> 23" "strtod_unsigned CHR ''.'' (w @ f @ x) = m"
proof (cases "bits = 0")
  case True
  have "strtod_unsigned CHR ''.'' (''0'' @ ''.0'' @ []) = decimal_bits (digits_value ''00'') (- 1)"
    using strtod_unsigned_parts(1) [of "''0''" "''0''" "[]"] by (simp add: starts_no_digit_def)
  also have "digits_value ''00'' = 0" by (simp add: digits_value_def digit_value_def)
  finally have "strtod_unsigned CHR ''.'' (''0'' @ ''.0'' @ []) = m"
    using True assms(2) by (simp add: decimal_bits_def double_bits_def)
  then show thesis
    using True by (intro that [of "''0''" "''.0''" "[]"]) (simp_all add: whole_part_def fraction_part_def digits_def)
next
  case False
  then have pos: "0 < m" using assms(2) by (auto simp: unat_gt_0)
  obtain s n where g: "grisu2 bits = Some (s, n)" "shaped s" "s \<noteq> []" "length s \<le> 17"
    and v: "midpoint_below m < real (digits_value s) * 10 powi n" "real (digits_value s) * 10 powi n < midpoint_above m"
    using grisu2_between [of bits] assms pos by metis
  have "digits_value s < 10 ^ length s" using g(2) by (intro digits_value_less) (simp add: shaped_def)
  also have "(10 :: nat) ^ length s \<le> 10 ^ 17" using g(4) by (intro power_increasing) simp_all
  finally have "- 376 < n" "n < 342"
    using decimal_exponent_bound [OF pos assms(1) shaped_pos [OF g(2,3)] _ v] by simp_all
  then have "\<bar>int (length s) + n - 1\<bar> < 1000" using g(4) by (simp add: abs_less_iff)
  from format_buffer_literal [OF g(2-4) this] obtain w f x k e where l:
    "format_buffer s n (- 4) 15 = w @ f @ x" "whole_part w" "fraction_part f" "exponent_part x" "f \<noteq> [] \<or> x \<noteq> []"
    "length (w @ f @ x) \<le> 23" "strtod_unsigned CHR ''.'' (w @ f @ x) = decimal_bits k e"
    "real k * 10 powi e = real (digits_value s) * 10 powi n"
    unfolding float_literal_def by metis
  have "decimal_bits k e = m" by (rule decimal_bits_nearest [OF pos assms(1)]) (use v l(8) in simp_all)
  then show thesis using that [OF _ l(2-6)] l(1,7) False g(1) by simp
qed

theorem to_chars_reads_back:
  assumes "isfinite x"
  obtains t where "to_chars x = Some t" "length t \<le> 24" "spells t (TFloat x)" "strtod CHR ''.'' t = x"
proof -
  define neg where "neg \<longleftrightarrow> bit x 63"
  define y where "y = x AND (push_bit 63 1 - 1)"
  define sg where "sg = (if neg then ''-'' else [])"
  have y: "unat y = unat x mod 2 ^ 63" unfolding y_def by (rule unsigned_part)
  obtain w f e where t: "(if y = 0 then Some ''0.0'' else case grisu2 y of None \<Rightarrow> None
      | Some (buf, e) \<Rightarrow> Some (format_buffer buf e (- 4) 15)) = Some (w @ f @ e)"
    and l: "whole_part w" "fraction_part f" "exponent_part e" "f \<noteq> [] \<or> e \<noteq> []"
    and len: "length (w @ f @ e) \<le> 23" and s: "strtod_unsigned CHR ''.'' (w @ f @ e) = unat x mod 2 ^ 63"
    using magnitude_literal [OF finite_magnitude [OF assms] y] .
  have c: "to_chars x = Some (sg @ w @ f @ e)"
    using t unfolding to_chars_def Let_def neg_def [symmetric] y_def [symmetric] sg_def [symmetric]
    by (auto split: if_splits option.splits)
  have "unat x = (if neg then 2 ^ 63 else 0) + unat x mod 2 ^ 63"
  proof -
    define q r where "q = unat x div 2 ^ 63" and "r = unat x mod 2 ^ 63"
    have "q < 2" unfolding q_def using unsigned_less [of x, where 'a = nat] by (simp add: div_less_iff_less_mult)
    moreover have "unat x = q * 2 ^ 63 + r" unfolding q_def r_def by (rule div_mult_mod_eq [symmetric])
    moreover have "neg \<longleftrightarrow> q \<noteq> 0" unfolding neg_def unsigned_part(2) q_def by (simp add: div_eq_0_iff not_less)
    ultimately show ?thesis unfolding r_def [symmetric] by (cases q) auto
  qed
  then have "strtod CHR ''.'' (sg @ w @ f @ e) = word_of_nat (unat x)"
    using strtod_signed [OF l(1) sg_def, of "f @ e"] s by simp
  then have r: "strtod CHR ''.'' (sg @ w @ f @ e) = x" by simp
  have "number_class sg f e = Tok_value_float" using l(4) by (simp add: number_class_def)
  then have "spells (sg @ w @ f @ e) (TFloat x)"
    using spells_number [OF _ l(1-3), of sg] r by (simp add: conversion_def sg_def split: if_splits)
  then show thesis using that [OF c _ _ r] len by (simp add: sg_def)
qed

end
