(* ===== verification/Json_Decode.thy ===== *)
theory Json_Decode
  imports Json_Utf8 Json_Serializer
begin

text \<open>
  The automaton of \<open>decode\<close>: what its table says, state by state, in terms of the byte ranges
  of UTF-8, and the code point it has put together when it accepts.
\<close>

section \<open>The table\<close>

definition transitions :: "nat list" where
  "transitions = drop 256 utf8d"

definition byte_class :: "nat \<Rightarrow> nat" where
  "byte_class b =
     (if b < 0x80 then 0 else if b < 0x90 then 1 else if b < 0xA0 then 9 else if b < 0xC0 then 7
      else if b < 0xC2 then 8 else if b < 0xE0 then 2 else if b = 0xE0 then 10 else if b < 0xED then 3
      else if b = 0xED then 4 else if b < 0xF0 then 3 else if b = 0xF0 then 11 else if b < 0xF4 then 6
      else if b = 0xF4 then 5 else 8)"

lemma utf8d_classes: "take 256 utf8d = map byte_class [0..<256]"
  by code_simp

lemma class_of_byte:
  assumes "b < 256"
  shows "utf8d ! b = byte_class b"
proof -
  have "take 256 utf8d ! b = map byte_class [0..<256] ! b" by (simp only: utf8d_classes)
  then show ?thesis using assms by simp
qed

lemma transition_row: "utf8d ! (256 + i) = transitions ! i"
proof -
  have "256 \<le> length utf8d" using arg_cong [OF utf8d_classes, of length] by simp
  then show ?thesis by (simp add: transitions_def)
qed

lemma decode_class:
  assumes "b < 256"
  shows "fst (decode st w b) = transitions ! (st * 16 + byte_class b)"
  using transition_row [of "st * 16 + byte_class b"] assms
  by (simp add: decode_def Let_def class_of_byte add.assoc)

definition next_state :: "nat \<Rightarrow> nat \<Rightarrow> nat" where
  "next_state st t =
     (if st = 0 then [0, 1, 2, 3, 5, 8, 7, 1, 1, 1, 4, 6, 1, 1, 1, 1] ! t
      else if st = 2 then (if t = 1 \<or> t = 7 \<or> t = 9 then 0 else 1)
      else if st = 3 then (if t = 1 \<or> t = 7 \<or> t = 9 then 2 else 1)
      else if st = 4 then (if t = 7 then 2 else 1)
      else if st = 5 then (if t = 1 \<or> t = 9 then 2 else 1)
      else if st = 6 then (if t = 7 \<or> t = 9 then 3 else 1)
      else if st = 7 then (if t = 1 \<or> t = 7 \<or> t = 9 then 3 else 1)
      else if st = 8 then (if t = 1 then 3 else 1)
      else 1)"

lemma transition_table:
  assumes "st < 9" "t < 16"
  shows "transitions ! (st * 16 + t) = next_state st t"
proof -
  have "list_all (\<lambda>st. list_all (\<lambda>t. transitions ! (st * 16 + t) = next_state st t) [0..<16]) [0..<9]"
    by code_simp
  then show ?thesis using assms by (simp add: list_all_iff)
qed

text \<open>The ranges of the bytes a state still expects.\<close>

definition expects :: "nat \<Rightarrow> (nat \<times> nat) list" where
  "expects st =
     (if st = 2 then [(0x80, 0xBF)]
      else if st = 3 then [(0x80, 0xBF), (0x80, 0xBF)]
      else if st = 4 then [(0xA0, 0xBF), (0x80, 0xBF)]
      else if st = 5 then [(0x80, 0x9F), (0x80, 0xBF)]
      else if st = 6 then [(0x90, 0xBF), (0x80, 0xBF), (0x80, 0xBF)]
      else if st = 7 then [(0x80, 0xBF), (0x80, 0xBF), (0x80, 0xBF)]
      else if st = 8 then [(0x80, 0x8F), (0x80, 0xBF), (0x80, 0xBF)]
      else [])"

lemma byte_class_less: "byte_class b < 16"
  by (simp add: byte_class_def)

lemma decode_first:
  assumes "b < 256"
  shows "fst (decode 0 w b) =
     (if b < 0x80 then 0
      else if 0xC2 \<le> b \<and> b \<le> 0xDF then 2 else if b = 0xE0 then 4
      else if 0xE1 \<le> b \<and> b \<le> 0xEC \<or> 0xEE \<le> b \<and> b \<le> 0xEF then 3 else if b = 0xED then 5
      else if b = 0xF0 then 6 else if 0xF1 \<le> b \<and> b \<le> 0xF3 then 7 else if b = 0xF4 then 8 else 1)"
  using decode_class [OF assms, of 0 w] transition_table [of 0 "byte_class b"] byte_class_less [of b] assms
  by (auto simp: byte_class_def next_state_def)

lemma decode_lead:
  assumes "b < 256" "0x80 \<le> b"
  shows "case utf8_ranges b of
       None \<Rightarrow> fst (decode 0 w b) = 1
     | Some rs \<Rightarrow> expects (fst (decode 0 w b)) = rs \<and> fst (decode 0 w b) \<in> {2..8}"
  using assms by (simp add: decode_first utf8_ranges_def expects_def)

lemma decode_follow:
  assumes "b < 256" "expects st = (lo, hi) # rs"
  shows "fst (decode st w b) = (if lo \<le> b \<and> b \<le> hi then if rs = [] then 0 else length rs + 1 else 1)"
proof -
  consider "st = 2" | "st = 3" | "st = 4" | "st = 5" | "st = 6" | "st = 7" | "st = 8"
    using assms(2) by (auto simp: expects_def split: if_splits)
  then show ?thesis
    by cases (use assms byte_class_less [of b] transition_table [of st "byte_class b"] in
      \<open>auto simp: decode_class next_state_def expects_def byte_class_def\<close>)
qed

end
