(* ===== verification/Json_Dump_Strings.thy ===== *)
theory Json_Dump_Strings
  imports Json_Decode Json_Escapes
begin

text \<open>
  \<open>dump_escaped\<close> with the strict handler: it takes a string apart into code points, writes the
  escape of each, and throws exactly when the string is not UTF-8.
\<close>

section \<open>The code point the automaton puts together\<close>

definition lead_value :: "nat \<Rightarrow> nat" where
  "lead_value b = (if b < 0xE0 then b - 0xC0 else if b < 0xF0 then b - 0xE0 else b - 0xF0)"

definition code_point :: "nat \<Rightarrow> string \<Rightarrow> nat" where
  "code_point v bs = foldl (\<lambda>v c. 64 * v + (code c - 0x80)) v bs"

lemma code_point_simps [simp]:
  "code_point v [] = v"
  "code_point v (c # bs) = code_point (64 * v + (code c - 0x80)) bs"
  by (simp_all add: code_point_def)

lemma utf8_bytes_value:
  assumes "scalar cp" "0x80 \<le> cp" "utf8_bytes cp = c # bs"
  shows "code_point (lead_value (code c)) bs = cp"
proof -
  obtain w x y z where cp: "cp = 64 * (64 * (64 * w + x) + y) + z" and l: "x < 64" "y < 64" "z < 64"
    by (rule base64_digits)
  note div = base64_div [OF l, of w, folded cp] base64_mod [OF l, of w, folded cp]
  have w: "w \<le> 4" using assms cp by (auto simp: scalar_def)
  consider "cp \<le> 0x7FF" | "0x7FF < cp" "cp \<le> 0xFFFF" | "0xFFFF < cp" by linarith
  then show ?thesis
  proof cases
    case 1
    then have "w = 0" "x = 0" using cp by simp_all
    then have "y < 32" "2 \<le> y" using 1 cp assms(2) l by simp_all
    then show ?thesis
      using 1 assms(2,3) l div \<open>w = 0\<close> \<open>x = 0\<close> cp
      by (auto simp: utf8_bytes_def lead_value_def of_char_of)
  next
    case 2
    then have "w = 0" using cp by simp
    moreover have "x < 16" using 2 cp \<open>w = 0\<close> by simp
    ultimately show ?thesis
      using 2 assms(3) l div cp by (auto simp: utf8_bytes_def lead_value_def of_char_of)
  next
    case 3
    then show ?thesis
      using assms(3) l div(1,4-6) w cp by (auto simp: utf8_bytes_def lead_value_def of_char_of)
  qed
qed

lemma mod_offset:
  assumes "k * m \<le> b" "b < k * m + (k :: nat)"
  shows "b mod k = b - k * m"
proof -
  have "b mod k = (b - k * m + k * m) mod k" using assms(1) by simp
  also have "\<dots> = (b - k * m) mod k" by (simp only: mod_mult_self2)
  finally show ?thesis using assms by simp
qed

lemma mask_numerals:
  "(0x3F :: 32 word) = mask 6" "(0x1F :: 32 word) = mask 5" "(3 :: 32 word) = mask 2" "(0xFF :: 32 word) = mask 8"
  by (simp_all add: mask_eq_exp_minus_1)

lemma decode_ascii_codep:
  assumes "b < 0x80"
  shows "snd (decode 0 w b) = word_of_nat b"
proof -
  have "utf8d ! b = 0" using assms class_of_byte [of b] by (simp add: byte_class_def)
  then have "snd (decode 0 w b) = 0xFF AND word_of_nat b"
    by (simp add: decode_def Let_def UTF8_ACCEPT_def)
  also have "\<dots> = word_of_nat b AND mask 8" by (simp only: and.commute mask_numerals)
  finally show ?thesis using assms by (simp add: mask_of_nat)
qed

lemma decode_lead_codep:
  assumes "b < 256" "utf8_ranges b = Some rs"
  shows "snd (decode 0 w b) = word_of_nat (lead_value b)"
proof -
  have d: "snd (decode 0 w b) = drop_bit (byte_class b) 0xFF AND word_of_nat b"
    using class_of_byte [OF assms(1)] by (simp add: decode_def Let_def UTF8_ACCEPT_def)
  consider "0xC2 \<le> b" "b \<le> 0xDF" | "b = 0xE0" | "0xE1 \<le> b \<and> b \<le> 0xEC \<or> 0xEE \<le> b \<and> b \<le> 0xEF"
    | "b = 0xED" | "b = 0xF0" | "0xF1 \<le> b" "b \<le> 0xF3" | "b = 0xF4"
    using assms(2) by (auto simp: utf8_ranges_def split: if_splits)
  then show ?thesis
  proof cases
    case 1
    then have "snd (decode 0 w b) = word_of_nat b AND mask 6"
      unfolding d by (auto simp: byte_class_def and.commute mask_numerals [symmetric])
    moreover have "b mod 64 = b - 0xC0" using 1 mod_offset [of 64 3 b] by auto
    ultimately show ?thesis using 1 by (simp add: mask_of_nat lead_value_def)
  next
    case 3
    then have "snd (decode 0 w b) = word_of_nat b AND mask 5"
      unfolding d by (auto simp: byte_class_def and.commute mask_numerals [symmetric])
    moreover have "b mod 32 = b - 0xE0" using 3 mod_offset [of 32 7 b] by auto
    ultimately show ?thesis using 3 by (auto simp: mask_of_nat lead_value_def)
  next
    case 6
    then have "snd (decode 0 w b) = word_of_nat b AND mask 2"
      unfolding d by (auto simp: byte_class_def and.commute mask_numerals [symmetric])
    moreover have "b mod 4 = b - 0xF0" using 6 mod_offset [of 4 60 b] by auto
    ultimately show ?thesis using 6 by (simp add: mask_of_nat lead_value_def)
  qed (use d in \<open>simp_all add: byte_class_def lead_value_def\<close>)
qed

lemma decode_follow_codep:
  assumes "st \<noteq> 0" "0x80 \<le> b" "b \<le> 0xBF"
  shows "snd (decode st (word_of_nat v) b) = word_of_nat (64 * v + (b - 0x80))"
proof -
  have "(word_of_nat b AND 0x3F :: 32 word) = word_of_nat b AND mask 6"
    by (simp only: mask_numerals)
  also have "\<dots> = word_of_nat (b mod 2 ^ 6)" by (rule mask_of_nat)
  also have "b mod 2 ^ 6 = b - 0x80" using assms(2,3) mod_offset [of 64 2 b] by simp
  finally have a: "(word_of_nat b AND 0x3F :: 32 word) = word_of_nat (b - 0x80)" .
  have "(word_of_nat b AND 0x3F) OR push_bit 6 (word_of_nat v :: 32 word)
      = (word_of_nat b AND 0x3F) + push_bit 6 (word_of_nat v)"
    unfolding mask_numerals
    by (rule disjunctive_add [symmetric]) (auto simp: bit_push_bit_iff bit_and_iff bit_mask_iff)
  then show ?thesis
    using assms(1) a by (simp add: decode_def Let_def UTF8_ACCEPT_def push_bit_eq_mult)
qed

section \<open>One code point at a time\<close>

text \<open>The escape of a code point: the bytes before the last are copied unless all is ASCII.\<close>

definition escaped :: "bool \<Rightarrow> nat \<Rightarrow> string" where
  "escaped ascii cp =
     (if ascii then [] else butlast (utf8_bytes cp))
       @ escape_codepoint ascii (word_of_nat cp) (last (utf8_bytes cp))"

definition written :: "escape_state \<Rightarrow> string" where
  "written x = esc_out x @ esc_buffer x"

lemma flush_simps [simp]:
  "written (flush x) = written x" "esc_state (flush x) = esc_state x"
  "esc_codepoint (flush x) = esc_codepoint x"
  by (simp_all add: flush_def written_def)

lemma accept_simps [simp]:
  "written (accept_byte a c x) = written x @ escape_codepoint a (esc_codepoint x) c"
  "esc_state (accept_byte a c x) = esc_state x" "esc_undumped (accept_byte a c x) = 0"
  by (simp_all add: accept_byte_def Let_def)
    (simp_all add: written_def flush_def)

lemma partial_simps [simp]:
  "written (partial_byte a c x) = written x @ (if a then [] else [c])"
  "esc_state (partial_byte a c x) = esc_state x"
  "esc_codepoint (partial_byte a c x) = esc_codepoint x"
  by (simp_all add: partial_byte_def written_def)

text \<open>
  The state inside a multi-byte sequence: which bytes may come, and the value so far.
\<close>

definition inside :: "(nat \<times> nat) list \<Rightarrow> nat \<Rightarrow> escape_state \<Rightarrow> bool" where
  "inside rs v x \<longleftrightarrow> rs \<noteq> [] \<and> expects (esc_state x) = rs \<and> esc_codepoint x = word_of_nat v"

lemma expects_simps: "expects 0 = []" "expects 1 = []"
  by (simp_all add: expects_def)

lemma expects_tail: "expects st = r # rs \<Longrightarrow> rs \<noteq> [] \<Longrightarrow> expects (length rs + 1) = rs"
  by (auto simp: expects_def split: if_splits)

lemma expects_range: "expects st = (lo, hi) # rs \<Longrightarrow> 0x80 \<le> lo \<and> hi \<le> 0xBF \<and> st \<noteq> 0 \<and> st \<noteq> 1"
  by (auto simp: expects_def split: if_splits)

lemma decode_pair: "decode st w b = (fst (decode st w b), snd (decode st w b))"
  by simp

text \<open>One byte of the loop.\<close>

lemma loop_first:
  assumes "i < length s" "esc_state x = 0" "code (s ! i) < 0x80"
  shows "\<exists>y. escape_loop Strict a s i x = escape_loop Strict a s (i + 1) y \<and> esc_state y = 0
     \<and> written y = written x @ escaped a (code (s ! i))"
proof -
  let ?c = "s ! i"
  have d: "decode (esc_state x) (esc_codepoint x) (code ?c) = (0, word_of_nat (code ?c))"
    using assms(2,3) decode_first [of "code ?c"] decode_ascii_codep [of "code ?c"]
    by (simp add: prod_eq_iff)
  define y where "y = accept_byte a ?c (x\<lparr>esc_state := 0, esc_codepoint := word_of_nat (code ?c)\<rparr>)"
  have "escape_loop Strict a s i x = escape_loop Strict a s (i + 1) y"
    using assms(1) d by (subst escape_loop.simps) (simp add: Let_def UTF8_ACCEPT_def y_def)
  moreover have "written y = written x @ escaped a (code ?c)"
    using assms(3) by (simp add: y_def escaped_def utf8_bytes_def) (simp add: written_def)
  ultimately show ?thesis by (auto simp: y_def)
qed

lemma loop_lead:
  assumes "i < length s" "esc_state x = 0" "0x80 \<le> code (s ! i)" "utf8_ranges (code (s ! i)) = Some rs"
  shows "\<exists>y. escape_loop Strict a s i x = escape_loop Strict a s (i + 1) y
     \<and> inside rs (lead_value (code (s ! i))) y \<and> written y = written x @ (if a then [] else [s ! i])"
proof -
  let ?c = "s ! i"
  define st where "st = fst (decode 0 (esc_codepoint x) (code ?c))"
  have st: "expects st = rs" "st \<in> {2..8}"
    using decode_lead [of "code ?c" "esc_codepoint x"] assms(3,4) by (simp_all add: st_def)
  have d: "decode (esc_state x) (esc_codepoint x) (code ?c) = (st, word_of_nat (lead_value (code ?c)))"
    using assms(2,4) decode_lead_codep [of "code ?c" rs] by (simp add: prod_eq_iff st_def)
  define y where "y = partial_byte a ?c (x\<lparr>esc_state := st, esc_codepoint := word_of_nat (lead_value (code ?c))\<rparr>)"
  have "escape_loop Strict a s i x = escape_loop Strict a s (i + 1) y"
    using assms(1) d st(2)
    by (subst escape_loop.simps) (simp add: Let_def UTF8_ACCEPT_def UTF8_REJECT_def y_def)
  moreover have "rs \<noteq> []" using assms(4) by (auto simp: utf8_ranges_def split: if_splits)
  ultimately show ?thesis
    using st(1) by (intro exI [of _ y]) (simp add: y_def inside_def, simp add: written_def)
qed

lemma loop_bad_lead:
  assumes "i < length s" "esc_state x = 0" "0x80 \<le> code (s ! i)" "utf8_ranges (code (s ! i)) = None"
  shows "escape_loop Strict a s i x = Inl (Throw (Json_type_error 316))"
proof -
  have "fst (decode 0 (esc_codepoint x) (code (s ! i))) = 1"
    using decode_lead [of "code (s ! i)" "esc_codepoint x"] assms(3,4) by simp
  then obtain w where "decode 0 (esc_codepoint x) (code (s ! i)) = (1, w)" by (metis prod.collapse)
  then show ?thesis
    using assms(1,2) by (subst escape_loop.simps) (simp add: Let_def UTF8_ACCEPT_def UTF8_REJECT_def)
qed

lemma loop_follow:
  assumes "i < length s" "inside ((lo, hi) # rs) v x" "lo \<le> code (s ! i)" "code (s ! i) \<le> hi"
  defines "v' \<equiv> 64 * v + (code (s ! i) - 0x80)"
  shows "\<exists>y. escape_loop Strict a s i x = escape_loop Strict a s (i + 1) y
     \<and> (if rs = [] then esc_state y = 0 \<and> written y = written x @ escape_codepoint a (word_of_nat v') (s ! i)
        else inside rs v' y \<and> written y = written x @ (if a then [] else [s ! i]))"
proof -
  let ?c = "s ! i"
  have e: "expects (esc_state x) = (lo, hi) # rs" "esc_codepoint x = word_of_nat v"
    using assms(2) by (simp_all add: inside_def)
  note r = expects_range [OF e(1)]
  define st where "st = (if rs = [] then 0 else length rs + 1)"
  have d: "decode (esc_state x) (esc_codepoint x) (code ?c) = (st, word_of_nat v')"
    using decode_follow [OF code_less e(1)] assms(3,4) r e(2)
      decode_follow_codep [of "esc_state x" "code ?c" v]
    by (simp add: prod_eq_iff st_def v'_def)
  show ?thesis
  proof (cases "rs = []")
    case True
    define y where "y = accept_byte a ?c (x\<lparr>esc_state := 0, esc_codepoint := word_of_nat v'\<rparr>)"
    have "escape_loop Strict a s i x = escape_loop Strict a s (i + 1) y"
      using assms(1) d True by (subst escape_loop.simps) (simp add: Let_def UTF8_ACCEPT_def y_def st_def)
    then show ?thesis
      using True by (intro exI [of _ y]) (simp add: y_def, simp add: written_def)
  next
    case False
    define y where "y = partial_byte a ?c (x\<lparr>esc_state := st, esc_codepoint := word_of_nat v'\<rparr>)"
    have "escape_loop Strict a s i x = escape_loop Strict a s (i + 1) y"
      using assms(1) d False
      by (subst escape_loop.simps) (simp add: Let_def UTF8_ACCEPT_def UTF8_REJECT_def y_def st_def)
    moreover have "inside rs v' y"
      using False expects_tail [OF e(1)] by (simp add: inside_def y_def st_def)
    ultimately show ?thesis
      using False by (intro exI [of _ y]) (simp add: y_def, simp add: written_def)
  qed
qed

lemma loop_bad_follow:
  assumes "i < length s" "inside ((lo, hi) # rs) v x" "\<not> (lo \<le> code (s ! i) \<and> code (s ! i) \<le> hi)"
  shows "escape_loop Strict a s i x = Inl (Throw (Json_type_error 316))"
proof -
  have "expects (esc_state x) = (lo, hi) # rs" using assms(2) by (simp add: inside_def)
  then have "fst (decode (esc_state x) (esc_codepoint x) (code (s ! i))) = 1"
    using decode_follow [OF code_less, of "esc_state x" lo hi rs] assms(3) by auto
  then obtain w where "decode (esc_state x) (esc_codepoint x) (code (s ! i)) = (1, w)"
    by (metis prod.collapse)
  then show ?thesis
    using assms(1) by (subst escape_loop.simps) (simp add: Let_def UTF8_ACCEPT_def UTF8_REJECT_def)
qed

section \<open>The whole string\<close>

abbreviation in_ranges :: "(nat \<times> nat) list \<Rightarrow> string \<Rightarrow> bool" where
  "in_ranges \<equiv> list_all2 (\<lambda>(lo, hi) c. lo \<le> code c \<and> code c \<le> hi)"

definition finish :: "bool \<Rightarrow> string \<Rightarrow> nat \<Rightarrow> escape_state \<Rightarrow> string result" where
  "finish a s i x = bind_result (escape_loop Strict a s i x) (escape_end Strict a)"

lemma finish_step:
  "escape_loop Strict a s i x = escape_loop Strict a s j y \<Longrightarrow> finish a s i x = finish a s j y"
  by (simp add: finish_def)

lemma finish_fail: "escape_loop Strict a s i x = Inl e \<Longrightarrow> finish a s i x = Inl e"
  by (simp add: finish_def)

lemma finish_end:
  "length s \<le> i \<Longrightarrow> finish a s i x = (if esc_state x = 0 then Inr (written x) else Inl (Throw (Json_type_error 316)))"
  by (simp add: finish_def escape_loop.simps [of Strict a s i x] escape_end_def UTF8_ACCEPT_def written_def)

lemma drop_Cons: "drop i s = c # t \<longleftrightarrow> i < length s \<and> s ! i = c \<and> drop (i + 1) s = t"
  by (metis Cons_nth_drop_Suc Suc_eq_plus1 drop_eq_Nil leI list.distinct(1) list.inject)

lemma drop_rest:
  assumes "drop i s = u @ v"
  shows "drop (i + length u) s = v"
proof -
  have "drop (i + length u) s = drop (length u) (drop i s)" by (simp add: add.commute)
  then show ?thesis using assms by simp
qed

lemma finish_inside:
  assumes "inside rs v x" "drop i s = bs @ rest" "in_ranges rs bs"
  shows "\<exists>y. finish a s i x = finish a s (i + length bs) y \<and> esc_state y = 0
     \<and> written y = written x @ (if a then [] else butlast bs)
         @ escape_codepoint a (word_of_nat (code_point v bs)) (last bs)"
  using assms
proof (induction rs arbitrary: v x i bs)
  case Nil
  then show ?case by (simp add: inside_def)
next
  case (Cons r rs)
  obtain lo hi where r: "r = (lo, hi)" by (cases r)
  obtain b bs' where bs: "bs = b # bs'" "lo \<le> code b" "code b \<le> hi" "in_ranges rs bs'"
    using Cons.prems(3) r by (auto simp: list_all2_Cons1)
  have i: "i < length s" "s ! i = b" "drop (i + 1) s = bs' @ rest"
    using Cons.prems(2) bs(1) drop_Cons [of i s b "bs' @ rest"] by simp_all
  obtain y where y: "escape_loop Strict a s i x = escape_loop Strict a s (i + 1) y"
    "if rs = [] then esc_state y = 0
        \<and> written y = written x @ escape_codepoint a (word_of_nat (64 * v + (code b - 0x80))) b
      else inside rs (64 * v + (code b - 0x80)) y \<and> written y = written x @ (if a then [] else [b])"
    using loop_follow [OF i(1) Cons.prems(1) [unfolded r], of a] bs i(2) by auto
  show ?case
  proof (cases "rs = []")
    case True
    then have "bs' = []" using bs(4) by simp
    then show ?thesis using True y finish_step [OF y(1)] bs(1) by auto
  next
    case False
    then have ne: "bs' \<noteq> []" using bs(4) by auto
    have ins: "inside rs (64 * v + (code b - 0x80)) y" using False y(2) by simp
    obtain z where "finish a s (i + 1) y = finish a s (i + 1 + length bs') z" "esc_state z = 0"
      "written z = written y @ (if a then [] else butlast bs')
         @ escape_codepoint a (word_of_nat (code_point (64 * v + (code b - 0x80)) bs')) (last bs')"
      using Cons.IH [OF ins i(3) bs(4)] by blast
    then show ?thesis using False ne y finish_step [OF y(1)] bs(1) by (intro exI [of _ z]) simp
  qed
qed

lemma finish_inside_fail:
  assumes "inside rs v x" "\<not> (\<exists>bs rest. drop i s = bs @ rest \<and> in_ranges rs bs)"
  shows "finish a s i x = Inl (Throw (Json_type_error 316))"
  using assms
proof (induction rs arbitrary: v x i)
  case Nil
  then show ?case by (simp add: inside_def)
next
  case (Cons r rs)
  obtain lo hi where r: "r = (lo, hi)" by (cases r)
  show ?case
  proof (cases "i < length s")
    case False
    have "esc_state x \<noteq> 0"
      using Cons.prems(1) r expects_range [of "esc_state x"] by (auto simp: inside_def)
    with False show ?thesis by (simp add: finish_end)
  next
    case True
    then have d: "drop i s = s ! i # drop (i + 1) s" by (simp add: Cons_nth_drop_Suc)
    show ?thesis
    proof (cases "lo \<le> code (s ! i) \<and> code (s ! i) \<le> hi")
      case False
      then show ?thesis using loop_bad_follow [OF True Cons.prems(1) [unfolded r]] finish_fail by blast
    next
      case in_range: True
      then obtain y where y: "escape_loop Strict a s i x = escape_loop Strict a s (i + 1) y"
        "if rs = [] then esc_state y = 0
            \<and> written y = written x @ escape_codepoint a (word_of_nat (64 * v + (code (s ! i) - 0x80))) (s ! i)
          else inside rs (64 * v + (code (s ! i) - 0x80)) y \<and> written y = written x @ (if a then [] else [s ! i])"
        using loop_follow [OF True Cons.prems(1) [unfolded r], of a] by auto
      have no: "\<not> (\<exists>bs rest. drop (i + 1) s = bs @ rest \<and> in_ranges rs bs)"
      proof
        assume "\<exists>bs rest. drop (i + 1) s = bs @ rest \<and> in_ranges rs bs"
        then obtain bs rest where b: "drop (i + 1) s = bs @ rest" "in_ranges rs bs" by blast
        then have "drop i s = (s ! i # bs) @ rest" "in_ranges (r # rs) (s ! i # bs)"
          using d in_range r by simp_all
        then show False using Cons.prems(2) by blast
      qed
      have "rs \<noteq> []"
      proof
        assume "rs = []"
        then have "drop (i + 1) s = [] @ drop (i + 1) s \<and> in_ranges rs []" by simp
        then show False using no by blast
      qed
      then show ?thesis using Cons.IH [OF _ no] y finish_step [OF y(1)] by auto
    qed
  qed
qed

lemma finish_valid:
  assumes "\<forall>cp \<in> set cps. scalar cp" "drop i s = concat (map utf8_bytes cps)" "esc_state x = 0"
  shows "finish a s i x = Inr (written x @ concat (map (escaped a) cps))"
  using assms
proof (induction cps arbitrary: i x)
  case Nil
  then show ?case by (simp add: finish_end)
next
  case (Cons cp cps)
  define rest where "rest = concat (map utf8_bytes cps)"
  have step: "\<exists>y. finish a s i x = finish a s (i + length (utf8_bytes cp)) y \<and> esc_state y = 0
      \<and> written y = written x @ escaped a cp"
  proof (cases "cp < 0x80")
    case True
    then have u: "utf8_bytes cp = [char_of cp]" by (simp add: utf8_bytes_def)
    then have i: "i < length s" "s ! i = char_of cp"
      using Cons.prems(2) drop_Cons [of i s "char_of cp" rest] by (simp_all add: rest_def)
    have c: "code (s ! i) = cp" using True i(2) by (simp add: of_char_of)
    obtain y where y: "escape_loop Strict a s i x = escape_loop Strict a s (i + 1) y" "esc_state y = 0"
      "written y = written x @ escaped a cp"
      using loop_first [OF i(1) Cons.prems(3), of a, unfolded c, OF True] by blast
    have "finish a s i x = finish a s (i + length (utf8_bytes cp)) y"
      unfolding u using finish_step [OF y(1)] by simp
    then show ?thesis using y(2,3) by blast
  next
    case False
    then obtain c bs where u: "utf8_bytes cp = c # bs" "0x80 \<le> code c" "follows (code c) bs"
      using utf8_bytes_follow [of cp] Cons.prems(1) by fastforce
    then have i: "i < length s" "s ! i = c" "drop (i + 1) s = bs @ rest"
      using Cons.prems(2) drop_Cons [of i s c "bs @ rest"] by (simp_all add: rest_def)
    obtain rs where rs: "utf8_ranges (code c) = Some rs" "in_ranges rs bs"
      using u(3) by (auto simp: follows_def split: option.splits)
    obtain y where y: "escape_loop Strict a s i x = escape_loop Strict a s (i + 1) y"
      "inside rs (lead_value (code c)) y" "written y = written x @ (if a then [] else [c])"
      using loop_lead [OF i(1) Cons.prems(3), of rs a] u(2) rs(1) i(2) by auto
    obtain z where z: "finish a s (i + 1) y = finish a s (i + 1 + length bs) z" "esc_state z = 0"
      "written z = written y @ (if a then [] else butlast bs)
         @ escape_codepoint a (word_of_nat (code_point (lead_value (code c)) bs)) (last bs)"
      using finish_inside [OF y(2) i(3) rs(2), of a] by blast
    have "code_point (lead_value (code c)) bs = cp"
      using utf8_bytes_value [OF _ _ u(1)] False Cons.prems(1) by simp
    moreover have "bs \<noteq> []" using y(2) rs(2) by (auto simp: inside_def)
    ultimately have "written z = written x @ escaped a cp"
      using z(3) y(3) u(1) by (simp add: escaped_def)
    then show ?thesis using z finish_step [OF y(1)] u(1) by (intro exI [of _ z]) simp
  qed
  then obtain y where y: "finish a s i x = finish a s (i + length (utf8_bytes cp)) y" "esc_state y = 0"
    "written y = written x @ escaped a cp" by blast
  have "drop (i + length (utf8_bytes cp)) s = concat (map utf8_bytes cps)"
    by (rule drop_rest) (use Cons.prems(2) in simp)
  then show ?case using Cons.IH [OF _ _ y(2)] Cons.prems(1) y by simp
qed

lemma finish_invalid:
  assumes "\<not> utf8_valid (drop i s)" "esc_state x = 0"
  shows "finish a s i x = Inl (Throw (Json_type_error 316))"
  using assms
proof (induction "length s - i" arbitrary: i x rule: less_induct)
  case less
  have i: "i < length s" using less.prems(1) by (cases "i < length s") simp_all
  then have d: "drop i s = s ! i # drop (i + 1) s" by (simp add: Cons_nth_drop_Suc)
  show ?case
  proof (cases "code (s ! i) < 0x80")
    case True
    then obtain y where y: "escape_loop Strict a s i x = escape_loop Strict a s (i + 1) y" "esc_state y = 0"
      using loop_first [OF i less.prems(2), of a] by blast
    have "\<not> utf8_valid (drop (i + 1) s)"
      using less.prems(1) d utf8_valid_append [OF ascii_valid [OF True]] by auto
    then show ?thesis using less.hyps [of "i + 1" y] i y finish_step [OF y(1)] by simp
  next
    case hi: False
    show ?thesis
    proof (cases "utf8_ranges (code (s ! i))")
      case None
      then show ?thesis using loop_bad_lead [OF i less.prems(2)] hi finish_fail by simp
    next
      case (Some rs)
      then obtain y where y: "escape_loop Strict a s i x = escape_loop Strict a s (i + 1) y"
        "inside rs (lead_value (code (s ! i))) y"
        using loop_lead [OF i less.prems(2), of rs a] hi by auto
      show ?thesis
      proof (cases "\<exists>bs rest. drop (i + 1) s = bs @ rest \<and> in_ranges rs bs")
        case False
        then show ?thesis using finish_inside_fail [OF y(2)] finish_step [OF y(1)] by simp
      next
        case True
        then obtain bs rest where b: "drop (i + 1) s = bs @ rest" "in_ranges rs bs" by blast
        obtain z where z: "finish a s (i + 1) y = finish a s (i + 1 + length bs) z" "esc_state z = 0"
          using finish_inside [OF y(2) b, of a] by blast
        have "utf8_valid (s ! i # bs)"
          using follows_valid [of "s ! i" bs] Some b(2) by (simp add: follows_def)
        then have "\<not> utf8_valid rest"
          using less.prems(1) d b(1) utf8_valid_append [of "s ! i # bs" rest] by auto
        moreover have "drop (i + 1 + length bs) s = rest"
          by (rule drop_rest [OF b(1)])
        ultimately show ?thesis
          using less.hyps [of "i + 1 + length bs" z] i z finish_step [OF y(1)] by simp
      qed
    qed
  qed
qed

lemma dump_escaped_finish:
  "dump_escaped Strict a s = finish a s 0
     \<lparr>esc_state = UTF8_ACCEPT, esc_codepoint = 0, esc_buffer = [], esc_last_accept = 0,
      esc_undumped = 0, esc_out = []\<rparr>"
  by (simp add: dump_escaped_def finish_def)

text \<open>The escape of a whole string.\<close>

lemma dump_escaped_valid:
  "\<forall>cp \<in> set cps. scalar cp \<Longrightarrow>
     dump_escaped Strict a (concat (map utf8_bytes cps)) = Inr (concat (map (escaped a) cps))"
  by (simp add: dump_escaped_finish finish_valid UTF8_ACCEPT_def written_def)

lemma dump_escaped_invalid:
  "\<not> utf8_valid s \<Longrightarrow> dump_escaped Strict a s = Inl (Throw (Json_type_error 316))"
  by (simp add: dump_escaped_finish finish_invalid UTF8_ACCEPT_def)

lemma dump_escaped_iff:
  "(\<exists>t. dump_escaped Strict a s = Inr t) \<longleftrightarrow> utf8_valid s"
  using dump_escaped_valid dump_escaped_invalid unfolding utf8_valid_def by fastforce

end
