(* ===== verification/Json_Types.thy ===== *)
theory Json_Types
  imports Json_Sound Json_Utf8
begin

text \<open>
  The values the parser produces are well formed: every string, keys included, is UTF-8, every
  float is finite, and every object is a sorted map.
\<close>

section \<open>What a string literal leaves in the token buffer\<close>

lemma token_buffer_read_hex: "token_buffer (snd (read_hex fs n l)) = token_buffer l"
  by (induction fs n l rule: read_hex.induct) (auto simp: Let_def split: option.split)

lemma hex_value_less: "hex_value c = Some v \<Longrightarrow> v < 16"
  by (auto simp: hex_value_def less_eq_char_def split: option.splits if_splits)

lemma read_hex_less:
  "read_hex fs n l = (Some m, l') \<Longrightarrow> m \<le> n + sum_list (map (\<lambda>f. 15 * 2 ^ f) fs)"
proof (induction fs n l rule: read_hex.induct)
  case (2 f fs n l)
  then obtain v where v: "hex_value (current (lexer_get l)) = Some v"
    "read_hex fs (n + v * 2 ^ f) (lexer_get l) = (Some m, l')"
    by (auto simp: Let_def split: option.splits)
  have "m \<le> n + v * 2 ^ f + sum_list (map (\<lambda>f. 15 * 2 ^ f) fs)" using 2(1) [OF refl v] .
  moreover have "v * 2 ^ f \<le> 15 * 2 ^ f" using hex_value_less [OF v(1)] by (intro mult_right_mono) simp_all
  ultimately show ?case unfolding list.map sum_list.Cons by linarith
qed simp

lemma get_codepoint_bound:
  assumes "get_codepoint l = (Some n, l')"
  shows "n \<le> 0xFFFF" "token_buffer l' = token_buffer l"
  using read_hex_less [OF assms [unfolded get_codepoint_def]] token_buffer_read_hex [of "[12, 8, 4, 0]" 0 l] assms
  by (simp_all add: get_codepoint_def)

lemma add_codepoint_buffer: "token_buffer (add_codepoint cp l) = token_buffer l @ utf8_bytes cp"
proof -
  have "token_buffer (fold lexer_add s l) = token_buffer l @ s" for s
    by (induction s arbitrary: l) simp_all
  then show ?thesis by (simp add: add_codepoint_def)
qed

lemma second_surrogate_valid:
  assumes "scan_second_surrogate n l = (True, l')" "0xD800 \<le> n" "n \<le> 0xDBFF" "utf8_valid (token_buffer l)"
  shows "utf8_valid (token_buffer l')"
proof -
  obtain m l1 where m: "get_codepoint (lexer_get (lexer_get l)) = (Some m, l1)" "0xDC00 \<le> m" "m \<le> 0xDFFF"
    "l' = add_codepoint (n * 1024 + m - 0x35FDC00) l1"
    using assms(1) by (auto simp: scan_second_surrogate_def Let_def split: if_splits prod.splits option.splits)
  have "scalar (n * 1024 + m - 0x35FDC00)"
    unfolding scalar_def using assms(2,3) m(2,3) by (intro disjI2 conjI) linarith+
  then show ?thesis
    using assms(4) get_codepoint_bound(2) [OF m(1)]
    by (simp add: m(4) add_codepoint_buffer utf8_valid_append utf8_valid_bytes)
qed

lemma unicode_escape_valid:
  assumes "scan_unicode_escape l = (True, l')" "utf8_valid (token_buffer l)"
  shows "utf8_valid (token_buffer l')"
proof -
  obtain n l1 where n: "get_codepoint l = (Some n, l1)"
    and r: "(if 0xD800 \<le> n \<and> n \<le> 0xDBFF then scan_second_surrogate n l1
       else if 0xDC00 \<le> n \<and> n \<le> 0xDFFF then (False, fail_with bad_low_surrogate l1)
       else (True, add_codepoint n l1)) = (True, l')"
    using assms(1) by (auto simp: scan_unicode_escape_def split: prod.splits option.splits)
  have l1: "utf8_valid (token_buffer l1)" using get_codepoint_bound(2) [OF n] assms(2) by simp
  show ?thesis
  proof (cases "0xD800 \<le> n \<and> n \<le> 0xDBFF")
    case True
    then show ?thesis using r second_surrogate_valid l1 by auto
  next
    case False
    then have "scalar n" "l' = add_codepoint n l1"
      using r get_codepoint_bound(1) [OF n] by (auto simp: scalar_def split: if_splits)
    then show ?thesis using l1 by (simp add: add_codepoint_buffer utf8_valid_append utf8_valid_bytes)
  qed
qed

lemma simple_escape_ascii: "simple_escape c = Some d \<Longrightarrow> code d < 0x80"
  by (auto simp: simple_escape_def dquote_def backslash_def split: if_splits)

lemma next_bytes_buffer:
  "next_bytes rs l = (True, l') \<Longrightarrow>
     \<exists>bs. list_all2 (\<lambda>(lo, hi) c. lo \<le> code c \<and> code c \<le> hi) rs bs \<and> token_buffer l' = token_buffer l @ bs"
proof (induction rs l rule: next_bytes.induct)
  case (2 lo hi rs l)
  then obtain c where c: "current (lexer_get l) = Some c" "lo \<le> code c" "code c \<le> hi"
    "next_bytes rs (add_current (lexer_get l)) = (True, l')"
    by (auto simp: Let_def split: option.splits if_splits)
  then obtain bs where bs: "list_all2 (\<lambda>(lo, hi) c. lo \<le> code c \<and> code c \<le> hi) rs bs"
    "token_buffer l' = token_buffer (add_current (lexer_get l)) @ bs"
    using 2(1) [OF refl c(1)] by auto
  then show ?case using c by (intro exI [of _ "c # bs"]) (simp add: current_char_def)
qed simp

lemma scan_char_valid:
  assumes "scan_char c l = (True, l')" "current l = Some c" "utf8_valid (token_buffer l)"
  shows "utf8_valid (token_buffer l')"
proof -
  consider (esc) "c = backslash" | (ascii) "c \<noteq> backslash" "code c \<le> 0x7F" | (lead) "c \<noteq> backslash" "0x7F < code c"
    by linarith
  then show ?thesis
  proof cases
    case esc
    then have "scan_escape l = (True, l')" using assms(1) by (simp add: scan_char_def)
    then consider d e where "simple_escape d = Some e" "l' = lexer_add e (lexer_get l)"
      | "scan_unicode_escape (lexer_get l) = (True, l')"
      by (auto simp: scan_escape_def Let_def split: option.splits if_splits)
    then show ?thesis
    proof cases
      case 1
      then show ?thesis
        using assms(3) simple_escape_ascii by (auto simp: utf8_valid_append ascii_valid)
    next
      case 2
      then show ?thesis by (rule unicode_escape_valid) (use assms(3) in simp)
    qed
  next
    case ascii
    then have "l' = add_current l" using assms(1) by (auto simp: scan_char_def split: if_splits)
    then show ?thesis
      using ascii assms(2,3) by (simp add: utf8_valid_append ascii_valid current_char_def)
  next
    case lead
    then obtain rs where rs: "utf8_ranges (code c) = Some rs" "next_bytes rs (add_current l) = (True, l')"
      using assms(1) by (auto simp: scan_char_def next_byte_in_range_def split: if_splits option.splits)
    obtain bs where bs: "list_all2 (\<lambda>(lo, hi) c. lo \<le> code c \<and> code c \<le> hi) rs bs"
      "token_buffer l' = token_buffer (add_current l) @ bs"
      using next_bytes_buffer [OF rs(2)] by blast
    then have "follows (code c) bs" using rs(1) by (simp add: follows_def)
    then show ?thesis
      using bs(2) assms(2,3) follows_valid utf8_valid_append [of "token_buffer l" "c # bs"]
      by (simp add: current_char_def)
  qed
qed

lemma scan_string_loop_valid:
  "scan_string_loop l = (Tok_value_string, l') \<Longrightarrow> utf8_valid (token_buffer l) \<Longrightarrow> utf8_valid (token_buffer l')"
proof (induction l rule: scan_string_loop.induct)
  case (1 l)
  obtain c where c: "current (lexer_get l) = Some c"
    using 1(2) by (auto simp: scan_string_loop.simps [of l] Let_def split: option.splits)
  show ?case
  proof (cases "c = dquote")
    case True
    then show ?thesis using 1(2,3) c by (auto simp: scan_string_loop.simps [of l] Let_def)
  next
    case False
    then obtain l1 where l1: "scan_char c (lexer_get l) = (True, l1)" "scan_string_loop l1 = (Tok_value_string, l')"
      using 1(2) c by (auto simp: scan_string_loop.simps [of l] Let_def split: prod.splits bool.splits)
    have "utf8_valid (token_buffer l1)" by (rule scan_char_valid [OF l1(1) c]) (simp add: 1(3))
    then show ?thesis using 1(1) [OF refl c False l1(1) [symmetric] _ l1(2)] by simp
  qed
qed

section \<open>String tokens\<close>


text \<open>Only \<open>scan_string\<close> yields a string token.\<close>

definition not_string :: "token_type \<times> lexer \<Rightarrow> bool" where
  "not_string r \<longleftrightarrow> fst r \<noteq> Tok_value_string"

lemma not_string_simps [simp]: "not_string (t, l) \<longleftrightarrow> t \<noteq> Tok_value_string"
  by (simp add: not_string_def)

lemma not_string_done [simp]: "not_string (number_done t l)"
  by (simp add: number_done_def Let_def split: prod.split)

lemma not_string_any2 [simp]: "not_string (number_any2 t l)"
  by (induction t l rule: number_any2.induct) (subst number_any2.simps, simp add: Let_def)

lemma not_string_exponent [simp]: "not_string (number_exponent l)"
  by (simp add: number_exponent_def number_sign_def Let_def)

lemma not_string_decimal2 [simp]: "not_string (number_decimal2 t l)"
  by (induction t l rule: number_decimal2.induct) (subst number_decimal2.simps, simp add: Let_def)

lemma not_string_decimal1 [simp]: "not_string (number_decimal1 l)"
  by (simp add: number_decimal1_def Let_def)

lemma not_string_any1 [simp]: "not_string (number_any1 t l)"
  by (induction t l rule: number_any1.induct) (subst number_any1.simps, simp add: Let_def)

lemma not_string_number [simp]: "not_string (scan_number l)"
  by (simp add: scan_number_def number_minus_def number_zero_def Let_def)

lemma not_string_literal [simp]: "t \<noteq> Tok_value_string \<Longrightarrow> not_string (scan_literal s t l)"
proof -
  have "not_string (scan_literal_rest cs t l)" if "t \<noteq> Tok_value_string" for cs
    using that by (induction cs t l rule: scan_literal_rest.induct) (simp_all add: Let_def)
  then show "t \<noteq> Tok_value_string \<Longrightarrow> not_string (scan_literal s t l)" by (simp add: scan_literal_def)
qed

lemma scan_token_string:
  assumes "scan_token l = (Tok_value_string, l')"
  shows "utf8_valid (token_buffer l')"
proof -
  have "current l = Some dquote"
  proof (rule ccontr)
    assume "current l \<noteq> Some dquote"
    then have "not_string (scan_token l)"
      by (cases "current l") (simp_all add: scan_token_def if_distrib [of not_string])
    then show False using assms by simp
  qed
  then have "scan_string_loop (lexer_reset l) = (Tok_value_string, l')"
    using assms by (simp add: scan_token_def dquote_def scan_string_def)
  then show ?thesis by (rule scan_string_loop_valid) simp
qed

lemma scan_string_token:
  assumes "scan l = (Tok_value_string, l')"
  shows "utf8_valid (token_buffer l')"
  using assms scan_token_string
  by (auto simp: scan_def Let_def split: prod.splits bool.splits if_splits)

definition good_token :: "tok \<Rightarrow> bool" where
  "good_token t \<longleftrightarrow> (case t of TString s \<Rightarrow> utf8_valid s | _ \<Rightarrow> True)"

lemma good_get_token: "good_token (tok (get_token p))"
  using scan_string_token [of "m_lexer p"]
  by (cases "scan (m_lexer p)") (auto simp: good_token_def tok_def token_of_def get_token_def)

lemma good_reads: "reads p ts q \<Longrightarrow> list_all good_token ts"
  by (induction ts arbitrary: p) (auto simp: good_get_token)

lemma good_tokens: "tokens s ts \<Longrightarrow> list_all good_token ts"
  using good_get_token good_reads
  by (cases ts) (auto simp: tokens_def make_parser_def)

section \<open>Well-formed values\<close>

fun json_ok :: "json \<Rightarrow> bool" where
  "json_ok (JString s) \<longleftrightarrow> utf8_valid s"
| "json_ok (JFloat w) \<longleftrightarrow> isfinite w"
| "json_ok (JArray vs) \<longleftrightarrow> list_all json_ok vs"
| "json_ok (JObject m) \<longleftrightarrow> object_ok m \<and> list_all (\<lambda>(k, v). utf8_valid k \<and> json_ok v) m"
| "json_ok (JBinary _ _) \<longleftrightarrow> False"
| "json_ok _ \<longleftrightarrow> True"

lemma json_ok_put:
  "json_ok (JObject m) \<Longrightarrow> utf8_valid k \<Longrightarrow> json_ok v \<Longrightarrow> json_ok (JObject (object_put k v m))"
proof -
  have "list_all (\<lambda>(k, v). utf8_valid k \<and> json_ok v) m \<Longrightarrow> utf8_valid k \<Longrightarrow> json_ok v
      \<Longrightarrow> list_all (\<lambda>(k, v). utf8_valid k \<and> json_ok v) (object_put k v m)"
    by (induction k v m rule: object_put.induct) auto
  then show "json_ok (JObject m) \<Longrightarrow> utf8_valid k \<Longrightarrow> json_ok v \<Longrightarrow> json_ok (JObject (object_put k v m))"
    by (simp add: object_ok_put)
qed

lemma value_toks_ok:
  "value_toks v ts \<Longrightarrow> list_all good_token ts \<Longrightarrow> json_ok v"
  "array_tail vs us \<Longrightarrow> list_all good_token us \<Longrightarrow> list_all json_ok vs"
  "object_tail m ws m' \<Longrightarrow> list_all good_token ws \<Longrightarrow> json_ok (JObject m) \<Longrightarrow> json_ok (JObject m')"
proof (induction v ts and vs us and m ws m' rule: value_toks_array_tail_object_tail.inducts)
  case (V_object v ts k us m)
  then have "json_ok (JObject (object_put k v []))" by (intro json_ok_put) (simp_all add: good_token_def)
  then show ?case using V_object by (simp add: good_token_def)
next
  case (O_next v ts k m us m')
  then have "json_ok (JObject (object_put k v m))" by (intro json_ok_put) (simp_all add: good_token_def)
  then show ?case using O_next by (simp add: good_token_def)
qed (simp_all add: good_token_def del: json_ok.simps(4), simp_all)

end
