(* ===== verification/Json_Roundtrip.thy ===== *)
theory Json_Roundtrip
  imports Json_Float_Text Json_Dump_Strings Json_Types
begin

text \<open>
  What \<open>dump\<close> writes, the parser reads back: strings in every escaping, integers, finite
  floats, arrays and objects, compact and indented.
\<close>

section \<open>Escaped strings\<close>

lemma butlast_last: "s \<noteq> [] \<Longrightarrow> butlast s @ [last s] = s"
  by simp

lemma utf8_bytes_not_Nil [simp]: "utf8_bytes cp \<noteq> []"
  by (simp add: utf8_bytes_def)

lemma utf8_bytes_ascii: "cp < 0x80 \<Longrightarrow> utf8_bytes cp = [char_of cp]"
  by (simp add: utf8_bytes_def)

lemma escape_unicode_pair:
  assumes "scalar cp"
  shows "(if (word_of_nat cp :: 32 word) \<le> 0xFFFF then unicode_escape (unat (word_of_nat cp :: 32 word))
     else unicode_escape (unat (0xD7C0 + drop_bit 10 (word_of_nat cp :: 32 word)) mod 65536)
            @ unicode_escape (unat (0xDC00 + ((word_of_nat cp :: 32 word) AND 0x3FF)) mod 65536))
    = (if cp \<le> 0xFFFF then unicode_escape cp
       else unicode_escape (0xD7C0 + cp div 1024) @ unicode_escape (0xDC00 + cp mod 1024))"
proof -
  define w :: "32 word" where "w = word_of_nat cp"
  have cp: "cp \<le> 0x10FFFF" using assms by (auto simp: scalar_def)
  have u: "unat w = cp" using cp by (simp add: w_def unat_of_nat)
  have le: "w \<le> 0xFFFF \<longleftrightarrow> cp \<le> 0xFFFF" by (simp add: word_le_nat_alt u)
  have hi: "unat (0xD7C0 + drop_bit 10 w) mod 65536 = 0xD7C0 + cp div 1024"
  proof -
    have d: "unat (drop_bit 10 w) = cp div 1024" by (simp only: unat_drop_bit_eq u) (simp add: drop_bit_eq_div)
    have "cp div 1024 \<le> 0x43F" using cp div_le_mono [OF cp, of 1024] by simp
    then show ?thesis by (simp add: unat_word_ariths d)
  qed
  have lo: "unat (0xDC00 + (w AND 0x3FF)) mod 65536 = 0xDC00 + cp mod 1024"
  proof -
    have "w AND 0x3FF = word_of_nat (cp mod 1024)"
      using mask_of_nat [of cp 10] by (simp add: w_def mask_eq_exp_minus_1)
    moreover have "cp mod 1024 < 1024" by simp
    ultimately show ?thesis by (simp add: unat_word_ariths unat_of_nat)
  qed
  show ?thesis unfolding w_def [symmetric] u le hi lo ..
qed

lemma of_nat_codepoint:
  assumes "scalar cp" "n < 2 ^ 32"
  shows "(word_of_nat cp :: 32 word) = word_of_nat n \<longleftrightarrow> cp = n"
    "(word_of_nat cp :: 32 word) \<le> word_of_nat n \<longleftrightarrow> cp \<le> n"
    "word_of_nat n \<le> (word_of_nat cp :: 32 word) \<longleftrightarrow> n \<le> cp"
proof -
  have "cp < 2 ^ 32" using assms(1) by (auto simp: scalar_def)
  then have u: "unat (word_of_nat cp :: 32 word) = cp" "unat (word_of_nat n :: 32 word) = n"
    using assms(2) by (simp_all add: unat_of_nat)
  show "(word_of_nat cp :: 32 word) = word_of_nat n \<longleftrightarrow> cp = n" using u by metis
  show "(word_of_nat cp :: 32 word) \<le> word_of_nat n \<longleftrightarrow> cp \<le> n"
    "word_of_nat n \<le> (word_of_nat cp :: 32 word) \<longleftrightarrow> n \<le> cp"
    by (simp_all add: word_le_nat_alt u)
qed

text \<open>The escape of a code point, over natural numbers.\<close>

lemma escape_codepoint_cases:
  assumes "scalar cp"
  shows "escape_codepoint a (word_of_nat cp) c =
     (if cp = 0x08 then [backslash, CHR ''b'']
      else if cp = 0x09 then [backslash, CHR ''t'']
      else if cp = 0x0A then [backslash, CHR ''n'']
      else if cp = 0x0C then [backslash, CHR ''f'']
      else if cp = 0x0D then [backslash, CHR ''r'']
      else if cp = 0x22 then [backslash, dquote]
      else if cp = 0x5C then [backslash, backslash]
      else if cp \<le> 0x1F \<or> a \<and> cp \<ge> 0x7F then
        (if cp \<le> 0xFFFF then unicode_escape cp
         else unicode_escape (0xD7C0 + cp div 1024) @ unicode_escape (0xDC00 + cp mod 1024))
      else [c])"
proof -
  have eq: "(word_of_nat cp :: 32 word) = 0x08 \<longleftrightarrow> cp = 0x08" "(word_of_nat cp :: 32 word) = 0x09 \<longleftrightarrow> cp = 0x09"
    "(word_of_nat cp :: 32 word) = 0x0A \<longleftrightarrow> cp = 0x0A" "(word_of_nat cp :: 32 word) = 0x0C \<longleftrightarrow> cp = 0x0C"
    "(word_of_nat cp :: 32 word) = 0x0D \<longleftrightarrow> cp = 0x0D" "(word_of_nat cp :: 32 word) = 0x22 \<longleftrightarrow> cp = 0x22"
    "(word_of_nat cp :: 32 word) = 0x5C \<longleftrightarrow> cp = 0x5C"
    "(word_of_nat cp :: 32 word) \<le> 0x1F \<longleftrightarrow> cp \<le> 0x1F" "0x7F \<le> (word_of_nat cp :: 32 word) \<longleftrightarrow> 0x7F \<le> cp"
    using of_nat_codepoint(1) [OF assms, of 8] of_nat_codepoint(1) [OF assms, of 9] of_nat_codepoint(1) [OF assms, of 10]
      of_nat_codepoint(1) [OF assms, of 12] of_nat_codepoint(1) [OF assms, of 13] of_nat_codepoint(1) [OF assms, of 34]
      of_nat_codepoint(1) [OF assms, of 92] of_nat_codepoint(2) [OF assms, of 31] of_nat_codepoint(3) [OF assms, of 127]
    by (simp_all only: of_nat_numeral numeral_less_iff) simp_all
  show ?thesis unfolding escape_codepoint_def eq escape_unicode_pair [OF assms] ..
qed

lemma char_eq_of: "c = char_of n \<longleftrightarrow> take_bit 8 n = (of_char c :: nat)"
  by (metis char_of_eq_iff)

lemma simple_escapes:
  "simple_escape CHR ''b'' = Some (char_of (0x08 :: nat))" "simple_escape CHR ''t'' = Some (char_of (0x09 :: nat))"
  "simple_escape CHR ''n'' = Some (char_of (0x0A :: nat))" "simple_escape CHR ''f'' = Some (char_of (0x0C :: nat))"
  "simple_escape CHR ''r'' = Some (char_of (0x0D :: nat))" "simple_escape dquote = Some (char_of (0x22 :: nat))"
  "simple_escape backslash = Some (char_of (0x5C :: nat))"
  by (simp_all add: simple_escape_def dquote_def backslash_def char_eq_of)

lemma unescapes_escaped:
  assumes "scalar cp"
  shows "unescapes (escaped a cp) (utf8_bytes cp)"
proof -
  have short: "unescapes (escaped a cp) (utf8_bytes cp)"
    if "cp < 0x80" "escape_codepoint a (word_of_nat cp) (last (utf8_bytes cp)) = [backslash, e]"
      "simple_escape e = Some (char_of cp)" for e
    using unescapes_simple [OF that(3)] that(1,2) by (simp add: escaped_def utf8_bytes_ascii)
  note cases = escape_codepoint_cases [OF assms, of a "last (utf8_bytes cp)"]
  consider (named) "cp \<in> {0x08, 0x09, 0x0A, 0x0C, 0x0D, 0x22, 0x5C}"
    | (code) "cp \<notin> {0x08, 0x09, 0x0A, 0x0C, 0x0D, 0x22, 0x5C}" "cp \<le> 0x1F \<or> a \<and> cp \<ge> 0x7F"
    | (plain) "cp \<notin> {0x08, 0x09, 0x0A, 0x0C, 0x0D, 0x22, 0x5C}" "\<not> (cp \<le> 0x1F \<or> a \<and> cp \<ge> 0x7F)"
    by blast
  then show ?thesis
  proof cases
    case named
    then obtain e where "escape_codepoint a (word_of_nat cp) (last (utf8_bytes cp)) = [backslash, e]"
      "simple_escape e = Some (char_of cp)" "cp < 0x80"
      using simple_escapes by (auto simp: cases)
    then show ?thesis using short by blast
  next
    case code
    have e: "escaped a cp = (if cp \<le> 0xFFFF then unicode_escape cp
        else unicode_escape (0xD7C0 + cp div 1024) @ unicode_escape (0xDC00 + cp mod 1024))"
      using code by (auto simp: escaped_def cases utf8_bytes_ascii)
    show ?thesis
      using assms unescapes_unicode [of cp] unescapes_surrogates [of cp] by (auto simp: e scalar_def)
  next
    case plain
    have e: "escaped a cp = utf8_bytes cp" using plain by (auto simp: escaped_def cases utf8_bytes_ascii)
    show ?thesis
    proof (cases "cp < 0x80")
      case True
      have "code (char_of cp :: char) = cp" using True by (simp add: code_char_of)
      moreover have "code dquote = 0x22" "code backslash = 0x5C" by (simp_all add: dquote_def backslash_def)
      ultimately have "char_of cp \<noteq> dquote" "char_of cp \<noteq> backslash" using plain(1) by (metis insertCI)+
      then have "unescapes [char_of cp] [char_of cp]"
        using plain True \<open>code (char_of cp) = cp\<close> by (intro unescapes_ascii) auto
      then show ?thesis using True e by (simp add: utf8_bytes_ascii)
    next
      case False
      then show ?thesis using utf8_bytes_follow [OF assms] unescapes_follows e by fastforce
    qed
  qed
qed

lemma dump_escaped_reads:
  assumes "utf8_valid s"
  obtains t where "dump_escaped Strict a s = Inr t" "unescapes t s"
proof -
  obtain cps where cps: "\<forall>cp \<in> set cps. scalar cp" "s = concat (map utf8_bytes cps)"
    using assms unfolding utf8_valid_def by blast
  have "unescapes (concat (map (escaped a) cps)) s"
    unfolding cps(2) by (rule unescapes_concat) (use cps(1) unescapes_escaped in blast)
  then show thesis using that dump_escaped_valid [OF cps(1), of a] cps(2) by blast
qed

section \<open>Texts of values\<close>

text \<open>\<open>text\<close> written behind what is already there stands for the tokens \<open>ts\<close>.\<close>

definition stands_for :: "string \<Rightarrow> tok list \<Rightarrow> bool" where
  "stands_for tx ts \<longleftrightarrow>
     (\<forall>rest us. stops rest \<longrightarrow> denotes rest us \<longrightarrow> denotes (tx @ rest) (ts @ us))"

lemma delimited_stops: "stops rest \<Longrightarrow> delimited t rest"
  by (cases t) (simp_all add: stops_def)

lemma denotes_spaces: "denotes s ts \<Longrightarrow> spaces w \<Longrightarrow> denotes (w @ s) ts"
  by (induction rule: denotes.induct) (auto intro: D_end D_tok [of "w @ _", simplified])

lemma stands_for_token: "spells tx t \<Longrightarrow> stands_for tx [t]"
  using D_tok [of "[]"] delimited_stops by (fastforce simp: stands_for_def)

lemma denotes_punct: "spells tx (Punct t) \<Longrightarrow> denotes rest us \<Longrightarrow> denotes (tx @ rest) (Punct t # us)"
  using D_tok [of "[]" tx "Punct t" rest us] by simp

lemma denotes_string: "spells tx (TString x) \<Longrightarrow> denotes rest us \<Longrightarrow> denotes (tx @ rest) (TString x # us)"
  using D_tok [of "[]" tx "TString x" rest us] by simp

lemma stops_simps [simp]:
  "stops []" "stops (CHR '','' # s)" "stops (CHR '']'' # s)" "stops (CHR ''}'' # s)"
  "stops (CHR 0x0A # s)"
  by (simp_all add: stops_def prolongs_def is_digit_def less_eq_char_def)

section \<open>Values\<close>

text \<open>
  What is read back: an integer that is not negative has become unsigned, and a float without
  a JSON text is null.
\<close>

fun reread :: "json \<Rightarrow> json" where
  "reread (JInt x) = (if sint x < 0 then JInt x else JUint x)"
| "reread (JFloat x) = (if isfinite x then JFloat x else JNull)"
| "reread (JArray vs) = JArray (map reread vs)"
| "reread (JObject m) = JObject (map (\<lambda>(k, v). (k, reread v)) m)"
| "reread j = j"

text \<open>Strings and keys are UTF-8, objects are sorted maps, and there is no binary value.\<close>

fun printable_json :: "json \<Rightarrow> bool" where
  "printable_json (JString s) \<longleftrightarrow> utf8_valid s"
| "printable_json (JArray vs) \<longleftrightarrow> list_all printable_json vs"
| "printable_json (JObject m) \<longleftrightarrow> object_ok m \<and> list_all (\<lambda>(k, v). utf8_valid k \<and> printable_json v) m"
| "printable_json (JBinary _ _) \<longleftrightarrow> False"
| "printable_json _ \<longleftrightarrow> True"

section \<open>What \<open>dump\<close> writes\<close>

definition ser_ok :: "nat \<Rightarrow> serializer \<Rightarrow> bool" where
  "ser_ok n ser \<longleftrightarrow> length (ser_number_buffer ser) = 64 \<and> ser_error_handler ser = Strict
     \<and> spaces (ser_indent_string ser) \<and> n \<le> length (ser_indent_string ser)"

lemma ser_ok_mono: "ser_ok n ser \<Longrightarrow> m \<le> n \<Longrightarrow> ser_ok m ser"
  by (simp add: ser_ok_def)

text \<open>\<open>r\<close> has written some \<open>text\<close> with property \<open>P\<close> behind what \<open>ser\<close> held.\<close>

definition wrote :: "nat \<Rightarrow> serializer \<Rightarrow> serializer result \<Rightarrow> (string \<Rightarrow> bool) \<Rightarrow> bool" where
  "wrote n ser r P \<longleftrightarrow> (\<exists>tx ser'. r = Inr ser' \<and> ser_out ser' = ser_out ser @ tx \<and> ser_ok n ser' \<and> P tx)"

lemma wroteI:
  "r = Inr ser' \<Longrightarrow> ser_out ser' = ser_out ser @ tx \<Longrightarrow> ser_ok n ser' \<Longrightarrow> P tx \<Longrightarrow> wrote n ser r P"
  unfolding wrote_def by blast

lemma wroteE:
  assumes "wrote n ser r P"
  obtains tx ser' where "r = Inr ser'" "ser_out ser' = ser_out ser @ tx" "ser_ok n ser'" "P tx"
  using assms unfolding wrote_def by blast

lemma wrote_less: "wrote m ser r P \<Longrightarrow> n \<le> m \<Longrightarrow> wrote n ser r P"
  unfolding wrote_def using ser_ok_mono by blast

lemma wrote_mono: "wrote n ser r P \<Longrightarrow> (\<And>tx. P tx \<Longrightarrow> Q tx) \<Longrightarrow> wrote n ser r Q"
  unfolding wrote_def by blast

text \<open>One after the other.\<close>

lemma wrote_bind:
  assumes "wrote n ser r P"
    and "\<And>tx ser'. ser_ok n ser' \<Longrightarrow> P tx \<Longrightarrow> wrote n ser' (f ser') (\<lambda>u. Q (tx @ u))"
  shows "wrote n ser (bind_result r f) Q"
proof (rule wroteE [OF assms(1)])
  fix text1 ser1
  assume 1: "r = Inr ser1" "ser_out ser1 = ser_out ser @ text1" "ser_ok n ser1" "P text1"
  show ?thesis
  proof (rule wroteE [OF assms(2) [OF 1(3,4)]])
    fix u ser2
    assume "f ser1 = Inr ser2" "ser_out ser2 = ser_out ser1 @ u" "ser_ok n ser2" "Q (text1 @ u)"
    with 1 show ?thesis by (intro wroteI [of _ ser2 _ "text1 @ u"]) simp_all
  qed
qed

lemma ser_ok_write [simp]: "ser_ok n (write_characters s ser) = ser_ok n ser"
  by (simp add: ser_ok_def write_characters_def)

lemma write_characters_out [simp]: "ser_out (write_characters s ser) = ser_out ser @ s"
  by (simp add: write_characters_def)

lemma wrote_after:
  assumes "wrote n (write_characters s ser) r (\<lambda>u. P (s @ u))"
  shows "wrote n ser r P"
  using assms by (auto simp: wrote_def)

lemma wrote_write: "ser_ok n ser \<Longrightarrow> P s \<Longrightarrow> wrote n ser (Inr (write_characters s ser)) P"
  by (intro wroteI [of _ "write_characters s ser" _ s]) simp_all

lemma wrote_nothing: "ser_ok n ser \<Longrightarrow> P [] \<Longrightarrow> wrote n ser (Inr ser) P"
  by (intro wroteI [of _ ser _ "[]"]) simp_all

lemma wrote_escaped:
  assumes "ser_ok n ser" "utf8_valid s"
  shows "wrote n ser (write_escaped a s ser) (\<lambda>t. unescapes t s)"
proof -
  obtain t where t: "dump_escaped Strict a s = Inr t" "unescapes t s" using dump_escaped_reads [OF assms(2)] .
  have "ser_error_handler ser = Strict" using assms(1) by (simp add: ser_ok_def)
  then show ?thesis using t assms(1) by (simp add: write_escaped_def wrote_write)
qed

lemma wrote_string:
  assumes "ser_ok n ser" "utf8_valid s" "\<And>t. spells t (TString s) \<Longrightarrow> P t"
  shows "wrote n ser (bind_result (write_escaped a s (write_characters [dquote] ser)) (\<lambda>ser.
       Inr (write_characters [dquote] ser))) P"
  by (rule wrote_after, rule wrote_bind [OF wrote_escaped])
    (use assms(1,2) assms(3) [OF spells_string] in \<open>auto intro!: wrote_write\<close>)

lemma wrote_key:
  assumes "ser_ok n ser" "utf8_valid k" "\<And>t. spells t (TString k) \<Longrightarrow> P (t @ sep)"
  shows "wrote n ser (write_key a sep k ser) P"
proof -
  have P: "P (dquote # t @ dquote # sep)" if "unescapes t k" for t
    using assms(3) [OF spells_string [OF that]] by simp
  show ?thesis
    unfolding write_key_def
    by (rule wrote_after, rule wrote_bind [OF wrote_escaped]) (use assms(1,2) P in \<open>auto intro!: wrote_write\<close>)
qed

lemma spaces_take: "spaces s \<Longrightarrow> spaces (take m s)"
  by (metis append_take_drop_id spaces_simps(3))

lemma wrote_indent: "ser_ok n ser \<Longrightarrow> m \<le> n \<Longrightarrow> wrote n ser (write_indent m ser) spaces"
  by (auto simp: write_indent_def ser_ok_def spaces_take intro!: wrote_write)

lemma spaces_replicate: "spaces (replicate n CHR '' '')"
  by (simp add: spaces_def list_all_iff whitespace_def)

text \<open>Doubling the indentation once is enough for a step of at most 512.\<close>

lemma grow_indent_reaches:
  assumes "ser_ok n ser" "cur \<le> n" "512 \<le> n" "step \<le> 512"
  shows "ser_ok (max n (deepen cur step)) (grow_indent (deepen cur step) ser)"
  using assms deepen_le [of cur step] by (simp add: ser_ok_def grow_indent_def spaces_replicate)

lemma grow_indent_out [simp]: "ser_out (grow_indent m ser) = ser_out ser"
  by (simp add: grow_indent_def)

lemma stops_spaces: "spaces w \<Longrightarrow> stops s \<Longrightarrow> stops (w @ s)"
  by (cases w) (auto simp: stops_def whitespace_def prolongs_def is_digit_def less_eq_char_def)

definition value_text :: "json \<Rightarrow> string \<Rightarrow> bool" where
  "value_text j tx \<longleftrightarrow> (\<exists>ts. value_toks (reread j) ts \<and> stands_for tx ts)"

text \<open>The elements of an array up to the closing bracket, and the members of an object.\<close>

definition elements_text :: "json list \<Rightarrow> string \<Rightarrow> bool" where
  "elements_text vs tx \<longleftrightarrow>
     (\<exists>ts es. value_toks (reread (hd vs)) ts \<and> array_tail (map reread (tl vs)) es \<and>
        (\<forall>w rest us. spaces w \<longrightarrow> denotes rest us \<longrightarrow> denotes (tx @ w @ CHR '']'' # rest) (ts @ es @ us)))"

definition reread_members :: "(string \<times> json) list \<Rightarrow> (string \<times> json) list" where
  "reread_members m = map (\<lambda>(k, v). (k, reread v)) m"

definition members_text :: "(string \<times> json) list \<Rightarrow> string \<Rightarrow> bool" where
  "members_text m tx \<longleftrightarrow>
     (\<exists>ts es. value_toks (reread (snd (hd m))) ts \<and>
        (\<forall>m0. object_ok (m0 @ reread_members m) \<longrightarrow>
           object_tail (object_put (fst (hd m)) (reread (snd (hd m))) m0) es (m0 @ reread_members m)) \<and>
        (\<forall>w rest us. spaces w \<longrightarrow> denotes rest us \<longrightarrow>
           denotes (tx @ w @ CHR ''}'' # rest) (TString (fst (hd m)) # Punct Tok_name_separator # ts @ es @ us)))"

lemma object_put_last: "\<forall>k' \<in> fst ` set m. k' < k \<Longrightarrow> object_put k v m = m @ [(k, v)]"
  by (induction k v m rule: object_put.induct) auto

lemma object_put_append:
  assumes "object_ok (m0 @ (k, v) # m)"
  shows "object_put k v m0 = m0 @ [(k, v)]"
  using assms by (intro object_put_last) (auto simp: object_ok_def sorted_append order.strict_iff_order)

lemma denotes_close:
  assumes "denotes rest us" "spaces w"
  shows "denotes (w @ CHR '']'' # rest) (Punct Tok_end_array # us)"
    "denotes (w @ CHR ''}'' # rest) (Punct Tok_end_object # us)"
  using D_tok [OF assms(2) spells_punct(2) _ assms(1)] D_tok [OF assms(2) spells_punct(4) _ assms(1)] by simp_all

lemma elements_text_one:
  assumes "spaces ind" "value_text v t"
  shows "elements_text [v] (ind @ t)"
proof -
  obtain ts where ts: "value_toks (reread v) ts" "stands_for t ts" using assms(2) by (auto simp: value_text_def)
  have "denotes (ind @ t @ w @ CHR '']'' # rest) (ts @ [Punct Tok_end_array] @ us)"
    if "spaces w" "denotes rest us" for w rest us
    using ts(2) denotes_close(1) [OF that(2,1)] stops_spaces [OF that(1)] denotes_spaces assms(1)
    by (simp add: stands_for_def)
  then show ?thesis
    using ts(1) A_end unfolding elements_text_def
    by (intro exI [of _ ts] exI [of _ "[Punct Tok_end_array]"]) simp
qed

lemma elements_text_Cons:
  assumes "spaces ind" "value_text v t" "spaces g" "elements_text vs u" "vs \<noteq> []"
  shows "elements_text (v # vs) (ind @ t @ CHR '','' # g @ u)"
proof -
  obtain ts where ts: "value_toks (reread v) ts" "stands_for t ts" using assms(2) by (auto simp: value_text_def)
  obtain vs1 es where e: "value_toks (reread (hd vs)) vs1" "array_tail (map reread (tl vs)) es"
    "\<And>w rest us. spaces w \<Longrightarrow> denotes rest us \<Longrightarrow> denotes (u @ w @ CHR '']'' # rest) (vs1 @ es @ us)"
    using assms(4) unfolding elements_text_def by blast
  have "denotes (ind @ t @ CHR '','' # g @ u @ w @ CHR '']'' # rest) (ts @ (Punct Tok_value_separator # vs1 @ es) @ us)"
    if r: "spaces w" "denotes rest us" for w rest us
  proof -
    have "denotes (CHR '','' # g @ u @ w @ CHR '']'' # rest) (Punct Tok_value_separator # vs1 @ es @ us)"
      using denotes_punct [OF spells_punct(6) denotes_spaces [OF e(3) [OF r] assms(3)]] by simp
    then show ?thesis using ts(2) denotes_spaces assms(1) by (simp add: stands_for_def)
  qed
  moreover have "array_tail (map reread vs) (Punct Tok_value_separator # vs1 @ es)"
    using A_next [OF e(1,2)] assms(5) by (cases vs) simp_all
  ultimately show ?thesis
    using ts(1) unfolding elements_text_def
    by (intro exI [of _ ts] exI [of _ "Punct Tok_value_separator # vs1 @ es"]) simp
qed

lemma value_text_array:
  assumes "spaces g" "elements_text vs u" "spaces w" "vs \<noteq> []"
  shows "value_text (JArray vs) (CHR ''['' # g @ u @ w @ '']'')"
proof -
  obtain ts es where e: "value_toks (reread (hd vs)) ts" "array_tail (map reread (tl vs)) es"
    "\<And>w rest us. spaces w \<Longrightarrow> denotes rest us \<Longrightarrow> denotes (u @ w @ CHR '']'' # rest) (ts @ es @ us)"
    using assms(2) unfolding elements_text_def by blast
  have "value_toks (JArray (map reread vs)) (Punct Tok_begin_array # ts @ es)"
    using V_array [OF e(1,2)] assms(4) by (cases vs) simp_all
  moreover have "stands_for (CHR ''['' # g @ u @ w @ '']'') (Punct Tok_begin_array # ts @ es)"
    unfolding stands_for_def
    using denotes_punct [OF spells_punct(1) denotes_spaces [OF e(3) [OF assms(3)] assms(1)]] by simp
  ultimately show ?thesis by (auto simp: value_text_def)
qed

text \<open>The same for objects; \<open>sep\<close> is what stands between a key and its value.\<close>

lemma denotes_key:
  assumes "spells kt (TString k)" "spaces g" "denotes rest us"
  shows "denotes (kt @ CHR '':'' # g @ rest) (TString k # Punct Tok_name_separator # us)"
  using denotes_string [OF assms(1) denotes_punct [OF spells_punct(5) denotes_spaces [OF assms(3,2)]]] by simp

lemma members_text_one:
  assumes "spaces ind" "spells kt (TString k)" "spaces h" "value_text v t"
  shows "members_text [(k, v)] (ind @ (kt @ CHR '':'' # h) @ t)"
proof -
  obtain ts where ts: "value_toks (reread v) ts" "stands_for t ts" using assms(4) by (auto simp: value_text_def)
  have "denotes (ind @ (kt @ CHR '':'' # h) @ t @ w @ CHR ''}'' # rest)
      (TString k # Punct Tok_name_separator # ts @ [Punct Tok_end_object] @ us)"
    if r: "spaces w" "denotes rest us" for w rest us
  proof -
    have "denotes (t @ w @ CHR ''}'' # rest) (ts @ Punct Tok_end_object # us)"
      using ts(2) denotes_close(2) [OF r(2,1)] stops_spaces [OF r(1)] by (simp add: stands_for_def)
    then show ?thesis using denotes_spaces [OF denotes_key [OF assms(2,3)] assms(1)] by simp
  qed
  then show ?thesis
    using ts(1) O_end unfolding members_text_def
    by (intro exI [of _ ts] exI [of _ "[Punct Tok_end_object]"]) (auto simp: reread_members_def object_put_append)
qed

lemma members_text_Cons:
  assumes "spaces ind" "spells kt (TString k)" "spaces h" "value_text v t" "spaces g" "members_text m u" "m \<noteq> []"
  shows "members_text ((k, v) # m) (ind @ (kt @ CHR '':'' # h) @ t @ CHR '','' # g @ u)"
proof -
  obtain ts where ts: "value_toks (reread v) ts" "stands_for t ts" using assms(4) by (auto simp: value_text_def)
  obtain k1 v1 m1 where m: "m = (k1, v1) # m1" using assms(7) by (cases m) auto
  obtain vs1 es where e: "value_toks (reread v1) vs1"
    "\<And>m0. object_ok (m0 @ reread_members m) \<Longrightarrow> object_tail (object_put k1 (reread v1) m0) es (m0 @ reread_members m)"
    "\<And>w rest us. spaces w \<Longrightarrow> denotes rest us
       \<Longrightarrow> denotes (u @ w @ CHR ''}'' # rest) (TString k1 # Punct Tok_name_separator # vs1 @ es @ us)"
    using assms(6) m unfolding members_text_def by fastforce
  define es' where "es' = Punct Tok_value_separator # TString k1 # Punct Tok_name_separator # vs1 @ es"
  have "denotes (ind @ (kt @ CHR '':'' # h) @ t @ CHR '','' # g @ u @ w @ CHR ''}'' # rest)
      (TString k # Punct Tok_name_separator # ts @ es' @ us)"
    if r: "spaces w" "denotes rest us" for w rest us
  proof -
    have "denotes (CHR '','' # g @ u @ w @ CHR ''}'' # rest) (es' @ us)"
      using denotes_punct [OF spells_punct(6) denotes_spaces [OF e(3) [OF r] assms(5)]] by (simp add: es'_def)
    then have "denotes (t @ CHR '','' # g @ u @ w @ CHR ''}'' # rest) (ts @ es' @ us)"
      using ts(2) by (simp add: stands_for_def)
    then show ?thesis using denotes_spaces [OF denotes_key [OF assms(2,3)] assms(1)] by simp
  qed
  moreover have "object_tail (object_put k (reread v) m0) es' (m0 @ reread_members ((k, v) # m))"
    if ok: "object_ok (m0 @ reread_members ((k, v) # m))" for m0
  proof -
    have p: "object_put k (reread v) m0 = m0 @ [(k, reread v)]"
      using object_put_append ok by (simp add: reread_members_def)
    have "object_tail (object_put k1 (reread v1) (m0 @ [(k, reread v)])) es ((m0 @ [(k, reread v)]) @ reread_members m)"
      using e(2) [of "m0 @ [(k, reread v)]"] ok by (simp add: reread_members_def)
    then show ?thesis unfolding p es'_def using O_next [OF e(1)] by (simp add: reread_members_def)
  qed
  ultimately show ?thesis
    using ts(1) unfolding members_text_def by (intro exI [of _ ts] exI [of _ es']) simp
qed

lemma value_text_object:
  assumes "spaces g" "members_text m u" "spaces w" "m \<noteq> []" "object_ok m"
  shows "value_text (JObject m) (CHR ''{'' # g @ u @ w @ ''}'')"
proof -
  obtain k v m1 where m: "m = (k, v) # m1" using assms(4) by (cases m) auto
  have "map fst (reread_members m) = map fst m" by (auto simp: reread_members_def)
  then have ok: "object_ok ([] @ reread_members m)" using assms(5) by (simp add: object_ok_def)
  obtain ts es where e: "value_toks (reread v) ts" "object_tail (object_put k (reread v) []) es (reread_members m)"
    "\<And>w rest us. spaces w \<Longrightarrow> denotes rest us
       \<Longrightarrow> denotes (u @ w @ CHR ''}'' # rest) (TString k # Punct Tok_name_separator # ts @ es @ us)"
    using assms(2) m ok unfolding members_text_def by fastforce
  define tks where "tks = Punct Tok_begin_object # TString k # Punct Tok_name_separator # ts @ es"
  have "value_toks (JObject (reread_members m)) tks"
    using V_object [OF e(1,2)] by (simp add: tks_def)
  moreover have "stands_for (CHR ''{'' # g @ u @ w @ ''}'') tks"
    unfolding stands_for_def tks_def
    using denotes_punct [OF spells_punct(3) denotes_spaces [OF e(3) [OF assms(3)] assms(1)]] by simp
  ultimately show ?thesis by (auto simp: value_text_def reread_members_def)
qed

lemma value_text_empty: "value_text (JArray []) ''[]''" "value_text (JObject []) ''{}''"
proof -
  have "stands_for ''[]'' [Punct Tok_begin_array, Punct Tok_end_array]"
    using denotes_punct [OF spells_punct(1) denotes_punct [OF spells_punct(2)]] by (simp add: stands_for_def)
  then show "value_text (JArray []) ''[]''" using V_empty_array by (fastforce simp: value_text_def)
  have "stands_for ''{}'' [Punct Tok_begin_object, Punct Tok_end_object]"
    using denotes_punct [OF spells_punct(3) denotes_punct [OF spells_punct(4)]] by (simp add: stands_for_def)
  then show "value_text (JObject []) ''{}''" using V_empty_object by (fastforce simp: value_text_def)
qed

lemma value_text_scalar: "spells tx t \<Longrightarrow> value_toks (reread j) [t] \<Longrightarrow> value_text j tx"
  using stands_for_token by (auto simp: value_text_def)

end
