(* ===== verification/Json_Dump.thy ===== *)
theory Json_Dump
  imports Json_Roundtrip
begin

text \<open>
  \<open>dump\<close>, compact and indented, writes a text of the value it is given, and parsing this text
  gives the value back.
\<close>

section \<open>Scalars\<close>

lemma wrote_integer:
  assumes "ser_ok n ser"
  shows "wrote n ser (Inr (write_integer is_signed x ser)) (\<lambda>t. t = int_text is_signed x)"
proof -
  have "length (ser_number_buffer ser) = 64" using assms by (simp add: ser_ok_def)
  note d = dump_integer_text [OF this, of is_signed x]
  show ?thesis
  proof (rule wroteI)
    show "ser_out (write_integer is_signed x ser) = ser_out ser @ int_text is_signed x"
      using d(1) by (cases "dump_integer is_signed x (ser_number_buffer ser)") (simp add: write_integer_def)
    show "ser_ok n (write_integer is_signed x ser)"
      using d(2) assms
      by (cases "dump_integer is_signed x (ser_number_buffer ser)")
        (simp add: write_integer_def ser_ok_def write_characters_def)
  qed simp_all
qed

lemma wrote_float:
  assumes "ser_ok n ser"
  shows "wrote n ser (dump_float x ser) (value_text (JFloat x))"
proof (cases "isfinite x")
  case True
  then obtain t where t: "to_chars x = Some t" "length t \<le> 24" "spells t (TFloat x)"
    by (rule to_chars_reads_back)
  have v: "value_text (JFloat x) t" using value_text_scalar [OF t(3)] V_float True by simp
  define ser' where "ser' = ser\<lparr>ser_number_buffer := t @ drop (length t) (ser_number_buffer ser)\<rparr>"
  have "wrote n ser' (Inr (write_characters t ser')) (value_text (JFloat x))"
    by (rule wrote_write) (use assms t(2) v in \<open>simp_all add: ser'_def ser_ok_def\<close>)
  moreover have "ser_out ser' = ser_out ser" by (simp add: ser'_def)
  ultimately show ?thesis using True t(1) by (simp add: dump_float_def wrote_def ser'_def)
next
  case False
  then show ?thesis
    using assms value_text_scalar [OF spells_literals(3)] V_null by (auto simp: dump_float_def intro!: wrote_write)
qed

lemma wrote_scalar:
  assumes "ser_ok n ser" "printable_json j" "j = JNull \<or> (\<exists>b. j = JBool b) \<or> (\<exists>x. j = JInt x \<or> j = JUint x \<or> j = JFloat x)"
  shows "wrote n ser (dump_scalar j ser) (value_text j)"
proof -
  have w: "wrote n ser (Inr (write_characters t ser)) (value_text j)" if "spells t k" "value_toks (reread j) [k]" for t k
    using wrote_write [OF assms(1)] value_text_scalar [OF that] by blast
  have i: "wrote n ser (Inr (write_integer b x ser)) (value_text j)"
    if "value_toks (reread j) [int_token b x]" for b x
    using wrote_mono [OF wrote_integer [OF assms(1)]] value_text_scalar [OF spells_int_text that] by blast
  show ?thesis
  proof (cases j)
    case JNull
    then show ?thesis using w [OF spells_literals(3)] V_null by (simp add: dump_scalar_def)
  next
    case (JBool b)
    then show ?thesis
      using w [OF spells_literals(1)] w [OF spells_literals(2)] V_true V_false by (cases b) (simp_all add: dump_scalar_def)
  next
    case (JInt x)
    then show ?thesis using i [of True x] V_int V_uint by (simp add: dump_scalar_def int_token_def)
  next
    case (JUint x)
    then show ?thesis using i [of False x] V_uint by (simp add: dump_scalar_def int_token_def)
  next
    case (JFloat x)
    then show ?thesis using wrote_float [OF assms(1)] assms(2) by (simp add: dump_scalar_def)
  qed (use assms(3) in auto)
qed

section \<open>Arrays and objects\<close>

lemma wrote_grown:
  assumes "wrote n (grow_indent m (write_characters s ser)) r (\<lambda>u. P (s @ u))"
  shows "wrote n ser r P"
  using assms by (auto simp: wrote_def)

lemma newline_space: "spaces [CHR 0x0A]"
  by (simp add: whitespace_def)

lemma blank_space: "spaces '' ''"
  by (simp add: whitespace_def)

lemma wrote_array:
  assumes "ser_ok n ser" "vs \<noteq> []" "pretty \<Longrightarrow> 512 \<le> n \<and> cur \<le> n \<and> step \<le> 512"
    and "\<And>k ser. pretty \<Longrightarrow> ser_ok k ser \<Longrightarrow> 512 \<le> k \<Longrightarrow> deepen cur step \<le> k
           \<Longrightarrow> wrote k ser (dump_pretty_elements ascii step (deepen cur step) vs ser) (elements_text vs)"
    and "\<And>ser. \<not> pretty \<Longrightarrow> ser_ok n ser \<Longrightarrow> wrote n ser (dump_elements ascii step cur vs ser) (elements_text vs)"
  shows "wrote n ser (dump_value pretty ascii step cur (JArray vs) ser) (value_text (JArray vs))"
proof (cases pretty)
  case True
  define k where "k = max n (deepen cur step)"
  have k: "512 \<le> k" "deepen cur step \<le> k" "cur \<le> k" "n \<le> k" and p: "512 \<le> n" "cur \<le> n" "step \<le> 512"
    using assms(3) [OF True] by (auto simp: k_def)
  have ok: "ser_ok k (grow_indent (deepen cur step) (write_characters [CHR ''['', CHR 0x0A] ser))"
    unfolding k_def by (rule grow_indent_reaches) (use assms(1) p in simp_all)
  have "wrote k (grow_indent (deepen cur step) (write_characters [CHR ''['', CHR 0x0A] ser))
      (bind_result (dump_pretty_elements ascii step (deepen cur step) vs
          (grow_indent (deepen cur step) (write_characters [CHR ''['', CHR 0x0A] ser))) (\<lambda>ser.
        bind_result (write_indent cur (write_characters [CHR 0x0A] ser)) (\<lambda>ser.
          Inr (write_characters '']'' ser))))
      (\<lambda>u. value_text (JArray vs) ([CHR ''['', CHR 0x0A] @ u))"
  proof (rule wrote_bind [OF assms(4) [OF True ok k(1,2)]])
    fix u ser'
    assume s: "ser_ok k ser'" "elements_text vs u"
    show "wrote k ser' (bind_result (write_indent cur (write_characters [CHR 0x0A] ser')) (\<lambda>ser.
          Inr (write_characters '']'' ser))) (\<lambda>w. value_text (JArray vs) ([CHR ''['', CHR 0x0A] @ u @ w))"
    proof (rule wrote_after, rule wrote_bind [OF wrote_indent [OF _ k(3)]])
      fix w ser''
      assume w: "ser_ok k ser''" "spaces w"
      show "wrote k ser'' (Inr (write_characters '']'' ser''))
          (\<lambda>x. value_text (JArray vs) ([CHR ''['', CHR 0x0A] @ u @ [CHR 0x0A] @ w @ x))"
        using value_text_array [OF newline_space s(2) _ assms(2), of "CHR 0x0A # w"] newline_space w
        by (intro wrote_write) simp_all
    qed (simp add: s(1))
  qed
  then show ?thesis
    unfolding dump_value.simps if_not_P [OF assms(2)] if_P [OF True] using k(4) by (rule wrote_less [OF wrote_grown])
next
  case False
  have "wrote n (write_characters ''['' ser)
      (bind_result (dump_elements ascii step cur vs (write_characters ''['' ser)) (\<lambda>ser.
          Inr (write_characters '']'' ser))) (\<lambda>u. value_text (JArray vs) (''['' @ u))"
  proof (rule wrote_bind [OF assms(5) [OF False]])
    fix u ser'
    assume s: "ser_ok n ser'" "elements_text vs u"
    show "wrote n ser' (Inr (write_characters '']'' ser')) (\<lambda>w. value_text (JArray vs) (''['' @ u @ w))"
      using value_text_array [of "[]" vs u "[]"] s assms(2) by (intro wrote_write) simp_all
  qed (simp add: assms(1))
  then show ?thesis
    unfolding dump_value.simps if_not_P [OF assms(2)] if_not_P [OF False] by (rule wrote_after)
qed

lemma wrote_object:
  assumes "ser_ok n ser" "m \<noteq> []" "pretty \<Longrightarrow> 512 \<le> n \<and> cur \<le> n \<and> step \<le> 512" "object_ok m"
    and "\<And>k ser. pretty \<Longrightarrow> ser_ok k ser \<Longrightarrow> 512 \<le> k \<Longrightarrow> deepen cur step \<le> k
           \<Longrightarrow> wrote k ser (dump_pretty_members ascii step (deepen cur step) m ser) (members_text m)"
    and "\<And>ser. \<not> pretty \<Longrightarrow> ser_ok n ser \<Longrightarrow> wrote n ser (dump_members ascii step cur m ser) (members_text m)"
  shows "wrote n ser (dump_value pretty ascii step cur (JObject m) ser) (value_text (JObject m))"
proof (cases pretty)
  case True
  define k where "k = max n (deepen cur step)"
  have k: "512 \<le> k" "deepen cur step \<le> k" "cur \<le> k" "n \<le> k" and p: "512 \<le> n" "cur \<le> n" "step \<le> 512"
    using assms(3) [OF True] by (auto simp: k_def)
  have ok: "ser_ok k (grow_indent (deepen cur step) (write_characters [CHR ''{'', CHR 0x0A] ser))"
    unfolding k_def by (rule grow_indent_reaches) (use assms(1) p in simp_all)
  have "wrote k (grow_indent (deepen cur step) (write_characters [CHR ''{'', CHR 0x0A] ser))
      (bind_result (dump_pretty_members ascii step (deepen cur step) m
          (grow_indent (deepen cur step) (write_characters [CHR ''{'', CHR 0x0A] ser))) (\<lambda>ser.
        bind_result (write_indent cur (write_characters [CHR 0x0A] ser)) (\<lambda>ser.
          Inr (write_characters ''}'' ser))))
      (\<lambda>u. value_text (JObject m) ([CHR ''{'', CHR 0x0A] @ u))"
  proof (rule wrote_bind [OF assms(5) [OF True ok k(1,2)]])
    fix u ser'
    assume s: "ser_ok k ser'" "members_text m u"
    show "wrote k ser' (bind_result (write_indent cur (write_characters [CHR 0x0A] ser')) (\<lambda>ser.
          Inr (write_characters ''}'' ser))) (\<lambda>w. value_text (JObject m) ([CHR ''{'', CHR 0x0A] @ u @ w))"
    proof (rule wrote_after, rule wrote_bind [OF wrote_indent [OF _ k(3)]])
      fix w ser''
      assume w: "ser_ok k ser''" "spaces w"
      show "wrote k ser'' (Inr (write_characters ''}'' ser''))
          (\<lambda>x. value_text (JObject m) ([CHR ''{'', CHR 0x0A] @ u @ [CHR 0x0A] @ w @ x))"
        using value_text_object [OF newline_space s(2) _ assms(2,4), of "CHR 0x0A # w"] newline_space w
        by (intro wrote_write) simp_all
    qed (simp add: s(1))
  qed
  then show ?thesis
    unfolding dump_value.simps if_not_P [OF assms(2)] if_P [OF True] using k(4) by (rule wrote_less [OF wrote_grown])
next
  case False
  have "wrote n (write_characters ''{'' ser)
      (bind_result (dump_members ascii step cur m (write_characters ''{'' ser)) (\<lambda>ser.
          Inr (write_characters ''}'' ser))) (\<lambda>u. value_text (JObject m) (''{'' @ u))"
  proof (rule wrote_bind [OF assms(6) [OF False]])
    fix u ser'
    assume s: "ser_ok n ser'" "members_text m u"
    show "wrote n ser' (Inr (write_characters ''}'' ser')) (\<lambda>w. value_text (JObject m) (''{'' @ u @ w))"
      using value_text_object [of "[]" m u "[]"] s assms(2,4) by (intro wrote_write) simp_all
  qed (simp add: assms(1))
  then show ?thesis
    unfolding dump_value.simps if_not_P [OF assms(2)] if_not_P [OF False] by (rule wrote_after)
qed

section \<open>The whole recursion\<close>

lemma wrote_pretty_element:
  assumes "ser_ok n ser" "ind \<le> n"
    and "\<And>ser. ser_ok n ser \<Longrightarrow> wrote n ser (dump_value True ascii step ind v ser) (value_text v)"
    and "\<And>ser. vs \<noteq> [] \<Longrightarrow> ser_ok n ser \<Longrightarrow> wrote n ser (dump_pretty_elements ascii step ind vs ser) (elements_text vs)"
  shows "wrote n ser (dump_pretty_elements ascii step ind (v # vs) ser) (elements_text (v # vs))"
  unfolding dump_pretty_elements.simps dump_elements.simps dump_pretty_members.simps dump_members.simps
proof (rule wrote_bind [OF wrote_indent [OF assms(1,2)]])
  fix i ser1
  assume i: "ser_ok n ser1" "spaces i"
  show "wrote n ser1 (bind_result (dump_value True ascii step ind v ser1) (\<lambda>ser.
       if vs = [] then Inr ser
       else dump_pretty_elements ascii step ind vs (write_characters [CHR '','', CHR 0x0A] ser)))
     (\<lambda>u. elements_text (v # vs) (i @ u))"
  proof (rule wrote_bind [OF assms(3) [OF i(1)]])
    fix t ser2
    assume t: "ser_ok n ser2" "value_text v t"
    show "wrote n ser2 (if vs = [] then Inr ser2
         else dump_pretty_elements ascii step ind vs (write_characters [CHR '','', CHR 0x0A] ser2))
       (\<lambda>u. elements_text (v # vs) (i @ t @ u))"
    proof (cases "vs = []")
      case True
      then show ?thesis using elements_text_one [OF i(2) t(2)] t(1) by (simp add: wrote_nothing)
    next
      case False
      have "wrote n (write_characters [CHR '','', CHR 0x0A] ser2)
          (dump_pretty_elements ascii step ind vs (write_characters [CHR '','', CHR 0x0A] ser2))
          (\<lambda>u. elements_text (v # vs) (i @ t @ [CHR '','', CHR 0x0A] @ u))"
        using wrote_mono [OF assms(4) [OF False]] elements_text_Cons [OF i(2) t(2) newline_space _ False] t(1) by simp
      then show ?thesis unfolding if_not_P [OF False] by (rule wrote_after)
    qed
  qed
qed

lemma wrote_element:
  assumes "ser_ok n ser"
    and "\<And>ser. ser_ok n ser \<Longrightarrow> wrote n ser (dump_value False ascii step cur v ser) (value_text v)"
    and "\<And>ser. vs \<noteq> [] \<Longrightarrow> ser_ok n ser \<Longrightarrow> wrote n ser (dump_elements ascii step cur vs ser) (elements_text vs)"
  shows "wrote n ser (dump_elements ascii step cur (v # vs) ser) (elements_text (v # vs))"
  unfolding dump_pretty_elements.simps dump_elements.simps dump_pretty_members.simps dump_members.simps
proof (rule wrote_bind [OF assms(2) [OF assms(1)]])
  fix t ser2
  assume t: "ser_ok n ser2" "value_text v t"
  show "wrote n ser2 (if vs = [] then Inr ser2 else dump_elements ascii step cur vs (write_characters '','' ser2))
     (\<lambda>u. elements_text (v # vs) (t @ u))"
  proof (cases "vs = []")
    case True
    then show ?thesis using elements_text_one [of "[]" v t] t by (simp add: wrote_nothing)
  next
    case False
    have "wrote n (write_characters '','' ser2) (dump_elements ascii step cur vs (write_characters '','' ser2))
        (\<lambda>u. elements_text (v # vs) (t @ '','' @ u))"
      using wrote_mono [OF assms(3) [OF False]] elements_text_Cons [of "[]" v t "[]" vs] t False by simp
    then show ?thesis unfolding if_not_P [OF False] by (rule wrote_after)
  qed
qed

lemma wrote_pretty_member:
  assumes "ser_ok n ser" "ind \<le> n" "utf8_valid k"
    and "\<And>ser. ser_ok n ser \<Longrightarrow> wrote n ser (dump_value True ascii step ind v ser) (value_text v)"
    and "\<And>ser. m \<noteq> [] \<Longrightarrow> ser_ok n ser \<Longrightarrow> wrote n ser (dump_pretty_members ascii step ind m ser) (members_text m)"
  shows "wrote n ser (dump_pretty_members ascii step ind ((k, v) # m) ser) (members_text ((k, v) # m))"
  unfolding dump_pretty_elements.simps dump_elements.simps dump_pretty_members.simps dump_members.simps
proof (rule wrote_bind [OF wrote_indent [OF assms(1,2)]])
  fix i ser1
  assume i: "ser_ok n ser1" "spaces i"
  have key: "wrote n ser1 (write_key ascii '': '' k ser1) (\<lambda>u. \<exists>kt. u = kt @ '': '' \<and> spells kt (TString k))"
    by (rule wrote_key [OF i(1) assms(3)]) blast
  show "wrote n ser1 (bind_result (write_key ascii '': '' k ser1) (\<lambda>ser.
       bind_result (dump_value True ascii step ind v ser) (\<lambda>ser.
         if m = [] then Inr ser
         else dump_pretty_members ascii step ind m (write_characters [CHR '','', CHR 0x0A] ser))))
     (\<lambda>u. members_text ((k, v) # m) (i @ u))"
  proof (rule wrote_bind [OF key], elim exE conjE, rule wrote_bind [OF assms(4)])
    fix kk ser2 kt t ser3
    assume k: "kk = kt @ '': ''" "spells kt (TString k)" and t: "ser_ok n ser3" "value_text v t"
    show "wrote n ser3 (if m = [] then Inr ser3
         else dump_pretty_members ascii step ind m (write_characters [CHR '','', CHR 0x0A] ser3))
       (\<lambda>u. members_text ((k, v) # m) (i @ kk @ t @ u))"
    proof (cases "m = []")
      case True
      then show ?thesis
        using members_text_one [OF i(2) k(2) blank_space t(2)] t(1) k(1) by (simp add: wrote_nothing)
    next
      case False
      have "wrote n (write_characters [CHR '','', CHR 0x0A] ser3)
          (dump_pretty_members ascii step ind m (write_characters [CHR '','', CHR 0x0A] ser3))
          (\<lambda>u. members_text ((k, v) # m) (i @ kk @ t @ [CHR '','', CHR 0x0A] @ u))"
        using wrote_mono [OF assms(5) [OF False]] t(1) k(1)
          members_text_Cons [OF i(2) k(2) blank_space t(2) newline_space _ False] by simp
      then show ?thesis unfolding if_not_P [OF False] by (rule wrote_after)
    qed
  qed
qed

lemma wrote_member:
  assumes "ser_ok n ser" "utf8_valid k"
    and "\<And>ser. ser_ok n ser \<Longrightarrow> wrote n ser (dump_value False ascii step cur v ser) (value_text v)"
    and "\<And>ser. m \<noteq> [] \<Longrightarrow> ser_ok n ser \<Longrightarrow> wrote n ser (dump_members ascii step cur m ser) (members_text m)"
  shows "wrote n ser (dump_members ascii step cur ((k, v) # m) ser) (members_text ((k, v) # m))"
  unfolding dump_pretty_elements.simps dump_elements.simps dump_pretty_members.simps dump_members.simps
proof -
  have key: "wrote n ser (write_key ascii '':'' k ser) (\<lambda>u. \<exists>kt. u = kt @ '':'' \<and> spells kt (TString k))"
    by (rule wrote_key [OF assms(1,2)]) blast
  show "wrote n ser (bind_result (write_key ascii '':'' k ser) (\<lambda>ser.
       bind_result (dump_value False ascii step cur v ser) (\<lambda>ser.
         if m = [] then Inr ser else dump_members ascii step cur m (write_characters '','' ser))))
     (members_text ((k, v) # m))"
  proof (rule wrote_bind [OF key], elim exE conjE, rule wrote_bind [OF assms(3)])
    fix kk ser2 kt t ser3
    assume k: "kk = kt @ '':''" "spells kt (TString k)" and t: "ser_ok n ser3" "value_text v t"
    show "wrote n ser3 (if m = [] then Inr ser3 else dump_members ascii step cur m (write_characters '','' ser3))
       (\<lambda>u. members_text ((k, v) # m) (kk @ t @ u))"
    proof (cases "m = []")
      case True
      then show ?thesis
        using members_text_one [of "[]" kt k "[]" v t] k t by (simp add: wrote_nothing)
    next
      case False
      have "wrote n (write_characters '','' ser3) (dump_members ascii step cur m (write_characters '','' ser3))
          (\<lambda>u. members_text ((k, v) # m) (kk @ t @ '','' @ u))"
        using wrote_mono [OF assms(4) [OF False]] t k False
          members_text_Cons [of "[]" kt k "[]" v t "[]" m] by simp
      then show ?thesis unfolding if_not_P [OF False] by (rule wrote_after)
    qed
  qed
qed

lemma dump_writes:
  fixes x :: serializer
  assumes "step \<le> 512"
  shows "printable_json j
     \<Longrightarrow> \<forall>n ser. ser_ok n ser \<longrightarrow> 512 \<le> n \<longrightarrow> cur \<le> n
        \<longrightarrow> wrote n ser (dump_value pretty ascii step cur j ser) (value_text j)"
  "m \<noteq> [] \<Longrightarrow> list_all (\<lambda>(k, v). utf8_valid k \<and> printable_json v) m
     \<Longrightarrow> \<forall>n ser. ser_ok n ser \<longrightarrow> 512 \<le> n \<longrightarrow> ind \<le> n
        \<longrightarrow> wrote n ser (dump_pretty_members ascii step ind m ser) (members_text m)"
  "m \<noteq> [] \<Longrightarrow> list_all (\<lambda>(k, v). utf8_valid k \<and> printable_json v) m
     \<Longrightarrow> \<forall>n ser. ser_ok n ser \<longrightarrow> 512 \<le> n \<longrightarrow> cur \<le> n
        \<longrightarrow> wrote n ser (dump_members ascii step cur m ser) (members_text m)"
  "vs \<noteq> [] \<Longrightarrow> list_all printable_json vs
     \<Longrightarrow> \<forall>n ser. ser_ok n ser \<longrightarrow> 512 \<le> n \<longrightarrow> ind \<le> n
        \<longrightarrow> wrote n ser (dump_pretty_elements ascii step ind vs ser) (elements_text vs)"
  "vs \<noteq> [] \<Longrightarrow> list_all printable_json vs
     \<Longrightarrow> \<forall>n ser. ser_ok n ser \<longrightarrow> 512 \<le> n \<longrightarrow> cur \<le> n
        \<longrightarrow> wrote n ser (dump_elements ascii step cur vs ser) (elements_text vs)"
  using assms
proof (induction pretty ascii step cur j x and ascii step ind m x and ascii step cur m x
    and ascii step ind vs x and ascii step cur vs x
    rule: dump_value_dump_pretty_members_dump_members_dump_pretty_elements_dump_elements.induct)
  case (1 pretty ascii step cur m y)
  show ?case
  proof (cases "m = []")
    case True
    then show ?thesis using value_text_empty(2) by (simp add: wrote_write)
  next
    case False
    show ?thesis
    proof (intro allI impI)
      fix n ser
      assume "ser_ok n ser" "512 \<le> n" "cur \<le> n"
      then show "wrote n ser (dump_value pretty ascii step cur (JObject m) ser) (value_text (JObject m))"
        by (intro wrote_object) (use 1(1,2) [OF False _ False] 1(3,4) False in simp_all)
    qed
  qed
next
  case (2 pretty ascii step cur vs y)
  show ?case
  proof (cases "vs = []")
    case True
    then show ?thesis using value_text_empty(1) by (simp add: wrote_write)
  next
    case False
    show ?thesis
    proof (intro allI impI)
      fix n ser
      assume "ser_ok n ser" "512 \<le> n" "cur \<le> n"
      then show "wrote n ser (dump_value pretty ascii step cur (JArray vs) ser) (value_text (JArray vs))"
        by (intro wrote_array) (use 2(1,2) [OF False _ False] 2(3,4) False in simp_all)
    qed
  qed
next
  case (3 pretty ascii step cur s y)
  have "value_text (JString s) t" if "spells t (TString s)" for t
    using value_text_scalar [OF that, of "JString s"] V_string by simp
  then show ?case using 3 by (auto intro!: wrote_string)
next
  case (11 ascii step ind k v m y)
  then show ?case by (intro allI impI wrote_pretty_member) simp_all
next
  case (13 ascii step cur k v m y)
  then show ?case by (intro allI impI wrote_member) simp_all
next
  case (15 ascii step ind v vs y)
  then show ?case by (intro allI impI wrote_pretty_element) simp_all
next
  case (17 ascii step cur v vs y)
  then show ?case by (intro allI impI wrote_element) simp_all
qed (simp_all add: wrote_scalar)

section \<open>Reading the text back\<close>

lemma value_text_parses:
  assumes "value_text j tx"
  shows "json_parse tx = Inr (reread j)"
proof -
  obtain ts where ts: "value_toks (reread j) ts" "stands_for tx ts" using assms by (auto simp: value_text_def)
  have "denotes [] []" by (rule D_end) simp
  then have "denotes tx ts" using ts(2) stops_simps(1) unfolding stands_for_def by (metis append_Nil2)
  then show ?thesis using json_parse_accepts [OF ts(1)] denotes_tokens by blast
qed

lemma make_serializer_ok:
  assumes "whitespace (Some ichar)"
  shows "ser_ok 512 (make_serializer ichar Strict)"
  using assms by (simp add: ser_ok_def make_serializer_def spaces_def list_all_iff)

lemma json_dump_writes:
  assumes "printable_json j" "whitespace (Some ichar)" "indent \<le> 512"
  shows "\<exists>tx. json_dump indent ichar ascii Strict j = Inr tx \<and> value_text j tx"
proof -
  define pretty where "pretty \<longleftrightarrow> indent \<ge> 0"
  define step where "step = (if pretty then nat indent else 0)"
  have "step \<le> 512" using assms(3) by (simp add: step_def nat_le_iff)
  then have "wrote 512 (make_serializer ichar Strict)
      (dump_value pretty ascii step 0 j (make_serializer ichar Strict)) (value_text j)"
    using dump_writes(1) [OF _ assms(1)] make_serializer_ok [OF assms(2)] by blast
  then show ?thesis
    by (auto simp: wrote_def json_dump_def step_def pretty_def make_serializer_def split: if_splits)
qed

end
