(* ===== verification/Json_Texts.thy ===== *)
theory Json_Texts
  imports Session_State Json_Dump
begin

text \<open>
  The JSON text functions as the server uses them: \<open>parse\<close> and \<open>dump\<close> fail by exceptions only,
  \<open>dump\<close> fails exactly on strings that are not UTF-8, and the answers the server builds are
  printed as texts that a client reads back as the values they were built from.
\<close>

section \<open>When \<open>dump\<close> fails\<close>

fun utf8_json :: "json \<Rightarrow> bool" where
  "utf8_json (JString s) \<longleftrightarrow> utf8_valid s"
| "utf8_json (JArray vs) \<longleftrightarrow> list_all utf8_json vs"
| "utf8_json (JObject m) \<longleftrightarrow> list_all (\<lambda>(k, v). utf8_valid k \<and> utf8_json v) m"
| "utf8_json _ \<longleftrightarrow> True"

definition strict_outcome :: "bool \<Rightarrow> serializer result \<Rightarrow> bool" where
  "strict_outcome ok r \<longleftrightarrow>
     (case r of
        Inr ser \<Rightarrow> ok \<and> ser_error_handler ser = Strict
      | Inl x \<Rightarrow> \<not> ok \<and> x = Throw (Json_type_error 316))"

lemma outcome_write: "ser_error_handler ser = Strict \<Longrightarrow> strict_outcome True (Inr (write_characters t ser))"
  by (simp add: strict_outcome_def write_characters_def)

lemma outcome_bind:
  assumes "strict_outcome a r" "\<And>ser. ser_error_handler ser = Strict \<Longrightarrow> strict_outcome b (f ser)"
  shows "strict_outcome (a \<and> b) (bind_result r f)"
  using assms by (cases r) (auto simp: strict_outcome_def split: sum.splits)

lemma write_characters_handler [simp]: "ser_error_handler (write_characters t ser) = ser_error_handler ser"
  by (simp add: write_characters_def)

lemma outcome_escaped:
  assumes "ser_error_handler ser = Strict"
  shows "strict_outcome (utf8_valid s) (write_escaped a s ser)"
proof (cases "utf8_valid s")
  case True
  then obtain t where "dump_escaped Strict a s = Inr t" using dump_escaped_reads by blast
  then show ?thesis using True assms by (simp add: write_escaped_def strict_outcome_def)
next
  case False
  then show ?thesis using assms by (simp add: write_escaped_def strict_outcome_def dump_escaped_invalid)
qed

lemma outcome_key:
  assumes "ser_error_handler ser = Strict"
  shows "strict_outcome (utf8_valid k) (write_key a sep k ser)"
proof -
  have "strict_outcome (utf8_valid k \<and> True) (write_key a sep k ser)"
    unfolding write_key_def using assms by (intro outcome_bind outcome_escaped outcome_write) simp_all
  then show ?thesis by simp
qed

lemma outcome_nothing: "ser_error_handler ser = Strict \<Longrightarrow> strict_outcome True (Inr ser)"
  by (simp add: strict_outcome_def)

lemma outcome_scalar:
  assumes "ser_error_handler ser = Strict"
  shows "strict_outcome True (dump_scalar j ser)"
proof -
  have "strict_outcome True (dump_float x ser)" for x
  proof (cases "isfinite x")
    case True
    then obtain t where "to_chars x = Some t" by (rule to_chars_reads_back)
    then show ?thesis using True assms by (simp add: dump_float_def strict_outcome_def)
  qed (simp add: dump_float_def outcome_write assms)
  then show ?thesis
    using assms
    by (cases j) (simp_all add: dump_scalar_def outcome_write write_integer_def strict_outcome_def split: prod.split)
qed

lemma handler_dump_bytes [simp]:
  "ser_error_handler (dump_bytes sep bs ser) = ser_error_handler ser"
  by (induction sep bs ser rule: dump_bytes.induct) (simp_all add: Let_def write_integer_def split: prod.split)

lemma outcome_binary:
  "ser_error_handler ser = Strict \<Longrightarrow> strict_outcome True (dump_binary False step cur bytes subtype ser)"
  by (simp add: dump_binary_def dump_subtype_def write_integer_def strict_outcome_def split: option.split prod.split)

lemma dump_outcome:
  fixes x :: serializer
  shows "\<not> pretty \<Longrightarrow> \<forall>ser. ser_error_handler ser = Strict \<longrightarrow> strict_outcome (utf8_json j) (dump_value pretty a step cur j ser)"
  "True"
  "\<forall>ser. ser_error_handler ser = Strict \<longrightarrow>
     strict_outcome (list_all (\<lambda>(k, v). utf8_valid k \<and> utf8_json v) m) (dump_members a step cur m ser)"
  "True"
  "\<forall>ser. ser_error_handler ser = Strict \<longrightarrow> strict_outcome (list_all utf8_json vs) (dump_elements a step cur vs ser)"
proof (induction pretty a step cur j x and a step cur m x and a step cur m x and a step cur vs x and a step cur vs x
    rule: dump_value_dump_pretty_members_dump_members_dump_pretty_elements_dump_elements.induct)
  case (1 pretty a step cur m y)
  show ?case
  proof (cases "m = []")
    case False
    then have "strict_outcome (utf8_json (JObject m) \<and> True) (bind_result (dump_members a step cur m (write_characters ''{'' ser))
        (\<lambda>ser. Inr (write_characters ''}'' ser)))" if "ser_error_handler ser = Strict" for ser
      using 1(2) 1(3) that outcome_write by (intro outcome_bind) simp_all
    then show ?thesis using False 1(3) by simp
  qed (simp add: outcome_write)
next
  case (2 pretty a step cur vs y)
  show ?case
  proof (cases "vs = []")
    case False
    then have "strict_outcome (utf8_json (JArray vs) \<and> True) (bind_result (dump_elements a step cur vs (write_characters ''['' ser))
        (\<lambda>ser. Inr (write_characters '']'' ser)))" if "ser_error_handler ser = Strict" for ser
      using 2(2) 2(3) that outcome_write by (intro outcome_bind) simp_all
    then show ?thesis using False 2(3) by simp
  qed (simp add: outcome_write)
next
  case (3 pretty a step cur s y)
  have "strict_outcome (utf8_valid s \<and> True) (bind_result (write_escaped a s (write_characters [dquote] ser))
      (\<lambda>ser. Inr (write_characters [dquote] ser)))" if "ser_error_handler ser = Strict" for ser
    using that by (intro outcome_bind outcome_escaped outcome_write) simp_all
  then show ?case by simp
next
  case (13 a step cur k v m y)
  show ?case
  proof (intro allI impI)
    fix ser :: serializer
    assume ser: "ser_error_handler ser = Strict"
    show "strict_outcome (list_all (\<lambda>(k, v). utf8_valid k \<and> utf8_json v) ((k, v) # m)) (dump_members a step cur ((k, v) # m) ser)"
    proof (cases "m = []")
      case True
      have "strict_outcome (utf8_valid k \<and> utf8_json v \<and> True) (dump_members a step cur ((k, v) # m) ser)"
        using 13(1) ser unfolding dump_members.simps True
        by (intro outcome_bind outcome_key) (simp_all add: strict_outcome_def)
      then show ?thesis using True by simp
    next
      case False
      have "strict_outcome (utf8_valid k \<and> utf8_json v \<and> list_all (\<lambda>(k, v). utf8_valid k \<and> utf8_json v) m)
          (dump_members a step cur ((k, v) # m) ser)"
        using 13 ser False unfolding dump_members.simps by (intro outcome_bind outcome_key) simp_all
      then show ?thesis by simp
    qed
  qed
next
  case (17 a step cur v vs y)
  show ?case
  proof (intro allI impI)
    fix ser :: serializer
    assume ser: "ser_error_handler ser = Strict"
    show "strict_outcome (list_all utf8_json (v # vs)) (dump_elements a step cur (v # vs) ser)"
    proof (cases "vs = []")
      case True
      have "strict_outcome (utf8_json v \<and> True) (dump_elements a step cur (v # vs) ser)"
        using 17(1) ser unfolding dump_elements.simps True by (intro outcome_bind) (simp_all add: strict_outcome_def)
      then show ?thesis using True by simp
    next
      case False
      have "strict_outcome (utf8_json v \<and> list_all utf8_json vs) (dump_elements a step cur (v # vs) ser)"
        using 17 ser False unfolding dump_elements.simps by (intro outcome_bind) simp_all
      then show ?thesis by simp
    qed
  qed
qed (simp_all add: outcome_scalar outcome_nothing outcome_binary)

lemma JSON_dump_outcome:
  "case JSON_dump j of Inr t \<Rightarrow> utf8_json j | Inl x \<Rightarrow> \<not> utf8_json j \<and> x = Throw (Json_type_error 316)"
proof -
  have "strict_outcome (utf8_json j) (dump_value False False 0 0 j (make_serializer CHR '' '' Strict))"
    using dump_outcome(1) [of False j False 0 0] by (simp add: make_serializer_def)
  then show ?thesis
    by (auto simp: JSON_dump_def json_dump_def strict_outcome_def split: sum.splits)
qed

lemma JSON_dump_throws: "JSON_dump j = Inl x \<Longrightarrow> x = Throw (Json_type_error 316)"
  using JSON_dump_outcome [of j] by simp

lemma parse_failure_throws: "parse_failure r \<Longrightarrow> r = Inl x \<Longrightarrow> \<exists>y. x = Throw y"
  by (cases r rule: parse_failure.cases) auto

lemma json_parse_throws: "json_parse s = Inl x \<Longrightarrow> \<exists>y. x = Throw y"
  by (rule json_parse_cases [of s]) (auto intro: parse_failure_throws)

section \<open>The server's answers\<close>

lemma JSON_dump_reads:
  assumes "printable_json j"
  obtains t where "JSON_dump j = Inr t" "json_parse t = Inr (reread j)"
proof -
  obtain t where "JSON_dump j = Inr t" "value_text j t"
    using json_dump_writes [OF assms, of "CHR '' ''" "- 1" False] by (auto simp: JSON_dump_def whitespace_def)
  then show thesis using that value_text_parses by blast
qed

lemma ascii_text: "list_all (\<lambda>c. of_char c < (0x80 :: nat)) s \<Longrightarrow> utf8_valid s"
proof (induction s)
  case Nil
  show ?case unfolding utf8_valid_def by (rule exI [of _ "[]"]) simp
next
  case (Cons c s)
  then show ?case using utf8_valid_append [of "[c]" s] ascii_valid [of c] by simp
qed

lemma digits_ascii: "list_all is_digit s \<Longrightarrow> list_all (\<lambda>c. of_char c < (0x80 :: nat)) s"
  by (auto simp: list_all_iff is_digit_def less_eq_char_def)

lemma put_time_ascii: "list_all (\<lambda>c. of_char c < (0x80 :: nat)) (put_time x)"
proof -
  have d: "list_all (\<lambda>c. of_char c < (0x80 :: nat)) (decimal n)" for n
    by (rule digits_ascii) (rule decimal_all_digits)
  have "list_all (\<lambda>c. of_char c < (0x80 :: nat)) (pad2 n)" for n
    using d by (simp add: pad2_def digit_def)
  then show ?thesis using d by (simp add: put_time_def)
qed

lemma report_printable: "weather_response n = Inr r \<Longrightarrow> printable_json r"
  using ascii_text [OF put_time_ascii] ascii_text
  by (auto simp: weather_response_eq json_of_float_def object_ok_def less_list_code less_char_def)

end
