(* ===== verification/Server_Faults.thy ===== *)
theory Server_Faults
  imports Server_Readers Ws_Framing Json_Texts
begin

text \<open>
  Which handlers can fault. With a well-formed configuration and sessions that register once,
  no packet of a station faults, and the requests of a browser fault only by reading outside
  the message or by converting a float that no integer holds.
\<close>

section \<open>Hypotheses on the surroundings\<close>

text \<open>The configuration has a list of entries with a UUID string each.\<close>

definition config_ok :: "json \<Rightarrow> bool" where
  "config_ok cfg \<longleftrightarrow>
     (\<exists>us. json_subscript_const cfg ''uuids'' = Inr us \<and>
        (\<forall>j \<in> set (json_items us). \<exists>s. json_subscript_const j ''uuid'' = Inr (JString s)))"

definition config_uuids :: "json \<Rightarrow> string list" where
  "config_uuids cfg =
     (case json_subscript_const cfg ''uuids'' of
        Inl _ \<Rightarrow> []
      | Inr us \<Rightarrow>
          concat (map (\<lambda>j. case json_subscript_const j ''uuid'' of Inr (JString s) \<Rightarrow> [s] | _ \<Rightarrow> [])
            (json_items us)))"

lemma any_uuid_matches_ok:
  "\<forall>j \<in> set js. \<exists>s. json_subscript_const j ''uuid'' = Inr (JString s) \<Longrightarrow>
     any_uuid_matches u js = Inr (u \<in> set (concat (map (\<lambda>j.
       case json_subscript_const j ''uuid'' of Inr (JString s) \<Rightarrow> [s] | _ \<Rightarrow> []) js)))"
  by (induction js) auto

lemma isUUIDRegistered_ok:
  "config_ok cfg \<Longrightarrow> isUUIDRegistered cfg u = Inr (u \<in> set (config_uuids cfg))"
  by (auto simp: config_ok_def config_uuids_def isUUIDRegistered_def any_uuid_matches_ok)

section \<open>Packets\<close>

definition reports_safe :: "tcp_ctx \<Rightarrow> bool" where
  "reports_safe c \<longleftrightarrow>
     (\<forall>k u ctx. um_find (websockets_of k (shared c)) u = Some ctx \<longrightarrow>
        ctx_callback ctx = NotifySession (ctx_session ctx) \<and>
        websockets c k (ctx_session ctx) \<noteq> None)"

lemma reports_safeD:
  assumes "reports_safe c" "um_find (websockets_of k (shared c)) u = Some ctx"
  shows "ctx_callback ctx = NotifySession (ctx_session ctx)"
    "\<exists>w. websockets c k (ctx_session ctx) = Some w"
  using assms by (auto simp: reports_safe_def)

lemma find_safe:
  assumes "reports_safe c"
  shows "findWebSocketSession k (live_websocket c k) u (shared c) =
     Inr (map_option ctx_callback (um_find (websockets_of k (shared c)) u))"
proof (cases "um_find (websockets_of k (shared c)) u")
  case None
  then show ?thesis
    by (cases k) (simp_all add: findPlainWebSocketSession_def findSSLWebSocketSession_def)
next
  case (Some ctx)
  then have "live_websocket c k (ctx_session ctx) = Alive"
    using reports_safeD(2) [OF assms Some] by (auto simp: live_websocket_def)
  with Some show ?thesis
    by (cases k) (simp_all add: findPlainWebSocketSession_def findSSLWebSocketSession_def)
qed

lemma call_safe:
  assumes "reports_safe c" "um_find (websockets_of k (shared c)) u = Some ctx"
  shows "call_notification k (ctx_callback ctx) n c \<noteq> Inl x"
proof -
  obtain w where "websockets c k (ctx_session ctx) = Some w"
    using reports_safeD(2) [OF assms] by blast
  moreover obtain r where r: "weather_response n = Inr r" using weather_response_eq by blast
  moreover obtain t where "JSON_dump r = Inr t" using JSON_dump_reads [OF report_printable [OF r]] by blast
  ultimately show ?thesis
    by (simp add: reports_safeD(1) [OF assms] onWeatherStatusNotification_def writeRequest_def)
qed

lemma report_safe:
  assumes "reports_safe c"
  shows "handleWeatherStatusPacket view c \<noteq> Inl x"
proof -
  define u where "u = ws_uuid (WeatherStatusPacket_view view)"
  note call = call_safe [OF assms]
  show ?thesis
    unfolding handleWeatherStatusPacket_def Let_def find_safe [OF assms] u_def [symmetric]
    by (cases "um_find (websockets_of Plain (shared c)) u";
        cases "um_find (websockets_of SSL (shared c)) u")
      (auto simp: bind_result_Inl_iff call simp del: call_notification.simps)
qed

lemma handshake_safe:
  assumes "config_ok (config (shared c))"
  shows "handleHandshakePacket e k p view c \<noteq> Inl x"
  by (simp add: handleHandshakePacket_def Let_def isUUIDRegistered_ok [OF assms] case_prod_unfold)

lemma handle_safe:
  assumes "reports_safe c" "config_ok (config (shared c))"
  shows "handle e k p pid view c \<noteq> Inl x"
  using report_safe [OF assms(1)] handshake_safe [OF assms(2)]
  by (simp add: handle_def split: in_PacketType.split)

lemma reports_safe_notified:
  assumes "reports_safe c" "notifies e k p c c'"
  shows "reports_safe c'"
  unfolding reports_safe_def
proof (intro allI impI)
  fix k' u ctx
  assume "um_find (websockets_of k' (shared c')) u = Some ctx"
  with assms have ctx: "ctx_callback ctx = NotifySession (ctx_session ctx)"
      "websockets c k' (ctx_session ctx) \<noteq> None"
    by (auto simp: reports_safe_def notifies_def)
  moreover have "rel_option ws_poked (websockets c k' (ctx_session ctx)) (websockets c' k' (ctx_session ctx))"
    using assms(2) by (simp add: notifies_def)
  ultimately show "ctx_callback ctx = NotifySession (ctx_session ctx) \<and>
      websockets c' k' (ctx_session ctx) \<noteq> None"
    by (auto simp: option.rel_sel)
qed

lemma tcp_complete_safe:
  assumes "reports_safe c" "config_ok (config (shared c))"
  shows "\<exists>c'. tcp_complete e k p op err d c = Inr c'"
proof (cases "tcp_complete e k p op err d c")
  case (Inl x)
  from completion_fault [OF this] obtain c1 pid view
    where c1: "registers e k p c c1" "notifies e k p c c1" and h: "handle e k p pid view c1 = Inl x"
    by (auto simp: affects_def)
  have "reports_safe c1" by (rule reports_safe_notified [OF assms(1) c1(2)])
  moreover have "config_ok (config (shared c1))" using assms(2) c1(1) by (simp add: registers_def)
  ultimately show ?thesis using handle_safe h by blast
qed auto

section \<open>Requests\<close>

definition stations_safe :: "ws_ctx \<Rightarrow> bool" where
  "stations_safe c \<longleftrightarrow>
     (\<forall>k sid p. station_names k (wshared c) sid = Some p \<longrightarrow> stations c k p \<noteq> None)"

lemma stations_safe_requests:
  assumes "stations_safe c" "requests c c'"
  shows "stations_safe c'"
  unfolding stations_safe_def
proof (intro allI impI)
  fix k sid p
  assume "station_names k (wshared c') sid = Some p"
  with assms have "stations c k p \<noteq> None" by (auto simp: stations_safe_def requests_def)
  moreover have "rel_option tcp_poked (stations c k p) (stations c' k p)"
    using assms(2) by (simp add: requests_def)
  ultimately show "stations c' k p \<noteq> None" by (auto simp: option.rel_sel)
qed

lemma findStation_total:
  assumes "stations_safe c"
  shows "\<exists>v. findStation (live_station (stations c)) sid (wshared c) = Inr v"
proof -
  have "\<exists>b. lock_weak_from_this (live_station (stations c) k p) = Inr b"
    if "station_names k (wshared c) sid = Some p" for k p
  proof -
    have "live_station (stations c) k p \<noteq> Freed"
      using assms that by (auto simp: stations_safe_def live_station_def split: option.split)
    then show ?thesis by (cases "live_station (stations c) k p") auto
  qed
  then have "\<exists>v. findPlainStation (live_station (stations c) Plain) sid (wshared c) = Inr v"
    "\<exists>v. findSSLStation (live_station (stations c) SSL) sid (wshared c) = Inr v"
    by (auto simp: findPlainStation_def findSSLStation_def station_names_def bind_result_Inr_iff
        split: option.split)
  then show ?thesis by (auto simp: findStation_def)
qed

abbreviation throws :: "abrupt \<Rightarrow> bool" where
  "throws x \<equiv> \<exists>y. x = Throw y"

text \<open>
  The floats whose conversion is undefined, and the requests that make the code convert one:
  as the request's id or as one of its station ids.
\<close>

fun float_outside :: "int \<Rightarrow> int \<Rightarrow> json \<Rightarrow> bool" where
  "float_outside lo hi (JFloat w) =
     (case float64_trunc w of Some i \<Rightarrow> i < lo \<or> hi < i | None \<Rightarrow> True)"
| "float_outside lo hi j = False"

fun asks_outside :: "json \<Rightarrow> bool" where
  "asks_outside (JObject m) =
     ((case map_of m ''id'' of Some v \<Rightarrow> float_outside (- (2 ^ 31)) (2 ^ 31 - 1) v | None \<Rightarrow> False)
      \<or> (case map_of m ''stationIds'' of
           Some ids \<Rightarrow> list_ex (float_outside 0 255) (json_items ids) | None \<Rightarrow> False))"
| "asks_outside j = False"

lemma cast_float_fault:
  "cast_float lo hi w = Inl x \<Longrightarrow> x = Undefined FloatCastRange \<and> float_outside lo hi (JFloat w)"
  by (auto simp: cast_float_def split: option.splits if_splits)

lemma json_get_fault:
  "json_get_uint8 j = Inl x \<Longrightarrow> throws x \<or> x = Undefined FloatCastRange \<and> float_outside 0 255 j"
  "json_get_int j = Inl x \<Longrightarrow>
     throws x \<or> x = Undefined FloatCastRange \<and> float_outside (- (2 ^ 31)) (2 ^ 31 - 1) j"
  by (cases j; auto dest: cast_float_fault simp del: float_outside.simps)+

lemma json_subscript_fault: "json_subscript j key = Inl x \<Longrightarrow> throws x"
  by (cases "(j, key)" rule: json_subscript.cases) (auto split: option.splits)

lemma request_stations_fault:
  "stations_safe c \<Longrightarrow> fst (request_stations js c) = Inl x \<Longrightarrow>
     throws x \<or> x = Undefined FloatCastRange \<and> list_ex (float_outside 0 255) js"
proof (induction js c rule: request_stations.induct)
  case (1 c)
  then show ?case by simp
next
  case (2 j js c)
  show ?case
  proof (cases "json_get_uint8 j")
    case (Inl y)
    with 2(3) json_get_fault(1) [OF Inl] show ?thesis by auto
  next
    case (Inr sid)
    obtain sp where sp: "findStation (live_station (stations c)) sid (wshared c) = Inr sp"
      using findStation_total [OF 2(2)] by blast
    have "stations_safe (visit_station (uuid (wself c)) sp c)"
      by (rule stations_safe_requests [OF 2(2) requests_visit_station])
    with 2(1) [OF Inr sp] 2(3) Inr sp show ?thesis by auto
  qed
qed

lemma weather_request_fault:
  assumes "stations_safe c" "fst (handleWeatherStatusRequest n j c) = Inl x"
  shows "throws x \<or> x = Undefined FloatCastRange \<and> (\<exists>ids j'.
    json_subscript j ''stationIds'' = Inr (ids, j') \<and> json_contains j ''stationIds''
    \<and> list_ex (float_outside 0 255) (json_items ids))"
proof (cases "json_subscript j ''stationIds''")
  case (Inl y)
  with assms(2) have "x = y" by (simp add: handleWeatherStatusRequest_def split: if_splits)
  with json_subscript_fault [OF Inl] show ?thesis by simp
next
  case (Inr r)
  then obtain ids j' where r: "r = (ids, j')" by (cases r)
  have has: "json_contains j ''stationIds''"
    using assms(2) by (simp add: handleWeatherStatusRequest_def split: if_splits)
  obtain v c' where run: "request_stations (json_items ids) c = (v, c')"
    by (cases "request_stations (json_items ids) c")
  with assms(2) Inr r have "v = Inl x"
    by (cases v) (simp_all add: handleWeatherStatusRequest_def split: if_splits)
  with request_stations_fault [OF assms(1), of "json_items ids" x] run Inr r has show ?thesis
    by auto
qed

lemma available_request_fault:
  assumes "fst (handleAvailableStations n j c) = Inl x"
  shows "throws x"
proof (cases "writeRequest (stations_json (allStationIds (wshared c))) LogAvailableStations (wself c)")
  case (Inl y)
  with assms have "y = x" by (simp add: handleAvailableStations_def stations_response_eq)
  with Inl show ?thesis by (auto simp: writeRequest_def bind_result_Inl_iff dest: JSON_dump_throws)
next
  case (Inr w)
  with assms show ?thesis by (simp add: handleAvailableStations_def stations_response_eq)
qed

text \<open>A request whose id can be read is an object with an id.\<close>

lemma request_id:
  assumes "json_subscript j ''id'' = Inr (v, j')"
  shows "json_get_int v = Inr rid \<Longrightarrow> j' = j"
    "float_outside lo hi v \<Longrightarrow> \<exists>m. j = JObject m \<and> map_of m ''id'' = Some v"
  using assms by (cases "(j, ''id'')" rule: json_subscript.cases; auto split: option.splits)+

lemma dispatch_request_fault:
  assumes "stations_safe c" "fst (dispatch_request n s c) = Inl x"
  shows "throws x \<or> x = Undefined FloatCastRange \<and> (\<exists>j. json_parse s = Inr j \<and> asks_outside j)"
proof (cases "json_parse s")
  case (Inl y)
  with assms(2) json_parse_throws [OF Inl] show ?thesis by (simp add: dispatch_request_def)
next
  case j: (Inr j)
  show ?thesis
  proof (cases "json_subscript j ''id''")
    case (Inl y)
    with j assms(2) json_subscript_fault [OF Inl] show ?thesis by (simp add: dispatch_request_def)
  next
    case (Inr r)
    then obtain v j' where v: "json_subscript j ''id'' = Inr (v, j')" by (cases r) auto
    show ?thesis
    proof (cases "json_get_int v")
      case (Inl y)
      with j v assms(2) have "y = x" by (simp add: dispatch_request_def)
      with json_get_fault(2) [OF Inl] request_id(2) [OF v] j show ?thesis by fastforce
    next
      case (Inr rid)
      have "j' = j" by (rule request_id(1) [OF v Inr])
      with j v Inr assms(2) have "fst (handleWeatherStatusRequest n j c) = Inl x
          \<or> fst (handleAvailableStations n j c) = Inl x"
        by (simp add: dispatch_request_def split: if_splits)
      moreover have "asks_outside j" if "json_subscript j ''stationIds'' = Inr (ids, k)"
        "json_contains j ''stationIds''" "list_ex (float_outside 0 255) (json_items ids)" for ids k
        using that by (cases j) (auto split: option.splits)
      ultimately show ?thesis
        using weather_request_fault [OF assms(1)] available_request_fault j by blast
    qed
  qed
qed

lemma catch_exceptions_Inl:
  "fst (catch_exceptions r) = Inl y \<Longrightarrow> \<not> throws y \<and> fst r = Inl y"
  by (cases r rule: catch_exceptions.cases) auto

section \<open>Messages\<close>

text \<open>
  The messages that harm the server: after some well-framed texts, a length prefix is missing or
  points outside the message, or a text asks for the conversion of a float outside the range.
\<close>

definition cut_short :: "byte list \<Rightarrow> bool" where
  "cut_short b \<longleftrightarrow> b \<noteq> [] \<and> (length b < 2 \<or> length b < le_nat (take 2 b) + 2)"

inductive harmful :: "byte list \<Rightarrow> abrupt \<Rightarrow> bool" where
  cut: "cut_short b \<Longrightarrow> harmful b (Undefined OutOfBoundsRead)"
| float: "json_parse p = Inr j \<Longrightarrow> asks_outside j \<Longrightarrow>
    harmful (ws_frame p @ b) (Undefined FloatCastRange)"
| behind: "harmful b x \<Longrightarrow> harmful (ws_frame p @ b) x"

lemma harmful_Undefined: "harmful b x \<Longrightarrow> x = Undefined OutOfBoundsRead \<or> x = Undefined FloatCastRange"
  by (induction rule: harmful.induct) auto

lemma bytes_of_chars_of [simp]: "bytes_of (chars_of bs) = bs"
proof -
  have "unat b < 256" for b :: byte using unsigned_less [of b, where 'a = nat] by simp
  then show ?thesis by (simp add: bytes_of_def chars_of_def comp_def)
qed

text \<open>Every message that is not cut short starts with a framed text.\<close>

lemma first_frame:
  assumes "b \<noteq> []" "\<not> cut_short b"
  defines "n \<equiv> le_nat (take 2 b)"
  shows "ws_frame (chars_of (take n (drop 2 b))) @ drop (n + 2) b = b"
proof -
  have len: "2 \<le> length b" "n + 2 \<le> length b" using assms by (auto simp: cut_short_def)
  then have "le_bytes 2 n = take 2 b"
    using le_bytes_nat [of "take 2 b"] by (simp add: n_def)
  moreover have "length (take n (drop 2 b)) = n" using len by simp
  then have "length (chars_of (take n (drop 2 b))) = n" by (simp add: chars_of_def)
  ultimately have "ws_frame (chars_of (take n (drop 2 b))) = take 2 b @ take n (drop 2 b)"
    by (simp add: ws_frame_def)
  also have "\<dots> = take (n + 2) b" by (metis add.commute take_add)
  finally show ?thesis by simp
qed

lemma ws_handle_fault:
  assumes "stations_safe c" "view \<noteq> []" "fst (ws_handle view c) = Inl x"
  shows "harmful view x"
proof (cases "cut_short view")
  case True
  with assms(3) have "x = Undefined OutOfBoundsRead"
    by (auto simp: ws_handle_def cut_short_def Let_def split: if_splits)
  with True show ?thesis by (auto intro: harmful.cut)
next
  case False
  define n where "n = le_nat (take 2 view)"
  from False assms(2,3) have "fst (catch_exceptions
      (dispatch_request (n + 2) (chars_of (take n (drop 2 view))) c)) = Inl x"
    by (auto simp: ws_handle_def cut_short_def Let_def n_def split: if_splits)
  with dispatch_request_fault [OF assms(1)] catch_exceptions_Inl
  have "x = Undefined FloatCastRange" "\<exists>j. json_parse (chars_of (take n (drop 2 view))) = Inr j \<and> asks_outside j"
    by blast+
  with harmful.float [of "chars_of (take n (drop 2 view))" _ "drop (n + 2) view"]
    first_frame [OF assms(2) False] show ?thesis by (auto simp: n_def)
qed

lemma read_loop_fault:
  "read_loop c = Some (Inl x) \<Longrightarrow> stations_safe c \<Longrightarrow> harmful (buffer (wself c)) x"
proof (induction c "Inl x :: ws_ctx result" rule: read_loop.raw_induct [rotated 1, consumes 1])
  case (1 f c)
  let ?b = "buffer (wself c)"
  have ne: "?b \<noteq> []" using 1(2) by auto
  obtain v c1 where h: "ws_handle ?b c = (v, c1)" by (cases "ws_handle ?b c")
  show ?case
  proof (cases v)
    case (Inl y)
    with 1(2) ne h have "y = x" by simp
    with ws_handle_fault [OF 1(3) ne, of x] h Inl show ?thesis by simp
  next
    case (Inr r)
    then obtain st n where v: "v = Inr (st, n)" by (cases r) auto
    have verdict: "fst (ws_handle ?b c) = Inr (st, n)" using h v by simp
    have buf: "buffer (wself c1) = ?b" using buffer_ws_handle [of ?b c] h by simp
    have "requests c (consume n c1)"
      using requests_ws_handle [of c ?b] h requests_trans requests_consume by fastforce
    then have "stations_safe (consume n c1)" by (rule stations_safe_requests [OF 1(3)])
    moreover have "f (consume n c1) = Some (Inl x)" and st: "st \<noteq> Bad"
      using 1(2) ne h v by (cases st; auto simp: Let_def split: if_splits)+
    ultimately have rest: "harmful (drop n ?b) x" using 1(1) buf by fastforce
    from ws_handle_verdict [OF verdict] st consider "n = 0"
      | "n = le_nat (take 2 ?b) + 2" "n \<le> length ?b" by auto
    then show ?thesis
    proof cases
      case 1
      with rest show ?thesis by simp
    next
      case 2
      then have "\<not> cut_short ?b" by (auto simp: cut_short_def)
      from first_frame [OF ne this] harmful.behind [OF rest] 2(1) show ?thesis by metis
    qed
  qed
qed

section \<open>The whole server\<close>

lemma listed_reports_safe: "listed_alive s \<Longrightarrow> reports_safe (tcp_context s t)"
  by (auto simp: reports_safe_def listed_alive_def) (metis option.distinct(1))

lemma registered_stations_safe: "registered_alive s \<Longrightarrow> stations_safe (ws_context s w)"
  by (auto simp: stations_safe_def dest: registered_aliveD)

definition same_config :: "json \<Rightarrow> server \<Rightarrow> bool" where
  "same_config cfg s \<longleftrightarrow> config (srv_state s) = cfg"

lemma config_leave_tcp [simp]: "config (leave_TCPSession k sid st) = config st"
  by (cases k) simp_all

lemma config_leave_ws [simp]: "config (leave_WebSocketSession k u st) = config st"
  by (cases k) simp_all

lemma config_join_ws [simp]: "config (fst (join_WebSocketSession k u ctx st)) = config st"
  by (cases k) (simp_all add: join_defs split: prod.splits)

lemma same_config_start [simp]: "same_config cfg (start_server r cfg t)"
  by (simp add: same_config_def make_SharedState_def)

lemma same_config_step:
  assumes ok: "same_config cfg s" and step: "server_step e s s'"
  shows "same_config cfg s'"
  using step
proof cases
  case (tcp_completion k p t op st err d c)
  with registers_complete [OF tcp_completion(5)] ok show ?thesis
    by (simp add: same_config_def registers_def)
next
  case (ws_message k p w err d c)
  with onRead_cases [OF ws_message(4)] ok show ?thesis
    by (auto simp: same_config_def leave_session_def requests_def receive_message_def)
qed (use ok in \<open>simp_all add: same_config_def onAccept_def Let_def case_prod_unfold\<close>)

definition flights_ok :: "server \<Rightarrow> bool" where
  "flights_ok s \<longleftrightarrow> (\<forall>k p w. wss s k p = Some w \<longrightarrow> flight_ok w)"

lemma flights_ok_start [simp]: "flights_ok (start_server r c t)"
  by (simp add: flights_ok_def)

lemma flights_ok_notified:
  assumes "flights_ok s" "notifies e k p (tcp_context s t) c"
  shows "flights_ok (store_tcp k p c s)"
  unfolding flights_ok_def
proof (intro allI impI)
  fix k' q w'
  assume w': "wss (store_tcp k p c s) k' q = Some w'"
  have "rel_option ws_poked (wss s k' q) (wss (store_tcp k p c s) k' q)"
    using assms(2) by (simp add: notifies_def)
  with w' obtain w where "wss s k' q = Some w" "ws_poked w w'" by (cases "wss s k' q") auto
  with assms(1) show "flight_ok w'" by (auto simp: flights_ok_def ws_poked_def)
qed

lemma flights_ok_ws:
  "flights_ok s \<Longrightarrow> flight_ok (wself c) \<Longrightarrow> flights_ok (store_ws k p c s)"
  by (auto simp: flights_ok_def)

lemma flights_ok_step:
  assumes ok: "flights_ok s" and step: "server_step e s s'"
  shows "flights_ok s'"
  using step
proof cases
  case (tcp_completion k p t op st err d c)
  have "notifies (at_clock e s) k p (tcp_context s t) c"
    using notifies_complete [OF tcp_completion(5)] by (simp add: notifies_def)
  with ok tcp_completion(1) show ?thesis by (auto intro: flights_ok_notified)
next
  case (ws_upgrade k p g)
  have "flight_ok (onRun (make_WebSocketSession g))"
    by (simp add: onRun_def make_WebSocketSession_def flight_ok_def texts_in_flight_def
        start_ws_op_def)
  with ok ws_upgrade(1) show ?thesis by (auto intro: flights_ok_ws)
next
  case (ws_accepted k p w err u)
  have "flight_ok w" using ok ws_accepted(2) by (simp add: flights_ok_def)
  then have "flight_ok (wself (onAccept k p err u (ws_context s (finish_ws_op WsAccept w))))"
    by (simp add: onAccept_def Let_def case_prod_unfold doRead_def)
  with ok ws_accepted(1) show ?thesis by (auto intro: flights_ok_ws)
next
  case (ws_message k p w err d c)
  have "flight_ok w" using ok ws_message(2) by (simp add: flights_ok_def)
  with onRead_cases [OF ws_message(4)] have "flight_ok (wself c)"
    by (auto simp: leave_session_def requests_def receive_message_def)
  with ok ws_message(1) show ?thesis by (auto intro: flights_ok_ws)
next
  case (ws_written k p w msg h err n w2)
  have "flight_ok w" using ok ws_written(2) by (simp add: flights_ok_def)
  with flight_ok_written [OF _ ws_written(3), of err n] ws_written(4) have "flight_ok w2" by auto
  with ok ws_written(1) show ?thesis by (auto intro: flights_ok_ws)
next
  case (ws_closed k p w)
  have "flight_ok w" using ok ws_closed(2) by (simp add: flights_ok_def)
  with ok ws_closed(1) show ?thesis by (auto intro: flights_ok_ws)
qed (use ok in \<open>auto simp: flights_ok_def split: if_splits\<close>)

lemma same_config_run: "run_under e P (start_server r cfg t) s \<Longrightarrow> same_config cfg s"
  by (erule run_under_invariant [where I = "same_config cfg"])
    (auto intro: same_config_step)

lemma flights_ok_run: "run_under e P (start_server r cfg t) s \<Longrightarrow> flights_ok s"
  by (erule run_under_invariant [where I = flights_ok])
    (auto intro: flights_ok_step)

lemma server_faults:
  assumes run: "run_under e one_name (start_server r cfg t) s"
    and "config_ok cfg" and fault: "server_fault e s x"
  shows "\<exists>k p w d. wss s k p = Some w \<and> WsRead \<in> set (ws_ops w)
    \<and> onRead k NoError (length d) (receive_message d (ws_context s (finish_ws_op WsRead w)))
        = Some (Inl x)
    \<and> harmful (buffer w @ d) x"
  using fault
proof cases
  case (tcp_fault k p t op st err d)
  have "config_ok (config (srv_state s))"
    using same_config_run [OF run] assms(2) by (simp add: same_config_def)
  with tcp_complete_safe [of "tcp_context s (finish_op (op, st) t)" "at_clock e s" k p op err d]
    listed_reports_safe [OF listed_alive_run [OF run]] tcp_fault(4)
  show ?thesis by auto
next
  case (ws_fault k p w err d)
  define c where "c = receive_message d (ws_context s (finish_ws_op WsRead w))"
  have "stations_safe c"
    using registered_stations_safe [OF registered_alive_run [OF run], of "wself c"]
    by (simp add: stations_safe_def c_def receive_message_def)
  moreover have "read_loop c = Some (Inl x)" and err: "err = NoError"
    using ws_fault(3) by (auto simp: onRead_def c_def split: if_splits)
  ultimately have "harmful (buffer (wself c)) x" using read_loop_fault by simp
  then have "harmful (buffer w @ d) x" by (simp add: c_def receive_message_def finish_ws_op_def)
  with ws_fault err show ?thesis by blast
next
  case (write_fault k p w msg h err n)
  have "flight_ok w" using flights_ok_run [OF run] write_fault(1) by (simp add: flights_ok_def)
  with flight_ok_written [OF _ write_fault(2), of err n] write_fault(3) show ?thesis by auto
qed

end
