(* ===== verification/Example_Data.thy ===== *)
theory Example_Data
  imports Session_State
begin

text \<open>
  One concrete instance of what the model leaves open, for evaluating the operations: an
  environment whose UUID functions print the sixteen bytes as characters, a configuration with
  one registered UUID, and the packets of one station.
\<close>

definition example_uuid :: uuid where
  "example_uuid = replicate 15 0x41 @ [0x42]"

definition example_uuid_text :: string where
  "example_uuid_text = replicate 15 CHR ''A'' @ ''B''"

definition text_of_uuid :: "uuid \<Rightarrow> string" where
  "text_of_uuid u = map (\<lambda>b. char_of (unat b)) u"

definition uuid_of_text :: "string \<Rightarrow> uuid option" where
  "uuid_of_text s = (if length s = 16 then Some (map (\<lambda>c. word_of_nat (of_char c)) s) else None)"

definition example_env :: env where
  "example_env =
     \<lparr>now = 1000, uuid_to_string = text_of_uuid, string_generator = uuid_of_text,
      version_unknown = (\<lambda>u. u ! 0 = 0)\<rparr>"

definition example_config :: json where
  "example_config = JObject [(''uuids'', JArray [JObject [(''uuid'', JString example_uuid_text)]])]"

definition example_state :: SharedState where
  "example_state = make_SharedState ''/srv'' example_config"

definition example_handshake :: "StationId \<Rightarrow> byte list" where
  "example_handshake sid = 0 # example_uuid @ [sid]"

definition example_report :: "byte list" where
  "example_report =
     2 # example_uuid @ [0, 0, 0xA0, 0x41] @ [0, 0, 0x48, 0x42] @ [0x80, 0x51, 0x01, 0] @ [0]"

lemmas example_defs =
  example_uuid_def example_uuid_text_def text_of_uuid_def uuid_of_text_def example_env_def
  example_config_def example_state_def example_handshake_def example_report_def

end
