(* ===== verification/Tcp_Properties.thy ===== *)
theory Tcp_Properties
  imports Server_Faults Example_Data
begin

text \<open>
  The properties of the station side of the server: the wire protocol, the read loop, the
  handshake, the routing of weather reports and the ping timers.
\<close>

section \<open>Example\<close>

text \<open>A session that has greeted its station and waits for the first bytes.\<close>

definition example_session :: TCPSession where
  "example_session = doReadPacketHeader example_env (make_TCPSession 7 970)"

definition example_ctx :: tcp_ctx where
  "example_ctx = \<lparr>self = example_session, shared = example_state, websockets = (\<lambda>_ _. None)\<rparr>"

lemma example_ctx_waits:
  "buffer_ok (self example_ctx)" "one_read (abs_ctx example_ctx)" "pending (self example_ctx) = []"
  by (simp_all add: example_ctx_def example_session_def doReadPacketHeader_def start_op_def
      make_TCPSession_def buffer_ok_def one_read_def abs_ctx_def pending_def reads_def
      with_buffer_def)

lemma example_chunks_fit: "chunks_fit [] [[2], [0, 1], replicate 27 0, [1, 1]]"
  by (simp add: frames_unfold in_PacketType_of_def size_simps MaxInputSize_def numeral_eq_Suc)

lemma example_config_ok: "config_ok (config (shared example_ctx))"
  by (simp add: config_ok_def example_ctx_def example_defs make_SharedState_def)

section \<open>Specifications\<close>

text \<open>The answer to a handshake: the reason for the refusal, if there is one.\<close>

definition handshake_verdict ::
  "env \<Rightarrow> json \<Rightarrow> (StationId \<Rightarrow> ptr option) \<Rightarrow> HandshakePacket \<Rightarrow> HandshakeReason option" where
  "handshake_verdict e cfg names packet =
     (let text = uuid_to_string e (hs_uuid packet)
      in if hs_stationId packet \<ge> StationId_Max then Some ReasonStationIdInvalid
         else if \<not> isValidUUID e text then Some ReasonUUIDInvalidFormat
         else if c_str text \<notin> set (config_uuids cfg) then Some ReasonUUIDInvalid
         else if names (hs_stationId packet) \<noteq> None then Some ReasonStationIdAlready
         else None)"

text \<open>The session a report is for: a plain one if there is one, else an SSL one.\<close>

definition report_target :: "SharedState \<Rightarrow> uuid \<Rightarrow> (proto \<times> ptr) option" where
  "report_target st u =
     (case um_find (websockets_of Plain st) u of
        Some ctx \<Rightarrow> Some (Plain, ctx_session ctx)
      | None \<Rightarrow> map_option (\<lambda>ctx. (SSL, ctx_session ctx)) (um_find (websockets_of SSL st) u))"

definition report_json :: "StationId \<Rightarrow> WeatherStatusPacket \<Rightarrow> json" where
  "report_json sid packet = JObject
     [(''humidity'', json_of_float (ws_humidity packet)),
      (''id'', JInt 0),
      (''stationId'', JInt (ucast sid)),
      (''temperature'', json_of_float (ws_temperature packet)),
      (''time'', JString (put_time (gmtime (unat (ws_time packet)))))]"

section \<open>Properties\<close>

text \<open>
  C1. Reading from a station does not depend on how the bytes arrive. Deliver the bytes in any
  sequence of chunks the 512-byte buffer takes: the outcome, faults included, is that of
  cutting the whole byte stream into frames, running the handler of every complete frame in
  order and keeping the rest, with one read in flight behind it.
\<close>

theorem station_stream_framing:
  assumes "buffer_ok (self c)" "one_read (abs_ctx c)" "chunks_fit (pending (self c)) ds" "ds \<noteq> []"
  shows "bind_result (deliver_all e k p ds c) (\<lambda>c'. Inr (abs_ctx c')) =
     abs_deliver e k p (concat ds) (abs_ctx c)"
  using assms by (rule deliver_all_refines)

theorem station_stream_framing_witness:
  "bind_result (deliver_all example_env Plain 1 [[2], [0, 1], replicate 27 0, [1, 1]] example_ctx)
       (\<lambda>c'. Inr (abs_ctx c')) =
     abs_deliver example_env Plain 1 (concat [[2], [0, 1], replicate 27 0, [1, 1]])
       (abs_ctx example_ctx)"
  by (rule station_stream_framing) (use example_ctx_waits example_chunks_fit in simp_all)

text \<open>
  The result of handling a packet is decided by its type and the number of bytes at hand:
  too few bytes ask for more and consume nothing, a known type consumes exactly its size, an
  unknown type is bad and consumes nothing.
\<close>

theorem handle_consumes:
  "handle e k p pid view c = Inr (r, c') \<Longrightarrow>
     r = (if length view < sizeByPacketId pid then (Indeterminate, 0)
          else case pid of In_Unnamed b \<Rightarrow> (Bad, 0) | t \<Rightarrow> (Good, sizeByPacketId t))"
  by (drule handle_result) (cases pid; simp add: handle_verdict_def size_simps)

theorem handle_consumes_witness:
  "handle example_env Plain 1 In_Pong [1, 0] example_ctx
     = Inr ((Good, 1), snd (handlePongPacket [1, 0] example_ctx))
   \<and> (Good, 1) = (if length [1, 0 :: byte] < sizeByPacketId In_Pong then (Indeterminate, 0)
          else case In_Pong of In_Unnamed b \<Rightarrow> (Bad, 0) | t \<Rightarrow> (Good, sizeByPacketId t))"
proof -
  have h: "handle example_env Plain 1 In_Pong [1, 0] example_ctx
      = Inr ((Good, 1), snd (handlePongPacket [1, 0] example_ctx))"
    by (simp add: handle_def handlePongPacket_def size_simps)
  from h handle_consumes [OF h] show ?thesis by simp
qed

text \<open>
  C3. The handshake, on every branch. A station id out of range, a UUID without a valid version,
  a UUID the configuration does not list and a taken station id are refused, in this order,
  each with its reason and without touching the registry; otherwise the station is registered,
  its id stored, the ping timer started and the handshake acknowledged. One packet is sent in
  every case, and 18 bytes are consumed.
\<close>

theorem handshake_decision:
  assumes "config_ok (config (shared c))"
  shows "handleHandshakePacket e k p view c = Inr ((Good, 18),
    let packet = HandshakePacket_view view; sid = hs_stationId packet
    in case handshake_verdict e (config (shared c)) (station_names k (shared c)) packet of
         Some reason \<Rightarrow> c\<lparr>self := writePacket (out_HandshakeNAKPacket reason) LogOnly (self c)\<rparr>
       | None \<Rightarrow>
           c\<lparr>shared := fst (join_TCPSession k sid p (shared c)),
             self := writePacket out_HandshakeACKPacket LogOnly
               (startPingTimer ((self c)\<lparr>stationId := sid\<rparr>))\<rparr>)"
proof -
  have refused: "fst (join_TCPSession k sid p (shared c)) = shared c"
    if "station_names k (shared c) sid = Some q" for sid q
    using that
    by (cases k) (simp_all add: station_names_def join_defs um_try_emplace_def)
  show ?thesis
    using refused
    by (auto simp: handleHandshakePacket_def handshake_verdict_def Let_def case_prod_unfold
        isUUIDRegistered_ok [OF assms] sendBadRequest_def join_TCPSession_flag size_simps
        station_names_def [symmetric] not_less)
qed

theorem handshake_decision_witness:
  "handshake_verdict example_env (config (shared example_ctx)) (station_names Plain (shared example_ctx))
       (HandshakePacket_view (example_handshake 1)) = None
   \<and> handleHandshakePacket example_env Plain 4 (example_handshake 1) example_ctx = Inr ((Good, 18),
       let packet = HandshakePacket_view (example_handshake 1); sid = hs_stationId packet
       in case handshake_verdict example_env (config (shared example_ctx))
              (station_names Plain (shared example_ctx)) packet of
            Some reason \<Rightarrow> example_ctx\<lparr>self := writePacket (out_HandshakeNAKPacket reason) LogOnly
              (self example_ctx)\<rparr>
          | None \<Rightarrow>
              example_ctx\<lparr>shared := fst (join_TCPSession Plain sid 4 (shared example_ctx)),
                self := writePacket out_HandshakeACKPacket LogOnly
                  (startPingTimer ((self example_ctx)\<lparr>stationId := sid\<rparr>))\<rparr>)"
proof -
  have "handshake_verdict example_env (config (shared example_ctx))
      (station_names Plain (shared example_ctx)) (HandshakePacket_view (example_handshake 1)) = None"
    by code_simp
  then show ?thesis
    by (rule conjI) (rule handshake_decision [OF example_config_ok])
qed

text \<open>
  Every handshake of a byte sequence of 18 bytes is the encoding of the packet the handler
  sees, and a packet read back from its encoding is the packet: nothing of the three fields is
  lost or moved.
\<close>

theorem handshake_packet_roundtrip:
  "(length bs = 18 \<longrightarrow> HandshakePacket_bytes (HandshakePacket_view bs) = bs)
   \<and> (length (hs_uuid p) = 16 \<longrightarrow> HandshakePacket_view (HandshakePacket_bytes p @ rest) = p)"
  using HandshakePacket_bytes_view [of bs] HandshakePacket_view_bytes [of p rest]
  by (simp add: size_simps)

theorem handshake_packet_roundtrip_witness:
  "HandshakePacket_bytes (HandshakePacket_view (example_handshake 2)) = example_handshake 2
   \<and> HandshakePacket_view (HandshakePacket_bytes (HandshakePacket_view (example_handshake 2)) @ [5])
       = HandshakePacket_view (example_handshake 2)"
proof -
  have "length (example_handshake 2) = 18" "length (hs_uuid (HandshakePacket_view (example_handshake 2))) = 16"
    by (simp_all add: example_defs HandshakePacket_view_def)
  with handshake_packet_roundtrip show ?thesis by blast
qed

text \<open>
  C10. A weather report is read from the wire field by field: packing the fields little-endian
  and reading the 30 bytes back gives the same UUID, temperature, humidity, time and flag.
\<close>

theorem weather_packet_roundtrip:
  assumes "length (ws_uuid p) = 16"
  shows "WeatherStatusPacket_view (WeatherStatusPacket_bytes p @ rest) = p
    \<and> length (WeatherStatusPacket_bytes p) = sizeByPacketId In_WeatherStatus"
  using assms
  by (simp add: WeatherStatusPacket_view_bytes length_WeatherStatusPacket_bytes)

theorem weather_packet_roundtrip_witness:
  "WeatherStatusPacket_view (WeatherStatusPacket_bytes (WeatherStatusPacket_view example_report) @ [])
     = WeatherStatusPacket_view example_report
   \<and> length (WeatherStatusPacket_bytes (WeatherStatusPacket_view example_report))
     = sizeByPacketId In_WeatherStatus"
  by (rule weather_packet_roundtrip) (simp add: example_defs WeatherStatusPacket_view_def)

text \<open>
  C5. A weather report goes to the browser session its UUID names, a plain one before an SSL
  one, and to nobody else: exactly one JSON text with the sender's station id, the measured
  values and the formatted time is queued for that session; a report for an unknown UUID is
  dropped. The text parses back to the report, with null for a measurement that is not finite.
  30 bytes are consumed either way and the station's own session is left as it is.
\<close>

theorem report_routing:
  assumes "reports_safe c"
  shows "\<exists>report. json_parse report =
       Inr (reread (report_json (stationId (self c)) (WeatherStatusPacket_view view)))
     \<and> handleWeatherStatusPacket view c = Inr ((Good, 30),
    case report_target (shared c) (ws_uuid (WeatherStatusPacket_view view)) of
      None \<Rightarrow> c
    | Some (k, q) \<Rightarrow>
        c\<lparr>websockets := (websockets c)(k := (websockets c k)
           (q := map_option (enqueue report LogWeatherStatus) (websockets c k q)))\<rparr>)"
proof -
  define u where "u = ws_uuid (WeatherStatusPacket_view view)"
  define n where "n = \<lparr>n_id = stationId (self c), n_temperature = ws_temperature (WeatherStatusPacket_view view),
     n_humidity = ws_humidity (WeatherStatusPacket_view view), n_time = ws_time (WeatherStatusPacket_view view)\<rparr>"
  have response: "weather_response n =
      Inr (report_json (stationId (self c)) (WeatherStatusPacket_view view))"
    by (simp add: weather_response_eq n_def report_json_def)
  obtain report where report:
    "JSON_dump (report_json (stationId (self c)) (WeatherStatusPacket_view view)) = Inr report"
    "json_parse report = Inr (reread (report_json (stationId (self c)) (WeatherStatusPacket_view view)))"
    using JSON_dump_reads [OF report_printable [OF response]] .
  have call: "call_notification k (ctx_callback ctx) n c = Inr
      (c\<lparr>websockets := (websockets c)(k := (websockets c k)
         (ctx_session ctx := map_option (enqueue report LogWeatherStatus) (websockets c k (ctx_session ctx))))\<rparr>)"
    if ctx: "um_find (websockets_of k (shared c)) u = Some ctx" for k ctx
  proof -
    obtain w where "websockets c k (ctx_session ctx) = Some w"
      using reports_safeD(2) [OF assms(1) ctx] by blast
    with response report(1) show ?thesis
      by (simp add: reports_safeD(1) [OF assms(1) ctx] onWeatherStatusNotification_def writeRequest_def)
  qed
  have "handleWeatherStatusPacket view c = Inr ((Good, 30),
    case report_target (shared c) u of
      None \<Rightarrow> c
    | Some (k, q) \<Rightarrow>
        c\<lparr>websockets := (websockets c)(k := (websockets c k)
           (q := map_option (enqueue report LogWeatherStatus) (websockets c k q)))\<rparr>)"
    unfolding handleWeatherStatusPacket_def Let_def find_safe [OF assms(1)] u_def [symmetric]
      n_def [symmetric] report_target_def
    by (cases "um_find (websockets_of Plain (shared c)) u";
        cases "um_find (websockets_of SSL (shared c)) u")
      (simp_all add: call size_simps del: call_notification.simps)
  then show ?thesis using report(2) unfolding u_def by blast
qed

definition example_listed :: tcp_ctx where
  "example_listed = example_ctx\<lparr>
     shared := fst (join_WebSocketSession SSL example_uuid
       \<lparr>ctx_session = 9, ctx_callback = NotifySession 9\<rparr> example_state),
     websockets := (\<lambda>k q. if k = SSL \<and> q = 9 then Some (make_WebSocketSession example_uuid) else None)\<rparr>"

lemma example_listed_find:
  "um_find (websockets_of k (shared example_listed)) u =
     (if k = SSL \<and> u = example_uuid then Some \<lparr>ctx_session = 9, ctx_callback = NotifySession 9\<rparr> else None)"
  by (cases k) (auto simp: example_listed_def join_defs um_try_emplace_def example_state_def
      make_SharedState_def um_find_def)

lemma example_listed_safe: "reports_safe example_listed"
proof -
  have "websockets example_listed SSL 9 \<noteq> None" by (simp add: example_listed_def)
  then show ?thesis by (simp add: reports_safe_def example_listed_find)
qed

theorem report_routing_witness:
  "report_target (shared example_listed) (ws_uuid (WeatherStatusPacket_view example_report)) = Some (SSL, 9)
   \<and> (\<exists>report. json_parse report =
       Inr (reread (report_json (stationId (self example_listed)) (WeatherStatusPacket_view example_report)))
     \<and> handleWeatherStatusPacket example_report example_listed = Inr ((Good, 30),
    case report_target (shared example_listed) (ws_uuid (WeatherStatusPacket_view example_report)) of
      None \<Rightarrow> example_listed
    | Some (k, q) \<Rightarrow>
        example_listed\<lparr>websockets := (websockets example_listed)(k := (websockets example_listed k)
           (q := map_option (enqueue report LogWeatherStatus) (websockets example_listed k q)))\<rparr>))"
proof -
  have t: "report_target (shared example_listed) (ws_uuid (WeatherStatusPacket_view example_report))
      = Some (SSL, 9)"
    by (simp add: report_target_def example_listed_find del: websockets_of.simps)
      (simp add: example_defs WeatherStatusPacket_view_def)
  show ?thesis
    by (rule conjI [OF t report_routing [OF example_listed_safe]])
qed

text \<open>
  C11. The heartbeat. A ping timer that fires sends one ping packet and is armed again exactly
  one period after its last expiry, so pings do not drift; once the ping is written the pong
  timer is armed for ten seconds from then; a pong disarms it; a cancelled wait does nothing.
\<close>

theorem heartbeat:
  "pingExpiry (onPingTimeout NoError t) = pingExpiry t + 30
   \<and> written_bytes (onPingTimeout NoError t) 1 = [3]
   \<and> (AsyncWrite 1 StartPong, Armed) \<in> set (tcp_ops (onPingTimeout NoError t))
   \<and> (WaitPing, Armed) \<in> set (tcp_ops (onPingTimeout NoError t))
   \<and> (\<forall>t'. timer_due WaitPong t' (onPacketWritten e NoError StartPong t) \<longleftrightarrow> now e + 10 \<le> t')
   \<and> (WaitPong, Armed) \<in> set (tcp_ops (onPacketWritten e NoError StartPong t))
   \<and> (WaitPong, Armed) \<notin> set (tcp_ops (self (snd (handlePongPacket view c))))
   \<and> onPingTimeout OperationAborted t = t \<and> onPongTimeout k e OperationAborted t = t"
proof -
  have "(WaitPong, Armed) \<notin> set (tcp_ops (self (snd (handlePongPacket view c))))"
    by (simp add: handlePongPacket_def cancelled_not_armed)
  moreover have "(AsyncWrite 1 StartPong, Armed) \<in> set (tcp_ops (onPingTimeout NoError t))"
    by (auto simp: onPingTimeout_def restartPingTimer_def startPingTimer_def writePacket_def
        cancel_ops_def out_PingPacket_def)
  moreover have "written_bytes (onPingTimeout NoError t) 1 = [3]"
    by (simp add: onPingTimeout_def restartPingTimer_def startPingTimer_def writePacket_def
        written_bytes_def out_PingPacket_def)
  ultimately show ?thesis
    by (simp add: onPingTimeout_def restartPingTimer_def startPingTimer_def writePacket_def
        onPacketWritten_def startPongTimer_def onPongTimeout_def
        PingTimeout_def PongTimeout_def)
qed

text \<open>
  A station that does not answer a ping is disconnected: when the pong timer fires every
  socket operation in flight is aborted, and the socket is closed or, on an SSL connection, the
  shutdown is started under a deadline of sixty seconds.
\<close>

theorem pong_timeout_disconnects:
  "(op, Armed) \<in> set (tcp_ops (onPongTimeout k e NoError t)) \<Longrightarrow> is_io op \<Longrightarrow>
     k = SSL \<and> op = SslShutdown \<and> deadline (onPongTimeout k e NoError t) = Some (now e + 60)"
  by (cases k) (auto simp: onPongTimeout_def Timeout_def cancelled_not_armed)

theorem pong_timeout_disconnects_witness:
  "(SslShutdown, Armed) \<in> set (tcp_ops (onPongTimeout SSL example_env NoError example_session))
   \<and> deadline (onPongTimeout SSL example_env NoError example_session) = Some 1060"
proof -
  have a: "(SslShutdown, Armed) \<in> set (tcp_ops (onPongTimeout SSL example_env NoError example_session))"
    by (simp add: onPongTimeout_def)
  from pong_timeout_disconnects [OF a] have
    "deadline (onPongTimeout SSL example_env NoError example_session) = Some (now example_env + 60)"
    by simp
  with a show ?thesis by (simp add: example_env_def)
qed

text \<open>
  The output buffer is shared by all writes. A station that sends two handshakes in one
  segment has both answers started before either is carried out: the one-byte acknowledgement
  and the two-byte refusal are in flight together, and the buffer both are taken from holds the
  refusal, so the acknowledgement's byte is the refusal's first.
\<close>

theorem acknowledgement_overwritten:
  "case deliver example_env Plain 1 (example_handshake 0 @ example_handshake 0) example_ctx of
     Inl _ \<Rightarrow> False
   | Inr c \<Rightarrow>
       filter (\<lambda>x. \<not> is_read (fst x) \<and> is_io (fst x)) (tcp_ops (self c))
         = [(AsyncWrite 1 LogOnly, Armed), (AsyncWrite 2 LogOnly, Armed)]
       \<and> written_bytes (self c) 1 = take 1 (out_HandshakeNAKPacket ReasonStationIdAlready)
       \<and> written_bytes (self c) 1 \<noteq> out_HandshakeACKPacket"
  by code_simp

end
