(* ===== verification/Server_Script.thy ===== *)
theory Server_Script
  imports Server_Faults Example_Data
begin

text \<open>
  Steps as a function: an event names the step, \<open>perform\<close> carries it out when it is possible.
  A script of events is a run of the server, so concrete runs are evaluated, not guessed.
\<close>

datatype event =
    Accept proto ptr StationId
  | Wait nat
  | Fire proto ptr tcp_op
  | Complete proto ptr tcp_op op_status error_code "byte list"
  | Destroy proto ptr
  | WsUpgrade proto ptr uuid
  | WsAccepted proto ptr error_code uuid
  | WsMessage proto ptr error_code "byte list"
  | WsDestroy proto ptr

fun perform :: "env \<Rightarrow> event \<Rightarrow> server \<Rightarrow> server option" where
  "perform e (Accept k p g) s =
     (if tcps s k p = None
      then Some (store_tcp k p (tcp_context s (run k (at_clock e s) (make_TCPSession g (clock s)))) s)
      else None)"
| "perform e (Wait d) s = Some (s\<lparr>clock := clock s + d\<rparr>)"
| "perform e (Fire k p op) s =
     (case tcps s k p of
        None \<Rightarrow> None
      | Some t \<Rightarrow>
          if (op, Armed) \<in> set (tcp_ops t) \<and> timer_due op (clock s) t
          then Some (store_tcp k p (tcp_context s (fire_timer op t)) s) else None)"
| "perform e (Complete k p op st err d) s =
     (case tcps s k p of
        None \<Rightarrow> None
      | Some t \<Rightarrow>
          if (op, st) \<in> set (tcp_ops t) \<and> may_complete op st err d then
            (case tcp_complete (at_clock e s) k p op err d (tcp_context s (finish_op (op, st) t)) of
               Inr c \<Rightarrow> Some (store_tcp k p c s)
             | Inl _ \<Rightarrow> None)
          else None)"
| "perform e (Destroy k p) s =
     (case tcps s k p of
        None \<Rightarrow> None
      | Some t \<Rightarrow> if tcp_ops t = [] then Some (destroy_tcp k p t s) else None)"
| "perform e (WsUpgrade k p g) s =
     (if wss s k p = None
      then Some (store_ws k p (ws_context s (onRun (make_WebSocketSession g))) s) else None)"
| "perform e (WsAccepted k p err u) s =
     (case wss s k p of
        None \<Rightarrow> None
      | Some w \<Rightarrow>
          if WsAccept \<in> set (ws_ops w)
          then Some (store_ws k p (onAccept k p err u (ws_context s (finish_ws_op WsAccept w))) s)
          else None)"
| "perform e (WsMessage k p err d) s =
     (case wss s k p of
        None \<Rightarrow> None
      | Some w \<Rightarrow>
          if WsRead \<in> set (ws_ops w) then
            (case onRead k err (length d)
                    (receive_message d (ws_context s (finish_ws_op WsRead w))) of
               Some (Inr c) \<Rightarrow> Some (store_ws k p c s)
             | _ \<Rightarrow> None)
          else None)"
| "perform e (WsDestroy k p) s =
     (case wss s k p of
        None \<Rightarrow> None
      | Some w \<Rightarrow>
          if ws_ops w = [] \<and> list_all (\<lambda>x. ctx_callback (snd x) \<noteq> NotifySession p) (websockets_of k (srv_state s))
          then Some (destroy_ws k p w s) else None)"

fun perform_all :: "env \<Rightarrow> event list \<Rightarrow> server \<Rightarrow> server option" where
  "perform_all e [] s = Some s"
| "perform_all e (ev # evs) s =
     (case perform e ev s of None \<Rightarrow> None | Some s' \<Rightarrow> perform_all e evs s')"

lemma not_listed:
  assumes "list_all (\<lambda>x. ctx_callback (snd x) \<noteq> NotifySession p) (websockets_of k st)"
  shows "\<not> listed k p st"
proof
  assume "listed k p st"
  then obtain u ctx where "map_of (websockets_of k st) u = Some ctx"
    and "ctx_callback ctx = NotifySession p"
    by (auto simp: listed_def um_find_def)
  with assms show False by (fastforce simp: list_all_iff dest: map_of_SomeD)
qed

lemma perform_sound: "perform e ev s = Some s' \<Longrightarrow> server_step e s s'"
proof (induction e ev s rule: perform.induct)
  case 1
  then show ?case by (auto intro: tcp_accept split: if_splits)
next
  case 2
  then show ?case by (auto intro: tick)
next
  case 3
  then show ?case by (auto intro: tcp_timer split: option.splits if_splits)
next
  case 4
  then show ?case by (auto intro: tcp_completion split: option.splits if_splits sum.splits)
next
  case 5
  then show ?case by (auto intro: tcp_destroy split: option.splits if_splits)
next
  case 6
  then show ?case by (auto intro: ws_upgrade split: if_splits)
next
  case 7
  then show ?case by (auto intro: ws_accepted split: option.splits if_splits)
next
  case 8
  then show ?case by (auto intro: ws_message split: option.splits if_splits sum.splits)
next
  case 9
  then show ?case by (auto intro!: ws_destroy not_listed split: option.splits if_splits)
qed

lemma perform_all_reaches: "perform_all e evs s = Some s' \<Longrightarrow> reaches e s s'"
proof -
  have "reaches e s0 s \<Longrightarrow> perform_all e evs s = Some s' \<Longrightarrow> reaches e s0 s'" for s0
    by (induction evs arbitrary: s)
      (auto split: option.splits intro: run_step dest: perform_sound)
  then show "perform_all e evs s = Some s' \<Longrightarrow> reaches e s s'"
    using run_refl by blast
qed

text \<open>A script whose states all name each station session once.\<close>

definition names_once :: "server \<Rightarrow> bool" where
  "names_once s \<longleftrightarrow> distinct (map snd (plain_tcp_sessions (srv_state s)))
     \<and> distinct (map snd (ssl_tcp_sessions (srv_state s)))"

text \<open>A script all of whose states have a property.\<close>

fun perform_under :: "env \<Rightarrow> (server \<Rightarrow> bool) \<Rightarrow> event list \<Rightarrow> server \<Rightarrow> server option" where
  "perform_under e P [] s = Some s"
| "perform_under e P (ev # evs) s =
     (case perform e ev s of
        None \<Rightarrow> None
      | Some s' \<Rightarrow> if P s' then perform_under e P evs s' else None)"

abbreviation perform_once :: "env \<Rightarrow> event list \<Rightarrow> server \<Rightarrow> server option" where
  "perform_once e \<equiv> perform_under e names_once"

lemma distinct_map_snd_unique:
  "distinct (map snd m) \<Longrightarrow> (a, p) \<in> set m \<Longrightarrow> (b, p) \<in> set m \<Longrightarrow> a = b"
  by (induction m) force+

lemma names_once_one_name: "names_once s \<Longrightarrow> one_name s"
proof (unfold one_name_def, intro allI impI)
  fix k sid sid' p
  assume "names_once s" "station_names k (srv_state s) sid = Some p"
    "station_names k (srv_state s) sid' = Some p"
  then show "sid = sid'"
    by (cases k)
      (auto simp: names_once_def station_names_def um_find_def
        dest!: map_of_SomeD intro: distinct_map_snd_unique)
qed

lemma perform_under_run: "perform_under e P evs s = Some s' \<Longrightarrow> run_under e P s s'"
proof -
  have "run_under e P s0 s \<Longrightarrow> perform_under e P evs s = Some s' \<Longrightarrow> run_under e P s0 s'" for s0
  proof (induction evs arbitrary: s)
    case Nil
    then show ?case by simp
  next
    case (Cons ev evs)
    from Cons.prems(2) obtain s1 where s1: "perform e ev s = Some s1" "P s1"
      "perform_under e P evs s1 = Some s'"
      by (auto split: option.splits if_splits)
    with run_step [OF Cons.prems(1) perform_sound [OF s1(1)] s1(2)] show ?case by (intro Cons.IH)
  qed
  then show "perform_under e P evs s = Some s' \<Longrightarrow> run_under e P s s'"
    using run_refl by blast
qed

lemma perform_once_run: "perform_once e evs s = Some s' \<Longrightarrow> run_under e one_name s s'"
  by (rule run_under_mono [OF perform_under_run names_once_one_name])

text \<open>A completion in a script has run the handler.\<close>

lemma perform_complete:
  assumes "perform e (Complete k p op st err d) s = Some s'"
  shows "\<exists>t c. tcps s k p = Some t \<and> (op, st) \<in> set (tcp_ops t) \<and> may_complete op st err d
    \<and> tcp_complete (at_clock e s) k p op err d (tcp_context s (finish_op (op, st) t)) = Inr c
    \<and> s' = store_tcp k p c s"
  using assms by (auto split: option.splits if_splits sum.splits)

text \<open>A property of the last state of a script is a property of a reachable state.\<close>

lemma script_reaches:
  assumes "case perform_all e evs s0 of None \<Rightarrow> False | Some s \<Rightarrow> Q s"
  shows "\<exists>s. reaches e s0 s \<and> Q s"
proof (cases "perform_all e evs s0")
  case None
  with assms show ?thesis by simp
next
  case (Some s)
  with assms perform_all_reaches [OF Some] show ?thesis by auto
qed

lemma script_once:
  assumes "case perform_once e evs s0 of None \<Rightarrow> False | Some s \<Rightarrow> Q s"
  shows "\<exists>s. run_under e one_name s0 s \<and> Q s"
proof (cases "perform_once e evs s0")
  case None
  with assms show ?thesis by simp
next
  case (Some s)
  with assms perform_once_run [OF Some] show ?thesis by auto
qed

text \<open>A script creates only the browser sessions its upgrades name.\<close>

fun upgrades :: "event \<Rightarrow> (proto \<times> ptr) list" where
  "upgrades (WsUpgrade k p g) = [(k, p)]"
| "upgrades ev = []"

lemma perform_browsers:
  assumes "perform e ev s = Some s'" "wss s' k q \<noteq> None"
  shows "wss s k q \<noteq> None \<or> (k, q) \<in> set (upgrades ev)"
proof (cases ev)
  case (Complete k' p op st err d)
  then obtain t c where t: "tcps s k' p = Some t" "s' = store_tcp k' p c s"
    and run: "tcp_complete (at_clock e s) k' p op err d (tcp_context s (finish_op (op, st) t)) = Inr c"
    using assms(1) by (auto split: option.splits if_splits sum.splits)
  have "rel_option ws_poked (wss s k q) (websockets c k q)"
    using notifies_complete [OF run] by (simp add: notifies_def)
  with assms(2) t(2) show ?thesis by (cases "wss s k q") auto
qed (use assms in \<open>auto split: option.splits if_splits sum.splits\<close>)

lemma perform_all_browsers:
  "perform_all e evs s = Some s' \<Longrightarrow> wss s' k q \<noteq> None \<Longrightarrow>
     wss s k q \<noteq> None \<or> (k, q) \<in> set (concat (map upgrades evs))"
proof (induction evs arbitrary: s)
  case Nil
  then show ?case by simp
next
  case (Cons ev evs)
  then obtain s1 where "perform e ev s = Some s1" "perform_all e evs s1 = Some s'"
    by (auto split: option.splits)
  with Cons perform_browsers [of e ev s s1 k q] show ?case by fastforce
qed

text \<open>What a browser's message does when its handler does not return normally.\<close>

definition message_result ::
  "proto \<Rightarrow> ptr \<Rightarrow> byte list \<Rightarrow> server \<Rightarrow> ws_ctx result option option" where
  "message_result k p d s =
     (case wss s k p of
        None \<Rightarrow> None
      | Some w \<Rightarrow>
          if WsRead \<in> set (ws_ops w)
          then Some (onRead k NoError (length d)
                  (receive_message d (ws_context s (finish_ws_op WsRead w))))
          else None)"

definition message_faults :: "proto \<Rightarrow> ptr \<Rightarrow> byte list \<Rightarrow> server \<Rightarrow> abrupt \<Rightarrow> bool" where
  "message_faults k p d s x =
     (case message_result k p d s of Some (Some (Inl y)) \<Rightarrow> y = x | _ \<Rightarrow> False)"

lemma message_faults_sound:
  assumes "message_faults k p d s x"
  shows "server_fault e s x"
proof -
  from assms obtain w where w: "wss s k p = Some w" "WsRead \<in> set (ws_ops w)"
    and run: "onRead k NoError (length d)
      (receive_message d (ws_context s (finish_ws_op WsRead w))) = Some (Inl x)"
    by (auto simp: message_faults_def message_result_def split: option.splits sum.splits if_splits)
  then show ?thesis by (rule ws_fault)
qed

section \<open>Scripts\<close>

definition example_start :: server where
  "example_start = start_server ''/srv'' example_config 0"

text \<open>A station connects and is greeted.\<close>

definition greet :: "proto \<Rightarrow> ptr \<Rightarrow> StationId \<Rightarrow> event list" where
  "greet k p garbage =
     [Accept k p garbage, Complete k p (AsyncWrite 1 StartReading) Armed NoError []]"

definition receive_event :: "proto \<Rightarrow> ptr \<Rightarrow> byte list \<Rightarrow> event" where
  "receive_event k p d = Complete k p (ReadSome 0 512) Armed NoError d"

definition written :: "proto \<Rightarrow> ptr \<Rightarrow> nat \<Rightarrow> event" where
  "written k p n = Complete k p (AsyncWrite n LogOnly) Armed NoError []"

text \<open>A browser connects.\<close>

definition browse :: "proto \<Rightarrow> ptr \<Rightarrow> uuid \<Rightarrow> event list" where
  "browse k p u = [WsUpgrade k p [], WsAccepted k p NoError u]"

lemmas script_defs = greet_def receive_event_def written_def browse_def example_start_def

end
