(* ===== verification/Server_Properties.thy ===== *)
theory Server_Properties
  imports Server_Script
begin

text \<open>
  The properties of the running server: which handlers can fault, what the tables refer to,
  where reads go, and the sessions that outlive their connection.
\<close>


definition short_message_script :: "event list" where
  "short_message_script =
     greet Plain 1 7 @ [receive_event Plain 1 (example_handshake 0), written Plain 1 1] @ browse SSL 2 example_uuid"


text \<open>
  C7. A read never leaves the input buffer and never overwrites unread bytes: in every state
  the server reaches, a TCP session has at most one read in flight, it starts right behind the
  unread bytes, ends with the 512-byte buffer and has room for at least 482 bytes.
\<close>

theorem reads_stay_in_buffer:
  assumes "reaches e (start_server dir cfg t0) s" "tcps s k p = Some t"
  shows "length (filter (\<lambda>x. is_read (fst x)) (tcp_ops t)) \<le> 1
    \<and> length (input_buf t) = 512
    \<and> (\<forall>off cap st. (ReadSome off cap, st) \<in> set (tcp_ops t) \<longrightarrow>
         off = numBytesLeft t \<and> off + cap = 512 \<and> 482 < cap)"
proof -
  have ok: "reader_ok t" using readers_ok_run [OF assms(1)] assms(2) by (simp add: readers_ok_def)
  have sub: "filter (\<lambda>x. is_read (fst x)) xs = filter (\<lambda>x. is_read (fst x)) (filter (\<lambda>x. starts_reading (fst x)) xs)"
    for xs
  proof -
    have "is_read op \<Longrightarrow> starts_reading op" for op by (cases op) auto
    then show ?thesis by (induction xs) auto
  qed
  have "length (filter (\<lambda>x. is_read (fst x)) (tcp_ops t)) \<le> length (readers t)"
    unfolding readers_def by (subst sub) (rule length_filter_le)
  also have "\<dots> \<le> 1" using ok by (auto simp: reader_ok_def)
  finally have one: "length (filter (\<lambda>x. is_read (fst x)) (tcp_ops t)) \<le> 1" .
  have "off = numBytesLeft t \<and> off + cap = 512 \<and> 482 < cap"
    if "(ReadSome off cap, st) \<in> set (tcp_ops t)" for off cap st
  proof -
    from that have "(ReadSome off cap, st) \<in> set (readers t)" by (simp add: readers_def)
    with ok show ?thesis by (auto simp: reader_ok_def MaxInputSize_def)
  qed
  with one ok show ?thesis by (auto simp: reader_ok_def buffer_ok_def MaxInputSize_def)
qed

theorem reads_stay_in_buffer_witness:
  "\<exists>s t. reaches example_env (start_server ''/srv'' example_config 0) s \<and> tcps s Plain 1 = Some t
     \<and> (ReadSome 2 510, Armed) \<in> set (tcp_ops t)
     \<and> length (filter (\<lambda>x. is_read (fst x)) (tcp_ops t)) \<le> 1"
proof -
  have "case perform_all example_env (greet Plain 1 7 @ [receive_event Plain 1 [0, 0]]) example_start of
      None \<Rightarrow> False
    | Some s \<Rightarrow> map_option (\<lambda>t. (ReadSome 2 510, Armed) \<in> set (tcp_ops t)) (tcps s Plain 1) = Some True"
    by code_simp
  from script_reaches [OF this] obtain s t
    where run: "reaches example_env (start_server ''/srv'' example_config 0) s"
      and t: "tcps s Plain 1 = Some t" "(ReadSome 2 510, Armed) \<in> set (tcp_ops t)"
    by (auto simp: example_start_def)
  note in_buffer = reads_stay_in_buffer [OF run t(1)]
  show ?thesis
    by (rule exI [of _ s], rule exI [of _ t], intro conjI)
      (use run t in_buffer in blast)+
qed

text \<open>
  C4. The registry names live sessions. As long as no station registers under two ids, every
  registered station id is one of the three valid ids and belongs to a session in memory that
  carries this id, so looking a station up never touches freed memory and answers with a
  session that is registered under exactly that id, or with none.
\<close>

theorem registered_stations_alive:
  assumes "run_under e one_name (start_server dir cfg t0) s"
  shows "(\<forall>k sid p. station_names k (srv_state s) sid = Some p \<longrightarrow>
        sid < StationId_Max \<and> (\<exists>t. tcps s k p = Some t \<and> stationId t = sid))
    \<and> (\<exists>v. findStation (live_station (tcps s)) sid (srv_state s) = Inr v)"
  using registered_alive_run [OF assms] findStation_safe [OF registered_alive_run [OF assms]]
  by (simp add: registered_alive_def)

theorem registered_stations_alive_witness:
  "\<exists>s. run_under example_env one_name (start_server ''/srv'' example_config 0) s
     \<and> station_names Plain (srv_state s) 0 = Some 1
     \<and> (\<exists>v. findStation (live_station (tcps s)) 0 (srv_state s) = Inr v)"
proof -
  have "case perform_once example_env short_message_script example_start of
      None \<Rightarrow> False
    | Some s \<Rightarrow> station_names Plain (srv_state s) 0 = Some 1"
    by code_simp
  from script_once [OF this] obtain s
    where run: "run_under example_env one_name (start_server ''/srv'' example_config 0) s"
      and n: "station_names Plain (srv_state s) 0 = Some 1"
    unfolding example_start_def by blast
  note alive = registered_stations_alive [OF run, of 0]
  show ?thesis
    using run n conjunct2 [OF alive] by blast
qed

text \<open>
  C9. Without that condition the registry dangles. When a registered session registers a second
  id, in whatever state and by whatever completion, then however the server goes on while the
  session is in memory and nobody else unregisters the first id: the destructor of the session,
  once nothing is in flight any more, unregisters another id, the first id keeps pointing to the
  freed session, and looking it up reads freed memory (an SSL station's id, unless a plain
  station has the same id, which is found first).
\<close>

theorem two_names_dangle:
  assumes "station_names k (srv_state s) a = Some p" "tcps s k p = Some t"
    and "tcp_complete (at_clock e s) k p op err d (tcp_context s (finish_op (op, st) t)) = Inr c"
    and "station_names k (srv_state s) b = None" "station_names k (shared c) b = Some p"
    and "run_under e (named k p a) (store_tcp k p c s) s'"
    and "tcps s' k p = Some t'" "tcp_ops t' = []"
    and "k = Plain \<or> station_names Plain (srv_state s') a = None"
  shows "server_step e s' (destroy_tcp k p t' s')
    \<and> station_names k (srv_state (destroy_tcp k p t' s')) a = Some p
    \<and> tcps (destroy_tcp k p t' s') k p = None
    \<and> findStation (live_station (tcps (destroy_tcp k p t' s'))) a (srv_state (destroy_tcp k p t' s'))
        = Inl (Undefined DanglingPointer)"
proof -
  have "station_names k (shared c) a = Some p" "stationId (self c) \<noteq> a"
    using renames_complete [OF assms(3), of a] assms(1,4,5) by (auto simp: renames_def)
  then have "misnamed k p a (store_tcp k p c s)" "named k p a (store_tcp k p c s)"
    by (simp_all add: misnamed_def named_def)
  from misnamed_run [OF assms(6) this] misnamed_destroyed [OF _ _ assms(7,9)] tcp_destroy [OF assms(7,8)]
  show ?thesis by simp
qed

text \<open>A station that registers twice and disconnects.\<close>

definition second_name_script :: "event list" where
  "second_name_script =
     [written Plain 1 1, written Plain 1 1,
      Complete Plain 1 (ReadSome 0 512) Armed Eof [],
      Complete Plain 1 WaitPing Aborted OperationAborted [],
      Complete Plain 1 WaitPing Aborted OperationAborted []]"

theorem two_names_dangle_witness:
  "\<exists>s t. reaches example_env example_start s \<and> tcps s Plain 1 = Some t
     \<and> server_step example_env s (destroy_tcp Plain 1 t s)
     \<and> findStation (live_station (tcps (destroy_tcp Plain 1 t s))) 0 (srv_state (destroy_tcp Plain 1 t s))
        = Inl (Undefined DanglingPointer)"
proof -
  have "case perform_all example_env (greet Plain 1 7 @ [receive_event Plain 1 (example_handshake 0)])
        example_start of
      None \<Rightarrow> False
    | Some s \<Rightarrow> station_names Plain (srv_state s) 0 = Some 1 \<and> station_names Plain (srv_state s) 1 = None \<and>
        (case perform example_env (receive_event Plain 1 (example_handshake 1)) s of
           None \<Rightarrow> False
         | Some s1 \<Rightarrow> station_names Plain (srv_state s1) 1 = Some 1 \<and>
             (case perform_under example_env (named Plain 1 0) second_name_script s1 of
                None \<Rightarrow> False
              | Some s2 \<Rightarrow> map_option tcp_ops (tcps s2 Plain 1) = Some []))"
    by code_simp
  then obtain s s1 s2 t2
    where s: "perform_all example_env (greet Plain 1 7 @ [receive_event Plain 1 (example_handshake 0)])
          example_start = Some s"
        "station_names Plain (srv_state s) 0 = Some 1" "station_names Plain (srv_state s) 1 = None"
      and s1: "perform example_env (receive_event Plain 1 (example_handshake 1)) s = Some s1"
        "station_names Plain (srv_state s1) 1 = Some 1"
      and s2: "perform_under example_env (named Plain 1 0) second_name_script s1 = Some s2"
        "tcps s2 Plain 1 = Some t2" "tcp_ops t2 = []"
    by (auto simp: map_option_eq_Some split: option.splits)
  obtain t c where t: "tcps s Plain 1 = Some t"
    and c: "tcp_complete (at_clock example_env s) Plain 1 (ReadSome 0 512) NoError (example_handshake 1)
        (tcp_context s (finish_op (ReadSome 0 512, Armed) t)) = Inr c"
      "s1 = store_tcp Plain 1 c s"
    using perform_complete [OF s1(1) [unfolded receive_event_def]] by blast
  have run: "run_under example_env (named Plain 1 0) (store_tcp Plain 1 c s) s2"
    using perform_under_run [OF s2(1)] c(2) by simp
  have b: "station_names Plain (shared c) 1 = Some 1" using s1(2) c(2) by simp
  have "reaches example_env s s1"
    by (rule run_step [OF run_refl perform_sound [OF s1(1)]]) simp
  then have "reaches example_env example_start s1"
    by (rule run_under_trans) (rule perform_all_reaches [OF s(1)])
  moreover have "reaches example_env s1 s2"
    by (rule run_under_mono [OF perform_under_run [OF s2(1)]]) simp
  ultimately have "reaches example_env example_start s2" by (rule run_under_trans [rotated])
  with two_names_dangle [OF s(2) t c(1) s(3) b run s2(2,3)] s2(2) show ?thesis by blast
qed

definition eviction_script :: "event list" where
  "eviction_script =
     greet Plain 1 7 @ [receive_event Plain 1 (example_handshake 0)] @
     [Accept Plain 2 0, Complete Plain 2 (AsyncWrite 1 StartReading) Armed ConnectionReset [],
      Destroy Plain 2]"

text \<open>
  A session that never registered can unregister another one. The id of a new session is
  uninitialised memory and its destructor leaves whatever id is there: a connection that fails
  at once, with an id that happens to be 0 in memory, removes the registration of station 0,
  which stays connected but can no longer be found.
\<close>

theorem unregistered_session_evicts:
  "\<exists>s t. reaches example_env example_start s
     \<and> tcps s Plain 1 = Some t \<and> stationId t = 0 \<and> current_read t \<in> fst ` set (tcp_ops t)
     \<and> station_names Plain (srv_state s) 0 = None"
proof -
  have "case perform_all example_env eviction_script example_start of
      None \<Rightarrow> False
    | Some s \<Rightarrow>
        station_names Plain (srv_state s) 0 = None \<and>
        map_option (\<lambda>t. stationId t = 0 \<and> current_read t \<in> fst ` set (tcp_ops t)) (tcps s Plain 1)
          = Some True"
    by code_simp
  from script_reaches [OF this] show ?thesis by (simp add: map_option_eq_Some) blast
qed

text \<open>
  C8. A registered station is cut off for good by one unknown packet. Whenever a read brings a
  registered station's bytes to a byte that is no packet type where a packet should begin, the
  packets before it are handled and the handler returns without closing or shutting down the
  connection; nothing is read again, and the ping timer, which runs since the registration,
  renews itself for ever: in every state that follows, the session is in memory, waits for
  something, and reads nothing, whatever the station, the browsers and the timers do. (As long
  as no station had registered under two ids before.)
\<close>

theorem stuck_session_stays:
  assumes "run_under e one_name (start_server dir cfg t0) s"
    and "station_names k (srv_state s) sid = Some p" "tcps s k p = Some t"
    and "(ReadSome off cap, st) \<in> set (tcp_ops t)" "d \<noteq> []" "length d \<le> cap"
    and "frames (pending t @ d) = (fs, rest, True)"
    and "tcp_complete (at_clock e s) k p (ReadSome off cap) NoError d
      (tcp_context s (finish_op (ReadSome off cap, st) t)) = Inr c"
    and "reaches e (store_tcp k p c s) s'"
  shows "socketOpen (self c) = socketOpen t \<and> shutdowns (self c) = shutdowns t
    \<and> (\<exists>t'. tcps s' k p = Some t' \<and> readers t' = [] \<and> tcp_ops t' \<noteq> [])"
proof -
  have t: "reader_ok t" using readers_ok_run [OF assms(1)] assms(3) by (simp add: readers_ok_def)
  have "readers t \<noteq> []" using assms(4) by (force simp: readers_def filter_empty_conv)
  with paced_run [OF assms(1)] assms(2,3) have "live_ping t" by (auto simp: paced_def)
  moreover note read = received_pings [OF t assms(4-6,8)]
  ultimately have "stuck (self c)" using assms(7) by (auto simp: stuck_def pings_def)
  with stuck_run [OF assms(9), of k p "self c"] read(1) show ?thesis
    by (auto simp: stuck_def live_ping_def pings_def)
qed

theorem stuck_session_stays_witness:
  "\<exists>s c. run_under example_env one_name (start_server ''/srv'' example_config 0) s
     \<and> station_names Plain (srv_state s) 0 = Some 1
     \<and> server_step example_env s (store_tcp Plain 1 c s)
     \<and> (\<forall>s'. reaches example_env (store_tcp Plain 1 c s) s' \<longrightarrow>
          (\<exists>t'. tcps s' Plain 1 = Some t' \<and> readers t' = [] \<and> tcp_ops t' \<noteq> []))"
proof -
  have "case perform_once example_env (greet Plain 1 7 @
        [receive_event Plain 1 (example_handshake 0)]) example_start of
      None \<Rightarrow> False
    | Some s \<Rightarrow>
        station_names Plain (srv_state s) 0 = Some 1 \<and>
        map_option (\<lambda>t. (ReadSome 0 512, Armed) \<in> set (tcp_ops t) \<and> frames (pending t @ [9]) = ([], [9], True))
          (tcps s Plain 1) = Some True"
    by code_simp
  from script_once [OF this] obtain s t
    where run: "run_under example_env one_name (start_server ''/srv'' example_config 0) s"
      and reg: "station_names Plain (srv_state s) 0 = Some 1"
      and t: "tcps s Plain 1 = Some t" "(ReadSome 0 512, Armed) \<in> set (tcp_ops t)"
        "frames (pending t @ [9]) = ([], [9], True)"
    by (auto simp: example_start_def map_option_eq_Some)
  have "config_ok (config (srv_state s))"
    using same_config_run [OF run] by (simp add: same_config_def config_ok_def example_defs)
  then obtain c where c: "tcp_complete (at_clock example_env s) Plain 1 (ReadSome 0 512) NoError [9]
      (tcp_context s (finish_op (ReadSome 0 512, Armed) t)) = Inr c"
    using tcp_complete_safe [OF listed_reports_safe [OF listed_alive_run [OF run]]] by fastforce
  have "server_step example_env s (store_tcp Plain 1 c s)"
    by (rule tcp_completion [OF t(1,2) _ c]) (simp add: may_complete_def)
  moreover have "\<exists>t'. tcps s' Plain 1 = Some t' \<and> readers t' = [] \<and> tcp_ops t' \<noteq> []"
    if step: "reaches example_env (store_tcp Plain 1 c s) s'" for s'
    using stuck_session_stays [OF run reg t(1,2) _ _ t(3) c step] by simp
  ultimately show ?thesis using run reg by blast
qed

text \<open>
  C6. The table of browser sessions lists live sessions only: in every state the server
  reaches, an entry for a UUID holds a callback to the session it names, which is in memory and
  has this UUID, so calling the callback of a report never touches freed memory.
\<close>

theorem listed_browsers_alive:
  assumes "reaches e (start_server dir cfg t0) s"
    and "um_find (websockets_of k (srv_state s)) u = Some ctx"
  shows "ctx_callback ctx = NotifySession (ctx_session ctx)
    \<and> (\<exists>w. wss s k (ctx_session ctx) = Some w \<and> uuid w = u)"
  using listed_aliveD [OF listed_alive_run [OF assms(1)] assms(2)] by blast

theorem listed_browsers_alive_witness:
  "\<exists>s ctx. reaches example_env (start_server ''/srv'' example_config 0) s
     \<and> um_find (websockets_of SSL (srv_state s)) example_uuid = Some ctx
     \<and> (\<exists>w. wss s SSL (ctx_session ctx) = Some w \<and> uuid w = example_uuid)"
proof -
  have "case perform_all example_env (browse SSL 2 example_uuid) example_start of
      None \<Rightarrow> False
    | Some s \<Rightarrow> um_find (websockets_of SSL (srv_state s)) example_uuid \<noteq> None"
    by code_simp
  from script_reaches [OF this] obtain s ctx
    where run: "reaches example_env (start_server ''/srv'' example_config 0) s"
      and c: "um_find (websockets_of SSL (srv_state s)) example_uuid = Some ctx"
    unfolding example_start_def by blast
  note alive = listed_browsers_alive [OF run c]
  show ?thesis
    using run c conjunct2 [OF alive] by blast
qed

end
