(* ===== verification/Ws_Requests.thy ===== *)
theory Ws_Requests
  imports Ws_Framing Server_Faults
begin

text \<open>
  What the requests of a browser do: which stations a request for weather data is forwarded
  to, how a bad request ends the reading, and what the queue of a session does over a whole
  batch of texts.
\<close>

section \<open>The stations a request reaches\<close>

text \<open>The session a registered id can still be locked to.\<close>

definition locked_station :: "ws_ctx \<Rightarrow> proto \<Rightarrow> StationId \<Rightarrow> ptr option" where
  "locked_station c k sid =
     (case station_names k (wshared c) sid of
        Some p \<Rightarrow> if live_station (stations c) k p = Alive then Some p else None
      | None \<Rightarrow> None)"

text \<open>A plain station before an SSL one.\<close>

definition station_target :: "ws_ctx \<Rightarrow> StationId \<Rightarrow> (proto \<times> ptr) option" where
  "station_target c sid =
     (case locked_station c Plain sid of
        Some p \<Rightarrow> Some (Plain, p)
      | None \<Rightarrow> map_option (Pair SSL) (locked_station c SSL sid))"

fun target_variant :: "(proto \<times> ptr) option \<Rightarrow> VariantType" where
  "target_variant (Some (Plain, p)) = PlainTCP (Some p)"
| "target_variant (Some (SSL, p)) = SSLTCP (Some p)"
| "target_variant None = SSLTCP None"

fun session_flag :: "proto \<Rightarrow> WebSocketSessionFlag" where
  "session_flag Plain = Flag_Plain"
| "session_flag SSL = Flag_SSL"

definition forward :: "uuid \<Rightarrow> proto \<Rightarrow> TCPSession \<Rightarrow> TCPSession" where
  "forward u k = writePacket (out_WeatherStatusPacket u (session_flag k)) LogOnly"

lemma lock_station:
  assumes "stations_safe c" "station_names k (wshared c) sid = Some p"
  shows "lock_weak_from_this (live_station (stations c) k p) =
     Inr (live_station (stations c) k p = Alive)"
proof -
  have "live_station (stations c) k p \<noteq> Freed"
    using assms by (auto simp: stations_safe_def live_station_def split: option.split)
  then show ?thesis by (cases "live_station (stations c) k p") auto
qed

lemma findStation_target:
  assumes "stations_safe c"
  shows "findStation (live_station (stations c)) sid (wshared c) =
     Inr (target_variant (station_target c sid))"
  using lock_station [OF assms]
  by (auto simp: findStation_def findPlainStation_def findSSLStation_def station_target_def
      locked_station_def station_names_def split: option.split)

lemma live_station_other:
  assumes "live_station ss k p = Alive"
  shows "live_station (ss(k := (ss k)(p := map_option (writePacket b LogOnly) (ss k p)))) k' q =
     live_station ss k' q"
  using assms by (auto simp: live_station_def writePacket_def split: option.splits if_splits)

lemma target_alive: "station_target c sid = Some (k, p) \<Longrightarrow> live_station (stations c) k p = Alive"
  by (auto simp: station_target_def locked_station_def split: option.splits if_splits)

lemma visit_target:
  "visit_station u (target_variant t) c =
     (case t of None \<Rightarrow> c | Some (k, p) \<Rightarrow> update_station k p (forward u k) c)"
  by (cases t rule: target_variant.cases) (simp_all add: forward_def)

lemma station_target_visit:
  "station_target (visit_station u (target_variant (station_target c sid)) c) sid' =
     station_target c sid'"
proof (cases "station_target c sid")
  case None
  then show ?thesis by (simp add: visit_target)
next
  case (Some kp)
  obtain k p where kp: "kp = (k, p)" by (cases kp)
  note alive = live_station_other [OF target_alive [OF Some [unfolded kp]]]
  have "locked_station (update_station k p (forward u k) c) k' sid' = locked_station c k' sid'" for k'
    by (auto simp: locked_station_def update_station_def forward_def alive split: option.split)
  then have "station_target (update_station k p (forward u k) c) sid' = station_target c sid'"
    by (simp only: station_target_def)
  then show ?thesis by (simp add: visit_target Some kp)
qed

text \<open>The sessions after a request for the stations \<open>ids\<close>.\<close>

definition forwarded ::
  "ws_ctx \<Rightarrow> StationId list \<Rightarrow> proto \<Rightarrow> ptr \<Rightarrow> TCPSession \<Rightarrow> TCPSession" where
  "forwarded c ids k p t =
     foldl (\<lambda>t sid. if station_target c sid = Some (k, p) then forward (uuid (wself c)) k t else t) t ids"

lemma forwarded_simps:
  "forwarded c [] k p t = t"
  "forwarded c (sid # ids) k p t =
     forwarded c ids k p
       (if station_target c sid = Some (k, p) then forward (uuid (wself c)) k t else t)"
  by (simp_all add: forwarded_def)

lemma request_stations_forwards:
  assumes "stations_safe c" "map json_get_uint8 js = map Inr ids"
  shows "request_stations js c =
     (Inr (), c\<lparr>stations := \<lambda>k p. map_option (forwarded c ids k p) (stations c k p)\<rparr>)"
  using assms
proof (induction js arbitrary: c ids)
  case Nil
  then have "ids = []" by simp
  then show ?case by (simp add: forwarded_simps option.map_ident)
next
  case (Cons j js)
  from Cons.prems(2) obtain sid rest
    where ids: "ids = sid # rest" and j: "json_get_uint8 j = Inr sid"
      and rest: "map json_get_uint8 js = map Inr rest"
    by (cases ids) auto
  define c1 where "c1 = visit_station (uuid (wself c)) (target_variant (station_target c sid)) c"
  have safe: "stations_safe c1"
    unfolding c1_def by (rule stations_safe_requests [OF Cons.prems(1) requests_visit_station])
  have same: "wself c1 = wself c" "wshared c1 = wshared c" by (simp_all add: c1_def frame_simps)
  have tgt: "station_target c1 = station_target c"
    by (rule ext) (simp add: c1_def station_target_visit)
  have sts: "stations c1 k p = map_option
      (\<lambda>t. if station_target c sid = Some (k, p) then forward (uuid (wself c)) k t else t)
      (stations c k p)" for k p
    by (auto simp: c1_def visit_target update_station_def option.map_ident split: option.split)
  have "request_stations (j # js) c = request_stations js c1"
    by (simp add: j findStation_target [OF Cons.prems(1)] c1_def)
  also have "\<dots> = (Inr (), c1\<lparr>stations := \<lambda>k p. map_option (forwarded c1 rest k p) (stations c1 k p)\<rparr>)"
    by (rule Cons.IH [OF safe rest])
  also have "c1\<lparr>stations := \<lambda>k p. map_option (forwarded c1 rest k p) (stations c1 k p)\<rparr>
      = c\<lparr>stations := \<lambda>k p. map_option (forwarded c ids k p) (stations c k p)\<rparr>"
  proof (rule ws_ctx.equality)
    have "forwarded c1 rest k p = forwarded c rest k p" for k p
      unfolding forwarded_def tgt same ..
    then show "stations (c1\<lparr>stations := \<lambda>k p. map_option (forwarded c1 rest k p) (stations c1 k p)\<rparr>)
        = stations (c\<lparr>stations := \<lambda>k p. map_option (forwarded c ids k p) (stations c k p)\<rparr>)"
      by (simp add: sts ids forwarded_simps fun_eq_iff map_option_case split: option.split)
  qed (simp_all add: same)
  finally show ?case .
qed

text \<open>The packets one session is sent, seen from its list of operations.\<close>

lemma forwarded_ops:
  assumes "length (uuid (wself c)) = 16"
  shows "tcp_ops (forwarded c ids k p t) = tcp_ops t @
     replicate (length (filter (\<lambda>sid. station_target c sid = Some (k, p)) ids))
       (AsyncWrite 18 LogOnly, Armed)"
proof (induction ids arbitrary: t)
  case Nil
  then show ?case by (simp add: forwarded_simps)
next
  case (Cons sid ids)
  have "tcp_ops (forward (uuid (wself c)) k t) = tcp_ops t @ [(AsyncWrite 18 LogOnly, Armed)]"
    using assms by (simp add: forward_def writePacket_def out_WeatherStatusPacket_def)
  with Cons show ?case
    by (cases k) (simp_all add: forwarded_simps replicate_app_Cons_same)
qed

section \<open>A bad request\<close>

lemma serve_frame:
  "serve ps c = Inr (ok, c') \<Longrightarrow> ws_poked (wself c) (wself c') \<and> wshared c' = wshared c"
proof (induction ps arbitrary: c)
  case Nil
  then show ?case by simp
next
  case (Cons p ps)
  obtain v c1 where r: "catch_exceptions (dispatch_request (length p + 2) p c) = (v, c1)"
    by (cases "catch_exceptions (dispatch_request (length p + 2) p c)")
  then have "c1 = snd (dispatch_request (length p + 2) p c)"
    by (metis catch_exceptions_frame snd_conv)
  then have first: "ws_poked (wself c) (wself c1)" "wshared c1 = wshared c"
    by (simp_all add: dispatch_request_poked dispatch_request_shared)
  with Cons.prems Cons.IH [of c1] r show ?case
    by (auto split: sum.splits if_splits intro: ws_poked_trans)
qed

text \<open>The session is closed instead of read from, and stays in the table.\<close>

lemma bad_request_closes:
  assumes "buffer w @ d = concat (map ws_frame ps) @ rest" "2 \<le> length d"
    and "length (buffer w @ d) \<le> MaxPayloadSize"
    and "serve ps (ws_context s (finish_ws_op WsRead w)) = Inr (False, c1)"
  shows "\<exists>c. onRead k NoError (length d) (receive_message d (ws_context s (finish_ws_op WsRead w)))
        = Some (Inr c)
      \<and> wshared c = srv_state s \<and> uuid (wself c) = uuid w
      \<and> ws_readers (wself c) = ws_readers (finish_ws_op WsRead w)"
proof -
  define c0 where "c0 = ws_context s (finish_ws_op WsRead w)"
  have msg: "receive_message d c0 = with_message (concat (map ws_frame ps) @ rest) c0"
    using assms(1) by (simp add: receive_message_def with_message_def c0_def finish_ws_op_def)
  obtain b where b: "read_loop (receive_message d c0) = Some (Inr (after_serving (False, with_message b c1)))"
    using read_loop_bad [of ps rest c0 c1] assms msg by (auto simp: c0_def)
  define c where "c = after_serving (False, with_message b c1)"
  have "ws_poked (wself c0) (wself c1)" "wshared c1 = wshared c0"
    using serve_frame [OF assms(4)] by (simp_all add: c0_def)
  then have "wshared c = srv_state s" "uuid (wself c) = uuid w"
    "ws_readers (wself c) = ws_readers (finish_ws_op WsRead w)"
    using ws_readers_poked [of "wself c0" "wself c1"]
    by (simp_all add: c_def c0_def after_serving_def ws_poked_def)
      (simp_all add: with_message_def start_ws_op_def finish_ws_op_def)
  moreover have "onRead k NoError (length d) (receive_message d c0) = Some (Inr c)"
    using b assms(2) by (simp add: onRead_def PayloadFieldLength_def c_def)
      (simp add: receive_message_def)
  ultimately show ?thesis unfolding c0_def by blast
qed

section \<open>A batch of texts\<close>

text \<open>The handler given with the first text of a batch is called for every text of it.\<close>

definition push_all :: "(string \<times> ws_completion) list \<Rightarrow> WebSocketSession \<Rightarrow> WebSocketSession" where
  "push_all msgs w = foldl (\<lambda>w (t, h). enqueue t h w) w msgs"

lemma push_all_busy:
  "queue w \<noteq> [] \<Longrightarrow> push_all msgs w = w\<lparr>queue := queue w @ map fst msgs\<rparr>"
proof (induction msgs arbitrary: w)
  case Nil
  then show ?case by (simp add: push_all_def)
next
  case (Cons m msgs)
  obtain t h where m: "m = (t, h)" by (cases m)
  have "enqueue t h w = w\<lparr>queue := queue w @ [t]\<rparr>"
    using Cons.prems by (auto simp: enqueue_def Let_def)
  with Cons.IH [of "enqueue t h w"] m show ?case by (simp add: push_all_def)
qed

lemma after_write_front:
  assumes "queue w = t # rest" "ws_writes (ws_ops w) = [(t, h)]"
  shows "queue (after_write w) = rest"
    "ws_writes (ws_ops (after_write w)) = (if rest = [] then [] else [(hd rest, h)])"
    "completed (after_write w) = completed w @ [(h, length t)]"
  using assms
  by (auto simp: after_write_def complete_write_def onWrite_def finish_ws_op_def start_ws_op_def
      Let_def ws_writes_remove1)

lemma drain_batch:
  assumes "queue w = ts" "ts \<noteq> []" "ws_writes (ws_ops w) = [(hd ts, h)]" "n \<le> length ts"
  shows "completed ((after_write ^^ n) w) = completed w @ map (\<lambda>t. (h, length t)) (take n ts)"
  using assms
proof (induction n arbitrary: w ts)
  case 0
  then show ?case by simp
next
  case (Suc n)
  obtain t rest where ts: "ts = t # rest" using Suc.prems(2) by (cases ts) auto
  note front = after_write_front [of w t rest h]
  have f: "queue (after_write w) = rest"
    "ws_writes (ws_ops (after_write w)) = (if rest = [] then [] else [(hd rest, h)])"
    "completed (after_write w) = completed w @ [(h, length t)]"
    using front Suc.prems ts by simp_all
  show ?case
  proof (cases "rest = []")
    case True
    with Suc.prems ts f show ?thesis by (simp add: funpow_Suc_right del: funpow.simps)
  next
    case False
    with Suc.IH [of "after_write w" rest] f Suc.prems(4) ts show ?thesis
      by (simp add: funpow_Suc_right del: funpow.simps)
  qed
qed

end
