(* ===== verification/Ws_Properties.thy ===== *)
theory Ws_Properties
  imports Ws_Requests Server_Script
begin

text \<open>
  The properties of the browser side of the server: the message loop, the two requests, the
  outgoing queue, and the sessions that bad messages leave behind.
\<close>

section \<open>Examples\<close>

definition example_browser :: ws_ctx where
  "example_browser =
     \<lparr>wself = make_WebSocketSession example_uuid,
      wshared = fst (join_TCPSession Plain 0 1 example_state),
      stations = (\<lambda>k q. if k = Plain \<and> q = 1
        then Some (start_op (ReadSome 0 512) (make_TCPSession 0 0)) else None)\<rparr>"

lemma example_browser_names:
  "station_names k (wshared example_browser) =
     (if k = Plain then Map.empty(0 \<mapsto> 1) else Map.empty)"
  by (cases k) (simp_all add: example_browser_def station_names_def join_defs um_try_emplace_def
      example_state_def make_SharedState_def um_find_def fun_eq_iff)

lemma example_browser_safe: "stations_safe example_browser"
  unfolding stations_safe_def example_browser_names
  by (auto simp: example_browser_def split: if_splits)

lemma example_browser_target:
  "station_target example_browser sid = (if sid = 0 then Some (Plain, 1) else None)"
  by (simp add: station_target_def locked_station_def example_browser_names)
    (simp add: example_browser_def live_station_def)

section \<open>Messages\<close>

text \<open>
  C12. A browser's message is served request by request. A message that is a sequence of
  length-prefixed texts, of at most 512 bytes in all, has each text handled once, in order and
  with the effects of the one before; the loop stops at the first bad request, and then starts
  a close instead of the next read. Faults of a handler are faults of the loop.
\<close>

theorem browser_message_served:
  assumes "length (concat (map ws_frame (p # ps))) \<le> MaxPayloadSize"
  shows "map_option (\<lambda>r. bind_result r (\<lambda>c'. Inr (with_message [] c')))
       (read_loop (with_message (concat (map ws_frame (p # ps))) c)) =
     Some (bind_result (serve (p # ps) c) (\<lambda>r. Inr (with_message [] (after_serving r))))"
  using assms by (rule read_loop_serves)

theorem browser_message_served_witness:
  "map_option (\<lambda>r. bind_result r (\<lambda>c'. Inr (with_message [] c')))
       (read_loop (with_message (concat (map ws_frame [''{}'', ''[]''])) example_browser)) =
     Some (bind_result (serve [''{}'', ''[]''] example_browser)
       (\<lambda>r. Inr (with_message [] (after_serving r))))"
  by (rule browser_message_served) (simp add: size_simps MaxPayloadSize_def)

text \<open>
  C17. The handler of a message returns except for one kind of message: it runs for ever if and
  only if the read succeeded with at least two bytes that are in the buffer, and the buffer holds
  more than 512 bytes.
\<close>

theorem message_loop_returns:
  "onRead k err n c = None \<longleftrightarrow>
     err = NoError \<and> 2 \<le> n \<and> n \<le> length (buffer (wself c)) \<and> 512 < length (buffer (wself c))"
proof -
  have "read_loop c = None \<longleftrightarrow> 512 < length (buffer (wself c))"
    using read_loop_returns_iff [of c] by (auto simp: MaxPayloadSize_def)
  then show ?thesis by (auto simp: onRead_def PayloadFieldLength_def)
qed

text \<open>
  A longer message makes its thread spin for ever: in every state in which a browser session
  waits for a message, there is a message for which the completion handler does not return.
\<close>

theorem long_message_hangs:
  assumes "wss s k p = Some w" "WsRead \<in> set (ws_ops w)"
  shows "server_hang s"
proof -
  define d where "d = replicate 513 (0 :: byte)"
  have "\<not> (\<exists>r. onRead k NoError (length d)
      (receive_message d (ws_context s (finish_ws_op WsRead w))) = Some r)"
    using read_loop_returns_iff [of "receive_message d (ws_context s (finish_ws_op WsRead w))"]
    by (simp add: onRead_def PayloadFieldLength_def MaxPayloadSize_def d_def receive_message_def)
  with ws_hang [OF assms] show ?thesis by (meson not_None_eq)
qed

lemma example_waiting:
  "\<exists>s w. reaches example_env example_start s \<and> wss s SSL 2 = Some w \<and> WsRead \<in> set (ws_ops w)"
proof -
  have "case perform_all example_env (browse SSL 2 example_uuid) example_start of
      None \<Rightarrow> False
    | Some s \<Rightarrow> map_option (\<lambda>w. WsRead \<in> set (ws_ops w)) (wss s SSL 2) = Some True"
    by code_simp
  from script_reaches [OF this] show ?thesis by (auto simp: map_option_eq_Some)
qed

theorem long_message_hangs_witness:
  "\<exists>s. reaches example_env example_start s \<and> server_hang s"
  using example_waiting long_message_hangs by blast

section \<open>Requests\<close>

text \<open>
  C13. A request for weather data is forwarded to exactly the stations it names. For every id of
  the list that a live session is registered under, the plain one before the SSL one, that
  session starts to send one packet with the browser's UUID and the flag of its kind, in the
  order of the ids; ids without a session are skipped, no other session changes, and neither
  the registry nor the browser's own session does.
\<close>

theorem weather_request_fan_out:
  assumes "stations_safe c"
    and "map_of m ''stationIds'' = Some v" "map json_get_uint8 (json_items v) = map Inr ids"
  shows "handleWeatherStatusRequest n (JObject m) c =
     (Inr (Good, n),
      c\<lparr>stations := \<lambda>k p. map_option
        (\<lambda>t. foldl (\<lambda>t sid. if station_target c sid = Some (k, p)
             then writePacket (out_WeatherStatusPacket (uuid (wself c)) (session_flag k)) LogOnly t
             else t) t ids) (stations c k p)\<rparr>)"
  using assms(2) request_stations_forwards [OF assms(1,3), unfolded forwarded_def [abs_def] forward_def]
  by (simp add: handleWeatherStatusRequest_def)

theorem weather_request_fan_out_witness:
  "station_target example_browser 0 = Some (Plain, 1)
   \<and> handleWeatherStatusRequest 30 (JObject [(''stationIds'', JArray [JUint 0, JUint 5])]) example_browser =
     (Inr (Good, 30),
      example_browser\<lparr>stations := \<lambda>k p. map_option
        (\<lambda>t. foldl (\<lambda>t sid. if station_target example_browser sid = Some (k, p)
             then writePacket (out_WeatherStatusPacket (uuid (wself example_browser)) (session_flag k)) LogOnly t
             else t) t [0, 5]) (stations example_browser k p)\<rparr>)"
proof (rule conjI [OF _ weather_request_fan_out [OF example_browser_safe]])
  show "map json_get_uint8 (json_items (JArray [JUint 0, JUint 5])) = map Inr [0, 5]"
    by code_simp
qed (simp_all add: example_browser_target)





section \<open>The outgoing queue\<close>

text \<open>
  C14. Nothing sent to a browser is lost, repeated or reordered while writes succeed. For every
  interleaving of new texts and completed writes on a fresh session, the texts sent so far
  followed by the queued ones are the texts given to it, and exactly the front of the queue,
  if there is one, is being written.
\<close>

theorem outgoing_texts_fifo:
  "case queue_run (\<lambda>h t. enqueue t h) after_write texts_in_flight es (make_WebSocketSession g, []) of
     (w, sent) \<Rightarrow> sent @ queue w = pushed es \<and> texts_in_flight w = take 1 (queue w)"
proof -
  obtain w sent where run: "queue_run (\<lambda>h t. enqueue t h) after_write texts_in_flight es
      (make_WebSocketSession g, []) = (w, sent)" by fastforce
  have "queue_ok (make_WebSocketSession g)" and "queue (make_WebSocketSession g) = []"
    by (simp_all add: queue_ok_def texts_in_flight_def make_WebSocketSession_def)
  with ws_queue.fifo [OF _ run] run show ?thesis by (simp add: queue_ok_def)
qed

text \<open>
  The completion handler of the first text of a batch is called for all of them. Given any
  number of texts, each with its own handler, before the first write completes, the handler of
  the first is called once per text, with the number of bytes of that text, and the handlers of
  the others are never called.
\<close>

theorem first_handler_reused:
  assumes "n \<le> Suc (length msgs)"
  shows "completed ((after_write ^^ n) (push_all ((t, h) # msgs) (make_WebSocketSession g))) =
     map (\<lambda>text. (h, length text)) (take n (t # map fst msgs))"
proof -
  define w where "w = enqueue t h (make_WebSocketSession g)"
  have w: "queue w = [t]" "ws_writes (ws_ops w) = [(t, h)]" "completed w = []"
    by (simp_all add: w_def enqueue_def make_WebSocketSession_def start_ws_op_def)
  have "push_all ((t, h) # msgs) (make_WebSocketSession g) = push_all msgs w"
    by (simp add: push_all_def w_def)
  also have "\<dots> = w\<lparr>queue := t # map fst msgs\<rparr>" using w by (simp add: push_all_busy)
  finally show ?thesis
    using drain_batch [of "w\<lparr>queue := t # map fst msgs\<rparr>" "t # map fst msgs" h n] w assms by simp
qed

theorem first_handler_reused_witness:
  "completed ((after_write ^^ 2) (push_all [(''a'', LogWeatherStatus), (''bc'', LogAvailableStations)]
     (make_WebSocketSession example_uuid))) =
     map (\<lambda>text. (LogWeatherStatus, length text)) (take 2 (''a'' # map fst [(''bc'', LogAvailableStations)]))"
  by (rule first_handler_reused) simp

text \<open>
  C18. One failed write silences a session for good. When the write in flight completes with an
  error its text stays at the front of the queue and nothing is in flight, and no text queued
  afterwards starts a write.
\<close>

theorem failed_write_stalls_queue:
  assumes "flight_ok w" "WsWrite t h \<in> set (ws_ops w)" "err \<noteq> NoError"
  shows "\<exists>w'. onWrite err n h (finish_ws_op (WsWrite t h) w) = Inr w'
     \<and> texts_in_flight (push_all msgs w') = [] \<and> queue (push_all msgs w') = queue w @ map fst msgs"
proof -
  let ?w = "finish_ws_op (WsWrite t h) w"
  have "queue ?w = queue w" by (simp add: finish_ws_op_def)
  with in_flight_nonempty [OF assms(1,2)] failed_write_stalls [of ?w msgs] assms(3)
  show ?thesis by (simp add: onWrite_def push_all_def)
qed

theorem failed_write_stalls_queue_witness:
  "\<exists>w'. onWrite ConnectionReset 0 LogWeatherStatus (finish_ws_op (WsWrite ''a'' LogWeatherStatus)
         (enqueue ''a'' LogWeatherStatus (make_WebSocketSession example_uuid))) = Inr w'
     \<and> texts_in_flight (push_all [(''b'', LogWeatherStatus)] w') = []
     \<and> queue (push_all [(''b'', LogWeatherStatus)] w') =
       queue (enqueue ''a'' LogWeatherStatus (make_WebSocketSession example_uuid))
         @ map fst [(''b'', LogWeatherStatus)]"
  by (rule failed_write_stalls_queue)
    (simp_all add: flight_ok_def texts_in_flight_def enqueue_def make_WebSocketSession_def
      start_ws_op_def)

section \<open>Sessions left behind\<close>



section \<open>Registration and reports\<close>

text \<open>
  C19. A station keeps its id. Once a station id is registered, no sequence of registrations and
  departures under other ids, and no attempt to register the same id, changes whose it is, until
  somebody leaves with that id.
\<close>

theorem station_id_ownership:
  assumes "SharedState_ok st" "um_find (stations_of k st) sid = Some p" "Leave sid \<notin> set ops"
  shows "um_find (stations_of k (registry_run (join_TCPSession k) (leave_TCPSession k) ops st)) sid = Some p"
  using assms by (rule tcp_registry.owner_stable)

theorem station_id_ownership_witness:
  "um_find (stations_of Plain (registry_run (join_TCPSession Plain) (leave_TCPSession Plain)
     [Join 1 8, Join 0 9, Leave 1] (fst (join_TCPSession Plain 0 7 example_state)))) 0 = Some 7"
proof (rule station_id_ownership)
  show "SharedState_ok (fst (join_TCPSession Plain 0 7 example_state))"
    by (rule SharedState_ok_ops) (simp add: example_state_def)
qed (simp_all add: join_defs um_try_emplace_def example_state_def make_SharedState_def um_find_def)

text \<open>The count of seconds a printed time stands for.\<close>

definition read_time :: "string \<Rightarrow> nat" where
  "read_time s = timegm
     \<lparr>tm_year = digits_value (take 4 s), tm_mon = digits_value (take 2 (drop 5 s)),
      tm_mday = digits_value (take 2 (drop 8 s)), tm_hour = digits_value (take 2 (drop 11 s)),
      tm_min = digits_value (take 2 (drop 14 s)), tm_sec = digits_value (take 2 (drop 17 s))\<rparr>"

lemma read_put_time: "printable x \<Longrightarrow> read_time (put_time x) = timegm x"
  by (cases x) (simp add: printable_def read_time_def put_time_def length_pad2 length_decimal_4)

text \<open>
  C20. The text of a report's time is its time. For all 2 ^ 32 time stamps a station can send,
  the response has a 19-character text of the form year-month-day hour:minute:second, and the
  text read back as a calendar date is the number of seconds the station sent.
\<close>

theorem report_time_text:
  "\<exists>fields text. weather_response n = Inr (JObject fields)
     \<and> map_of fields ''time'' = Some (JString text)
     \<and> length text = 19 \<and> read_time text = unat (n_time n)"
proof -
  have "unat (n_time n) < 2 ^ 32" using unsigned_less [of "n_time n", where 'a = nat] by simp
  note p = printable_gmtime [OF this]
  have "length (put_time (gmtime (unat (n_time n)))) = 19"
    "read_time (put_time (gmtime (unat (n_time n)))) = unat (n_time n)"
    using length_put_time [OF p] read_put_time [OF p] by (simp_all add: gmtime_timegm)
  then show ?thesis by (simp add: weather_response_eq)
qed

end
