(* ===== verification/Http_Request.thy ===== *)
theory Http_Request
  imports Server_Prelude
begin

text \<open>
  \<open>HttpSession.cc\<close> and \<open>handle_request\<close> of \<open>HttpSession.hh\<close>: the answer to an HTTP request for
  a file under the document root. Boost.Beast's messages are records of what the code sets and
  reads; its functions on a request, and the file system, are parameters.
\<close>

section \<open>Messages\<close>

datatype verb = Verb_get | Verb_head | Verb_other string

record http_request =
  req_method :: verb
  target :: string
  version :: nat
  header_fields :: "(string \<times> string) list"

datatype http_body =
    StringBody string
  | EmptyBody
  | FileBody string

record http_response =
  status :: nat
  res_version :: nat
  server_field :: string
  content_type :: string
  content_length :: "nat option"
  keep_alive :: bool
  body :: http_body

text \<open>
  Opening a file ends in its size, in \<open>no_such_file_or_directory\<close> or in another error with its
  message. \<open>iequals\<close>, \<open>keep_alive\<close>, \<open>is_upgrade\<close> and \<open>need_eof\<close> are Beast's.
\<close>

datatype open_result = Opened nat | NoSuchFile | OpenFailed string

record http_env =
  open_file :: "string \<Rightarrow> open_result"
  iequals :: "string \<Rightarrow> string \<Rightarrow> bool"
  request_keep_alive :: "http_request \<Rightarrow> bool"
  is_upgrade :: "http_request \<Rightarrow> bool"
  need_eof :: "http_response \<Rightarrow> bool"
  beast_version :: string

section \<open>File types\<close>

definition mime_type :: "http_env \<Rightarrow> string \<Rightarrow> string" where
  "mime_type e path =
     (let ext = (case find_last CHR ''.'' path of None \<Rightarrow> [] | Some pos \<Rightarrow> drop pos path) in
      if iequals e ext ''.htm'' then ''text/html''
      else if iequals e ext ''.html'' then ''text/html''
      else if iequals e ext ''.php'' then ''text/html''
      else if iequals e ext ''.css'' then ''text/css''
      else if iequals e ext ''.txt'' then ''text/plain''
      else if iequals e ext ''.js'' then ''application/javascript''
      else if iequals e ext ''.json'' then ''application/json''
      else if iequals e ext ''.xml'' then ''application/xml''
      else if iequals e ext ''.swf'' then ''application/x-shockwave-flash''
      else if iequals e ext ''.flv'' then ''video/x-flv''
      else if iequals e ext ''.png'' then ''image/png''
      else if iequals e ext ''.jpe'' then ''image/jpeg''
      else if iequals e ext ''.jpeg'' then ''image/jpeg''
      else if iequals e ext ''.jpg'' then ''image/jpeg''
      else if iequals e ext ''.gif'' then ''image/gif''
      else if iequals e ext ''.bmp'' then ''image/bmp''
      else if iequals e ext ''.ico'' then ''image/vnd.microsoft.icon''
      else if iequals e ext ''.tiff'' then ''image/tiff''
      else if iequals e ext ''.tif'' then ''image/tiff''
      else if iequals e ext ''.svg'' then ''image/svg+xml''
      else if iequals e ext ''.svgz'' then ''image/svg+xml''
      else ''application/text'')"

section \<open>Paths\<close>

text \<open>The branch for platforms other than Windows, whose separator is the slash.\<close>

definition path_cat :: "string \<Rightarrow> string \<Rightarrow> string" where
  "path_cat base path =
     (if base = [] then path
      else if last base = CHR ''/'' then butlast base @ path
      else base @ path)"

section \<open>The answer\<close>

text \<open>The three lambdas; \<open>prepare_payload\<close> sets the content length of the text.\<close>

definition text_response :: "http_env \<Rightarrow> http_request \<Rightarrow> nat \<Rightarrow> string \<Rightarrow> http_response" where
  "text_response e req code text =
     \<lparr>status = code, res_version = version req, server_field = beast_version e,
      content_type = ''text/html'', content_length = Some (length text),
      keep_alive = request_keep_alive e req, body = StringBody text\<rparr>"

definition bad_request :: "http_env \<Rightarrow> http_request \<Rightarrow> string \<Rightarrow> http_response" where
  "bad_request e req why = text_response e req 400 why"

definition not_found :: "http_env \<Rightarrow> http_request \<Rightarrow> string \<Rightarrow> http_response" where
  "not_found e req tgt =
     text_response e req 404 (''The resource '' @ [CHR 0x27] @ tgt @ [CHR 0x27] @ '' was not found.'')"

definition server_error :: "http_env \<Rightarrow> http_request \<Rightarrow> string \<Rightarrow> http_response" where
  "server_error e req what =
     text_response e req 500 (''An error occurred: '' @ [CHR 0x27] @ what @ [CHR 0x27])"

definition requested_path :: "string \<Rightarrow> http_request \<Rightarrow> string" where
  "requested_path doc_root req =
     (let path = path_cat doc_root (target req)
      in if last (target req) = CHR ''/'' then path @ ''index.html'' else path)"

definition handle_request :: "http_env \<Rightarrow> string \<Rightarrow> http_request \<Rightarrow> http_response" where
  "handle_request e doc_root req =
     (if req_method req \<noteq> Verb_get \<and> req_method req \<noteq> Verb_head
      then bad_request e req ''Unknown HTTP-method''
      else if target req = [] \<or> target req ! 0 \<noteq> CHR ''/'' \<or> occurs ''..'' (target req)
      then bad_request e req ''Illegal request-target''
      else let path = requested_path doc_root req in
        case open_file e (c_str path) of
          NoSuchFile \<Rightarrow> not_found e req (target req)
        | OpenFailed msg \<Rightarrow> server_error e req msg
        | Opened bytes \<Rightarrow>
            \<lparr>status = 200, res_version = version req, server_field = beast_version e,
             content_type = mime_type e path, content_length = Some bytes,
             keep_alive = request_keep_alive e req,
             body = (if req_method req = Verb_head then EmptyBody else FileBody (c_str path))\<rparr>)"

section \<open>Where a path leads\<close>

text \<open>
  The directories a path goes through, from the root of the file system: empty components and
  single dots stay, double dots go up, and every other name goes down. Symbolic links are not
  followed.
\<close>

fun components :: "string \<Rightarrow> string list" where
  "components [] = [[]]"
| "components (c # cs) =
     (if c = CHR ''/'' then [] # components cs
      else (c # hd (components cs)) # tl (components cs))"

fun walk :: "string list \<Rightarrow> string list \<Rightarrow> string list" where
  "walk here [] = here"
| "walk here (d # ds) =
     (if d = [] \<or> d = ''.'' then walk here ds
      else if d = ''..'' then walk (butlast here) ds
      else walk (here @ [d]) ds)"

definition location :: "string list \<Rightarrow> string \<Rightarrow> string list" where
  "location cwd path =
     walk (if path \<noteq> [] \<and> hd path = CHR ''/'' then [] else cwd) (components path)"

lemma components_nonempty [simp]: "components s \<noteq> []"
  by (cases s) simp_all

lemma components_append:
  "components (s @ CHR ''/'' # t) = components s @ components t"
  by (induction s) auto

lemma walk_append: "walk here (xs @ ys) = walk (walk here xs) ys"
  by (induction here xs rule: walk.induct) auto

lemma component_occurs:
  "d \<in> set (components s) \<Longrightarrow> \<exists>u v. s = u @ d @ v"
proof (induction s arbitrary: d)
  case Nil
  then show ?case by simp
next
  case (Cons c cs)
  show ?case
  proof (cases "c = CHR ''/''")
    case True
    with Cons.prems have "d = [] \<or> d \<in> set (components cs)" by simp
    then show ?thesis
    proof
      assume "d = []"
      then have "c # cs = [] @ d @ (c # cs)" by simp
      then show ?thesis by blast
    next
      assume "d \<in> set (components cs)"
      from Cons.IH [OF this] obtain u v where "cs = u @ d @ v" by blast
      then have "c # cs = (c # u) @ d @ v" by simp
      then show ?thesis by blast
    qed
  next
    case False
    obtain x xs where x: "components cs = x # xs" using components_nonempty by (meson list.exhaust)
    with False Cons.prems have "d = c # x \<or> d \<in> set (components cs)" by auto
    then show ?thesis
    proof
      assume d: "d = c # x"
      have "\<exists>v. cs = x @ v" using x
      proof (induction cs arbitrary: x xs)
        case Nil
        then show ?case by simp
      next
        case (Cons a as)
        obtain y ys where y: "components as = y # ys"
          using components_nonempty by (meson list.exhaust)
        with Cons show ?case by (auto split: if_splits)
      qed
      then obtain v where "cs = x @ v" ..
      with d have "c # cs = [] @ d @ v" by simp
      then show ?thesis by blast
    next
      assume "d \<in> set (components cs)"
      from Cons.IH [OF this] obtain u v where "cs = u @ d @ v" by blast
      then have "c # cs = (c # u) @ d @ v" by simp
      then show ?thesis by blast
    qed
  qed
qed

lemma walk_down:
  "''..'' \<notin> set ds \<Longrightarrow> walk here ds = here @ filter (\<lambda>d. d \<noteq> [] \<and> d \<noteq> ''.'') ds"
  by (induction here ds rule: walk.induct) auto

end
