(* ===== verification/Http_Session.thy ===== *)
theory Http_Session
  imports Http_Request Ws_Session
begin

text \<open>
  \<open>HttpSession.hh\<close> with \<open>PlainHttpSession.cc\<close>, \<open>SSLHttpSession.cc\<close> and
  \<open>WebSocketSessionFactory.cc\<close>: reading requests, answering them, the upgrade to a WebSocket
  session, and the end of a session of either kind. The operations in flight keep the session
  alive, as for the other sessions.
\<close>

section \<open>State\<close>

datatype http_op =
    HttpRead nat
  | HttpWrite http_response
  | HttpHandshake
  | HttpShutdown

record http_session =
  http_buffer :: "byte list"
  http_ops :: "http_op list"
  http_deadline :: "nat option"
  http_send_open :: bool
  http_open :: bool
  http_stream :: bool

text \<open>\<open>http_stream\<close> is false once the stream has been moved into a WebSocket session.\<close>

definition make_http_session :: http_session where
  "make_http_session =
     \<lparr>http_buffer = [], http_ops = [], http_deadline = None, http_send_open = True,
      http_open = True, http_stream = True\<rparr>"

definition start_http_op :: "http_op \<Rightarrow> http_session \<Rightarrow> http_session" where
  "start_http_op op s = s\<lparr>http_ops := http_ops s @ [op]\<rparr>"

definition finish_http_op :: "http_op \<Rightarrow> http_session \<Rightarrow> http_session" where
  "finish_http_op op s = s\<lparr>http_ops := remove1 op (http_ops s)\<rparr>"

definition body_limit :: nat where "body_limit = 10000"

definition http_doRead :: "nat \<Rightarrow> http_session \<Rightarrow> http_session" where
  "http_doRead t s = start_http_op (HttpRead body_limit) (s\<lparr>http_deadline := Some (t + Timeout)\<rparr>)"

section \<open>The two kinds of session\<close>

fun http_run :: "proto \<Rightarrow> nat \<Rightarrow> http_session \<Rightarrow> http_session" where
  "http_run Plain t s = http_doRead t s"
| "http_run SSL t s = start_http_op HttpHandshake (s\<lparr>http_deadline := Some (t + Timeout)\<rparr>)"

fun http_disconnect :: "proto \<Rightarrow> nat \<Rightarrow> http_session \<Rightarrow> http_session" where
  "http_disconnect Plain t s = s\<lparr>http_send_open := False\<rparr>"
| "http_disconnect SSL t s = start_http_op HttpShutdown (s\<lparr>http_deadline := Some (t + Timeout)\<rparr>)"

definition http_onHandshake :: "nat \<Rightarrow> error_code \<Rightarrow> nat \<Rightarrow> http_session \<Rightarrow> http_session" where
  "http_onHandshake t err n s =
     (if err \<noteq> NoError then s else http_doRead t (s\<lparr>http_buffer := drop n (http_buffer s)\<rparr>))"

definition http_onShutdown :: "error_code \<Rightarrow> http_session \<Rightarrow> http_session" where
  "http_onShutdown err s = (if err \<noteq> NoError then s else s\<lparr>http_open := False\<rparr>)"

section \<open>Requests and responses\<close>

text \<open>
  The WebSocket session takes the stream over and starts to accept the upgrade; its UUID is not
  initialised.
\<close>

definition make_websocket_session :: "uuid \<Rightarrow> WebSocketSession" where
  "make_websocket_session garbage = make_WebSocketSession garbage"

definition WebSocketSession_run :: "http_request \<Rightarrow> WebSocketSession \<Rightarrow> WebSocketSession" where
  "WebSocketSession_run req w = onRun w"

definition http_onRead ::
  "http_env \<Rightarrow> string \<Rightarrow> proto \<Rightarrow> nat \<Rightarrow> uuid \<Rightarrow> error_code \<Rightarrow> http_request \<Rightarrow> http_session
     \<Rightarrow> http_session \<times> WebSocketSession option" where
  "http_onRead e doc_root k t garbage err req s =
     (if err = HttpEndOfStream then (http_disconnect k t s, None)
      else if err \<noteq> NoError then (s, None)
      else if is_upgrade e req then
        (s\<lparr>http_deadline := None, http_stream := False\<rparr>,
         Some (WebSocketSession_run req (make_websocket_session garbage)))
      else (start_http_op (HttpWrite (handle_request e doc_root req)) s, None))"

definition http_onWrite ::
  "proto \<Rightarrow> nat \<Rightarrow> error_code \<Rightarrow> bool \<Rightarrow> http_session \<Rightarrow> http_session" where
  "http_onWrite k t err close s =
     (if err \<noteq> NoError then s
      else if close then http_disconnect k t s
      else http_doRead t s)"

section \<open>Runs of a session\<close>

text \<open>What completes next, with what the completion brings.\<close>

datatype http_event =
    ReadDone error_code http_request
  | WriteDone error_code
  | HandshakeDone error_code nat
  | ShutdownDone error_code

fun http_writing :: "http_op list \<Rightarrow> http_response option" where
  "http_writing [] = None"
| "http_writing (HttpWrite r # ops) = Some r"
| "http_writing (op # ops) = http_writing ops"

text \<open>
  One completion; \<open>None\<close> when no such operation is in flight. An upgrade hands the stream to
  the WebSocket session, which is not part of the HTTP session.
\<close>

definition http_complete ::
  "http_env \<Rightarrow> string \<Rightarrow> proto \<Rightarrow> nat \<Rightarrow> http_event \<Rightarrow> http_session \<Rightarrow> http_session option" where
  "http_complete e doc_root k t ev s =
     (case ev of
        ReadDone err req \<Rightarrow>
          if HttpRead body_limit \<in> set (http_ops s)
          then Some (fst (http_onRead e doc_root k t [] err req (finish_http_op (HttpRead body_limit) s)))
          else None
      | WriteDone err \<Rightarrow>
          (case http_writing (http_ops s) of
             Some r \<Rightarrow> Some (http_onWrite k t err (need_eof e r) (finish_http_op (HttpWrite r) s))
           | None \<Rightarrow> None)
      | HandshakeDone err n \<Rightarrow>
          if HttpHandshake \<in> set (http_ops s)
          then Some (http_onHandshake t err n (finish_http_op HttpHandshake s)) else None
      | ShutdownDone err \<Rightarrow>
          if HttpShutdown \<in> set (http_ops s)
          then Some (http_onShutdown err (finish_http_op HttpShutdown s)) else None)"

fun http_events ::
  "http_env \<Rightarrow> string \<Rightarrow> proto \<Rightarrow> (nat \<times> http_event) list \<Rightarrow> http_session \<Rightarrow> http_session option" where
  "http_events e doc_root k [] s = Some s"
| "http_events e doc_root k ((t, ev) # evs) s =
     (case http_complete e doc_root k t ev s of
        None \<Rightarrow> None
      | Some s' \<Rightarrow> http_events e doc_root k evs s')"

text \<open>The requests to answer among the events, and the answers whose write has completed.\<close>

fun requests_of :: "http_env \<Rightarrow> (nat \<times> http_event) list \<Rightarrow> http_request list" where
  "requests_of e [] = []"
| "requests_of e ((t, ReadDone err req) # evs) =
     (if err = NoError \<and> \<not> is_upgrade e req then req # requests_of e evs else requests_of e evs)"
| "requests_of e (x # evs) = requests_of e evs"

fun answers ::
  "http_env \<Rightarrow> string \<Rightarrow> proto \<Rightarrow> (nat \<times> http_event) list \<Rightarrow> http_session \<Rightarrow> http_response list" where
  "answers e doc_root k [] s = []"
| "answers e doc_root k ((t, ev) # evs) s =
     (case http_complete e doc_root k t ev s of
        None \<Rightarrow> []
      | Some s' \<Rightarrow>
          (case (ev, http_writing (http_ops s)) of
             (WriteDone err, Some r) \<Rightarrow> r # answers e doc_root k evs s'
           | _ \<Rightarrow> answers e doc_root k evs s'))"

subsection \<open>One operation at a time\<close>

definition sequential :: "http_session \<Rightarrow> bool" where
  "sequential s \<longleftrightarrow> length (http_ops s) \<le> 1"

lemma http_ops_simps [simp]:
  "http_ops (start_http_op op s) = http_ops s @ [op]"
  "http_ops (finish_http_op op s) = remove1 op (http_ops s)"
  "http_ops (http_doRead t s) = http_ops s @ [HttpRead body_limit]"
  by (simp_all add: start_http_op_def finish_http_op_def http_doRead_def)

lemma sequential_cases:
  assumes "sequential s"
  obtains "http_ops s = []" | op where "http_ops s = [op]"
  using assms by (cases "http_ops s") (auto simp: sequential_def)

lemma http_ops_disconnect:
  "http_ops (http_disconnect k t s) = http_ops s \<or> http_ops (http_disconnect k t s) = http_ops s @ [HttpShutdown]"
  by (cases k) simp_all

lemma http_complete_sequential:
  assumes "sequential s" "http_complete e doc_root k t ev s = Some s'"
  shows "sequential s'"
  using assms(1)
proof (cases rule: sequential_cases)
  case 1
  with assms(2) show ?thesis by (auto simp: http_complete_def split: http_event.splits)
next
  case (2 op)
  then show ?thesis
    using assms(2) http_ops_disconnect [of k t]
    by (cases op) (auto simp: http_complete_def http_onRead_def http_onWrite_def
        http_onHandshake_def http_onShutdown_def sequential_def finish_http_op_def
        start_http_op_def http_doRead_def Let_def
        split: http_event.splits if_splits; cases k; simp add: start_http_op_def)+
qed

lemma http_events_sequential:
  "sequential s \<Longrightarrow> http_events e doc_root k evs s = Some s' \<Longrightarrow> sequential s'"
  by (induction e doc_root k evs s rule: http_events.induct)
    (auto split: option.splits dest: http_complete_sequential)

text \<open>What is being answered, after one completion.\<close>

definition outstanding :: "http_session \<Rightarrow> http_response list" where
  "outstanding s = (case http_writing (http_ops s) of None \<Rightarrow> [] | Some r \<Rightarrow> [r])"

lemma outstanding_complete:
  assumes "sequential s" "http_complete e doc_root k t ev s = Some s'"
  shows "(case (ev, http_writing (http_ops s)) of (WriteDone err, Some r) \<Rightarrow> [r] | _ \<Rightarrow> []) @ outstanding s'
    = outstanding s @ map (handle_request e doc_root) (requests_of e [(t, ev)])"
  using assms(1)
proof (cases rule: sequential_cases)
  case 1
  with assms(2) show ?thesis by (auto simp: http_complete_def split: http_event.splits)
next
  case (2 op)
  show ?thesis
    using assms(2) 2
    by (cases op; cases k) (auto simp: http_complete_def http_onRead_def http_onWrite_def
        http_onHandshake_def http_onShutdown_def outstanding_def finish_http_op_def
        start_http_op_def http_doRead_def split: http_event.splits if_splits)
qed

lemma requests_of_Cons: "requests_of e (x # evs) = requests_of e [x] @ requests_of e evs"
  by (cases "(e, x # evs)" rule: requests_of.cases) auto

lemma answers_in_order:
  assumes "sequential s" "http_events e doc_root k evs s = Some s'"
  shows "answers e doc_root k evs s @ outstanding s' =
    outstanding s @ map (handle_request e doc_root) (requests_of e evs)"
  using assms
proof (induction e doc_root k evs s rule: http_events.induct)
  case (1 e doc_root k s)
  then show ?case by simp
next
  case (2 e doc_root k t ev evs s)
  from 2(3) obtain s1 where s1: "http_complete e doc_root k t ev s = Some s1"
    and rest: "http_events e doc_root k evs s1 = Some s'"
    by (auto split: option.splits)
  note IH = 2(1) [OF s1 http_complete_sequential [OF 2(2) s1] rest]
  have "answers e doc_root k ((t, ev) # evs) s =
      (case (ev, http_writing (http_ops s)) of (WriteDone err, Some r) \<Rightarrow> [r] | _ \<Rightarrow> [])
        @ answers e doc_root k evs s1"
    using s1 by (auto split: http_event.split option.split)
  with IH have "answers e doc_root k ((t, ev) # evs) s @ outstanding s' =
      ((case (ev, http_writing (http_ops s)) of (WriteDone err, Some r) \<Rightarrow> [r] | _ \<Rightarrow> []) @ outstanding s1)
        @ map (handle_request e doc_root) (requests_of e evs)"
    by simp
  also have "\<dots> = outstanding s @ map (handle_request e doc_root) (requests_of e ((t, ev) # evs))"
    unfolding outstanding_complete [OF 2(2) s1] requests_of_Cons [of e "(t, ev)" evs] by simp
  finally show ?case .
qed

end
