(* ===== verification/Http_Properties.thy ===== *)
theory Http_Properties
  imports Http_Session
begin

text \<open>
  The properties of the HTTP side: which files can be served, what the answers are, and the
  order of requests and answers on a connection.
\<close>

section \<open>Example\<close>

definition lower :: "char \<Rightarrow> char" where
  "lower c = (let n = of_char c in if 65 \<le> n \<and> n \<le> (90 :: nat) then char_of (n + 32) else c)"

definition example_http :: http_env where
  "example_http =
     \<lparr>open_file = (\<lambda>p. if p = ''/srv/www/index.html'' then Opened 7 else NoSuchFile),
      iequals = (\<lambda>a b. map lower a = map lower b),
      request_keep_alive = (\<lambda>req. version req = 11), is_upgrade = (\<lambda>req. False),
      need_eof = (\<lambda>res. \<not> keep_alive res), beast_version = ''Boost.Beast''\<rparr>"

definition example_get :: http_request where
  "example_get = \<lparr>req_method = Verb_get, target = ''/'', version = 11, header_fields = []\<rparr>"

lemma example_get_response:
  "handle_request example_http ''/srv/www/'' example_get =
     \<lparr>status = 200, res_version = 11, server_field = ''Boost.Beast'', content_type = ''text/html'',
      content_length = Some 7, keep_alive = True, body = FileBody ''/srv/www/index.html''\<rparr>"
  by code_simp

section \<open>Files\<close>

lemma c_str_prefix: "\<exists>v. s = c_str s @ v"
  unfolding c_str_def by (metis takeWhile_dropWhile_id)

lemma c_str_append: "CHR 0x00 \<notin> set s \<Longrightarrow> c_str (s @ t) = s @ c_str t"
  unfolding c_str_def by (induction s) auto

lemma occurs_append: "occurs p u \<Longrightarrow> occurs p (u @ v)"
  by (auto simp: occurs_iff) (metis append.assoc)

lemma no_dots: "\<not> occurs ''..'' t \<Longrightarrow> ''..'' \<notin> set (components t)"
  using component_occurs [of "''..''" t] by (auto simp: occurs_iff)

lemma location_below:
  assumes "t = CHR ''/'' # t'" "''..'' \<notin> set (components t')"
  shows "\<exists>rest. location cwd (r @ t) = location cwd (if r = [] then ''/'' else r) @ rest"
proof -
  have "components (r @ t) = components r @ components t'"
    by (simp add: assms(1) components_append)
  then show ?thesis
    using walk_down [OF assms(2)]
    by (cases r) (auto simp: location_def walk_append assms(1))
qed

lemma location_slash: "r \<noteq> [] \<Longrightarrow> location cwd (r @ ''/'') = location cwd r"
  using components_append [of r "[]"] by (cases r) (auto simp: location_def walk_append)

lemma location_root: "location cwd ''/'' = []"
  by (simp add: location_def)

lemma path_cat_location:
  assumes "base \<noteq> []"
  obtains r where "path_cat base t = r @ t" "location cwd (if r = [] then ''/'' else r) = location cwd base"
    "set r \<subseteq> set base"
proof (cases "last base = CHR ''/''")
  case False
  with assms show ?thesis by (auto intro: that [of base] simp: path_cat_def)
next
  case True
  then have base: "base = butlast base @ ''/''" using assms by (metis append_butlast_last_id)
  have "location cwd (if butlast base = [] then ''/'' else butlast base) = location cwd base"
  proof (cases "butlast base = []")
    case True
    with base show ?thesis by simp
  next
    case False
    from location_slash [OF this, of cwd] base False show ?thesis by simp
  qed
  moreover have "set (butlast base) \<subseteq> set base" using in_set_butlastD by fastforce
  ultimately show ?thesis
    using True assms by (auto intro: that [of "butlast base"] simp: path_cat_def)
qed

lemma no_dots_index:
  assumes "\<not> occurs ''..'' t" "t \<noteq> []" "last t = CHR ''/''"
  shows "\<not> occurs ''..'' (t @ ''index.html'')"
proof -
  obtain u where u: "t = u @ ''/''" using assms(2,3) by (metis append_butlast_last_id)
  have "occurs ''..'' (u @ ''/index.html'') \<longleftrightarrow> occurs ''..'' (u @ ''/'')" for u
  proof (induction u)
    case Nil
    then show ?case by simp
  next
    case (Cons c u)
    then show ?case by (cases u) auto
  qed
  with assms(1) u show ?thesis by simp
qed

text \<open>
  C21. Nothing outside the document root is served. Whatever the request, the file that is sent
  lies below the document root: walking the path the server opens, from any working directory,
  leads to the document root first and then only downwards. Symbolic links are not considered.
\<close>

theorem served_file_under_root:
  assumes "body (handle_request e doc_root req) = FileBody path" "doc_root \<noteq> []" "CHR 0x00 \<notin> set doc_root"
  shows "\<exists>rest. location cwd path = location cwd doc_root @ rest"
proof -
  from assms(1) have ok: "target req \<noteq> []" "target req ! 0 = CHR ''/''" "\<not> occurs ''..'' (target req)"
    and path: "path = c_str (requested_path doc_root req)"
    by (auto simp: handle_request_def Let_def bad_request_def not_found_def server_error_def
        text_response_def split: if_splits open_result.splits)
  define t where "t = (if last (target req) = CHR ''/'' then target req @ ''index.html'' else target req)"
  have t: "\<not> occurs ''..'' t" "t ! 0 = CHR ''/''" "t \<noteq> []"
    using ok no_dots_index by (auto simp: t_def nth_append)
  obtain r where r: "path_cat doc_root (target req) = r @ target req"
    "location cwd (if r = [] then ''/'' else r) = location cwd doc_root" "set r \<subseteq> set doc_root"
    using path_cat_location [OF assms(2)] by metis
  have nul: "CHR 0x00 \<notin> set r" using r(3) assms(3) by blast
  have "path = r @ c_str t"
    by (simp add: path requested_path_def t_def Let_def r(1) c_str_append [OF nul])
  moreover obtain t' where t': "c_str t = CHR ''/'' # t'"
    using t(2,3) by (cases t) (auto simp: c_str_def)
  moreover have "''..'' \<notin> set (components t')"
  proof (rule no_dots)
    show "\<not> occurs ''..'' t'"
    proof
      assume "occurs ''..'' t'"
      then have "occurs ''..'' (c_str t)" by (simp add: t')
      moreover obtain v where "t = c_str t @ v" using c_str_prefix by blast
      ultimately show False using t(1) occurs_append by metis
    qed
  qed
  ultimately show ?thesis using location_below [of "c_str t" t' cwd r] r(2) by auto
qed

theorem served_file_under_root_witness:
  "body (handle_request example_http ''/srv/www/'' example_get) = FileBody ''/srv/www/index.html''
   \<and> (\<exists>rest. location [] ''/srv/www/index.html'' = location [] ''/srv/www/'' @ rest)"
proof -
  have b: "body (handle_request example_http ''/srv/www/'' example_get) = FileBody ''/srv/www/index.html''"
    by (simp add: example_get_response)
  from b served_file_under_root [OF b] show ?thesis by simp
qed

definition mime_table :: "(string \<times> string) list" where
  "mime_table =
     [(''htm'', ''text/html''), (''html'', ''text/html''), (''php'', ''text/html''),
      (''css'', ''text/css''), (''txt'', ''text/plain''), (''js'', ''application/javascript''),
      (''json'', ''application/json''), (''xml'', ''application/xml''),
      (''swf'', ''application/x-shockwave-flash''), (''flv'', ''video/x-flv''),
      (''png'', ''image/png''), (''jpe'', ''image/jpeg''), (''jpeg'', ''image/jpeg''),
      (''jpg'', ''image/jpeg''), (''gif'', ''image/gif''), (''bmp'', ''image/bmp''),
      (''ico'', ''image/vnd.microsoft.icon''), (''tiff'', ''image/tiff''), (''tif'', ''image/tiff''),
      (''svg'', ''image/svg+xml''), (''svgz'', ''image/svg+xml'')]"

text \<open>
  The chain of comparisons is a table. When the comparison of extensions compares ASCII letters without their
  case, the type of a file is the table's entry for the lower-case text behind the last dot of
  its path, and the default when the table has none.
\<close>

theorem mime_type_is_table_lookup:
  assumes "\<And>a b. iequals e a b \<longleftrightarrow> map lower a = map lower b" "CHR ''.'' \<notin> set x"
  shows "mime_type e (stem @ CHR ''.'' # x) =
     (case map_of mime_table (map lower x) of Some t \<Rightarrow> t | None \<Rightarrow> ''application/text'')"
proof -
  have "find_last CHR ''.'' (stem @ CHR ''.'' # x) = Some (length stem)"
    using assms(2) by (rule find_last_split)
  then show ?thesis
    by (simp add: mime_type_def Let_def assms(1) lower_def mime_table_def)
qed

theorem mime_type_is_table_lookup_witness:
  "mime_type example_http (''/srv/a.b'' @ CHR ''.'' # ''PNG'') =
     (case map_of mime_table (map lower ''PNG'') of Some t \<Rightarrow> t | None \<Rightarrow> ''application/text'')"
  by (rule mime_type_is_table_lookup) (simp_all add: example_http_def)

section \<open>Answers\<close>

text \<open>
  C22. The status of an answer tells which case the request was: 400 for a method other than GET
  and HEAD or a target that is empty, not absolute or contains two dots in a row; otherwise
  404, 500 or 200 by how the file under the document root opens. Every answer has the version
  of the request and its wish to keep the connection.
\<close>

theorem response_status:
  "(let r = handle_request e doc_root req;
        legal = ((req_method req = Verb_get \<or> req_method req = Verb_head) \<and> target req \<noteq> []
           \<and> target req ! 0 = CHR ''/'' \<and> \<not> occurs ''..'' (target req));
        opened = open_file e (c_str (requested_path doc_root req))
    in (status r = 400 \<longleftrightarrow> \<not> legal)
       \<and> (status r = 404 \<longleftrightarrow> legal \<and> opened = NoSuchFile)
       \<and> (status r = 500 \<longleftrightarrow> legal \<and> (\<exists>msg. opened = OpenFailed msg))
       \<and> (status r = 200 \<longleftrightarrow> legal \<and> (\<exists>n. opened = Opened n \<and> content_length r = Some n))
       \<and> res_version r = version req \<and> keep_alive r = request_keep_alive e req)"
  by (auto simp: handle_request_def Let_def bad_request_def not_found_def server_error_def
      text_response_def split: open_result.split)

text \<open>
  HEAD is answered like GET without the content: for the same target, version and fields
  the two answers have the same status and the same header, content length included, and the
  answer to HEAD carries no file.
\<close>

theorem head_matches_get:
  assumes "request_keep_alive e (req\<lparr>req_method := Verb_head\<rparr>) = request_keep_alive e (req\<lparr>req_method := Verb_get\<rparr>)"
  shows "handle_request e doc_root (req\<lparr>req_method := Verb_head\<rparr>) =
     (let r = handle_request e doc_root (req\<lparr>req_method := Verb_get\<rparr>)
      in if status r = 200 then r\<lparr>body := EmptyBody\<rparr> else r)"
  using assms
  by (auto simp: handle_request_def Let_def bad_request_def not_found_def server_error_def
      text_response_def requested_path_def split: open_result.split)

theorem head_matches_get_witness:
  "handle_request example_http ''/srv/www'' (example_get\<lparr>req_method := Verb_head\<rparr>) =
     (let r = handle_request example_http ''/srv/www'' (example_get\<lparr>req_method := Verb_get\<rparr>)
      in if status r = 200 then r\<lparr>body := EmptyBody\<rparr> else r)"
  by (rule head_matches_get) (simp add: example_http_def)

section \<open>Connections\<close>

text \<open>
  C40. Requests on one connection are answered one at a time and in order. For every sequence of
  completions a session can see, plain or SSL, the answers written so far and the one being
  written are the answers to the requests received, in their order, and at most one operation
  is in flight: no request is read before the answer to the one before it has been written.
\<close>

theorem http_answers_in_order:
  assumes "http_events e doc_root k evs (http_run k t make_http_session) = Some s"
  shows "answers e doc_root k evs (http_run k t make_http_session) @ outstanding s =
       map (handle_request e doc_root) (requests_of e evs)
     \<and> length (http_ops s) \<le> 1"
proof -
  have start: "sequential (http_run k t make_http_session)"
    "outstanding (http_run k t make_http_session) = []"
    by (cases k; simp add: sequential_def make_http_session_def outstanding_def)+
  show ?thesis
    using answers_in_order [OF start(1) assms] start(2) http_events_sequential [OF start(1) assms]
    by (simp add: sequential_def)
qed

definition example_exchange :: "(nat \<times> http_event) list" where
  "example_exchange =
     [(1, HandshakeDone NoError 0), (2, ReadDone NoError example_get), (3, WriteDone NoError),
      (4, ReadDone NoError (example_get\<lparr>target := ''/../etc/passwd''\<rparr>))]"

theorem http_answers_in_order_witness:
  "\<exists>s. http_events example_http ''/srv/www/'' SSL example_exchange (http_run SSL 0 make_http_session) = Some s
     \<and> map status (outstanding s) = [400]
     \<and> answers example_http ''/srv/www/'' SSL example_exchange (http_run SSL 0 make_http_session) @ outstanding s =
       map (handle_request example_http ''/srv/www/'') (requests_of example_http example_exchange)"
proof -
  have "map_option (\<lambda>s. map status (outstanding s))
      (http_events example_http ''/srv/www/'' SSL example_exchange (http_run SSL 0 make_http_session)) = Some [400]"
    by code_simp
  then obtain s where
    s: "http_events example_http ''/srv/www/'' SSL example_exchange (http_run SSL 0 make_http_session) = Some s"
    and o: "map status (outstanding s) = [400]"
    by (auto simp: map_option_eq_Some)
  from o http_answers_in_order [OF s] show ?thesis by (intro exI [of _ s] conjI s) auto
qed

end
