(* ===== verification/Json_Properties.thy ===== *)
theory Json_Properties
  imports Json_Dump
begin

text \<open>
  The properties of the JSON text functions: what the parser accepts and returns, what
  \<open>dump\<close> writes, and that the two are inverse to each other.
\<close>

text \<open>
  C23. basic_json::parse accepts exactly the token sequences of the JSON grammar. It returns
  v if and only if the tokens of the input are those of a text of v, followed by the end
  of the input: the stack of booleans and the pointers into the value under construction
  implement the recursive grammar, for any nesting.
\<close>

theorem json_parse_grammar:
  "json_parse s = Inr v \<longleftrightarrow> (\<exists>ts. value_toks v ts \<and> tokens s (ts @ [Punct Tok_end_of_input]))"
proof
  assume "json_parse s = Inr v"
  then show "\<exists>ts. value_toks v ts \<and> tokens s (ts @ [Punct Tok_end_of_input])"
    by (rule_tac json_parse_cases [of s]) auto
next
  assume "\<exists>ts. value_toks v ts \<and> tokens s (ts @ [Punct Tok_end_of_input])"
  then show "json_parse s = Inr v" using json_parse_accepts by blast
qed

text \<open>
  C24. Whatever bytes it is given, basic_json::parse returns a well-formed value or throws a
  parse error or the out-of-range error 406 for a number that overflows. In a value it returns
  every string and every key is UTF-8, every float is finite and every object is sorted by key
  without duplicates; no pointer of the parser dangles and the parser always terminates.
\<close>

theorem json_parse_typed:
  "case json_parse s of
     Inr v \<Rightarrow> json_ok v
   | Inl x \<Rightarrow> (\<exists>m. x = Throw (Json_parse_error m)) \<or> (\<exists>m. x = Throw (Json_out_of_range 406 m))"
proof (rule json_parse_cases [of s])
  assume "parse_failure (json_parse s)"
  then show ?thesis by (cases "json_parse s" rule: parse_failure.cases) simp_all
next
  fix v ts
  assume v: "json_parse s = Inr v" "value_toks v ts" "tokens s (ts @ [Punct Tok_end_of_input])"
  have "list_all good_token ts" using good_tokens [OF v(3)] by simp
  then show ?thesis using value_toks_ok(1) [OF v(2)] v(1) by simp
qed

text \<open>
  dump_escaped with the strict handler fails with type error 316 exactly on the strings
  that are not UTF-8. On a UTF-8 string it writes a text which, between quotes, the lexer
  reads back as the string, whether or not non-ASCII characters are escaped.
\<close>

theorem dump_escaped_reads_back:
  "case dump_escaped Strict ascii s of
     Inr t \<Rightarrow> utf8_valid s \<and> unescapes t s
   | Inl x \<Rightarrow> \<not> utf8_valid s \<and> x = Throw (Json_type_error 316)"
proof (cases "utf8_valid s")
  case True
  then obtain t where "dump_escaped Strict ascii s = Inr t" "unescapes t s" using dump_escaped_reads by blast
  then show ?thesis using True by simp
next
  case False
  then show ?thesis by (simp add: dump_escaped_invalid)
qed

text \<open>
  C25. What basic_json::dump writes, basic_json::parse reads back: for a value whose
  strings are UTF-8 and whose objects are sorted maps, dump returns a text, compact or indented
  by up to 512, and parsing it gives the value again, every finite float bit for bit, up to the
  type of integers that are not negative and null for floats JSON cannot express.
\<close>

theorem json_dump_parse:
  assumes "printable_json j" "whitespace (Some indent_char)" "indent \<le> 512"
  shows "bind_result (json_dump indent indent_char ascii Strict j) json_parse = Inr (reread j)"
  using json_dump_writes [OF assms, of ascii] value_text_parses by auto

theorem json_dump_parse_witness:
  "bind_result (json_dump 4 CHR '' '' False Strict
      (JObject [(''id'', JInt 1), (''on'', JArray [JBool True, JString ''x'', JInt (- 3), JFloat 0x3FB999999999999A])])) json_parse
    = Inr (JObject [(''id'', JUint 1), (''on'', JArray [JBool True, JString ''x'', JInt (- 3), JFloat 0x3FB999999999999A])])"
proof -
  have "utf8_valid ''id''" "utf8_valid ''on''" "utf8_valid ''x''"
    using utf8_valid_append [of "[_]" "[_]"] ascii_valid by simp_all
  moreover have "isfinite 0x3FB999999999999A" by (simp add: isfinite_def float64_exp_def)
  ultimately show ?thesis
    using json_dump_parse [of "JObject [(''id'', JInt 1), (''on'', JArray [JBool True, JString ''x'', JInt (- 3), JFloat 0x3FB999999999999A])]"
        "CHR '' ''" 4 False]
    by (simp add: whitespace_def object_ok_def less_list_code less_char_def)
qed

text \<open>
  C26. Floats are printed exactly. Grisu2 with its 64-bit arithmetic, its table of 79 cached
  powers of ten and its digit loops gives for every finite double, subnormal and extreme ones
  included, a text of at most 24 characters that the lexer scans as a float and that strtod
  converts back to the very same 64 bits; infinities and NaNs are written as null.
\<close>

theorem float_text_reads_back:
  "\<exists>digits ser'. dump_float x ser = Inr ser' \<and> ser_out ser' = ser_out ser @ digits
     \<and> length digits \<le> 24
     \<and> (if isfinite x then spells digits (TFloat x) \<and> strtod CHR ''.'' digits = x
        else digits = ''null'')"
proof (cases "isfinite x")
  case True
  then obtain t where "to_chars x = Some t" "length t \<le> 24" "spells t (TFloat x)" "strtod CHR ''.'' t = x"
    by (rule to_chars_reads_back)
  then show ?thesis using True by (auto simp: dump_float_def write_characters_def)
qed (simp add: dump_float_def write_characters_def)

end
