(* ===== verification/Json_Compare.thy ===== *)
theory Json_Compare
  imports Json_Number
begin

text \<open>
  \<open>operator==\<close> of \<open>basic_json\<close>: values of one type compare their contents, an integer and a
  float compare as doubles, a signed and an unsigned integer as signed ones, any other two
  types are different. Floats compare as IEEE 754 does.
\<close>

section \<open>Doubles\<close>

definition isnan :: "float64 \<Rightarrow> bool" where
  "isnan w \<longleftrightarrow> float64_exp w = 2047 \<and> float64_frac w \<noteq> 0"

definition is_zero :: "float64 \<Rightarrow> bool" where
  "is_zero w \<longleftrightarrow> float64_exp w = 0 \<and> float64_frac w = 0"

definition float_eq :: "float64 \<Rightarrow> float64 \<Rightarrow> bool" where
  "float_eq a b \<longleftrightarrow> \<not> isnan a \<and> \<not> isnan b \<and> (a = b \<or> is_zero a \<and> is_zero b)"

text \<open>\<open>static_cast<double>\<close> of a 64-bit integer rounds to nearest, ties to even.\<close>

definition float_of_unsigned :: "64 word \<Rightarrow> float64" where
  "float_of_unsigned w = word_of_nat (double_bits (unat w) 1)"

definition float_of_signed :: "64 word \<Rightarrow> float64" where
  "float_of_signed w =
     (if sint w < 0 then word_of_nat (2 ^ 63 + double_bits (nat (- sint w)) 1)
      else word_of_nat (double_bits (nat (sint w)) 1))"

section \<open>Values\<close>

fun json_eq :: "json \<Rightarrow> json \<Rightarrow> bool"
  and elements_eq :: "json list \<Rightarrow> json list \<Rightarrow> bool"
  and members_eq :: "(string \<times> json) list \<Rightarrow> (string \<times> json) list \<Rightarrow> bool" where
  "json_eq (JArray xs) (JArray ys) = elements_eq xs ys"
| "json_eq (JObject m) (JObject n) = members_eq m n"
| "json_eq JNull JNull = True"
| "json_eq (JString s) (JString t) = (s = t)"
| "json_eq (JBinary a s) (JBinary b t) = (a = b \<and> s = t)"
| "json_eq (JBool a) (JBool b) = (a = b)"
| "json_eq (JInt a) (JInt b) = (a = b)"
| "json_eq (JUint a) (JUint b) = (a = b)"
| "json_eq (JFloat a) (JFloat b) = float_eq a b"
| "json_eq (JInt a) (JFloat b) = float_eq (float_of_signed a) b"
| "json_eq (JFloat a) (JInt b) = float_eq a (float_of_signed b)"
| "json_eq (JUint a) (JFloat b) = float_eq (float_of_unsigned a) b"
| "json_eq (JFloat a) (JUint b) = float_eq a (float_of_unsigned b)"
| "json_eq (JUint a) (JInt b) = (a = b)"
| "json_eq (JInt a) (JUint b) = (a = b)"
| "json_eq _ _ = False"
| "elements_eq [] [] = True"
| "elements_eq (x # xs) (y # ys) = (json_eq x y \<and> elements_eq xs ys)"
| "elements_eq _ _ = False"
| "members_eq [] [] = True"
| "members_eq ((k, v) # m) ((l, u) # n) = (k = l \<and> json_eq v u \<and> members_eq m n)"
| "members_eq _ _ = False"

text \<open>A value without NaN equals itself.\<close>

fun no_nan :: "json \<Rightarrow> bool" where
  "no_nan (JFloat w) \<longleftrightarrow> \<not> isnan w"
| "no_nan (JArray xs) \<longleftrightarrow> list_all no_nan xs"
| "no_nan (JObject m) \<longleftrightarrow> list_all (\<lambda>(k, v). no_nan v) m"
| "no_nan _ \<longleftrightarrow> True"

lemma elements_eq_list_all2: "elements_eq xs ys \<longleftrightarrow> list_all2 json_eq xs ys"
  by (induction xs ys rule: list_induct2') simp_all

lemma members_eq_list_all2: "members_eq m n \<longleftrightarrow> list_all2 (\<lambda>(k, v) (l, u). k = l \<and> json_eq v u) m n"
  by (induction m n rule: list_induct2') auto

lemma json_eq_refl: "no_nan j \<Longrightarrow> json_eq j j"
proof (induction j rule: no_nan.induct)
  case (2 xs)
  then show ?case by (auto simp: elements_eq_list_all2 list_all_iff intro: list.rel_refl_strong)
next
  case (3 m)
  then show ?case by (fastforce simp: members_eq_list_all2 list_all_iff intro: list.rel_refl_strong)
qed (auto simp: float_eq_def)

lemma float_eq_sym: "float_eq a b \<longleftrightarrow> float_eq b a"
  by (auto simp: float_eq_def)

lemma json_eq_sym:
  "json_eq i j = json_eq j i"
  "elements_eq xs ys = elements_eq ys xs"
  "members_eq m n = members_eq n m"
  by (induction i j and xs ys and m n rule: json_eq_elements_eq_members_eq.induct)
     (simp_all add: float_eq_sym eq_commute)

end
