(* ===== verification/Json_Pointer.thy ===== *)
theory Json_Pointer
  imports Json_Numerals Json_Compare
begin

text \<open>
  \<open>json_pointer\<close> (\<open>detail/json_pointer.hpp\<close>): a pointer is its list of reference tokens; its
  text form with the escapes of RFC 6901, array indices, and the walks along a pointer. A C++
  reference into a document is what it reads together with the document after a write through
  it, so that \<open>j.at(ptr) = v\<close> and \<open>j[ptr] = v\<close> are one lookup and one write.
\<close>

type_synonym json_pointer = "string list"

text \<open>What a reference reads, and the whole document once a value is written to it.\<close>

type_synonym json_ref = "json \<times> (json \<Rightarrow> json)"

section \<open>Errors\<close>

text \<open>\<open>parse_error::create(id, byte, what)\<close> and \<open>other_error::create\<close>.\<close>

definition parse_error_at :: "nat \<Rightarrow> nat \<Rightarrow> string \<Rightarrow> exn" where
  "parse_error_at i byte what_arg =
     Json_parse_error (c_str (exception_name ''parse_error'' i @ ''parse error'' @
       (if byte \<noteq> 0 then '' at byte '' @ decimal byte else []) @ '': '' @ what_arg))"

definition other_error_create :: "nat \<Rightarrow> string \<Rightarrow> exn" where
  "other_error_create i what_arg = Json_other_error i (c_str (exception_name ''other_error'' i @ what_arg))"

definition unresolved_token :: "string \<Rightarrow> 'a result" where
  "unresolved_token s =
     Inl (Throw (out_of_range_create 404 (''unresolved reference token '' @ [CHR 0x27] @ s @ [CHR 0x27])))"

section \<open>Text form\<close>

text \<open>
  \<open>replace_substring(s, f, t)\<close>: the loop replaces the first \<open>f\<close> and searches on behind the
  text it put there; \<open>f\<close> is asserted not to be empty.
\<close>

function replace_substring :: "string \<Rightarrow> string \<Rightarrow> string \<Rightarrow> string" where
  "replace_substring f t [] = []"
| "replace_substring f t (c # s) =
     (if f \<noteq> [] \<and> take (length f) (c # s) = f
      then t @ replace_substring f t (drop (length f) (c # s))
      else c # replace_substring f t s)"
  by pat_completeness auto
termination
  by (relation "measure (\<lambda>(f, t, s). length s)") (auto simp: less_Suc_eq_le Suc_diff_le neq_Nil_conv)

definition escape :: "string \<Rightarrow> string" where
  "escape s = replace_substring ''/'' ''~1'' (replace_substring ''~'' ''~0'' s)"

definition unescape :: "string \<Rightarrow> string" where
  "unescape s = replace_substring ''~0'' ''~'' (replace_substring ''~1'' ''/'' s)"

text \<open>\<open>to_string\<close> accumulates every escaped token behind a slash.\<close>

definition to_string :: "json_pointer \<Rightarrow> string" where
  "to_string ptr = foldl (\<lambda>a b. a @ ''/'' @ escape b) [] ptr"

text \<open>The check of one token: every tilde is followed by a zero or a one.\<close>

fun escapes_valid :: "string \<Rightarrow> bool" where
  "escapes_valid [] = True"
| "escapes_valid (c # s) =
     (if c = CHR ''~''
      then (case s of [] \<Rightarrow> False | d # _ \<Rightarrow> d = CHR ''0'' \<or> d = CHR ''1'') \<and> escapes_valid s
      else escapes_valid s)"

definition parse_token :: "string \<Rightarrow> string result" where
  "parse_token s =
     (if escapes_valid s then Inr (unescape s)
      else Inl (Throw (parse_error_at 108 0
             (''escape character '' @ [CHR 0x27] @ ''~'' @ [CHR 0x27] @ '' must be followed with ''
              @ [CHR 0x27] @ ''0'' @ [CHR 0x27] @ '' or '' @ [CHR 0x27] @ ''1'' @ [CHR 0x27]))))"

text \<open>The loop of \<open>split\<close>: the characters up to the next slash are a token.\<close>

function split_tokens :: "string \<Rightarrow> json_pointer result" where
  "split_tokens s =
     bind_result (parse_token (takeWhile (\<lambda>c. c \<noteq> CHR ''/'') s)) (\<lambda>token.
       case dropWhile (\<lambda>c. c \<noteq> CHR ''/'') s of
         [] \<Rightarrow> Inr [token]
       | _ # rest \<Rightarrow> bind_result (split_tokens rest) (\<lambda>tokens. Inr (token # tokens)))"
  by pat_completeness auto
termination
proof (relation "measure length")
  fix s :: string and token d rest
  assume "dropWhile (\<lambda>c. c \<noteq> CHR ''/'') s = d # rest"
  then have "Suc (length rest) \<le> length s" using length_dropWhile_le [of "\<lambda>c. c \<noteq> CHR ''/''" s] by simp
  then show "(rest, s) \<in> measure length" by simp
qed simp

declare split_tokens.simps [simp del]

definition split_pointer :: "string \<Rightarrow> json_pointer result" where
  "split_pointer s =
     (case s of
        [] \<Rightarrow> Inr []
      | c # rest \<Rightarrow>
          if c \<noteq> CHR ''/'' then
            Inl (Throw (parse_error_at 107 1
              (''JSON pointer must be empty or begin with '' @ [CHR 0x27] @ ''/'' @ [CHR 0x27]
               @ '' - was: '' @ [CHR 0x27] @ s @ [CHR 0x27])))
          else split_tokens rest)"

section \<open>Pointers as lists\<close>

text \<open>
  \<open>back\<close>, \<open>pop_back\<close>, \<open>top\<close> and \<open>parent_pointer\<close>; \<open>push_back\<close> and \<open>operator/=\<close> append.
\<close>

definition no_parent :: exn where
  "no_parent = out_of_range_create 405 ''JSON pointer has no parent''"

definition pointer_back :: "json_pointer \<Rightarrow> string result" where
  "pointer_back ptr = (if ptr = [] then Inl (Throw no_parent) else Inr (last ptr))"

definition pop_back :: "json_pointer \<Rightarrow> json_pointer result" where
  "pop_back ptr = (if ptr = [] then Inl (Throw no_parent) else Inr (butlast ptr))"

definition pointer_top :: "json_pointer \<Rightarrow> json_pointer result" where
  "pointer_top ptr = (if ptr = [] then Inl (Throw no_parent) else Inr [hd ptr])"

definition parent_pointer :: "json_pointer \<Rightarrow> json_pointer" where
  "parent_pointer ptr = (if ptr = [] then ptr else butlast ptr)"

definition pointer_push_back :: "json_pointer \<Rightarrow> string \<Rightarrow> json_pointer" where
  "pointer_push_back ptr token = ptr @ [token]"

section \<open>Array indices\<close>

text \<open>
  \<open>array_index\<close>. \<open>std::stoull\<close> is called on at most one character or on a text that begins
  with 1 to 9, so it reads the leading digits and throws \<open>invalid_argument\<close> when there are
  none; its \<open>out_of_range\<close> becomes error 404.
\<close>

definition array_index :: "string \<Rightarrow> nat result" where
  "array_index s =
     (if length s > 1 \<and> hd s = CHR ''0'' then
        Inl (Throw (parse_error_at 106 0
          (''array index '' @ [CHR 0x27] @ s @ [CHR 0x27] @ '' must not begin with '' @ [CHR 0x27] @ ''0'' @ [CHR 0x27])))
      else if length s > 1 \<and> \<not> (CHR ''1'' \<le> hd s \<and> hd s \<le> CHR ''9'') then
        Inl (Throw (parse_error_at 109 0 (''array index '' @ [CHR 0x27] @ s @ [CHR 0x27] @ '' is not a number'')))
      else
        let ds = takeWhile is_digit s in
        if ds = [] then Inl (Throw (Invalid_argument ''stoull''))
        else if 2 ^ 64 \<le> digits_value ds then unresolved_token s
        else if length ds \<noteq> length s then unresolved_token s
        else if 2 ^ 64 - 1 \<le> digits_value ds then
          Inl (Throw (out_of_range_create 410 (''array index '' @ s @ '' exceeds size_type'')))
        else Inr (digits_value ds))"

section \<open>Element access\<close>

text \<open>\<open>at(key)\<close> and \<open>at(idx)\<close>: a missing element is an \<open>out_of_range\<close> error.\<close>

fun at_key :: "json \<Rightarrow> string \<Rightarrow> json_ref result" where
  "at_key (JObject m) k =
     (case map_of m k of
        Some v \<Rightarrow> Inr (v, \<lambda>x. JObject (object_put k x m))
      | None \<Rightarrow> Inl (Throw (out_of_range_create 403 (''key '' @ [CHR 0x27] @ k @ [CHR 0x27] @ '' not found''))))"
| "at_key _ k = Inl (Throw (Json_type_error 304))"

fun at_index :: "json \<Rightarrow> nat \<Rightarrow> json_ref result" where
  "at_index (JArray xs) i =
     (if i < length xs then Inr (xs ! i, \<lambda>x. JArray (xs[i := x]))
      else Inl (Throw (out_of_range_create 401 (''array index '' @ decimal i @ '' is out of range''))))"
| "at_index _ i = Inl (Throw (Json_type_error 304))"

text \<open>
  \<open>operator[](key)\<close> and \<open>operator[](idx)\<close> on a mutable value: null becomes a container, a
  missing member is null, an array is filled up with nulls to the index. A vector holds less
  than \<open>2 ^ 59\<close> values of 16 bytes; an allocation below that is taken to succeed.
\<close>

definition array_max_size :: nat where
  "array_max_size = 2 ^ 59 - 1"

fun subscript_key :: "json \<Rightarrow> string \<Rightarrow> json_ref result" where
  "subscript_key JNull k = Inr (JNull, \<lambda>x. JObject (object_put k x []))"
| "subscript_key (JObject m) k =
     Inr (case map_of m k of Some v \<Rightarrow> v | None \<Rightarrow> JNull, \<lambda>x. JObject (object_put k x m))"
| "subscript_key _ k = Inl (Throw (Json_type_error 305))"

definition fill_to :: "json list \<Rightarrow> nat \<Rightarrow> json_ref result" where
  "fill_to xs i =
     (if i < length xs then Inr (xs ! i, \<lambda>x. JArray (xs[i := x]))
      else if array_max_size < i + 1 then Inl (Throw (Length_error ''vector::_M_fill_insert''))
      else let filled = xs @ replicate (i - length xs + 1) JNull
           in Inr (filled ! i, \<lambda>x. JArray (filled[i := x])))"

fun subscript_index :: "json \<Rightarrow> nat \<Rightarrow> json_ref result" where
  "subscript_index JNull i = fill_to [] i"
| "subscript_index (JArray xs) i = fill_to xs i"
| "subscript_index _ i = Inl (Throw (Json_type_error 305))"

text \<open>The constant forms: a missing element is undefined.\<close>

fun subscript_index_const :: "json \<Rightarrow> nat \<Rightarrow> json result" where
  "subscript_index_const (JArray xs) i =
     (if i < length xs then Inr (xs ! i) else Inl (Undefined OutOfBoundsRead))"
| "subscript_index_const _ i = Inl (Throw (Json_type_error 305))"

section \<open>Walks along a pointer\<close>

text \<open>The loop over the reference tokens; what one token does depends on the function.\<close>

fun walk_pointer :: "(json \<Rightarrow> string \<Rightarrow> json_ref result) \<Rightarrow> json_pointer \<Rightarrow> json \<Rightarrow> json_ref result" where
  "walk_pointer step [] j = Inr (j, id)"
| "walk_pointer step (token # ptr) j =
     bind_result (step j token) (\<lambda>(v, put).
     bind_result (walk_pointer step ptr v) (\<lambda>(u, put'). Inr (u, put \<circ> put')))"

definition dash_out_of_range :: "json list \<Rightarrow> 'a result" where
  "dash_out_of_range xs =
     Inl (Throw (out_of_range_create 402
       (''array index '' @ [CHR 0x27] @ ''-'' @ [CHR 0x27] @ '' ('' @ decimal (length xs) @ '') is out of range'')))"

text \<open>\<open>get_checked\<close>: every step uses \<open>at\<close>.\<close>

definition checked_step :: "json \<Rightarrow> string \<Rightarrow> json_ref result" where
  "checked_step j token =
     (case j of
        JObject _ \<Rightarrow> at_key j token
      | JArray xs \<Rightarrow> if token = ''-'' then dash_out_of_range xs else bind_result (array_index token) (at_index j)
      | _ \<Rightarrow> unresolved_token token)"

definition get_checked :: "json_pointer \<Rightarrow> json \<Rightarrow> json_ref result" where
  "get_checked = walk_pointer checked_step"

text \<open>
  \<open>get_unchecked\<close> on a mutable value: null becomes an array when the token is a number or a
  dash and an object otherwise, and every step uses \<open>operator[]\<close>.
\<close>

definition unchecked_step :: "json \<Rightarrow> string \<Rightarrow> json_ref result" where
  "unchecked_step j token =
     (case (if j = JNull then if list_all is_digit token \<or> token = ''-'' then JArray [] else JObject [] else j) of
        JObject m \<Rightarrow> subscript_key (JObject m) token
      | JArray xs \<Rightarrow>
          if token = ''-'' then subscript_index (JArray xs) (length xs)
          else bind_result (array_index token) (subscript_index (JArray xs))
      | _ \<Rightarrow> unresolved_token token)"

definition get_unchecked :: "json_pointer \<Rightarrow> json \<Rightarrow> json_ref result" where
  "get_unchecked = walk_pointer unchecked_step"

text \<open>\<open>get_unchecked\<close> on a constant value.\<close>

definition const_step :: "json \<Rightarrow> string \<Rightarrow> json result" where
  "const_step j token =
     (case j of
        JObject _ \<Rightarrow> json_subscript_const j token
      | JArray xs \<Rightarrow>
          if token = ''-'' then dash_out_of_range xs
          else bind_result (array_index token) (subscript_index_const j)
      | _ \<Rightarrow> unresolved_token token)"

fun get_unchecked_const :: "json_pointer \<Rightarrow> json \<Rightarrow> json result" where
  "get_unchecked_const [] j = Inr j"
| "get_unchecked_const (token # ptr) j = bind_result (const_step j token) (get_unchecked_const ptr)"

text \<open>
  \<open>contains\<close>: the element a token leads to, \<open>None\<close> when the walk returns false. A token of one
  character is compared with the strings 0 and 9.
\<close>

definition contains_step :: "json \<Rightarrow> string \<Rightarrow> json option result" where
  "contains_step j token =
     (case j of
        JObject _ \<Rightarrow>
          if \<not> json_contains j token then Inr None
          else bind_result (json_subscript_const j token) (\<lambda>v. Inr (Some v))
      | JArray xs \<Rightarrow>
          if token = ''-'' then Inr None
          else if length token = 1 \<and> \<not> (''0'' \<le> token \<and> token \<le> ''9'') then Inr None
          else if length token > 1 \<and> \<not> (CHR ''1'' \<le> hd token \<and> hd token \<le> CHR ''9'') then Inr None
          else if length token > 1 \<and> \<not> list_all is_digit (tl token) then Inr None
          else bind_result (array_index token) (\<lambda>idx.
                 if length xs \<le> idx then Inr None
                 else bind_result (subscript_index_const j idx) (\<lambda>v. Inr (Some v)))
      | _ \<Rightarrow> Inr None)"

fun pointer_contains :: "json_pointer \<Rightarrow> json \<Rightarrow> bool result" where
  "pointer_contains [] j = Inr True"
| "pointer_contains (token # ptr) j =
     bind_result (contains_step j token) (\<lambda>v.
       case v of None \<Rightarrow> Inr False | Some v \<Rightarrow> pointer_contains ptr v)"

section \<open>Flattening\<close>

text \<open>\<open>get_and_create\<close>: a null under the token 0 becomes an array, under any other an object.\<close>

definition create_step :: "json \<Rightarrow> string \<Rightarrow> json_ref result" where
  "create_step j token =
     (case j of
        JNull \<Rightarrow> if token = ''0'' then subscript_index j 0 else subscript_key j token
      | JObject _ \<Rightarrow> subscript_key j token
      | JArray _ \<Rightarrow> bind_result (array_index token) (subscript_index j)
      | _ \<Rightarrow> Inl (Throw (Json_type_error 313)))"

definition get_and_create :: "json_pointer \<Rightarrow> json \<Rightarrow> json_ref result" where
  "get_and_create = walk_pointer create_step"

text \<open>\<open>flatten\<close> adds an entry for every leaf to the object it is given.\<close>

fun flatten :: "string \<Rightarrow> json \<Rightarrow> (string \<times> json) list \<Rightarrow> (string \<times> json) list"
  and flatten_elements :: "string \<Rightarrow> nat \<Rightarrow> json list \<Rightarrow> (string \<times> json) list \<Rightarrow> (string \<times> json) list"
  and flatten_members :: "string \<Rightarrow> (string \<times> json) list \<Rightarrow> (string \<times> json) list \<Rightarrow> (string \<times> json) list" where
  "flatten ref (JArray xs) r = (if xs = [] then object_put ref JNull r else flatten_elements ref 0 xs r)"
| "flatten ref (JObject m) r = (if m = [] then object_put ref JNull r else flatten_members ref m r)"
| "flatten ref JNull r = object_put ref JNull r"
| "flatten ref (JBool b) r = object_put ref (JBool b) r"
| "flatten ref (JInt w) r = object_put ref (JInt w) r"
| "flatten ref (JUint w) r = object_put ref (JUint w) r"
| "flatten ref (JFloat w) r = object_put ref (JFloat w) r"
| "flatten ref (JString s) r = object_put ref (JString s) r"
| "flatten ref (JBinary b s) r = object_put ref (JBinary b s) r"
| "flatten_elements ref i [] r = r"
| "flatten_elements ref i (x # xs) r = flatten_elements ref (Suc i) xs (flatten (ref @ ''/'' @ decimal i) x r)"
| "flatten_members ref [] r = r"
| "flatten_members ref ((k, v) # m) r = flatten_members ref m (flatten (ref @ ''/'' @ escape k) v r)"

definition json_flatten :: "json \<Rightarrow> json" where
  "json_flatten j = JObject (flatten [] j [])"

fun is_primitive :: "json \<Rightarrow> bool" where
  "is_primitive (JArray _) = False"
| "is_primitive (JObject _) = False"
| "is_primitive _ = True"

fun unflatten_members :: "(string \<times> json) list \<Rightarrow> json \<Rightarrow> json result" where
  "unflatten_members [] j = Inr j"
| "unflatten_members ((k, v) # m) j =
     (if \<not> is_primitive v then Inl (Throw (Json_type_error 315))
      else bind_result (split_pointer k) (\<lambda>ptr.
           bind_result (get_and_create ptr j) (\<lambda>(_, put). unflatten_members m (put v))))"

fun json_unflatten :: "json \<Rightarrow> json result" where
  "json_unflatten (JObject m) = unflatten_members m JNull"
| "json_unflatten _ = Inl (Throw (Json_type_error 314))"

end
