(* ===== verification/Json_Patch.thy ===== *)
theory Json_Patch
  imports Json_Pointer
begin

text \<open>
  JSON Patch and JSON Merge Patch (\<open>patch\<close>, \<open>diff\<close> and \<open>merge_patch\<close> of \<open>basic_json\<close>). A
  patch is applied to a copy of the document, one operation at a time; the first exception
  ends it.
\<close>

section \<open>Operations on the copy\<close>

datatype patch_operations = Op_add | Op_remove | Op_replace | Op_move | Op_copy | Op_test | Op_invalid

definition get_op :: "string \<Rightarrow> patch_operations" where
  "get_op op =
     (if op = ''add'' then Op_add
      else if op = ''remove'' then Op_remove
      else if op = ''replace'' then Op_replace
      else if op = ''move'' then Op_move
      else if op = ''copy'' then Op_copy
      else if op = ''test'' then Op_test
      else Op_invalid)"

text \<open>The parent of an added value: a primitive one fails an assertion.\<close>

definition index_out_of_range :: "nat \<Rightarrow> 'a result" where
  "index_out_of_range i = Inl (Throw (out_of_range_create 401 (''array index '' @ decimal i @ '' is out of range'')))"

definition add_to_parent :: "string \<Rightarrow> json \<Rightarrow> json \<Rightarrow> json result" where
  "add_to_parent last_path val parent =
     (case parent of
        JNull \<Rightarrow> json_assign parent last_path val
      | JObject _ \<Rightarrow> json_assign parent last_path val
      | JArray xs \<Rightarrow>
          if last_path = ''-'' then Inr (JArray (xs @ [val]))
          else bind_result (array_index last_path) (\<lambda>idx.
                 if length xs < idx then index_out_of_range idx
                 else Inr (JArray (take idx xs @ val # drop idx xs)))
      | _ \<Rightarrow> Inl Terminate)"

text \<open>
  \<open>operation_add\<close>: the empty pointer replaces the document; otherwise the first token must
  exist unless it is the only one, and the parent is looked up with \<open>operator[]\<close>.
\<close>

definition operation_add :: "json_pointer \<Rightarrow> json \<Rightarrow> json \<Rightarrow> json result" where
  "operation_add ptr val result =
     (if ptr = [] then Inr val
      else
        bind_result (pointer_top ptr) (\<lambda>top_pointer.
        bind_result (if top_pointer \<noteq> ptr then get_checked top_pointer result else Inr (result, id)) (\<lambda>_.
        bind_result (pointer_back ptr) (\<lambda>last_path.
        bind_result (pop_back ptr) (\<lambda>ptr.
        bind_result (get_unchecked ptr result) (\<lambda>(parent, put).
        bind_result (add_to_parent last_path val parent) (\<lambda>parent. Inr (put parent))))))))"

text \<open>\<open>find\<close> and \<open>erase\<close> on an object, \<open>erase(idx)\<close> on an array; no other parent changes.\<close>

definition erase_key :: "string \<Rightarrow> (string \<times> json) list \<Rightarrow> (string \<times> json) list" where
  "erase_key k m = filter (\<lambda>(k', v). k' \<noteq> k) m"

definition erase_index :: "json list \<Rightarrow> nat \<Rightarrow> json result" where
  "erase_index xs idx =
     (if length xs \<le> idx then index_out_of_range idx else Inr (JArray (take idx xs @ drop (Suc idx) xs)))"

definition remove_from_parent :: "string \<Rightarrow> json \<Rightarrow> json result" where
  "remove_from_parent last_path parent =
     (case parent of
        JObject m \<Rightarrow>
          if map_of m last_path \<noteq> None then Inr (JObject (erase_key last_path m))
          else Inl (Throw (out_of_range_create 403
                 (''key '' @ [CHR 0x27] @ last_path @ [CHR 0x27] @ '' not found'')))
      | JArray xs \<Rightarrow> bind_result (array_index last_path) (erase_index xs)
      | _ \<Rightarrow> Inr parent)"

definition operation_remove :: "json_pointer \<Rightarrow> json \<Rightarrow> json result" where
  "operation_remove ptr result =
     bind_result (pointer_back ptr) (\<lambda>last_path.
     bind_result (pop_back ptr) (\<lambda>ptr.
     bind_result (get_checked ptr result) (\<lambda>(parent, put).
     bind_result (remove_from_parent last_path parent) (\<lambda>parent. Inr (put parent)))))"

section \<open>\<open>patch\<close>\<close>

text \<open>\<open>get_value(op, member, string_type)\<close> on the members of one operation.\<close>

definition get_value :: "(string \<times> json) list \<Rightarrow> string \<Rightarrow> string \<Rightarrow> bool \<Rightarrow> json result" where
  "get_value members op member string_type =
     (let error_msg = (if op = ''op'' then ''operation''
                       else ''operation '' @ [CHR 0x27] @ op @ [CHR 0x27]) in
      case map_of members member of
        None \<Rightarrow> Inl (Throw (parse_error_at 105 0
                  (error_msg @ '' must have member '' @ [CHR 0x27] @ member @ [CHR 0x27])))
      | Some v \<Rightarrow>
          if string_type \<and> (case v of JString _ \<Rightarrow> False | _ \<Rightarrow> True) then
            Inl (Throw (parse_error_at 105 0
              (error_msg @ '' must have string member '' @ [CHR 0x27] @ member @ [CHR 0x27])))
          else Inr v)"

definition get_string_value :: "(string \<times> json) list \<Rightarrow> string \<Rightarrow> string \<Rightarrow> string result" where
  "get_string_value members op member = bind_result (get_value members op member True) json_get_string"

text \<open>
  The test: \<open>out_of_range\<close> errors count as a difference, others leave the patch. The location
  is looked up before the value; the order of the two operands is up to the compiler and only
  shows when both lookups fail.
\<close>

fun out_of_range_caught :: "bool result \<Rightarrow> bool result" where
  "out_of_range_caught (Inl (Throw (Json_out_of_range i s))) = Inr False"
| "out_of_range_caught r = r"

definition operation_test :: "json_pointer \<Rightarrow> (string \<times> json) list \<Rightarrow> json \<Rightarrow> json result" where
  "operation_test ptr members result =
     bind_result
       (out_of_range_caught
          (bind_result (get_checked ptr result) (\<lambda>(found, _).
           bind_result (get_value members ''test'' ''value'' False) (\<lambda>expected.
             Inr (json_eq found expected)))))
       (\<lambda>success.
          if success then Inr result
          else bind_result (json_dump (- 1) CHR '' '' False Strict (JObject members)) (\<lambda>text.
                 Inl (Throw (other_error_create 501 (''unsuccessful: '' @ text)))))"

definition patch_must_be_objects :: exn where
  "patch_must_be_objects = parse_error_at 104 0 ''JSON patch must be an array of objects''"

definition apply_operation :: "patch_operations \<Rightarrow> string \<Rightarrow> json_pointer \<Rightarrow> (string \<times> json) list \<Rightarrow> json \<Rightarrow> json result" where
  "apply_operation operation op ptr members result =
     (case operation of
        Op_add \<Rightarrow> bind_result (get_value members ''add'' ''value'' False) (\<lambda>v. operation_add ptr v result)
      | Op_remove \<Rightarrow> operation_remove ptr result
      | Op_replace \<Rightarrow>
          bind_result (get_value members ''replace'' ''value'' False) (\<lambda>v.
          bind_result (get_checked ptr result) (\<lambda>(_, put). Inr (put v)))
      | Op_move \<Rightarrow>
          bind_result (get_string_value members ''move'' ''from'') (\<lambda>from_path.
          bind_result (split_pointer from_path) (\<lambda>from_ptr.
          bind_result (get_checked from_ptr result) (\<lambda>(v, _).
          bind_result (operation_remove from_ptr result) (\<lambda>result. operation_add ptr v result))))
      | Op_copy \<Rightarrow>
          bind_result (get_string_value members ''copy'' ''from'') (\<lambda>from_path.
          bind_result (split_pointer from_path) (\<lambda>from_ptr.
          bind_result (get_checked from_ptr result) (\<lambda>(v, _). operation_add ptr v result)))
      | Op_test \<Rightarrow> operation_test ptr members result
      | Op_invalid \<Rightarrow>
          Inl (Throw (parse_error_at 105 0 (''operation value '' @ [CHR 0x27] @ op @ [CHR 0x27] @ '' is invalid''))))"

text \<open>One turn of the loop, and the loop over the operations of the patch.\<close>

definition patch_step :: "json \<Rightarrow> json \<Rightarrow> json result" where
  "patch_step val result =
     (case val of
        JObject members \<Rightarrow>
          bind_result (get_string_value members ''op'' ''op'') (\<lambda>op.
          bind_result (get_string_value members op ''path'') (\<lambda>path.
          bind_result (split_pointer path) (\<lambda>ptr.
            apply_operation (get_op op) op ptr members result)))
      | _ \<Rightarrow> Inl (Throw patch_must_be_objects))"

fun patch_steps :: "json list \<Rightarrow> json \<Rightarrow> json result" where
  "patch_steps [] result = Inr result"
| "patch_steps (val # rest) result = bind_result (patch_step val result) (patch_steps rest)"

definition json_patch :: "json \<Rightarrow> json \<Rightarrow> json result" where
  "json_patch j p = (case p of JArray ops \<Rightarrow> patch_steps ops j | _ \<Rightarrow> Inl (Throw patch_must_be_objects))"

section \<open>\<open>diff\<close>\<close>

text \<open>The operations \<open>diff\<close> emits, as the objects their initializer lists make.\<close>

definition replace_operation :: "string \<Rightarrow> json \<Rightarrow> json" where
  "replace_operation path v = JObject [(''op'', JString ''replace''), (''path'', JString path), (''value'', v)]"

definition add_operation :: "string \<Rightarrow> json \<Rightarrow> json" where
  "add_operation path v = JObject [(''op'', JString ''add''), (''path'', JString path), (''value'', v)]"

definition remove_operation :: "string \<Rightarrow> json" where
  "remove_operation path = JObject [(''op'', JString ''remove''), (''path'', JString path)]"

text \<open>
  The remaining elements of the source, from index \<open>i\<close> on: each removal is inserted before the
  earlier ones.
\<close>

fun remove_remaining :: "string \<Rightarrow> nat \<Rightarrow> json list \<Rightarrow> json list" where
  "remove_remaining path i [] = []"
| "remove_remaining path i (x # xs) =
     remove_remaining path (Suc i) xs @ [remove_operation (path @ ''/'' @ decimal i)]"

fun add_remaining :: "string \<Rightarrow> json list \<Rightarrow> json list" where
  "add_remaining path [] = []"
| "add_remaining path (y # ys) = add_operation (path @ ''/-'') y # add_remaining path ys"

text \<open>The second pass over the members: those of the target the source does not have.\<close>

fun add_missing :: "string \<Rightarrow> (string \<times> json) list \<Rightarrow> (string \<times> json) list \<Rightarrow> json list" where
  "add_missing path m [] = []"
| "add_missing path m ((k, v) # n) =
     (if map_of m k = None then [add_operation (path @ ''/'' @ escape k) v] else []) @ add_missing path m n"

function diff :: "json \<Rightarrow> json \<Rightarrow> string \<Rightarrow> json list"
  and diff_elements :: "nat \<Rightarrow> json list \<Rightarrow> json list \<Rightarrow> string \<Rightarrow> json list"
  and diff_members :: "(string \<times> json) list \<Rightarrow> (string \<times> json) list \<Rightarrow> string \<Rightarrow> json list" where
  "diff source target path =
     (if json_eq source target then []
      else case source of
        JArray xs \<Rightarrow>
          (case target of
             JArray ys \<Rightarrow>
               diff_elements 0 xs ys path
               @ remove_remaining path (min (length xs) (length ys)) (drop (length ys) xs)
               @ add_remaining path (drop (length xs) ys)
           | _ \<Rightarrow> [replace_operation path target])
      | JObject m \<Rightarrow>
          (case target of
             JObject n \<Rightarrow> diff_members m n path @ add_missing path m n
           | _ \<Rightarrow> [replace_operation path target])
      | _ \<Rightarrow> [replace_operation path target])"
| "diff_elements i (x # xs) (y # ys) path =
     diff x y (path @ ''/'' @ decimal i) @ diff_elements (Suc i) xs ys path"
| "diff_elements i [] ys path = []"
| "diff_elements i (x # xs) [] path = []"
| "diff_members [] n path = []"
| "diff_members ((k, v) # m) n path =
     (case map_of n k of
        Some u \<Rightarrow> diff v u (path @ ''/'' @ escape k)
      | None \<Rightarrow> [remove_operation (path @ ''/'' @ escape k)]) @ diff_members m n path"
  by pat_completeness auto
termination
  by (relation "measure (case_sum (\<lambda>(s, _). size s)
        (case_sum (\<lambda>(_, xs, _). size_list size xs) (\<lambda>(m, _). size_list (size_prod (\<lambda>_. 0) size) m)))")
     auto

declare diff.simps(1) [simp del]

definition json_diff :: "json \<Rightarrow> json \<Rightarrow> json" where
  "json_diff source target = JArray (diff source target [])"

section \<open>\<open>merge_patch\<close>\<close>

fun members_of :: "json \<Rightarrow> (string \<times> json) list" where
  "members_of (JObject m) = m"
| "members_of _ = []"

text \<open>A target that is not an object is emptied first; null members are erased.\<close>

fun merge_patch :: "json \<Rightarrow> json \<Rightarrow> json"
  and merge_members :: "(string \<times> json) list \<Rightarrow> (string \<times> json) list \<Rightarrow> (string \<times> json) list" where
  "merge_patch j (JObject p) = JObject (merge_members (members_of j) p)"
| "merge_patch j JNull = JNull"
| "merge_patch j (JBool b) = JBool b"
| "merge_patch j (JInt w) = JInt w"
| "merge_patch j (JUint w) = JUint w"
| "merge_patch j (JFloat w) = JFloat w"
| "merge_patch j (JString s) = JString s"
| "merge_patch j (JBinary b s) = JBinary b s"
| "merge_patch j (JArray xs) = JArray xs"
| "merge_members m [] = m"
| "merge_members m ((k, v) # p) =
     merge_members
       (if v = JNull then erase_key k m
        else object_put k (merge_patch (case map_of m k of Some x \<Rightarrow> x | None \<Rightarrow> JNull) v) m) p"

end
