(* ===== verification/Json_References.thy ===== *)
theory Json_References
  imports Json_Patch
begin

text \<open>
  The text form of a pointer: escapes, and the slashes between the tokens, are undone.
  References along a pointer behave as one place of the document: what is written is read back,
  a second write replaces the first, and a pointer that can be resolved is resolved alike by
  \<open>at\<close>, by \<open>operator[]\<close> and by \<open>contains\<close>. Objects as finite maps: what insertion and removal
  do to lookups, and that two sorted objects with the same lookups are the same.
\<close>

section \<open>Escapes\<close>

text \<open>What one pass of \<open>replace_substring\<close> does, character by character.\<close>

definition escape_char :: "char \<Rightarrow> string" where
  "escape_char c = (if c = CHR ''~'' then ''~0'' else if c = CHR ''/'' then ''~1'' else [c])"

lemma replace_one_char: "replace_substring [c] t s = concat (map (\<lambda>d. if d = c then t else [d]) s)"
  by (induction s) auto

lemma escape_concat: "escape s = concat (map escape_char s)"
  by (induction s) (auto simp: escape_def replace_one_char escape_char_def)

lemma escape_simps [simp]:
  "escape [] = []"
  "escape (c # s) = escape_char c @ escape s"
  by (simp_all add: escape_concat)

lemma slash_not_in_escape: "CHR ''/'' \<notin> set (escape s)"
  by (induction s) (auto simp: escape_char_def)

lemma escapes_valid_escape: "escapes_valid (escape s)"
  by (induction s) (auto simp: escape_char_def split: list.split)

lemma unescape_escape: "unescape (escape s) = s"
proof -
  have tilde: "replace_substring ''~1'' ''/'' (escape s) = concat (map (\<lambda>c. if c = CHR ''~'' then ''~0'' else [c]) s)"
    by (induction s) (auto simp: escape_char_def)
  have "replace_substring ''~0'' ''~'' (concat (map (\<lambda>c. if c = CHR ''~'' then ''~0'' else [c]) s)) = s"
    by (induction s) auto
  with tilde show ?thesis by (simp add: unescape_def)
qed

lemma escape_digits: "list_all is_digit s \<Longrightarrow> escape s = s"
  by (induction s) (auto simp: escape_char_def is_digit_def less_eq_char_def)

lemma escape_decimal [simp]: "escape (decimal n) = decimal n"
  by (rule escape_digits [OF decimal_all_digits])

text \<open>A token with valid escapes is the escaped form of what it stands for.\<close>

lemma unescape_simps:
  "unescape [] = []"
  "c \<noteq> CHR ''~'' \<Longrightarrow> unescape (c # s) = c # unescape s"
  "unescape (CHR ''~'' # CHR ''0'' # s) = CHR ''~'' # unescape s"
  "unescape (CHR ''~'' # CHR ''1'' # s) = CHR ''/'' # unescape s"
  by (simp_all add: unescape_def)

lemma escape_unescape: "escapes_valid s \<Longrightarrow> CHR ''/'' \<notin> set s \<Longrightarrow> escape (unescape s) = s"
proof (induction s rule: induct_list012)
  case (3 c d s)
  show ?case
  proof (cases "c = CHR ''~''")
    case True
    with 3 show ?thesis by (auto simp: unescape_simps escape_char_def)
  next
    case False
    with 3 show ?thesis by (auto simp: unescape_simps(2) [of c] escape_char_def)
  qed
qed (auto simp: unescape_simps escape_char_def split: if_splits)

section \<open>Tokens and slashes\<close>

lemma to_string_simps [simp]:
  "to_string [] = []"
  "to_string (ptr @ [k]) = to_string ptr @ ''/'' @ escape k"
  by (simp_all add: to_string_def)

lemma to_string_Cons: "to_string (k # ptr) = ''/'' @ escape k @ to_string ptr"
  by (induction ptr rule: rev_induct) (simp_all add: to_string_def)

lemma parse_token_escape [simp]: "parse_token (escape k) = Inr k"
  by (simp add: parse_token_def escapes_valid_escape unescape_escape)

lemma takeWhile_no_slash:
  "CHR ''/'' \<notin> set s \<Longrightarrow> takeWhile (\<lambda>c. c \<noteq> CHR ''/'') (s @ CHR ''/'' # t) = s"
  "CHR ''/'' \<notin> set s \<Longrightarrow> dropWhile (\<lambda>c. c \<noteq> CHR ''/'') (s @ CHR ''/'' # t) = CHR ''/'' # t"
  "CHR ''/'' \<notin> set s \<Longrightarrow> takeWhile (\<lambda>c. c \<noteq> CHR ''/'') s = s"
  "CHR ''/'' \<notin> set s \<Longrightarrow> dropWhile (\<lambda>c. c \<noteq> CHR ''/'') s = []"
  by (induction s) auto

lemma split_tokens_to_string:
  "split_tokens (escape k @ to_string ptr) = Inr (k # ptr)"
proof (induction ptr arbitrary: k)
  case Nil
  then show ?case
    by (simp add: split_tokens.simps [of "escape k"] takeWhile_no_slash slash_not_in_escape)
next
  case (Cons l ptr)
  then show ?case
    by (simp add: to_string_Cons split_tokens.simps [of "escape k @ CHR ''/'' # escape l @ to_string ptr"]
        takeWhile_no_slash slash_not_in_escape)
qed

lemma split_to_string [simp]: "split_pointer (to_string ptr) = Inr ptr"
  by (cases ptr) (simp_all add: split_pointer_def to_string_Cons split_tokens_to_string)

lemma parse_token_Inr:
  assumes "parse_token s = Inr k" "CHR ''/'' \<notin> set s"
  shows "escape k = s"
  using assms escape_unescape [of s] by (auto simp: parse_token_def split: if_splits)

lemma split_tokens_Inr: "split_tokens s = Inr ptr \<Longrightarrow> to_string ptr = ''/'' @ s"
proof (induction s arbitrary: ptr rule: split_tokens.induct)
  case (1 s)
  let ?a = "takeWhile (\<lambda>c. c \<noteq> CHR ''/'') s" and ?b = "dropWhile (\<lambda>c. c \<noteq> CHR ''/'') s"
  from 1(2) obtain k where k: "parse_token ?a = Inr k"
    by (auto simp: split_tokens.simps [of s] bind_result_Inr_iff)
  then have esc: "escape k = ?a" by (rule parse_token_Inr) (auto dest: set_takeWhileD)
  show ?case
  proof (cases ?b)
    case Nil
    with 1(2) k have "ptr = [k]" "?a = s" by (auto simp: split_tokens.simps [of s] dropWhile_eq_Nil_conv takeWhile_eq_all_conv)
    with esc show ?thesis by (simp add: to_string_Cons)
  next
    case (Cons d rest)
    with 1(2) k obtain ks where ks: "split_tokens rest = Inr ks" "ptr = k # ks"
      by (auto simp: split_tokens.simps [of s] bind_result_Inr_iff)
    from Cons have d: "d = CHR ''/''" by (auto simp: dropWhile_eq_Cons_conv)
    have "s = ?a @ ?b" by simp
    with Cons d have s: "s = ?a @ CHR ''/'' # rest" by simp
    from 1(1) [OF Cons ks(1)] have "to_string ks = ''/'' @ rest" .
    with ks(2) esc have "to_string ptr = ''/'' @ ?a @ CHR ''/'' # rest" by (simp add: to_string_Cons)
    with s show ?thesis by simp
  qed
qed

lemma split_pointer_Inr: "split_pointer s = Inr ptr \<Longrightarrow> to_string ptr = s"
  using split_tokens_Inr by (auto simp: split_pointer_def split: list.splits if_splits)

section \<open>Objects as maps\<close>

lemma object_put_put [simp]: "object_put k v (object_put k u m) = object_put k v m"
  by (induction k u m rule: object_put.induct) auto

lemma map_of_erase: "map_of (erase_key k m) l = (if l = k then None else map_of m l)"
  by (induction m) (auto simp: erase_key_def)

lemma object_ok_erase [simp]: "object_ok m \<Longrightarrow> object_ok (erase_key k m)"
  by (auto simp: object_ok_def erase_key_def distinct_map_filter intro!: sorted_filter)

lemma object_ok_Cons:
  "object_ok ((k, v) # m) \<longleftrightarrow> object_ok m \<and> (\<forall>l \<in> dom (map_of m). k < l)"
  by (auto simp: object_ok_def dom_map_of_conv_image_fst order.strict_iff_order)

lemma map_of_Cons_None: "object_ok ((k, v) # m) \<Longrightarrow> map_of m k = None"
  by (auto simp: object_ok_Cons)

text \<open>Two sorted objects with related lookups have related entries, in the same order.\<close>

lemma object_rel:
  assumes "object_ok m" "object_ok n" "\<And>k. rel_option R (map_of m k) (map_of n k)"
  shows "list_all2 (\<lambda>(k, v) (l, u). k = l \<and> R v u) m n"
  using assms
proof (induction m arbitrary: n)
  case Nil
  show ?case
  proof (cases n)
    case (Cons e n')
    with Nil(3) [of "fst e"] show ?thesis by (cases e) simp
  qed simp
next
  case (Cons e m)
  obtain k v where e: "e = (k, v)" by (cases e)
  from Cons(4) [of k] obtain u where u: "map_of n k = Some u" "R v u" by (auto simp: e option_rel_Some1)
  then obtain l w n' where n: "n = (l, w) # n'" by (cases n) auto
  have k: "\<forall>i \<in> dom (map_of m). k < i" "object_ok m" and l: "\<forall>i \<in> dom (map_of n'). l < i" "object_ok n'"
    using Cons(2,3) by (simp_all add: e n object_ok_Cons)
  have "k = l"
  proof (rule ccontr)
    assume ne: "k \<noteq> l"
    from Cons(4) [of l] ne have "l \<in> dom (map_of m)" by (auto simp: e n option_rel_Some2)
    moreover from u ne have "k \<in> dom (map_of n')" by (auto simp: n)
    ultimately show False using k(1) l(1) by (meson less_asym)
  qed
  moreover have "rel_option R (map_of m i) (map_of n' i)" for i
  proof (cases "i = k")
    case True
    then have "map_of m i = None" "map_of n' i = None"
      using k(1) l(1) \<open>k = l\<close> by (auto simp: domIff)
    then show ?thesis by simp
  next
    case False
    with Cons(4) [of i] \<open>k = l\<close> show ?thesis by (simp add: e n)
  qed
  ultimately show ?case using Cons.IH [of n'] k l u by (simp add: e n)
qed

lemma object_ext:
  assumes "object_ok m" "object_ok n" "map_of m = map_of n"
  shows "m = n"
proof -
  have "list_all2 (\<lambda>(k, v) (l, u). k = l \<and> v = u) m n"
    using assms by (intro object_rel) (simp_all add: option.rel_refl)
  then have "list_all2 (=) m n" by (rule list_all2_mono) auto
  then show ?thesis by (simp add: list.rel_eq)
qed

section \<open>Well-formed documents\<close>

text \<open>Every object is a sorted map, every array shorter than the largest index.\<close>

fun well_formed :: "json \<Rightarrow> bool" where
  "well_formed (JObject m) \<longleftrightarrow> object_ok m \<and> list_all (\<lambda>(k, v). well_formed v) m"
| "well_formed (JArray xs) \<longleftrightarrow> length xs < 2 ^ 64 - 1 \<and> list_all well_formed xs"
| "well_formed _ \<longleftrightarrow> True"

lemma well_formed_lookup: "well_formed (JObject m) \<Longrightarrow> map_of m k = Some v \<Longrightarrow> well_formed v"
  by (auto simp: list_all_iff dest!: map_of_SomeD)

section \<open>Indices\<close>

lemma array_index_decimal:
  assumes "n < 2 ^ 64 - 1"
  shows "array_index (decimal n) = Inr n"
proof -
  have take: "takeWhile is_digit (decimal n) = decimal n"
    using decimal_all_digits [of n] by (simp add: takeWhile_eq_all_conv list_all_iff)
  have first: "hd (decimal n) \<noteq> CHR ''0''" "CHR ''1'' \<le> hd (decimal n)" "hd (decimal n) \<le> CHR ''9''"
    if "1 < length (decimal n)"
  proof -
    have "0 < n" using that decimal_zero by (cases n) auto
    then have ne: "hd (decimal n) \<noteq> CHR ''0''" by (rule decimal_hd)
    have digit: "is_digit (hd (decimal n))"
      using decimal_all_digits [of n] decimal_not_Nil [of n] by (metis hd_in_set list_all_iff)
    obtain d where d: "hd (decimal n) = digit d" "d < 10" using is_digit_value [OF digit] by blast
    have "digit 0 = CHR ''0''" using decimal_zero by (simp add: decimal.simps)
    with d ne have "d \<noteq> 0" by metis
    with d ne show "hd (decimal n) \<noteq> CHR ''0''" "CHR ''1'' \<le> hd (decimal n)" "hd (decimal n) \<le> CHR ''9''"
      by (auto simp: digit_def less_eq_char_def)
  qed
  have "\<not> (1 < length (decimal n) \<and> hd (decimal n) = CHR ''0'')"
    "\<not> (1 < length (decimal n) \<and> \<not> (CHR ''1'' \<le> hd (decimal n) \<and> hd (decimal n) \<le> CHR ''9''))"
    using first by blast+
  then show ?thesis using assms by (simp only: array_index_def take Let_def) simp
qed

lemma decimal_not_dash [simp]: "decimal n \<noteq> ''-''"
  using decimal_all_digits [of n] by (auto simp: is_digit_def less_eq_char_def)

section \<open>Lens laws\<close>

lemma checked_step_object [simp]:
  "checked_step (JObject m) k = Inr r \<longleftrightarrow>
     (\<exists>v. map_of m k = Some v \<and> r = (v, \<lambda>x. JObject (object_put k x m)))"
  by (auto simp: checked_step_def split: option.split)

lemma checked_step_array [simp]:
  "checked_step (JArray xs) k = Inr r \<longleftrightarrow>
     (\<exists>i < length xs. k \<noteq> ''-'' \<and> array_index k = Inr i \<and> r = (xs ! i, \<lambda>x. JArray (xs[i := x])))"
  by (auto simp: checked_step_def bind_result_Inr_iff dash_out_of_range_def)

lemma checked_step_container:
  assumes "checked_step j k = Inr r"
  obtains (object) m where "j = JObject m" | (elements) xs where "j = JArray xs"
  using assms by (cases j) (auto simp: checked_step_def unresolved_token_def)

text \<open>
  A step that leads to a place: after a write the same token leads to the value written, and a
  second write replaces it. The whole walk then leads to a place.
\<close>

locale reference_step =
  fixes step :: "json \<Rightarrow> string \<Rightarrow> json_ref result"
  assumes step_put: "step j token = Inr (v, put) \<Longrightarrow> step (put x) token = Inr (x, put)"
begin

lemma walk_put: "walk_pointer step ptr j = Inr (v, put) \<Longrightarrow> walk_pointer step ptr (put x) = Inr (x, put)"
proof (induction ptr arbitrary: j put)
  case Nil
  then show ?case by (auto simp: id_def)
next
  case (Cons token ptr)
  then obtain c p p' where c: "step j token = Inr (c, p)" "walk_pointer step ptr c = Inr (v, p')" "put = p \<circ> p'"
    by (auto simp: bind_result_Inr_iff)
  show ?case using step_put [OF c(1)] Cons.IH [OF c(2)] c(3) by (simp add: comp_def)
qed

lemma walk_read_back:
  "walk_pointer step ptr j = Inr (v, put) \<Longrightarrow> walk_pointer step ptr (put x) = Inr (y, put') \<Longrightarrow> y = x \<and> put' = put"
  using walk_put by auto

end

lemma checked_step_put:
  assumes "checked_step j token = Inr (v, put)"
  shows "checked_step (put x) token = Inr (x, put)"
  using assms
proof (cases rule: checked_step_container)
  case (object m)
  with assms have put: "put = (\<lambda>x. JObject (object_put token x m))" by auto
  show ?thesis unfolding put by simp
next
  case (elements xs)
  with assms obtain i where i: "i < length xs" "token \<noteq> ''-''" "array_index token = Inr i"
    and put: "put = (\<lambda>x. JArray (xs[i := x]))" by auto
  with i show ?thesis unfolding put by simp
qed

lemma fill_to_cases:
  assumes "fill_to xs i = Inr (v, put)"
  obtains ys where "i < length ys" "v = ys ! i" "put = (\<lambda>x. JArray (ys[i := x]))"
    "ys = xs \<or> ys = xs @ replicate (i - length xs + 1) JNull"
proof (cases "i < length xs")
  case True
  with assms that [of xs] show ?thesis by (simp add: fill_to_def)
next
  case False
  with assms that [of "xs @ replicate (i - length xs + 1) JNull"] show ?thesis
    by (simp add: fill_to_def Let_def split: if_splits)
qed

lemma fill_to_put:
  assumes "fill_to xs i = Inr (v, put)"
  obtains ys where "put x = JArray ys" "fill_to ys i = Inr (x, put)"
  using assms by (cases rule: fill_to_cases) (auto simp: fill_to_def)

lemma create_step_put:
  assumes "create_step j token = Inr (v, put)"
  shows "create_step (put x) token = Inr (x, put)"
proof (cases j)
  case JNull
  show ?thesis
  proof (cases "token = ''0''")
    case True
    with assms JNull have "fill_to [] 0 = Inr (v, put)" by (simp add: create_step_def)
    then obtain ys where "put x = JArray ys" "fill_to ys 0 = Inr (x, put)" by (rule fill_to_put)
    moreover have "array_index ''0'' = Inr 0" using array_index_decimal [of 0] by (simp add: decimal_zero)
    ultimately show ?thesis using True by (simp add: create_step_def)
  next
    case False
    with assms JNull have "put = (\<lambda>x. JObject (object_put token x []))" by (auto simp: create_step_def)
    then show ?thesis by (simp add: create_step_def)
  qed
next
  case (JArray xs)
  with assms obtain i where i: "array_index token = Inr i" "fill_to xs i = Inr (v, put)"
    by (auto simp: create_step_def bind_result_Inr_iff)
  from i(2) obtain ys where "put x = JArray ys" "fill_to ys i = Inr (x, put)" by (rule fill_to_put)
  with i(1) show ?thesis by (simp add: create_step_def)
next
  case (JObject m)
  with assms have put: "put = (\<lambda>x. JObject (object_put token x m))" by (auto simp: create_step_def)
  show ?thesis unfolding put by (simp add: create_step_def)
qed (use assms in \<open>simp_all add: create_step_def\<close>)

interpretation checked: reference_step checked_step
  by unfold_locales (rule checked_step_put)

interpretation created: reference_step create_step
  by unfold_locales (rule create_step_put)

lemma get_simps [simp]:
  "get_checked [] j = Inr (j, id)"
  "get_checked (token # ptr) j =
     bind_result (checked_step j token) (\<lambda>(v, put).
     bind_result (get_checked ptr v) (\<lambda>(u, put'). Inr (u, put \<circ> put')))"
  "get_unchecked [] j = Inr (j, id)"
  "get_unchecked (token # ptr) j =
     bind_result (unchecked_step j token) (\<lambda>(v, put).
     bind_result (get_unchecked ptr v) (\<lambda>(u, put'). Inr (u, put \<circ> put')))"
  "get_and_create [] j = Inr (j, id)"
  "get_and_create (token # ptr) j =
     bind_result (create_step j token) (\<lambda>(v, put).
     bind_result (get_and_create ptr v) (\<lambda>(u, put'). Inr (u, put \<circ> put')))"
  by (simp_all add: get_checked_def get_unchecked_def get_and_create_def)

lemma get_checked_put: "get_checked ptr j = Inr (v, put) \<Longrightarrow> get_checked ptr (put x) = Inr (x, put)"
  unfolding get_checked_def by (rule checked.walk_put)

lemma get_and_create_put:
  "get_and_create ptr j = Inr (v, put) \<Longrightarrow> get_and_create ptr (put x) = Inr (x, put)"
  unfolding get_and_create_def by (rule created.walk_put)

lemma get_checked_append:
  "get_checked (ptr @ ptr') j =
     bind_result (get_checked ptr j) (\<lambda>(v, put).
     bind_result (get_checked ptr' v) (\<lambda>(u, put'). Inr (u, put \<circ> put')))"
proof (induction ptr arbitrary: j)
  case Nil
  show ?case by (cases "get_checked ptr' j") (auto simp: id_def o_def)
next
  case (Cons token ptr)
  show ?case
  proof (cases "checked_step j token")
    case (Inr r)
    then show ?thesis
      by (cases r; cases "get_checked ptr (fst r)"; cases "get_checked ptr' (fst (projr (get_checked ptr (fst r))))")
         (auto simp: Cons.IH comp_def)
  qed simp
qed

lemma unchecked_step_checked:
  assumes "checked_step j token = Inr r"
  shows "unchecked_step j token = Inr r"
  using assms
proof (cases rule: checked_step_container)
  case (object m)
  with assms show ?thesis by (auto simp: unchecked_step_def)
next
  case (elements xs)
  with assms show ?thesis by (auto simp: unchecked_step_def fill_to_def)
qed

lemma get_unchecked_checked: "get_checked ptr j = Inr r \<Longrightarrow> get_unchecked ptr j = Inr r"
proof (induction ptr arbitrary: j r)
  case (Cons token ptr)
  then obtain c p u p' where c: "checked_step j token = Inr (c, p)" "get_checked ptr c = Inr (u, p')" "r = (u, p \<circ> p')"
    by (auto simp: bind_result_Inr_iff)
  show ?case using unchecked_step_checked [OF c(1)] Cons.IH [OF c(2)] c(3) by simp
qed simp

end
