(* ===== verification/Json_Diff.thy ===== *)
theory Json_Diff
  imports Json_References
begin

text \<open>
  Applying \<open>diff(source, target)\<close> to the source gives the target: every operation \<open>diff\<close> emits
  changes one place of the document, and the operations for a sub-value only change what the
  pointer they start with leads to.
\<close>

section \<open>Operations at a place\<close>

text \<open>
  The operations turn the value a pointer leads to from \<open>v\<close> into \<open>r\<close> and change nothing else.
\<close>

definition turns :: "json list \<Rightarrow> json_pointer \<Rightarrow> json \<Rightarrow> json \<Rightarrow> bool" where
  "turns ops ptr v r \<longleftrightarrow>
     (\<forall>d u put. get_checked ptr d = Inr (u, put) \<longrightarrow> patch_steps ops (put v) = Inr (put r))"

lemma patch_steps_append: "patch_steps (a @ b) d = bind_result (patch_steps a d) (patch_steps b)"
proof (induction a arbitrary: d)
  case (Cons p a)
  then show ?case by (cases "patch_step p d") simp_all
qed simp

lemma turns_Nil [simp]: "turns [] ptr v v"
  by (simp add: turns_def)

lemma turns_append: "turns a ptr v w \<Longrightarrow> turns b ptr w r \<Longrightarrow> turns (a @ b) ptr v r"
  by (simp add: turns_def patch_steps_append)

lemma turns_Cons: "turns [p] ptr v w \<Longrightarrow> turns b ptr w r \<Longrightarrow> turns (p # b) ptr v r"
  using turns_append [of "[p]"] by simp

lemma turns_root: "turns ops [] v r \<Longrightarrow> patch_steps ops v = Inr r"
  by (auto simp: turns_def)

lemma patch_step_operations:
  "patch_step (replace_operation (to_string ptr) v) d = bind_result (get_checked ptr d) (\<lambda>(_, put). Inr (put v))"
  "patch_step (add_operation (to_string ptr) v) d = operation_add ptr v d"
  "patch_step (remove_operation (to_string ptr)) d = operation_remove ptr d"
  by (simp_all add: patch_step_def replace_operation_def add_operation_def remove_operation_def get_string_value_def
      get_value_def get_op_def apply_operation_def)

lemma turns_replace: "turns [replace_operation (to_string ptr) t] ptr s t"
  unfolding turns_def
proof (intro allI impI)
  fix d u put
  assume "get_checked ptr d = Inr (u, put)"
  from get_checked_put [OF this, of s]
  show "patch_steps [replace_operation (to_string ptr) t] (put s) = Inr (put t)"
    by (simp add: patch_step_operations)
qed

lemma operation_remove_at:
  assumes "get_checked ptr d = Inr (parent, put)"
  shows "operation_remove (ptr @ [k]) d = bind_result (remove_from_parent k parent) (\<lambda>parent. Inr (put parent))"
  using assms by (simp add: operation_remove_def pointer_back_def pop_back_def)

lemma get_checked_top:
  assumes "get_checked ptr d = Inr r" "ptr \<noteq> []"
  obtains r' where "get_checked [hd ptr] d = Inr r'"
  using assms by (cases ptr) (auto simp: bind_result_Inr_iff)

lemma operation_add_at:
  assumes "get_checked ptr d = Inr (parent, put)"
  shows "operation_add (ptr @ [k]) v d = bind_result (add_to_parent k v parent) (\<lambda>parent. Inr (put parent))"
proof (cases "ptr = []")
  case True
  with assms show ?thesis
    by (simp add: operation_add_def pointer_top_def pointer_back_def pop_back_def)
next
  case False
  with assms obtain r where "get_checked [hd ptr] d = Inr r" by (rule get_checked_top)
  with False get_unchecked_checked [OF assms] show ?thesis
    by (simp add: operation_add_def pointer_top_def pointer_back_def pop_back_def split: prod.split)
qed

lemma turns_remove:
  assumes "remove_from_parent k v = Inr r"
  shows "turns [remove_operation (to_string (ptr @ [k]))] ptr v r"
  unfolding turns_def
proof (intro allI impI)
  fix d u put
  assume "get_checked ptr d = Inr (u, put)"
  from operation_remove_at [OF get_checked_put [OF this], of k v] assms
  show "patch_steps [remove_operation (to_string (ptr @ [k]))] (put v) = Inr (put r)"
    by (simp only: patch_steps.simps patch_step_operations) simp
qed

lemma turns_add:
  assumes "add_to_parent k x v = Inr r"
  shows "turns [add_operation (to_string (ptr @ [k])) x] ptr v r"
  unfolding turns_def
proof (intro allI impI)
  fix d u put
  assume "get_checked ptr d = Inr (u, put)"
  from operation_add_at [OF get_checked_put [OF this], of k x v] assms
  show "patch_steps [add_operation (to_string (ptr @ [k])) x] (put v) = Inr (put r)"
    by (simp only: patch_steps.simps patch_step_operations) simp
qed

lemma turns_child:
  assumes "turns ops (ptr @ [k]) x r" "checked_step v k = Inr (x, put')" "put' x = v"
  shows "turns ops ptr v (put' r)"
  unfolding turns_def
proof (intro allI impI)
  fix d u put
  assume "get_checked ptr d = Inr (u, put)"
  from get_checked_put [OF this, of v] assms(2)
  have "get_checked (ptr @ [k]) (put v) = Inr (x, put \<circ> put')"
    by (simp add: get_checked_append)
  with assms(1) have "patch_steps ops ((put \<circ> put') x) = Inr ((put \<circ> put') r)"
    unfolding turns_def by blast
  with assms(3) show "patch_steps ops (put v) = Inr (put (put' r))" by simp
qed

lemma turns_element:
  assumes "turns ops (ptr @ [decimal (length zs)]) x r" "length zs < 2 ^ 64 - 1"
  shows "turns ops ptr (JArray (zs @ x # xs)) (JArray (zs @ r # xs))"
  using turns_child [OF assms(1), of "JArray (zs @ x # xs)" "\<lambda>y. JArray ((zs @ x # xs)[length zs := y])"]
    array_index_decimal [OF assms(2)] by simp

lemma turns_member:
  assumes "turns ops (ptr @ [k]) x r" "map_of m k = Some x" "object_ok m"
  shows "turns ops ptr (JObject m) (JObject (object_put k r m))"
proof -
  have "object_put k x m = m"
    using assms(2,3) by (intro object_ext) (auto simp: object_ok_put map_of_object_put)
  with assms(2) show ?thesis
    using turns_child [OF assms(1), of "JObject m" "\<lambda>y. JObject (object_put k y m)"] by simp
qed

section \<open>The passes of \<open>diff\<close>\<close>

lemma remove_remaining_turns:
  "length zs + length xs < 2 ^ 64 - 1 \<Longrightarrow>
   turns (remove_remaining (to_string ptr) (length zs) xs) ptr (JArray (zs @ xs)) (JArray zs)"
proof (induction xs arbitrary: zs)
  case Nil
  then show ?case by simp
next
  case (Cons x xs)
  have "remove_from_parent (decimal (length zs)) (JArray (zs @ [x])) = Inr (JArray zs)"
    using Cons(2) array_index_decimal [of "length zs"] by (simp add: remove_from_parent_def erase_index_def)
  from turns_remove [OF this, of ptr] Cons.IH [of "zs @ [x]"] Cons(2) show ?case
    by (auto intro: turns_append)
qed

lemma add_remaining_turns:
  "turns (add_remaining (to_string ptr) ys) ptr (JArray zs) (JArray (zs @ ys))"
proof (induction ys arbitrary: zs)
  case Nil
  then show ?case by simp
next
  case (Cons y ys)
  have "turns [add_operation (to_string (ptr @ [''-''])) y] ptr (JArray zs) (JArray (zs @ [y]))"
    by (rule turns_add) (simp add: add_to_parent_def)
  then have "turns [add_operation (to_string ptr @ ''/-'') y] ptr (JArray zs) (JArray (zs @ [y]))"
    by (simp add: escape_char_def)
  with Cons.IH [of "zs @ [y]"] show ?case by (auto intro: turns_Cons)
qed

lemma add_missing_turns:
  assumes "object_ok n" "object_ok cur"
  obtains cur' where "object_ok cur'" "turns (add_missing (to_string ptr) m n) ptr (JObject cur) (JObject cur')"
    "\<And>k. map_of cur' k = (if map_of m k = None \<and> map_of n k \<noteq> None then map_of n k else map_of cur k)"
proof -
  have "\<exists>cur'. object_ok cur' \<and> turns (add_missing (to_string ptr) m n) ptr (JObject cur) (JObject cur') \<and>
    (\<forall>k. map_of cur' k = (if map_of m k = None \<and> map_of n k \<noteq> None then map_of n k else map_of cur k))"
    using assms
  proof (induction n arbitrary: cur)
    case Nil
    then show ?case by (auto intro: exI [of _ cur])
  next
    case (Cons e n)
    obtain k v where e: "e = (k, v)" by (cases e)
    have n: "object_ok n" "map_of n k = None" using Cons(2) map_of_Cons_None by (auto simp: e object_ok_Cons)
    show ?case
    proof (cases "map_of m k")
      case None
      have "turns [add_operation (to_string (ptr @ [k])) v] ptr (JObject cur) (JObject (object_put k v cur))"
        by (rule turns_add) (simp add: add_to_parent_def)
      moreover from Cons.IH [OF n(1) object_ok_put [OF Cons(3), of k v]] obtain cur' where
        "object_ok cur'" "turns (add_missing (to_string ptr) m n) ptr (JObject (object_put k v cur)) (JObject cur')"
        "\<forall>l. map_of cur' l = (if map_of m l = None \<and> map_of n l \<noteq> None then map_of n l else map_of (object_put k v cur) l)"
        by blast
      ultimately show ?thesis using None n Cons(3)
        by (intro exI [of _ cur']) (auto simp: e map_of_object_put intro: turns_Cons)
    next
      case (Some u)
      from Cons.IH [OF n(1) Cons(3)] obtain cur' where
        "object_ok cur'" "turns (add_missing (to_string ptr) m n) ptr (JObject cur) (JObject cur')"
        "\<forall>l. map_of cur' l = (if map_of m l = None \<and> map_of n l \<noteq> None then map_of n l else map_of cur l)"
        by blast
      with Some show ?thesis by (intro exI [of _ cur']) (auto simp: e)
    qed
  qed
  then show ?thesis using that by blast
qed

lemma diff_turns:
  "well_formed s \<Longrightarrow> well_formed t \<Longrightarrow> no_nan t \<Longrightarrow> path = to_string ptr \<Longrightarrow>
     \<exists>r. turns (diff s t path) ptr s r \<and> json_eq r t"
  "list_all well_formed xs \<Longrightarrow> list_all well_formed ys \<Longrightarrow> list_all no_nan ys \<Longrightarrow> path = to_string ptr \<Longrightarrow>
     i = length zs \<Longrightarrow> length zs + length xs < 2 ^ 64 - 1 \<Longrightarrow>
     \<exists>rs. turns (diff_elements i xs ys path) ptr (JArray (zs @ xs)) (JArray (zs @ rs @ drop (length ys) xs))
        \<and> list_all2 json_eq rs (take (length xs) ys)"
  "list_all (\<lambda>(k, v). well_formed v) m \<Longrightarrow> list_all (\<lambda>(k, v). well_formed v) n \<Longrightarrow>
     list_all (\<lambda>(k, v). no_nan v) n \<Longrightarrow> path = to_string ptr \<Longrightarrow>
     object_ok cur \<Longrightarrow> object_ok m \<Longrightarrow> (\<forall>(k, v) \<in> set m. map_of cur k = Some v) \<Longrightarrow>
     \<exists>cur'. object_ok cur' \<and> turns (diff_members m n path) ptr (JObject cur) (JObject cur')
        \<and> (\<forall>k. if map_of m k = None then map_of cur' k = map_of cur k
               else rel_option json_eq (map_of cur' k) (map_of n k))"
proof (induction s t path and i xs ys path and m n path arbitrary: ptr and ptr zs and ptr cur
    rule: diff_diff_elements_diff_members.induct)
  case (1 s t path)
  show ?case
  proof (cases "json_eq s t")
    case True
    then show ?thesis by (auto simp: diff.simps(1) intro: exI [of _ s])
  next
    case False
    consider (elements) xs ys where "s = JArray xs" "t = JArray ys"
      | (members) m n where "s = JObject m" "t = JObject n"
      | (other) "diff s t path = [replace_operation path t]"
      using False by (cases s; cases t) (auto simp: diff.simps(1))
    then show ?thesis
    proof cases
      case elements
      have len: "length xs < 2 ^ 64 - 1" using 1(3) elements by simp
      obtain rs where rs: "turns (diff_elements 0 xs ys path) ptr (JArray xs) (JArray (rs @ drop (length ys) xs))"
        "list_all2 json_eq rs (take (length xs) ys)"
        using 1(1) [OF False elements, of ptr "[]"] 1(3-6) len unfolding elements by auto
      have length_rs: "length rs = min (length xs) (length ys)"
        using list_all2_lengthD [OF rs(2)] by simp
      have "turns (remove_remaining path (length rs) (drop (length ys) xs)) ptr
          (JArray (rs @ drop (length ys) xs)) (JArray rs)"
        unfolding 1(6) by (rule remove_remaining_turns) (use len length_rs in auto)
      moreover have "turns (add_remaining path (drop (length xs) ys)) ptr (JArray rs) (JArray (rs @ drop (length xs) ys))"
        unfolding 1(6) by (rule add_remaining_turns)
      ultimately have "turns (diff s t path) ptr s (JArray (rs @ drop (length xs) ys))"
        using False rs(1) length_rs unfolding elements by (auto simp: diff.simps(1) intro!: turns_append)
      moreover have "list_all2 json_eq (rs @ drop (length xs) ys) (take (length xs) ys @ drop (length xs) ys)"
        using rs(2) 1(5) json_eq_refl
        by (intro list_all2_appendI list.rel_refl_strong) (auto simp: elements list_all_iff dest: in_set_dropD)
      ultimately show ?thesis by (auto simp: elements elements_eq_list_all2)
    next
      case members
      have ok: "object_ok m" "object_ok n" using 1(3,4) members by simp_all
      have "\<forall>(k, v) \<in> set m. map_of m k = Some v" using ok(1) by (auto simp: object_ok_def)
      then obtain cur where cur: "object_ok cur" "turns (diff_members m n path) ptr (JObject m) (JObject cur)"
        "\<And>k. if map_of m k = None then map_of cur k = map_of m k else rel_option json_eq (map_of cur k) (map_of n k)"
        using 1(2) [OF False members, of ptr m] 1(3-6) ok unfolding members by auto
      obtain r where r: "object_ok r" "turns (add_missing (to_string ptr) m n) ptr (JObject cur) (JObject r)"
        "\<And>k. map_of r k = (if map_of m k = None \<and> map_of n k \<noteq> None then map_of n k else map_of cur k)"
        using add_missing_turns [OF ok(2) cur(1)] by blast
      have refl: "json_eq v v" if "map_of n k = Some v" for k v
        using 1(5) map_of_SomeD [OF that] by (auto simp: members list_all_iff intro: json_eq_refl)
      have "rel_option json_eq (map_of r k) (map_of n k)" for k
        using cur(3) [of k] r(3) [of k] refl by (cases "map_of m k"; cases "map_of n k") auto
      then have "members_eq r n" using r(1) ok(2) by (simp add: members_eq_list_all2 object_rel)
      moreover have "turns (diff s t path) ptr s (JObject r)"
        using False cur(2) r(2) unfolding members by (auto simp: diff.simps(1) 1(6) intro: turns_append)
      ultimately show ?thesis by (auto simp: members)
    next
      case other
      then show ?thesis using 1 json_eq_refl turns_replace by (metis)
    qed
  qed
next
  case (2 i x xs y ys path)
  have "path @ ''/'' @ decimal i = to_string (ptr @ [decimal i])" using 2(6) by simp
  then obtain r where r: "turns (diff x y (path @ ''/'' @ decimal i)) (ptr @ [decimal i]) x r" "json_eq r y"
    using 2(1) [of "ptr @ [decimal i]"] 2(3-5) by auto
  obtain rs where rs:
    "turns (diff_elements (Suc i) xs ys path) ptr (JArray ((zs @ [r]) @ xs)) (JArray ((zs @ [r]) @ rs @ drop (length ys) xs))"
    "list_all2 json_eq rs (take (length xs) ys)"
    using 2(2) [of ptr "zs @ [r]"] 2(3-8) by auto
  have "turns (diff x y (path @ ''/'' @ decimal i)) ptr (JArray (zs @ x # xs)) (JArray (zs @ r # xs))"
    using r(1) 2(7,8) by (intro turns_element) auto
  with r(2) rs show ?case by (intro exI [of _ "r # rs"]) (auto intro: turns_append)
next
  case (3 i ys path)
  then show ?case by simp
next
  case (4 i x xs path)
  then show ?case by simp
next
  case (5 n path)
  then show ?case by (auto intro: exI [of _ cur])
next
  case (6 k v m n path)
  have path: "path @ ''/'' @ escape k = to_string (ptr @ [k])" using 6(6) by simp
  have k: "map_of cur k = Some v" "map_of m k = None" "object_ok m"
    using 6(8,9) map_of_Cons_None by (auto simp: object_ok_Cons)
  have "\<exists>cur1. object_ok cur1 \<and> turns (case map_of n k of Some u \<Rightarrow> diff v u (path @ ''/'' @ escape k)
      | None \<Rightarrow> [remove_operation (path @ ''/'' @ escape k)]) ptr (JObject cur) (JObject cur1)
    \<and> (\<forall>l. l \<noteq> k \<longrightarrow> map_of cur1 l = map_of cur l) \<and> rel_option json_eq (map_of cur1 k) (map_of n k)"
  proof (cases "map_of n k")
    case None
    have "remove_from_parent k (JObject cur) = Inr (JObject (erase_key k cur))"
      using k(1) by (simp add: remove_from_parent_def)
    then have "turns [remove_operation (path @ ''/'' @ escape k)] ptr (JObject cur) (JObject (erase_key k cur))"
      unfolding path by (rule turns_remove)
    with None 6(7) show ?thesis by (intro exI [of _ "erase_key k cur"]) (simp add: map_of_erase)
  next
    case (Some u)
    then have u: "well_formed u" "no_nan u" using 6(4,5) by (auto simp: list_all_iff dest!: map_of_SomeD)
    then obtain r where r: "turns (diff v u (path @ ''/'' @ escape k)) (ptr @ [k]) v r" "json_eq r u"
      using 6(1) [OF Some, of "ptr @ [k]"] 6(3) path by auto
    from turns_member [OF r(1) k(1) 6(7)] r(2) Some 6(7) show ?thesis
      by (intro exI [of _ "object_put k r cur"]) (simp add: object_ok_put map_of_object_put)
  qed
  then obtain cur1 where cur1: "object_ok cur1" "turns (case map_of n k of Some u \<Rightarrow> diff v u (path @ ''/'' @ escape k)
      | None \<Rightarrow> [remove_operation (path @ ''/'' @ escape k)]) ptr (JObject cur) (JObject cur1)"
    "\<And>l. l \<noteq> k \<Longrightarrow> map_of cur1 l = map_of cur l" "rel_option json_eq (map_of cur1 k) (map_of n k)"
    by blast
  have "map_of cur1 l = Some u" if "(l, u) \<in> set m" for l u
  proof -
    have "l \<noteq> k" using k(2) that by (force simp: map_of_eq_None_iff)
    with cur1(3) 6(9) that show ?thesis by auto
  qed
  then have "\<forall>(l, u) \<in> set m. map_of cur1 l = Some u" by blast
  then obtain cur2 where cur2: "object_ok cur2" "turns (diff_members m n path) ptr (JObject cur1) (JObject cur2)"
    "\<And>l. if map_of m l = None then map_of cur2 l = map_of cur1 l else rel_option json_eq (map_of cur2 l) (map_of n l)"
    using 6(2) [of ptr cur1] 6(3-6) cur1(1) k(3) by auto
  have "turns (diff_members ((k, v) # m) n path) ptr (JObject cur) (JObject cur2)"
    using turns_append [OF cur1(2) cur2(2)] by simp
  moreover have "if map_of ((k, v) # m) l = None then map_of cur2 l = map_of cur l
      else rel_option json_eq (map_of cur2 l) (map_of n l)" for l
    using cur2(3) [of l] cur1(3) [of l] cur1(4) k(2) by (cases "l = k") auto
  ultimately show ?case using cur2(1) by blast
qed

end
