(* ===== verification/Json_Flatten.thy ===== *)
theory Json_Flatten
  imports Json_References
begin

text \<open>
  \<open>unflatten\<close> undoes \<open>flatten\<close>. The leaves of a value by pointer; a document that holds some of
  the leaves and nulls elsewhere; and that writing the next leaf, in the order of the pointers'
  texts, keeps it such a document.
\<close>

section \<open>Leaves\<close>

text \<open>
  No empty container, which \<open>flatten\<close> turns into null, no key 0, which \<open>unflatten\<close> takes for an
  index, and arrays that fit a vector.
\<close>

fun flattenable :: "json \<Rightarrow> bool" where
  "flattenable (JArray xs) \<longleftrightarrow> xs \<noteq> [] \<and> length xs \<le> array_max_size \<and> list_all flattenable xs"
| "flattenable (JObject m) \<longleftrightarrow>
     m \<noteq> [] \<and> object_ok m \<and> list_all (\<lambda>(k, v). k \<noteq> ''0'' \<and> flattenable v) m"
| "flattenable _ \<longleftrightarrow> True"

inductive leaf_at :: "json \<Rightarrow> json_pointer \<Rightarrow> json \<Rightarrow> bool" where
  leaf: "is_primitive v \<Longrightarrow> leaf_at v [] v"
| member: "map_of m k = Some w \<Longrightarrow> leaf_at w p v \<Longrightarrow> leaf_at (JObject m) (k # p) v"
| element: "i < length xs \<Longrightarrow> leaf_at (xs ! i) p v \<Longrightarrow> leaf_at (JArray xs) (decimal i # p) v"

inductive_simps leaf_at_simps:
  "leaf_at (JObject m) p v"
  "leaf_at (JArray xs) p v"
  "leaf_at JNull p v"
  "leaf_at (JBool b) p v"
  "leaf_at (JInt w) p v"
  "leaf_at (JUint w) p v"
  "leaf_at (JFloat w) p v"
  "leaf_at (JString s) p v"
  "leaf_at (JBinary b s) p v"

lemma to_string_inj: "to_string p = to_string q \<longleftrightarrow> p = q"
  by (metis split_to_string sum.inject(2))

lemma leaf_at_primitive: "is_primitive v \<Longrightarrow> leaf_at v p u \<longleftrightarrow> p = [] \<and> u = v"
  by (cases v) (auto simp: leaf_at_simps)

lemma leaf_at_unique: "leaf_at j p v \<Longrightarrow> leaf_at j p u \<Longrightarrow> u = v"
  by (induction arbitrary: u rule: leaf_at.induct) (auto simp: leaf_at_primitive leaf_at_simps decimal_inj)

lemma flattenable_leaf: "flattenable j \<Longrightarrow> \<exists>p v. leaf_at j p v"
proof (induction j rule: flattenable.induct)
  case (1 xs)
  then have "xs ! 0 \<in> set xs" "flattenable (xs ! 0)" by (auto simp: list_all_iff)
  with 1(1) obtain p v where "leaf_at (xs ! 0) p v" by blast
  then show ?case using 1(2) by (auto intro: leaf_at.element [of 0])
next
  case (2 m)
  then obtain k w n where m: "m = (k, w) # n" by (cases m) auto
  with 2(1) [of "(k, w)" k w] 2(2) obtain p v where "leaf_at w p v" by auto
  then have "leaf_at (JObject m) (k # p) v" by (intro leaf_at.member [of _ _ w]) (simp_all add: m)
  then show ?case by blast
qed (rule exI, rule exI, rule leaf_at.leaf, simp)+

section \<open>What \<open>flatten\<close> makes\<close>

text \<open>The entries for the leaves of \<open>j\<close> under the prefix \<open>path\<close> are put, all others stay.\<close>

definition puts_leaves :: "string \<Rightarrow> (json_pointer \<Rightarrow> json \<Rightarrow> bool) \<Rightarrow> (string \<times> json) list \<Rightarrow> (string \<times> json) list \<Rightarrow> bool" where
  "puts_leaves path leaves r r' \<longleftrightarrow>
     object_ok r' \<and> (\<forall>p v. leaves p v \<longrightarrow> map_of r' (path @ to_string p) = Some v)
     \<and> (\<forall>s. (\<nexists>p v. leaves p v \<and> s = path @ to_string p) \<longrightarrow> map_of r' s = map_of r s)"

lemma puts_leaf: "is_primitive v \<Longrightarrow> object_ok r \<Longrightarrow> puts_leaves path (leaf_at v) r (object_put path v r)"
  by (simp add: puts_leaves_def object_ok_put map_of_object_put leaf_at_primitive)

lemma puts_leaves_append:
  assumes "puts_leaves path a r r'" "puts_leaves path b r' r''" "\<And>p v u. a p v \<Longrightarrow> b p u \<Longrightarrow> False"
    "\<And>p v. c p v \<longleftrightarrow> a p v \<or> b p v"
  shows "puts_leaves path c r r''"
  unfolding puts_leaves_def
proof (intro conjI allI impI)
  show "object_ok r''" using assms(2) by (simp add: puts_leaves_def)
next
  fix p v
  assume "c p v"
  then consider "a p v" | "b p v" using assms(4) by blast
  then show "map_of r'' (path @ to_string p) = Some v"
  proof cases
    case 1
    then have "\<nexists>q u. b q u \<and> path @ to_string p = path @ to_string q" using assms(3) by (auto simp: to_string_inj)
    with assms(2) have "map_of r'' (path @ to_string p) = map_of r' (path @ to_string p)"
      unfolding puts_leaves_def by blast
    with 1 assms(1) show ?thesis by (simp add: puts_leaves_def)
  next
    case 2
    with assms(2) show ?thesis by (simp add: puts_leaves_def)
  qed
next
  fix s
  assume "\<nexists>p v. c p v \<and> s = path @ to_string p"
  then have "\<nexists>p v. a p v \<and> s = path @ to_string p" "\<nexists>p v. b p v \<and> s = path @ to_string p"
    using assms(4) by blast+
  with assms(1,2) show "map_of r'' s = map_of r s" unfolding puts_leaves_def by metis
qed

lemma puts_leaves_below:
  assumes "puts_leaves (path @ ''/'' @ escape k) l r r'"
  shows "puts_leaves path (\<lambda>p v. \<exists>q. p = k # q \<and> l q v) r r'"
  unfolding puts_leaves_def
proof (intro conjI allI impI)
  show "object_ok r'" using assms by (simp add: puts_leaves_def)
next
  fix p v
  assume "\<exists>q. p = k # q \<and> l q v"
  with assms show "map_of r' (path @ to_string p) = Some v" by (auto simp: puts_leaves_def to_string_Cons)
next
  fix s
  assume none: "\<nexists>p v. (\<exists>q. p = k # q \<and> l q v) \<and> s = path @ to_string p"
  have "\<nexists>q v. l q v \<and> s = (path @ ''/'' @ escape k) @ to_string q"
  proof (intro notI, elim exE conjE)
    fix q v
    assume "l q v" "s = (path @ ''/'' @ escape k) @ to_string q"
    then have "\<exists>p v. (\<exists>q. p = k # q \<and> l q v) \<and> s = path @ to_string p"
      by (intro exI [of _ "k # q"] exI [of _ v]) (simp add: to_string_Cons)
    with none show False by blast
  qed
  with assms show "map_of r' s = map_of r s" unfolding puts_leaves_def by blast
qed

lemma flatten_puts:
  "flattenable j \<Longrightarrow> object_ok r \<Longrightarrow> puts_leaves path (leaf_at j) r (flatten path j r)"
  "list_all flattenable xs \<Longrightarrow> object_ok r \<Longrightarrow>
     puts_leaves path (\<lambda>p v. \<exists>n < length xs. \<exists>q. p = decimal (i + n) # q \<and> leaf_at (xs ! n) q v) r (flatten_elements path i xs r)"
  "list_all (\<lambda>(k, v). flattenable v) m \<Longrightarrow> object_ok m \<Longrightarrow> object_ok r \<Longrightarrow>
     puts_leaves path (leaf_at (JObject m)) r (flatten_members path m r)"
proof (induction path j r and path i xs r and path m r rule: flatten_flatten_elements_flatten_members.induct)
  case (1 path xs r)
  have "leaf_at (JArray xs) p v \<longleftrightarrow> (\<exists>n < length xs. \<exists>q. p = decimal (0 + n) # q \<and> leaf_at (xs ! n) q v)" for p v
    by (auto simp: leaf_at_simps)
  with 1 show ?case by simp
next
  case (2 path m r)
  then show ?case by (simp add: list_all_iff split_beta)
next
  case (11 path i x xs r)
  let ?r = "flatten (path @ ''/'' @ decimal i) x r"
  have first: "puts_leaves path (\<lambda>p v. \<exists>q. p = decimal i # q \<and> leaf_at x q v) r ?r"
    using puts_leaves_below [of path "decimal i"] 11(1,3,4) by simp
  then have "object_ok ?r" by (simp add: puts_leaves_def)
  with 11(2,3) have rest: "puts_leaves path
      (\<lambda>p v. \<exists>n < length xs. \<exists>q. p = decimal (Suc i + n) # q \<and> leaf_at (xs ! n) q v) ?r (flatten_elements path (Suc i) xs ?r)"
    by simp
  have split: "(\<exists>n < length (x # xs). \<exists>q. p = decimal (i + n) # q \<and> leaf_at ((x # xs) ! n) q v) \<longleftrightarrow>
      (\<exists>q. p = decimal i # q \<and> leaf_at x q v) \<or>
      (\<exists>n < length xs. \<exists>q. p = decimal (Suc i + n) # q \<and> leaf_at (xs ! n) q v)" for p v
    by (auto simp: less_Suc_eq_0_disj)
  show ?case unfolding flatten_elements.simps
    by (rule puts_leaves_append [OF first rest _ split]) (auto simp: decimal_inj)
next
  case (13 path k v m r)
  let ?r = "flatten (path @ ''/'' @ escape k) v r"
  have m: "object_ok m" "map_of m k = None" using 13(4) map_of_Cons_None by (auto simp: object_ok_Cons)
  have first: "puts_leaves path (\<lambda>p u. \<exists>q. p = k # q \<and> leaf_at v q u) r ?r"
    using 13(1,3,5) by (intro puts_leaves_below) simp
  then have "object_ok ?r" by (simp add: puts_leaves_def)
  with 13(2,3) m(1) have rest: "puts_leaves path (leaf_at (JObject m)) ?r (flatten_members path m ?r)" by simp
  have split: "leaf_at (JObject ((k, v) # m)) p u \<longleftrightarrow>
      (\<exists>q. p = k # q \<and> leaf_at v q u) \<or> leaf_at (JObject m) p u" for p u
    using m(2) by (cases p) (auto simp: leaf_at_simps)
  show ?case unfolding flatten_members.simps
    by (rule puts_leaves_append [OF first rest _ split]) (use m(2) in \<open>auto simp: leaf_at_simps\<close>)
qed (simp_all add: puts_leaf, auto simp: puts_leaves_def leaf_at_simps)

section \<open>Documents that hold some of the leaves\<close>

text \<open>\<open>d\<close> has the shape of \<open>j\<close> as far as it goes; null stands for what is not there yet.\<close>

inductive part_of :: "json \<Rightarrow> json \<Rightarrow> bool" where
  nothing: "part_of JNull j"
| whole: "is_primitive v \<Longrightarrow> part_of v v"
| members: "object_ok m' \<Longrightarrow> (\<And>k c. map_of m' k = Some c \<Longrightarrow> \<exists>w. map_of m k = Some w \<and> part_of c w)
    \<Longrightarrow> part_of (JObject m') (JObject m)"
| elements: "length xs' \<le> length xs \<Longrightarrow> (\<And>i. i < length xs' \<Longrightarrow> part_of (xs' ! i) (xs ! i))
    \<Longrightarrow> part_of (JArray xs') (JArray xs)"

inductive_simps part_of_object: "part_of d (JObject m)"
inductive_simps part_of_array: "part_of d (JArray xs)"

lemma part_of_primitive:
  assumes "is_primitive j" "part_of d j" "leaf_at d [] j"
  shows "d = j"
  using assms(2,3,1) by (cases rule: part_of.cases) (auto simp: leaf_at_simps)

lemma part_of_complete:
  "flattenable j \<Longrightarrow> part_of d j \<Longrightarrow> (\<And>p v. leaf_at j p v \<Longrightarrow> leaf_at d p v) \<Longrightarrow> d = j"
proof (induction j arbitrary: d rule: flattenable.induct)
  case (1 xs)
  obtain p v where "leaf_at (JArray xs) p v" using flattenable_leaf [OF 1(2)] by blast
  then have "leaf_at (JArray xs) p v" "leaf_at d p v" using 1(4) by blast+
  with 1(3) obtain xs' where d: "d = JArray xs'" "length xs' \<le> length xs"
    "\<And>i. i < length xs' \<Longrightarrow> part_of (xs' ! i) (xs ! i)"
    by (auto simp: part_of_array leaf_at_simps)
  have "i < length xs' \<and> xs' ! i = xs ! i" if i: "i < length xs" for i
  proof -
    have elem: "leaf_at (xs ! i) p v \<Longrightarrow> i < length xs' \<and> leaf_at (xs' ! i) p v" for p v
      using 1(4) [OF leaf_at.element [OF i]] by (auto simp: d(1) leaf_at_simps decimal_inj)
    have ok: "xs ! i \<in> set xs" "flattenable (xs ! i)" using 1(2) i by (auto simp: list_all_iff)
    then obtain p v where "leaf_at (xs ! i) p v" using flattenable_leaf by blast
    with elem have "i < length xs'" by blast
    then show ?thesis using 1(1) [OF ok] d(3) elem by blast
  qed
  then have "xs' = xs" using d(2) by (metis le_antisym linorder_not_less nth_equalityI order.irrefl)
  then show ?case by (simp add: d(1))
next
  case (2 m)
  obtain p v where "leaf_at (JObject m) p v" using flattenable_leaf [OF 2(2)] by blast
  then have "leaf_at (JObject m) p v" "leaf_at d p v" using 2(4) by blast+
  with 2(3) obtain m' where d: "d = JObject m'" "object_ok m'"
    "\<And>k c. map_of m' k = Some c \<Longrightarrow> \<exists>w. map_of m k = Some w \<and> part_of c w"
    by (auto simp: part_of_object leaf_at_simps)
  have "map_of m' k = map_of m k" for k
  proof (cases "map_of m k")
    case None
    with d(3) [of k] show ?thesis by (cases "map_of m' k") auto
  next
    case (Some w)
    have memb: "leaf_at w p v \<Longrightarrow> \<exists>c. map_of m' k = Some c \<and> leaf_at c p v" for p v
      using 2(4) [OF leaf_at.member [OF Some]] by (auto simp: d(1) leaf_at_simps)
    have ok: "(k, w) \<in> set m" "flattenable w" using map_of_SomeD [OF Some] 2(2) by (auto simp: list_all_iff)
    then obtain p v where "leaf_at w p v" using flattenable_leaf by blast
    with memb obtain c where c: "map_of m' k = Some c" by blast
    with d(3) [OF c] Some have "part_of c w" by simp
    moreover have "leaf_at w p v \<Longrightarrow> leaf_at c p v" for p v using memb c by fastforce
    ultimately have "c = w" using 2(1) [OF ok(1) refl ok(2)] by blast
    with c Some show ?thesis by simp
  qed
  then have "m' = m" using d(2) 2(2) by (intro object_ext) auto
  then show ?case by (simp add: d(1))
qed (rule part_of_primitive, simp, assumption, metis leaf_at.leaf is_primitive.simps)+

section \<open>Writing the next leaf\<close>

lemma append_less: "a @ x < a @ (y :: string) \<longleftrightarrow> x < y"
  by (induction a) simp_all

lemma to_string_less_Cons: "to_string (k # p) < to_string (k # q) \<longleftrightarrow> to_string p < to_string q"
  by (simp add: to_string_Cons append_less)

lemma first_element_less:
  assumes "0 < i"
  shows "to_string (decimal 0 # p) < to_string (decimal i # q)"
proof -
  have "is_digit (hd (decimal i))" using decimal_all_digits [of i] decimal_not_Nil [of i] by (metis hd_in_set list_all_iff)
  then have "CHR ''0'' < hd (decimal i)" using decimal_hd [OF assms] by (auto simp: is_digit_def)
  then show ?thesis by (cases "decimal i") (auto simp: to_string_Cons decimal_zero escape_char_def)
qed

text \<open>
  The leaf \<open>v\<close> of \<open>j\<close> at \<open>p\<close> is written into a part of \<open>j\<close> that has all leaves with a smaller
  pointer: the result is a part of \<open>j\<close>, has the leaf, and keeps the others.
\<close>

definition writes_leaf :: "json \<Rightarrow> json \<Rightarrow> json_pointer \<Rightarrow> json \<Rightarrow> bool" where
  "writes_leaf j d p v \<longleftrightarrow>
     (\<exists>u put. get_and_create p d = Inr (u, put) \<and> part_of (put v) j \<and> leaf_at (put v) p v
        \<and> (\<forall>q w. leaf_at j q w \<longrightarrow> leaf_at d q w \<longrightarrow> leaf_at (put v) q w))"

lemma fill_to_grows:
  assumes "i + 1 \<le> array_max_size"
  obtains ys where "fill_to xs i = Inr (ys ! i, \<lambda>x. JArray (ys[i := x]))" "i < length ys"
    "length ys = max (length xs) (i + 1)" "\<And>n. n < length xs \<Longrightarrow> ys ! n = xs ! n"
    "\<And>n. length xs \<le> n \<Longrightarrow> n < length ys \<Longrightarrow> ys ! n = JNull"
proof (cases "i < length xs")
  case True
  with that [of xs] show ?thesis by (simp add: fill_to_def)
next
  case False
  have "fill_to xs i = Inr ((xs @ replicate (i - length xs + 1) JNull) ! i,
      \<lambda>x. JArray ((xs @ replicate (i - length xs + 1) JNull)[i := x]))"
    using False assms by (simp add: fill_to_def Let_def del: replicate.simps replicate_Suc)
  with False show ?thesis
    by (intro that [of "xs @ replicate (i - length xs + 1) JNull"]) (simp_all add: nth_append del: replicate_Suc)
qed

lemma write_leaf:
  "leaf_at j p v \<Longrightarrow> flattenable j \<Longrightarrow> part_of d j \<Longrightarrow>
     (\<And>q w. leaf_at j q w \<Longrightarrow> to_string q < to_string p \<Longrightarrow> leaf_at d q w) \<Longrightarrow> writes_leaf j d p v"
proof (induction j p v arbitrary: d rule: leaf_at.induct)
  case (leaf v)
  then show ?case by (auto simp: writes_leaf_def leaf_at_primitive part_of.whole)
next
  case (member m k w p v)
  define m' where "m' = members_of d"
  define c where "c = (case map_of m' k of Some c \<Rightarrow> c | None \<Rightarrow> JNull)"
  have key: "k \<noteq> ''0''" "flattenable w"
    using member(4) map_of_SomeD [OF member(1)] by (auto simp: list_all_iff)
  have d: "d = JNull \<and> m' = [] \<or> d = JObject m'" "object_ok m'"
    "\<And>l c. map_of m' l = Some c \<Longrightarrow> \<exists>w. map_of m l = Some w \<and> part_of c w"
    using member(5) by (auto simp: part_of_object m'_def)
  have step: "create_step d k = Inr (c, \<lambda>x. JObject (object_put k x m'))"
    using d(1) key(1) by (auto simp: create_step_def c_def)
  have below: "leaf_at d (k # q) u \<Longrightarrow> leaf_at c q u" for q u
    using d(1) by (auto simp: leaf_at_simps c_def)
  have "part_of c w"
    using d(3) [of k] member(1) by (cases "map_of m' k") (auto simp: c_def intro: part_of.nothing)
  moreover have "leaf_at c q u" if "leaf_at w q u" "to_string q < to_string p" for q u
    using member(6) [OF leaf_at.member [OF member(1) that(1)]] that(2) below by (simp add: to_string_less_Cons)
  ultimately have "writes_leaf w c p v" using member(3) key(2) by blast
  then obtain u put where put: "get_and_create p c = Inr (u, put)" "part_of (put v) w" "leaf_at (put v) p v"
    "\<And>q u. leaf_at w q u \<Longrightarrow> leaf_at c q u \<Longrightarrow> leaf_at (put v) q u"
    unfolding writes_leaf_def by blast
  let ?d = "JObject (object_put k (put v) m')"
  have lookup: "map_of (object_put k (put v) m') = (map_of m')(k \<mapsto> put v)" using d(2) by (rule map_of_object_put)
  have "part_of ?d (JObject m)"
  proof (rule part_of.members)
    fix l a
    assume "map_of (object_put k (put v) m') l = Some a"
    then show "\<exists>w. map_of m l = Some w \<and> part_of a w"
      using d(3) [of l] put(2) member(1) by (cases "l = k") (auto simp: lookup)
  qed (use d(2) in \<open>rule object_ok_put\<close>)
  moreover have "leaf_at ?d (k # p) v" using put(3) by (auto simp: leaf_at_simps)
  moreover have "leaf_at ?d q a" if old: "leaf_at (JObject m) q a" "leaf_at d q a" for q a
  proof -
    obtain l q' x where q: "q = l # q'" "map_of m l = Some x" "leaf_at x q' a" using old(1) by (auto simp: leaf_at_simps)
    show ?thesis
    proof (cases "l = k")
      case True
      with q member(1) have "leaf_at w q' a" by simp
      moreover have "leaf_at c q' a" using below old(2) q(1) True by simp
      ultimately have "leaf_at (put v) q' a" by (rule put(4))
      with q(1) True show ?thesis by (simp add: leaf_at_simps)
    next
      case False
      with old(2) q(1) d(1) show ?thesis by (auto simp: leaf_at_simps lookup)
    qed
  qed
  ultimately show ?case using put(1) step unfolding writes_leaf_def by simp
next
  case (element i xs p v)
  define xs' where "xs' = (case d of JArray xs \<Rightarrow> xs | _ \<Rightarrow> [])"
  have flat: "flattenable (xs ! i)" "length xs \<le> array_max_size" "flattenable (xs ! 0)"
    using element(1,4) by (auto simp: list_all_length)
  have d: "d = JNull \<and> xs' = [] \<or> d = JArray xs'" "length xs' \<le> length xs"
    "\<And>n. n < length xs' \<Longrightarrow> part_of (xs' ! n) (xs ! n)"
    using element(5) by (auto simp: part_of_array xs'_def)
  have zero: "i = 0" if "d = JNull"
  proof (rule ccontr)
    assume "i \<noteq> 0"
    obtain q u where q: "leaf_at (xs ! 0) q u" using flattenable_leaf [OF flat(3)] by blast
    have "leaf_at (JArray xs) (decimal 0 # q) u" using q element(1) by (intro leaf_at.element) auto
    from element(6) [OF this] \<open>i \<noteq> 0\<close> have "leaf_at d (decimal 0 # q) u" by (simp add: first_element_less)
    with that show False by (simp add: leaf_at_simps)
  qed
  have "i + 1 \<le> array_max_size" using element(1) flat(2) by simp
  from fill_to_grows [OF this, of xs'] obtain ys where
    ys: "fill_to xs' i = Inr (ys ! i, \<lambda>x. JArray (ys[i := x]))" "i < length ys" "length ys = max (length xs') (i + 1)"
      "\<And>n. n < length xs' \<Longrightarrow> ys ! n = xs' ! n" "\<And>n. length xs' \<le> n \<Longrightarrow> n < length ys \<Longrightarrow> ys ! n = JNull"
    by blast
  have "i < 2 ^ 64 - 1" using element(1) flat(2) by (simp add: array_max_size_def)
  then have "array_index (decimal i) = Inr i" by (rule array_index_decimal)
  then have step: "create_step d (decimal i) = Inr (ys ! i, \<lambda>x. JArray (ys[i := x]))"
    using d(1) zero ys(1) by (auto simp: create_step_def decimal_zero)
  have part: "part_of (ys ! n) (xs ! n)" if "n < length ys" for n
    using d(3) [of n] ys(4,5) [of n] that by (cases "n < length xs'") (auto intro: part_of.nothing)
  have below: "leaf_at d (decimal n # q) u \<Longrightarrow> n < length ys \<and> leaf_at (ys ! n) q u" for n q u
    using d(1) ys(3,4) by (auto simp: leaf_at_simps decimal_inj)
  have "leaf_at (ys ! i) q u" if "leaf_at (xs ! i) q u" "to_string q < to_string p" for q u
    using element(6) [OF leaf_at.element [OF element(1) that(1)]] that(2) below by (simp add: to_string_less_Cons)
  then have "writes_leaf (xs ! i) (ys ! i) p v" using element(3) flat(1) part [OF ys(2)] by blast
  then obtain u put where put: "get_and_create p (ys ! i) = Inr (u, put)" "part_of (put v) (xs ! i)" "leaf_at (put v) p v"
    "\<And>q u. leaf_at (xs ! i) q u \<Longrightarrow> leaf_at (ys ! i) q u \<Longrightarrow> leaf_at (put v) q u"
    unfolding writes_leaf_def by blast
  let ?d = "JArray (ys[i := put v])"
  have "part_of ?d (JArray xs)"
    using part put(2) d(2) ys(3) element(1) by (intro part_of.elements) (auto simp: nth_list_update)
  moreover have "leaf_at ?d (decimal i # p) v" using put(3) ys(2) by (intro leaf_at.element) simp_all
  moreover have "leaf_at ?d q a" if old: "leaf_at (JArray xs) q a" "leaf_at d q a" for q a
  proof -
    obtain n q' where q: "q = decimal n # q'" "leaf_at (xs ! n) q' a" using old(1) by (auto simp: leaf_at_simps)
    have n: "n < length ys" "leaf_at (ys ! n) q' a" using below old(2) q(1) by auto
    then have "leaf_at (ys[i := put v] ! n) q' a"
      using put(4) q(2) by (cases "n = i") auto
    with n(1) q(1) show ?thesis by (auto intro: leaf_at.element)
  qed
  ultimately show ?case using put(1) step unfolding writes_leaf_def by simp
qed

section \<open>Every leaf in the order of the map\<close>

lemma unflatten_parts:
  assumes "flattenable j" "sorted (map fst (m0 @ m))" "distinct (map fst (m0 @ m))"
    "\<And>s v. (s, v) \<in> set (m0 @ m) \<longleftrightarrow> (\<exists>p. s = to_string p \<and> leaf_at j p v)"
    "part_of d j" "\<And>p v. leaf_at j p v \<Longrightarrow> to_string p \<in> fst ` set m0 \<Longrightarrow> leaf_at d p v"
  shows "unflatten_members m d = Inr j"
  using assms(2-)
proof (induction m arbitrary: m0 d)
  case Nil
  have "leaf_at d p v" if "leaf_at j p v" for p v
    using Nil(3) [of "to_string p" v] Nil(5) [OF that] that by force
  with part_of_complete [OF assms(1) Nil(4)] show ?case by simp
next
  case (Cons e m)
  obtain s v where e: "e = (s, v)" by (cases e)
  from Cons(4) [of s v] obtain p where p: "s = to_string p" "leaf_at j p v" by (auto simp: e)
  have prim: "is_primitive v" using p(2) by (induction rule: leaf_at.induct) auto
  have "leaf_at d q w" if "leaf_at j q w" "to_string q < to_string p" for q w
  proof -
    have "(to_string q, w) \<in> set (m0 @ e # m)" using Cons(4) that(1) by blast
    moreover have "to_string q \<notin> fst ` set (e # m)"
      using Cons(2) that(2) by (auto simp: e p(1) sorted_append)
    ultimately have "to_string q \<in> fst ` set m0" by force
    with Cons(6) that(1) show ?thesis by blast
  qed
  then have "writes_leaf j d p v" using write_leaf [OF p(2) assms(1) Cons(5)] by blast
  then obtain u put where put: "get_and_create p d = Inr (u, put)" "part_of (put v) j" "leaf_at (put v) p v"
    "\<And>q w. leaf_at j q w \<Longrightarrow> leaf_at d q w \<Longrightarrow> leaf_at (put v) q w"
    unfolding writes_leaf_def by blast
  have "unflatten_members m (put v) = Inr j"
  proof (rule Cons.IH [of "m0 @ [e]"])
    fix q w
    assume q: "leaf_at j q w" "to_string q \<in> fst ` set (m0 @ [e])"
    then consider "to_string q \<in> fst ` set m0" | "q = p" by (auto simp: e p(1) to_string_inj)
    then show "leaf_at (put v) q w"
    proof cases
      case 1
      with q(1) Cons(6) put(4) show ?thesis by blast
    next
      case 2
      with q(1) p(2) have "w = v" using leaf_at_unique by blast
      with 2 put(3) show ?thesis by simp
    qed
  qed (use Cons(2,3,4) put(2) in simp_all)
  then show ?case by (simp add: e prim p(1) put(1))
qed

lemma unflatten_flatten:
  assumes "flattenable j"
  shows "json_unflatten (json_flatten j) = Inr j"
proof -
  let ?m = "flatten [] j []"
  have m: "object_ok ?m" "\<And>p v. leaf_at j p v \<Longrightarrow> map_of ?m (to_string p) = Some v"
    "\<And>s. (\<nexists>p v. leaf_at j p v \<and> s = to_string p) \<Longrightarrow> map_of ?m s = None"
    using flatten_puts(1) [OF assms object_ok_Nil, of "[]"] by (auto simp: puts_leaves_def)
  have "(s, v) \<in> set ?m \<longleftrightarrow> (\<exists>p. s = to_string p \<and> leaf_at j p v)" for s v
  proof -
    have "(s, v) \<in> set ?m \<longleftrightarrow> map_of ?m s = Some v" using m(1) by (simp add: object_ok_def)
    also have "\<dots> \<longleftrightarrow> (\<exists>p. s = to_string p \<and> leaf_at j p v)" using m(2) m(3) [of s] by fastforce
    finally show ?thesis .
  qed
  then have "unflatten_members ?m JNull = Inr j"
    using m(1) assms by (intro unflatten_parts [of j "[]"]) (auto simp: object_ok_def intro: part_of.nothing)
  then show ?thesis by (simp add: json_flatten_def)
qed

end
