(* ===== verification/Json_Patch_Properties.thy ===== *)
theory Json_Patch_Properties
  imports Json_Diff Json_Flatten
begin

text \<open>
  What JSON pointers, patches and merge patches promise: the text form of a pointer, when a
  pointer resolves, that a diff patches its source into its target, and the algorithm of a
  merge patch; with the inputs on which the code does not do what its documentation says.
\<close>

section \<open>Resolving\<close>

lemma array_index_Inr:
  assumes "array_index s = Inr i"
  shows "s \<noteq> []" "list_all is_digit s" "1 < length s \<Longrightarrow> CHR ''1'' \<le> hd s \<and> hd s \<le> CHR ''9''"
proof -
  have head: "\<not> (1 < length s \<and> \<not> (CHR ''1'' \<le> hd s \<and> hd s \<le> CHR ''9''))"
    and take: "takeWhile is_digit s \<noteq> []" "length (takeWhile is_digit s) = length s"
    using assms by (auto simp: array_index_def Let_def unresolved_token_def split: if_splits)
  from take(2) have "takeWhile is_digit s = s" by (metis append_eq_conv_conj take_all takeWhile_eq_take order_refl)
  then show "list_all is_digit s" by (simp add: takeWhile_eq_all_conv list_all_iff)
  from take(1) show "s \<noteq> []" by auto
  show "1 < length s \<Longrightarrow> CHR ''1'' \<le> hd s \<and> hd s \<le> CHR ''9''" using head by blast
qed

lemma contains_step_array:
  "contains_step (JArray xs) k = Inr (Some v) \<longleftrightarrow>
     k \<noteq> ''-'' \<and> (\<exists>i < length xs. array_index k = Inr i \<and> v = xs ! i)"
proof
  assume "contains_step (JArray xs) k = Inr (Some v)"
  then show "k \<noteq> ''-'' \<and> (\<exists>i < length xs. array_index k = Inr i \<and> v = xs ! i)"
    by (auto simp: contains_step_def bind_result_Inr_iff split: if_splits)
next
  assume "k \<noteq> ''-'' \<and> (\<exists>i < length xs. array_index k = Inr i \<and> v = xs ! i)"
  then obtain i where i: "k \<noteq> ''-''" "i < length xs" "array_index k = Inr i" "v = xs ! i" by blast
  note k = array_index_Inr [OF i(3)]
  have "''0'' \<le> k \<and> k \<le> ''9''" if "length k = 1"
    using that k(2) by (auto simp: length_Suc_conv is_digit_def)
  moreover have "list_all is_digit (tl k)" using k(2) by (cases k) auto
  ultimately show "contains_step (JArray xs) k = Inr (Some v)"
    using i k(3) by (auto simp: contains_step_def)
qed

lemma contains_step_checked:
  "contains_step j k = Inr (Some v) \<longleftrightarrow> (\<exists>put. checked_step j k = Inr (v, put))"
proof (cases j)
  case (JArray xs)
  then show ?thesis by (auto simp: contains_step_array)
next
  case (JObject m)
  then show ?thesis by (auto simp: contains_step_def split: option.splits)
qed (auto simp: contains_step_def checked_step_def unresolved_token_def)

lemma const_step_checked: "checked_step j k = Inr (v, put) \<Longrightarrow> const_step j k = Inr v"
proof -
  assume step: "checked_step j k = Inr (v, put)"
  then show ?thesis by (cases rule: checked_step_container) (use step in \<open>auto simp: const_step_def\<close>)
qed

lemma get_const_checked: "get_checked ptr j = Inr (v, put) \<Longrightarrow> get_unchecked_const ptr j = Inr v"
proof (induction ptr arbitrary: j put)
  case (Cons k ptr)
  then obtain c p p' where c: "checked_step j k = Inr (c, p)" "get_checked ptr c = Inr (v, p')"
    by (auto simp: bind_result_Inr_iff)
  show ?case using const_step_checked [OF c(1)] Cons.IH [OF c(2)] by simp
qed simp

lemma contains_checked: "pointer_contains ptr j = Inr True \<longleftrightarrow> (\<exists>r. get_checked ptr j = Inr r)"
proof (induction ptr arbitrary: j)
  case (Cons k ptr)
  show ?case
  proof (cases "\<exists>v. contains_step j k = Inr (Some v)")
    case True
    then obtain v put where v: "contains_step j k = Inr (Some v)" "checked_step j k = Inr (v, put)"
      using contains_step_checked by blast
    then show ?thesis by (auto simp: Cons.IH bind_result_Inr_iff)
  next
    case False
    then have "\<nexists>r. checked_step j k = Inr r" using contains_step_checked [of j k] by (metis surj_pair)
    with False show ?thesis by (auto simp: bind_result_Inr_iff split: option.splits)
  qed
qed simp

section \<open>Diffs\<close>

lemma diff_gives_target:
  assumes "well_formed source" "well_formed target" "no_nan target"
  shows "\<exists>r. json_patch source (json_diff source target) = Inr r \<and> json_eq r target"
proof -
  have "[] = to_string []" by simp
  from diff_turns(1) [OF assms this] show ?thesis
    by (auto simp: json_patch_def json_diff_def dest: turns_root)
qed

section \<open>Merging\<close>

lemma members_of_ok: "well_formed j \<Longrightarrow> object_ok (members_of j)"
  by (cases j) auto

lemma merge_members_lookup:
  assumes "object_ok m" "object_ok p"
  shows "object_ok (merge_members m p)"
    "map_of (merge_members m p) k =
       (case map_of p k of
          None \<Rightarrow> map_of m k
        | Some v \<Rightarrow> if v = JNull then None
                   else Some (merge_patch (case map_of m k of Some x \<Rightarrow> x | None \<Rightarrow> JNull) v))"
proof -
  have "object_ok (merge_members m p) \<and> map_of (merge_members m p) k =
       (case map_of p k of
          None \<Rightarrow> map_of m k
        | Some v \<Rightarrow> if v = JNull then None
                   else Some (merge_patch (case map_of m k of Some x \<Rightarrow> x | None \<Rightarrow> JNull) v))"
    using assms
  proof (induction p arbitrary: m)
    case (Cons e p)
    obtain l v where e: "e = (l, v)" by (cases e)
    have p: "object_ok p" "map_of p l = None" using Cons(3) map_of_Cons_None by (auto simp: e object_ok_Cons)
    let ?m = "if v = JNull then erase_key l m
      else object_put l (merge_patch (case map_of m l of Some x \<Rightarrow> x | None \<Rightarrow> JNull) v) m"
    have "object_ok ?m" using Cons(2) by (simp add: object_ok_put)
    note IH = Cons.IH [OF this p(1)]
    have other: "map_of ?m k = map_of m k" if "k \<noteq> l"
      using Cons(2) that by (simp add: map_of_erase map_of_object_put)
    show ?case
    proof (cases "k = l")
      case True
      with IH p(2) Cons(2) show ?thesis by (simp add: e map_of_erase map_of_object_put)
    next
      case False
      from IH show ?thesis unfolding e merge_members.simps other [OF False] using False by simp
    qed
  qed simp
  then show "object_ok (merge_members m p)" "map_of (merge_members m p) k =
       (case map_of p k of
          None \<Rightarrow> map_of m k
        | Some v \<Rightarrow> if v = JNull then None
                   else Some (merge_patch (case map_of m k of Some x \<Rightarrow> x | None \<Rightarrow> JNull) v))"
    by blast+
qed

lemma merge_members_again:
  assumes ok: "object_ok m" "object_ok p"
    and again: "\<And>k v x. map_of p k = Some v \<Longrightarrow> map_of m k = Some x \<or> x = JNull \<Longrightarrow>
      merge_patch (merge_patch x v) v = merge_patch x v"
  shows "merge_members (merge_members m p) p = merge_members m p"
proof (rule object_ext)
  note once = merge_members_lookup [OF ok]
  note twice = merge_members_lookup [OF once(1) ok(2)]
  show "object_ok (merge_members (merge_members m p) p)" "object_ok (merge_members m p)"
    by (fact twice(1), fact once(1))
  show "map_of (merge_members (merge_members m p) p) = map_of (merge_members m p)"
  proof
    fix k
    show "map_of (merge_members (merge_members m p) p) k = map_of (merge_members m p) k"
      using again [of k] by (auto simp: once(2) twice(2) split: option.split)
  qed
qed

text \<open>Merging a patch a second time changes nothing.\<close>

lemma merge_patch_again:
  "well_formed j \<Longrightarrow> well_formed p \<Longrightarrow> merge_patch (merge_patch j p) p = merge_patch j p"
proof (induction p arbitrary: j rule: well_formed.induct)
  case (1 p)
  have "merge_members (merge_members (members_of j) p) p = merge_members (members_of j) p"
  proof (rule merge_members_again)
    show "object_ok (members_of j)" "object_ok p" using 1 by (simp_all add: members_of_ok)
    fix k v x
    assume v: "map_of p k = Some v" and x: "map_of (members_of j) k = Some x \<or> x = JNull"
    have "well_formed x"
      using x 1(2) well_formed_lookup [of "members_of j" k x] by (cases j) auto
    moreover have "well_formed v" using 1(3) v by (rule well_formed_lookup)
    ultimately show "merge_patch (merge_patch x v) v = merge_patch x v"
      using 1(1) map_of_SomeD [OF v] by blast
  qed
  then show ?case by simp
qed simp_all

section \<open>Properties\<close>

text \<open>
  C27. Parsing a pointer is the inverse of printing it. The constructor of json_pointer accepts
  a text exactly if it is what to_string prints for some list of reference tokens, whatever
  slashes, tildes or bytes the tokens hold, and the pointer it makes is that list.
\<close>

theorem pointer_text: "split_pointer s = Inr ptr \<longleftrightarrow> s = to_string ptr"
  using split_pointer_Inr by auto

text \<open>
  C28. The documented invariant of diff, source.patch(diff(source, target)) == target, for all
  values without NaN in the target: the patch that diff makes applies to the source without an
  error and gives a value that operator== calls equal to the target. The values are those the
  library builds: objects are sorted maps, arrays shorter than the largest index.
\<close>

theorem diff_patches_source:
  assumes "well_formed source" "well_formed target" "no_nan target"
  shows "\<exists>r. json_patch source (json_diff source target) = Inr r \<and> json_eq r target"
  by (rule diff_gives_target [OF assms])

theorem diff_patches_source_witness:
  "\<exists>r. json_patch (JObject [(''a'', JArray [JUint 1, JUint 2]), (''b'', JNull)])
         (json_diff (JObject [(''a'', JArray [JUint 1, JUint 2]), (''b'', JNull)])
            (JObject [(''a'', JArray [JInt 1]), (''c/d'', JBool True)])) = Inr r
       \<and> json_eq r (JObject [(''a'', JArray [JInt 1]), (''c/d'', JBool True)])"
  by (rule diff_patches_source) (simp_all add: object_ok_def less_list_code less_char_def)

text \<open>
  C29. merge_patch follows the algorithm of RFC 7396. Merging an object into any value gives an
  object, again a sorted map, whose members are for each key: the target's if the patch does
  not name the key, none if the patch gives null, and otherwise the patch's value merged into
  the target's, or into null if the target has none or is not an object.
\<close>

theorem merge_patch_algorithm:
  assumes "object_ok (members_of target)" "object_ok p"
  shows "\<exists>m. merge_patch target (JObject p) = JObject m \<and> object_ok m \<and>
    (\<forall>k. map_of m k =
       (case map_of p k of
          None \<Rightarrow> map_of (members_of target) k
        | Some v \<Rightarrow> if v = JNull then None
                   else Some (merge_patch (case map_of (members_of target) k of Some x \<Rightarrow> x | None \<Rightarrow> JNull) v)))"
  using merge_members_lookup [OF assms] by simp

theorem merge_patch_algorithm_witness:
  "\<exists>m. merge_patch (JUint 3) (JObject [(''a'', JNull), (''b'', JUint 1)]) = JObject m \<and> object_ok m
     \<and> map_of m ''a'' = None \<and> map_of m ''b'' = Some (JUint 1)"
proof -
  have "object_ok (members_of (JUint 3))" "object_ok [(''a'', JNull), (''b'', JUint 1)]"
    by (simp_all add: object_ok_def less_list_code less_char_def)
  from merge_patch_algorithm [OF this] show ?thesis by auto
qed

text \<open>
  C30. The documented round trip of flatten and unflatten, with the condition it needs: no empty
  container, which flatten turns into null, and no object key 0, which unflatten takes for an
  index. unflatten sees the leaves in the order of the pointers' texts, so that /10 comes
  before /2; it fills the arrays with nulls and still makes every value again.
\<close>

theorem flatten_unflatten:
  assumes "flattenable j"
  shows "json_unflatten (json_flatten j) = Inr j"
  using assms by (rule unflatten_flatten)

theorem flatten_unflatten_witness:
  "json_unflatten (json_flatten (JArray [JObject [(''a/b'', JUint 1), (''c~'', JArray [JNull])], JBool True])) =
     Inr (JArray [JObject [(''a/b'', JUint 1), (''c~'', JArray [JNull])], JBool True])"
  by (rule flatten_unflatten) (simp_all add: object_ok_def less_list_code less_char_def array_max_size_def)

text \<open>
  \<open>contains\<close> is true exactly if \<open>at\<close> finds a value, and then \<open>operator[]\<close> refers to the same
  place, on a mutable value without creating anything and on a constant one without undefined
  behaviour.
\<close>

theorem contained_pointer_resolves:
  "pointer_contains ptr j = Inr True \<longleftrightarrow>
     (\<exists>v put. get_checked ptr j = Inr (v, put) \<and> get_unchecked ptr j = Inr (v, put)
        \<and> get_unchecked_const ptr j = Inr v)"
proof
  assume "pointer_contains ptr j = Inr True"
  then obtain v put where "get_checked ptr j = Inr (v, put)" by (auto simp: contains_checked)
  then show "\<exists>v put. get_checked ptr j = Inr (v, put) \<and> get_unchecked ptr j = Inr (v, put)
      \<and> get_unchecked_const ptr j = Inr v"
    using get_unchecked_checked get_const_checked by blast
qed (auto simp: contains_checked)

text \<open>\<open>diff\<close> makes the empty patch for equal values only.\<close>

theorem diff_empty:
  assumes "well_formed source" "well_formed target" "no_nan target"
  shows "json_diff source target = JArray [] \<longleftrightarrow> json_eq source target"
proof
  assume "json_diff source target = JArray []"
  with diff_gives_target [OF assms] show "json_eq source target" by (simp add: json_patch_def)
next
  assume "json_eq source target"
  then show "json_diff source target = JArray []" by (simp add: json_diff_def diff.simps(1))
qed

section \<open>Where the code and its documentation part\<close>

text \<open>A negative and an unsigned integer with the same bits are equal.\<close>

theorem negative_equals_unsigned: "json_eq (JInt (- 1)) (JUint (2 ^ 64 - 1))"
  by simp

text \<open>Nothing equals NaN, so no patch can satisfy the invariant of \<open>diff\<close> for it.\<close>

theorem nan_equals_nothing: "isnan w \<Longrightarrow> \<not> json_eq r (JFloat w)"
  by (cases r) (simp_all add: float_eq_def)

text \<open>
  Below a primitive value an addition fails an assertion, a removal is silently skipped; below
  a missing member an addition creates the parents.
\<close>

lemma patch_single: "json_patch j (JArray [p]) = patch_step p j"
  by (cases "patch_step p j") (simp_all add: json_patch_def)

lemma pointer_literals:
  "''/a/b'' = to_string [''a'', ''b'']" "''/a/b/c'' = to_string [''a'', ''b'', ''c'']" "''/-'' = to_string [''-'']"
  by (simp_all add: to_string_Cons escape_char_def)

theorem add_below_primitive:
  "json_patch (JObject [(''a'', JUint 1)]) (JArray [add_operation ''/a/b'' JNull]) = Inl Terminate"
  unfolding patch_single pointer_literals patch_step_operations
  by (simp add: operation_add_def pointer_top_def pointer_back_def pop_back_def checked_step_def unchecked_step_def
      add_to_parent_def)

theorem remove_below_primitive:
  "json_patch (JObject [(''a'', JUint 1)]) (JArray [remove_operation ''/a/b'']) = Inr (JObject [(''a'', JUint 1)])"
  unfolding patch_single pointer_literals patch_step_operations
  by (simp add: operation_remove_def pointer_back_def pop_back_def checked_step_def remove_from_parent_def)

theorem add_creates_parents:
  "json_patch (JObject [(''a'', JObject [])]) (JArray [add_operation ''/a/b/c'' JNull]) =
     Inr (JObject [(''a'', JObject [(''b'', JObject [(''c'', JNull)])])])"
  unfolding patch_single pointer_literals patch_step_operations
  by (simp add: operation_add_def pointer_top_def pointer_back_def pop_back_def checked_step_def unchecked_step_def
      add_to_parent_def)

text \<open>A one-character index that is no digit leaves the library as \<open>std::invalid_argument\<close>.\<close>

theorem dash_removal_throws:
  "json_patch (JArray [JNull]) (JArray [remove_operation ''/-'']) = Inl (Throw (Invalid_argument ''stoull''))"
  unfolding patch_single pointer_literals patch_step_operations
  by (simp add: operation_remove_def pointer_back_def pop_back_def remove_from_parent_def array_index_def is_digit_def
      less_eq_char_def)

theorem contains_throws:
  "pointer_contains [''''] (JArray []) = Inl (Throw (Invalid_argument ''stoull''))"
  by (simp add: contains_step_def array_index_def)

text \<open>An object whose first key is 0 comes back from \<open>flatten\<close> and \<open>unflatten\<close> as an array.\<close>

theorem unflatten_makes_array:
  "json_unflatten (json_flatten (JObject [(''0'', JUint 1)])) = Inr (JArray [JUint 1])"
proof -
  have "split_pointer ''/0'' = Inr [''0'']"
    using split_to_string [of "[''0'']"] by (simp add: to_string_Cons escape_char_def)
  then show ?thesis
    by (simp add: json_flatten_def escape_char_def create_step_def fill_to_def array_max_size_def)
qed

end
