(* ===== verification/Fmt_Color.thy ===== *)
theory Fmt_Color
  imports Server_Prelude
begin

text \<open>
  The part of \<open>fmt/color.h\<close> the logger prints with: colours, text styles and how they combine,
  the ANSI escape sequences, and \<open>vformat_to\<close>, which puts them around a formatted text.
\<close>

unbundle bit_operations_syntax

section \<open>Colours and styles\<close>

definition color_black :: "32 word" where "color_black = 0x000000"
definition color_green :: "32 word" where "color_green = 0x008000"
definition color_aqua :: "32 word" where "color_aqua = 0x00FFFF"
definition color_gold :: "32 word" where "color_gold = 0xFFD700"
definition color_pink :: "32 word" where "color_pink = 0xFFC0CB"
definition color_red :: "32 word" where "color_red = 0xFF0000"
definition color_white :: "32 word" where "color_white = 0xFFFFFF"

record rgb =
  r_of :: byte
  g_of :: byte
  b_of :: byte

definition rgb_of :: "32 word \<Rightarrow> rgb" where
  "rgb_of hex =
     \<lparr>r_of = ucast (drop_bit 16 hex AND 0xFF), g_of = ucast (drop_bit 8 hex AND 0xFF),
      b_of = ucast (hex AND 0xFF)\<rparr>"

datatype color_type = RgbColor "32 word" | TermColor byte

definition color_type_of_rgb :: "rgb \<Rightarrow> color_type" where
  "color_type_of_rgb c =
     RgbColor (push_bit 16 (ucast (r_of c)) OR push_bit 8 (ucast (g_of c)) OR ucast (b_of c))"

definition emphasis_bold :: byte where "emphasis_bold = 1"
definition emphasis_italic :: byte where "emphasis_italic = 2"
definition emphasis_underline :: byte where "emphasis_underline = 4"
definition emphasis_strikethrough :: byte where "emphasis_strikethrough = 8"

record text_style =
  foreground_color :: "color_type option"
  background_color :: "color_type option"
  ems :: byte

definition style_of_emphasis :: "byte \<Rightarrow> text_style" where
  "style_of_emphasis em = \<lparr>foreground_color = None, background_color = None, ems = em\<rparr>"

definition fg :: "color_type \<Rightarrow> text_style" where
  "fg c = \<lparr>foreground_color = Some c, background_color = None, ems = 0\<rparr>"

definition bg :: "color_type \<Rightarrow> text_style" where
  "bg c = \<lparr>foreground_color = None, background_color = Some c, ems = 0\<rparr>"

text \<open>One colour slot of \<open>operator|=\<close>; two set colours combine only when both are RGB.\<close>

fun merge_color :: "color_type option \<Rightarrow> color_type option \<Rightarrow> color_type option result" where
  "merge_color None rhs = Inr rhs"
| "merge_color (Some c) None = Inr (Some c)"
| "merge_color (Some (RgbColor a)) (Some (RgbColor b)) = Inr (Some (RgbColor (a OR b)))"
| "merge_color (Some a) (Some b) = Inl (Throw (Format_error ''can't OR a terminal color''))"

definition style_or :: "text_style \<Rightarrow> text_style \<Rightarrow> text_style result" where
  "style_or lhs rhs =
     bind_result (merge_color (foreground_color lhs) (foreground_color rhs)) (\<lambda>f.
     bind_result (merge_color (background_color lhs) (background_color rhs)) (\<lambda>b.
       Inr \<lparr>foreground_color = f, background_color = b, ems = ems lhs OR ems rhs\<rparr>))"

section \<open>Escape sequences\<close>

definition to_esc :: "byte \<Rightarrow> char \<Rightarrow> string" where
  "to_esc c delimiter =
     [digit (unat c div 100), digit (unat c div 10 mod 10), digit (unat c mod 10), delimiter]"

definition ESC :: char where "ESC = CHR 0x1B"

text \<open>\<open>ansi_color_escape(color, esc)\<close>; the text ends before the NUL the constructor stores.\<close>

fun color_escape :: "color_type \<Rightarrow> string \<Rightarrow> string" where
  "color_escape (TermColor v) esc =
     (let value = unat v + (if esc = ESC # ''[48;2;'' then 10 else 0);
          hundred = (if value \<ge> 100 then ''1'' else []);
          rest = (if value \<ge> 100 then value mod 100 else value)
      in [ESC, CHR ''[''] @ hundred @ [digit (rest div 10), digit (rest mod 10), CHR ''m''])"
| "color_escape (RgbColor v) esc =
     (let c = rgb_of v in
      take 7 esc @ to_esc (r_of c) CHR '';'' @ to_esc (g_of c) CHR '';'' @ to_esc (b_of c) CHR ''m'')"

definition emphasis_escape :: "byte \<Rightarrow> string" where
  "emphasis_escape em =
     concat (map (\<lambda>(bit, code). if em AND bit \<noteq> 0 then [ESC, CHR ''['', digit code, CHR ''m''] else [])
       [(emphasis_bold, 1), (emphasis_italic, 3), (emphasis_underline, 4), (emphasis_strikethrough, 9)])"

definition make_foreground_color :: "color_type \<Rightarrow> string" where
  "make_foreground_color c = color_escape c (ESC # ''[38;2;'')"

definition make_background_color :: "color_type \<Rightarrow> string" where
  "make_background_color c = color_escape c (ESC # ''[48;2;'')"

definition reset_color :: string where "reset_color = ESC # ''[0m''"

text \<open>\<open>vformat_to(buf, style, format, args)\<close>, given the text the format and its arguments make.\<close>

definition vformat_to :: "text_style \<Rightarrow> string \<Rightarrow> string" where
  "vformat_to ts formatted =
     (if ems ts \<noteq> 0 then emphasis_escape (ems ts) else [])
       @ (case foreground_color ts of Some c \<Rightarrow> make_foreground_color c | None \<Rightarrow> [])
       @ (case background_color ts of Some c \<Rightarrow> make_background_color c | None \<Rightarrow> [])
       @ formatted
       @ (if ems ts \<noteq> 0 \<or> foreground_color ts \<noteq> None \<or> background_color ts \<noteq> None
          then reset_color else [])"

section \<open>What a terminal shows\<close>

text \<open>A terminal takes each sequence from ESC to the letter m as a command and shows the rest.\<close>

fun shown :: "bool \<Rightarrow> string \<Rightarrow> string" where
  "shown esc [] = []"
| "shown True (c # s) = shown (c \<noteq> CHR ''m'') s"
| "shown False (c # s) = (if c = ESC then shown True s else c # shown False s)"

lemma shown_plain: "ESC \<notin> set s \<Longrightarrow> shown False (s @ t) = s @ shown False t"
  by (induction s) auto

lemma shown_command: "CHR ''m'' \<notin> set s \<Longrightarrow> shown True (s @ CHR ''m'' # t) = shown False t"
  by (induction s) auto

lemma digit_not_m: "n < 10 \<Longrightarrow> digit n \<noteq> CHR ''m''"
  by (auto simp: digit_def dest: arg_cong [where f = "of_char :: char \<Rightarrow> nat"])

lemma byte_digits: "unat (c :: byte) div 100 < 10"
  using unat_byte_bound [of c] by (simp add: div_less_iff_less_mult)

lemma shown_color:
  assumes "7 \<le> length esc" "take 7 esc = ESC # cmd" "CHR ''m'' \<notin> set cmd"
  shows "shown False (color_escape c esc @ t) = shown False t"
proof (cases c)
  case (RgbColor v)
  define hex where "hex = rgb_of v"
  define body where "body = cmd @ to_esc (r_of hex) CHR '';'' @ to_esc (g_of hex) CHR '';''
    @ [digit (unat (b_of hex) div 100), digit (unat (b_of hex) div 10 mod 10), digit (unat (b_of hex) mod 10)]"
  have "CHR ''m'' \<notin> set body"
    using assms(3) digit_not_m [symmetric] byte_digits by (auto simp: body_def to_esc_def)
  moreover have "color_escape c esc = ESC # body @ [CHR ''m'']"
    using RgbColor assms(2) by (simp add: body_def hex_def to_esc_def Let_def)
  ultimately show ?thesis by (simp add: shown_command)
next
  case (TermColor v)
  define code where "code = unat v + (if esc = ESC # ''[48;2;'' then 10 else 0)"
  define rest where "rest = (if code \<ge> 100 then code mod 100 else code)"
  define body where "body = ''['' @ (if code \<ge> 100 then ''1'' else []) @ [digit (rest div 10), digit (rest mod 10)]"
  have "rest div 10 < 10" by (simp add: rest_def div_less_iff_less_mult)
  then have "CHR ''m'' \<notin> set body"
    using digit_not_m [of "rest div 10", symmetric] digit_not_m [of "rest mod 10", symmetric]
    by (simp add: body_def)
  moreover have "color_escape c esc = ESC # body @ [CHR ''m'']"
    using TermColor by (simp add: body_def rest_def code_def Let_def)
  ultimately show ?thesis by (simp add: shown_command)
qed

lemma shown_emphasis: "shown False (emphasis_escape em @ t) = shown False t"
  using digit_not_m [of 1] digit_not_m [of 3] digit_not_m [of 4] digit_not_m [of 9]
  by (simp add: emphasis_escape_def)

text \<open>A style changes nothing of the characters a terminal shows.\<close>

lemma shown_vformat_to:
  assumes "ESC \<notin> set s"
  shows "shown False (vformat_to ts s @ t) = s @ shown False t"
proof -
  have e: "ESC \<noteq> CHR ''m''" "ESC \<noteq> CHR ''[''" by (simp_all add: ESC_def)
  have "shown False (reset_color @ t) = shown False t"
    by (simp add: reset_color_def)
  then show ?thesis
    using assms
    by (simp add: vformat_to_def make_foreground_color_def make_background_color_def shown_color
        shown_emphasis shown_plain split: option.split)
qed

lemma shown_styled:
  "ESC \<notin> set s \<Longrightarrow> shown False (vformat_to ts s) = s"
  using shown_vformat_to [of s ts "[]"] by simp

end
