(* ===== verification/Logger.thy ===== *)
theory Logger
  imports Fmt_Color Calendar
begin

text \<open>
  \<open>Logger.hh\<close>, \<open>Logger.cc\<close> and \<open>utils/source_location.hh\<close>: which messages are written, the
  line a message becomes in the log file and on the console, and opening the file. The time
  zone (\<open>localtime\<close>) and whether a file can be opened are parameters; a message is the text
  its format string and arguments make.
\<close>

section \<open>Severities\<close>

datatype LoggerSeverity = Info | Debug | Warn | Error | Fatal | Off

definition LoggerSeverity_value :: "LoggerSeverity \<Rightarrow> nat" where
  "LoggerSeverity_value v =
     (case v of Info \<Rightarrow> 0 | Debug \<Rightarrow> 1 | Warn \<Rightarrow> 2 | Error \<Rightarrow> 3 | Fatal \<Rightarrow> 4 | Off \<Rightarrow> 5)"

lemma LoggerSeverity_value_inj: "LoggerSeverity_value v = LoggerSeverity_value w \<longleftrightarrow> v = w"
  by (cases v; cases w) (simp_all add: LoggerSeverity_value_def)

text \<open>The relational operators of an \<open>enum class\<close> compare the underlying values.\<close>

instantiation LoggerSeverity :: linorder
begin

definition less_eq_LoggerSeverity :: "LoggerSeverity \<Rightarrow> LoggerSeverity \<Rightarrow> bool" where
  "less_eq_LoggerSeverity v w \<longleftrightarrow> LoggerSeverity_value v \<le> LoggerSeverity_value w"

definition less_LoggerSeverity :: "LoggerSeverity \<Rightarrow> LoggerSeverity \<Rightarrow> bool" where
  "less_LoggerSeverity v w \<longleftrightarrow> LoggerSeverity_value v < LoggerSeverity_value w"

instance
  by standard (auto simp: less_eq_LoggerSeverity_def less_LoggerSeverity_def
      LoggerSeverity_value_inj [symmetric])

end

definition severityName :: "LoggerSeverity \<Rightarrow> string" where
  "severityName v =
     (case v of Info \<Rightarrow> ''INFO'' | Debug \<Rightarrow> ''DEBUG'' | Warn \<Rightarrow> ''WARN'' | Error \<Rightarrow> ''ERROR''
      | Fatal \<Rightarrow> ''FATAL'' | Off \<Rightarrow> ''unknown'')"

definition colorBySeverity :: "LoggerSeverity \<Rightarrow> 32 word" where
  "colorBySeverity v =
     (case v of Info \<Rightarrow> color_green | Debug \<Rightarrow> color_aqua | Warn \<Rightarrow> color_gold
      | Error \<Rightarrow> color_pink | Fatal \<Rightarrow> color_red | Off \<Rightarrow> color_black)"

section \<open>Messages\<close>

record source_location =
  file_name :: string
  function_name :: string
  source_line :: nat
  source_column :: nat

definition source_current :: "string \<Rightarrow> string \<Rightarrow> nat \<Rightarrow> source_location" where
  "source_current file func line =
     \<lparr>file_name = file, function_name = func, source_line = line, source_column = 0\<rparr>"

text \<open>\<open>log_time\<close> counts the ticks of \<open>system_clock\<close>, nanoseconds since the epoch.\<close>

record LogMessage =
  log_time :: int
  log_severity :: LoggerSeverity
  log_source :: source_location
  log_text :: string

definition make_LogMessage :: "int \<Rightarrow> source_location \<Rightarrow> LoggerSeverity \<Rightarrow> string \<Rightarrow> LogMessage" where
  "make_LogMessage t loc sev msg =
     \<lparr>log_time = t, log_severity = sev, log_source = loc, log_text = msg\<rparr>"

text \<open>\<open>duration_cast\<close> to a coarser unit truncates towards zero.\<close>

definition duration_cast :: "int \<Rightarrow> int \<Rightarrow> int" where
  "duration_cast unit t = (if t < 0 then - ((- t) div unit) else t div unit)"

definition decimal_int :: "int \<Rightarrow> string" where
  "decimal_int i = (if i < 0 then ''-'' @ decimal (nat (- i)) else decimal (nat i))"

definition timeFormat :: "(int \<Rightarrow> tm) \<Rightarrow> int \<Rightarrow> string" where
  "timeFormat localtime t =
     (let s = duration_cast 1000000000 t;
          since_epoch = t - s * 1000000000;
          milli = duration_cast 1000000 since_epoch
      in put_time (localtime s) @ '':'' @ decimal_int milli)"

section \<open>The logger\<close>

text \<open>
  \<open>open_file\<close> is the file the stream is connected to, \<open>stream_good\<close> is false after a failed
  \<open>open\<close>: insertion into the stream is then without effect. \<open>file_text\<close> and \<open>console_text\<close>
  are what has been written.
\<close>

record Logger =
  filename :: string
  console :: bool
  open_file :: "string option"
  stream_good :: bool
  log_threshold :: LoggerSeverity
  file_text :: string
  console_text :: string

definition make_Logger :: Logger where
  "make_Logger =
     \<lparr>filename = [], console = True, open_file = None, stream_good = True, log_threshold = Info,
      file_text = [], console_text = []\<rparr>"

definition set_severity :: "LoggerSeverity \<Rightarrow> Logger \<Rightarrow> Logger" where
  "set_severity sev lg = lg\<lparr>log_threshold := sev\<rparr>"

text \<open>
  \<open>std::ofstream::open\<close> fails on a stream that is already connected; on success it clears the
  error state and truncates the file.
\<close>

definition open_log :: "(string \<Rightarrow> bool) \<Rightarrow> string \<Rightarrow> Logger \<Rightarrow> Logger" where
  "open_log can_open name lg =
     (let lg = lg\<lparr>filename := name\<rparr> in
      if open_file lg = None \<and> can_open name
      then lg\<lparr>open_file := Some name, stream_good := True, file_text := []\<rparr>
      else lg\<lparr>stream_good := False\<rparr>)"

definition shouldLog :: "LoggerSeverity \<Rightarrow> Logger \<Rightarrow> bool" where
  "shouldLog sev lg \<longleftrightarrow> sev \<ge> log_threshold lg"

definition base_name :: "string \<Rightarrow> string" where
  "base_name s = (case find_last CHR ''/'' s of Some i \<Rightarrow> drop (i + 1) s | None \<Rightarrow> s)"

text \<open>The format string \<open>"[{}] [{}] {} {}:{} {}"\<close> of both sinks.\<close>

definition log_line :: "(int \<Rightarrow> tm) \<Rightarrow> string \<Rightarrow> LogMessage \<Rightarrow> string" where
  "log_line localtime severity_text msg =
     ''['' @ timeFormat localtime (log_time msg) @ ''] ['' @ severity_text @ ''] ''
       @ function_name (log_source msg) @ '' '' @ base_name (file_name (log_source msg))
       @ '':'' @ decimal (source_line (log_source msg)) @ '' '' @ log_text msg"

definition write_log :: "(int \<Rightarrow> tm) \<Rightarrow> LogMessage \<Rightarrow> LoggerSeverity \<Rightarrow> Logger \<Rightarrow> Logger result" where
  "write_log localtime msg sev lg =
     bind_result (style_or (style_of_emphasis emphasis_bold) (fg (RgbColor (colorBySeverity sev)))) (\<lambda>ts.
       Inr (lg\<lparr>file_text := (if stream_good lg \<and> open_file lg \<noteq> None
                             then file_text lg @ log_line localtime (severityName sev) msg
                             else file_text lg),
               console_text := console_text lg
                 @ log_line localtime (vformat_to ts (severityName sev)) msg\<rparr>))"

definition log_message ::
  "(int \<Rightarrow> tm) \<Rightarrow> int \<Rightarrow> source_location \<Rightarrow> LoggerSeverity \<Rightarrow> string \<Rightarrow> Logger \<Rightarrow> Logger result" where
  "log_message localtime t loc sev msg lg =
     (if shouldLog sev lg \<and> console lg \<and> open_file lg \<noteq> None
      then write_log localtime (make_LogMessage t loc sev msg) sev lg
      else Inr lg)"

section \<open>What is written\<close>

lemma severity_style:
  "style_or (style_of_emphasis emphasis_bold) (fg (RgbColor c)) =
     Inr \<lparr>foreground_color = Some (RgbColor c), background_color = None, ems = emphasis_bold\<rparr>"
  by (simp add: style_or_def style_of_emphasis_def fg_def)

lemma write_log_eq:
  "write_log localtime msg sev lg =
     Inr (lg\<lparr>file_text := (if stream_good lg \<and> open_file lg \<noteq> None
                           then file_text lg @ log_line localtime (severityName sev) msg
                           else file_text lg),
             console_text := console_text lg
               @ log_line localtime (vformat_to \<lparr>foreground_color = Some (RgbColor (colorBySeverity sev)),
                   background_color = None, ems = emphasis_bold\<rparr> (severityName sev)) msg\<rparr>)"
  by (simp add: write_log_def severity_style)

lemma base_name_no_slash: "CHR ''/'' \<notin> set (base_name s)"
  by (auto simp: base_name_def find_last_None find_last_Some split: option.split)

lemma base_name_suffix: "\<exists>d. s = d @ base_name s"
proof (cases "find_last CHR ''/'' s")
  case None
  then show ?thesis by (simp add: base_name_def)
next
  case (Some i)
  then show ?thesis by (metis append_take_drop_id base_name_def option.simps(5))
qed

lemma severityName_plain: "ESC \<notin> set (severityName sev)"
  by (cases sev) (simp_all add: severityName_def ESC_def)

lemma digit_plain: "k < 10 \<Longrightarrow> ESC \<noteq> digit k"
  by (auto simp: digit_def ESC_def dest: arg_cong [where f = "of_char :: char \<Rightarrow> nat"])

lemma decimal_plain: "ESC \<notin> set (decimal n)"
  using decimal_digits [of n] digit_plain by auto

lemma decimal_int_plain: "ESC \<notin> set (decimal_int i)"
  using decimal_plain by (simp add: decimal_int_def) (simp add: ESC_def)

lemma pad2_plain: "ESC \<notin> set (pad2 n)"
  using decimal_plain [of n] digit_plain [of 0] digit_plain [of n] by (auto simp: pad2_def)

lemma time_plain: "ESC \<notin> set (timeFormat localtime t)"
  using decimal_plain decimal_int_plain pad2_plain
  by (simp add: timeFormat_def Let_def put_time_def) (simp add: ESC_def)

lemma shown_log_line:
  assumes "ESC \<notin> set (function_name (log_source msg))" "ESC \<notin> set (file_name (log_source msg))"
    and "ESC \<notin> set (log_text msg)"
  shows "shown False (log_line localtime (vformat_to ts (severityName sev)) msg) =
         log_line localtime (severityName sev) msg"
proof -
  have b: "ESC \<notin> set (base_name (file_name (log_source msg)))"
    using assms(2) base_name_suffix [of "file_name (log_source msg)"]
    by (metis Un_iff set_append)
  have lit: "shown False (c # s) = c # shown False s" if "c \<noteq> ESC" for c s
    using that by simp
  have plain: "shown False s = s" if "ESC \<notin> set s" for s
    using shown_plain [OF that, of "[]"] by simp
  have "ESC \<noteq> CHR ''[''" "ESC \<noteq> CHR '']''" "ESC \<noteq> CHR '' ''" "ESC \<noteq> CHR '':''"
    by (simp_all add: ESC_def)
  then show ?thesis
    using assms b
    by (simp add: log_line_def shown_plain time_plain decimal_plain shown_vformat_to
        severityName_plain plain)
qed

end
