(* ===== verification/Startup.thy ===== *)
theory Startup
  imports Shared_State Logger Json_Parser Json_Serializer
begin

text \<open>
  \<open>CommandLineInterface.cc\<close>, \<open>ServerCertificate.cc\<close>, \<open>Listener.hh\<close> and \<open>main.cc\<close>: from the
  arguments of the process to four listeners that accept connections and a number of threads
  that run the handlers. The file system, the resolution of addresses, OpenSSL and the sockets
  are parameters; each of their calls may throw. A message is the severity and the text a
  \<open>LOG_\<close> macro is given.
\<close>

section \<open>The environment\<close>

type_synonym endpoint = "string \<times> 16 word"
type_synonym message = "LoggerSeverity \<times> string"

record startup_env =
  make_address :: "string \<Rightarrow> string result"
  read_file :: "string \<Rightarrow> string option"
  path_exists :: "string \<Rightarrow> bool result"
  hardware_concurrency :: "32 word"
  set_options :: "unit result"
  use_certificate_chain_file :: "string \<Rightarrow> unit result"
  use_private_key_file :: "string \<Rightarrow> unit result"
  acceptor_open :: "endpoint \<Rightarrow> unit result"
  acceptor_reuse_address :: "endpoint \<Rightarrow> unit result"
  acceptor_bind :: "endpoint \<Rightarrow> unit result"
  acceptor_listen :: "endpoint \<Rightarrow> unit result"
  exception_what :: "exn \<Rightarrow> string"

section \<open>\<open>std::atoi\<close>\<close>

definition isspace :: "char \<Rightarrow> bool" where
  "isspace c \<longleftrightarrow> c = CHR '' '' \<or> 9 \<le> (of_char c :: nat) \<and> (of_char c :: nat) \<le> 13"

text \<open>The number at the start of a text, zero if there is none.\<close>

definition atoi_value :: "string \<Rightarrow> int" where
  "atoi_value s =
     (case dropWhile isspace s of
        [] \<Rightarrow> 0
      | c # t \<Rightarrow>
          if c = CHR ''-'' then - int (digits_value (takeWhile is_digit t))
          else if c = CHR ''+'' then int (digits_value (takeWhile is_digit t))
          else int (digits_value (takeWhile is_digit (c # t))))"

text \<open>A value that an \<open>int\<close> cannot hold is undefined behaviour.\<close>

definition atoi :: "string \<Rightarrow> 32 word result" where
  "atoi s =
     (let v = atoi_value s in
      if - (2 ^ 31) \<le> v \<and> v < 2 ^ 31 then Inr (word_of_int v) else Inl (Undefined IntegerOverflow))"

section \<open>The command line\<close>

record CommandLineInterface =
  ip :: string
  httpPort :: "16 word"
  httpsPort :: "16 word"
  tcpPort :: "16 word"
  tcpSecurePort :: "16 word"
  cli_docRoot :: string
  cli_config :: json
  threads :: "32 word"
  certChain :: string
  privKey :: string

definition usage :: "string \<Rightarrow> string" where
  "usage program =
     ''Usage: '' @ program @ '' <address> <httpPort> <httpsPort> <tcpPort> <tcpSecurePort> <config> <threads>.''
       @ CHR 0x0A # ''Example: '' @ program
       @ '' 127.0.0.1 8080 8081 9090 9091 ../www ../config/config.json 8''
       @ CHR 0x0A # ''You may also set <threads> to 0 to enable full utilization of the hardware threads.''"

text \<open>Formatting a null \<open>argv[0]\<close> throws.\<close>

definition wrong_argc :: "string list \<Rightarrow> 'a result" where
  "wrong_argc argv =
     (case argv of
        [] \<Rightarrow> Inl (Throw (Format_error ''string pointer is null''))
      | program # _ \<Rightarrow> Inl (Throw (Invalid_argument (usage program))))"

definition port :: "string \<Rightarrow> 16 word result" where
  "port s = bind_result (atoi s) (\<lambda>i. Inr (ucast i))"

definition parse_network :: "startup_env \<Rightarrow> string list \<Rightarrow> CommandLineInterface result" where
  "parse_network e argv =
     bind_result (make_address e (argv ! 1)) (\<lambda>address.
     bind_result (port (argv ! 2)) (\<lambda>http.
     bind_result (port (argv ! 3)) (\<lambda>https.
     bind_result (port (argv ! 4)) (\<lambda>tcp.
     bind_result (port (argv ! 5)) (\<lambda>tcps.
       Inr \<lparr>ip = address, httpPort = http, httpsPort = https, tcpPort = tcp, tcpSecurePort = tcps,
            cli_docRoot = argv ! 6, cli_config = JNull, threads = 0, certChain = [], privKey = []\<rparr>)))))"

definition missing_file :: "string \<Rightarrow> string" where
  "missing_file file = ''The specified file '' @ quoted file @ '' does not exist.''"

definition config_directory :: "string \<Rightarrow> string" where
  "config_directory file = (case find_last CHR ''/'' file of Some pos \<Rightarrow> take pos file | None \<Rightarrow> [])"

text \<open>\<open>config[key].get<std::string>()\<close> on the mutable value: the string and the value after it.\<close>

definition config_string :: "json \<Rightarrow> string \<Rightarrow> (string \<times> json) result" where
  "config_string cfg k =
     bind_result (json_subscript cfg k) (\<lambda>(v, cfg).
     bind_result (json_get_string v) (\<lambda>s. Inr (s, cfg)))"

definition config_message :: "string \<Rightarrow> string \<Rightarrow> message" where
  "config_message file dumped =
     (Info, ''Config file '' @ quoted file @ '' successfully loaded with contents:'' @ CHR 0x0A # dumped @ [CHR 0x0A])"

definition load_config ::
  "startup_env \<Rightarrow> string \<Rightarrow> CommandLineInterface \<Rightarrow> (CommandLineInterface \<times> message) result" where
  "load_config e file cli =
     (case read_file e file of
        None \<Rightarrow> Inl (Throw (Runtime_error (missing_file file)))
      | Some contents \<Rightarrow>
          bind_result (json_parse contents) (\<lambda>cfg.
          bind_result (config_string cfg ''certChain'') (\<lambda>(chain, cfg).
          bind_result (config_string cfg ''privKey'') (\<lambda>(key, cfg).
          bind_result (json_dump 4 CHR '' '' False Strict cfg) (\<lambda>dumped.
            Inr (cli\<lparr>cli_config := cfg, certChain := config_directory file @ ''/'' @ chain,
                     privKey := config_directory file @ ''/'' @ key\<rparr>, config_message file dumped))))))"

definition parse_threads :: "startup_env \<Rightarrow> string \<Rightarrow> 32 word result" where
  "parse_threads e s =
     bind_result (atoi s) (\<lambda>n. Inr (if n = 0 then hardware_concurrency e else n))"

definition missing_root :: "string \<Rightarrow> string" where
  "missing_root dir = ''The given document root '' @ quoted dir @ '' does not exist.''"

definition check_root :: "startup_env \<Rightarrow> CommandLineInterface \<Rightarrow> CommandLineInterface result" where
  "check_root e cli =
     bind_result (path_exists e (cli_docRoot cli)) (\<lambda>found.
       if found then Inr cli else Inl (Throw (Invalid_argument (missing_root (cli_docRoot cli)))))"

text \<open>The messages logged and the parsed options.\<close>

definition cli_parse :: "startup_env \<Rightarrow> string list \<Rightarrow> message list \<times> CommandLineInterface result" where
  "cli_parse e argv =
     (if length argv \<noteq> 9 then ([], wrong_argc argv)
      else
        case bind_result (parse_network e argv) (load_config e (argv ! 7)) of
          Inl x \<Rightarrow> ([], Inl x)
        | Inr (cli, msg) \<Rightarrow>
            ([msg], bind_result (parse_threads e (argv ! 8)) (\<lambda>n. check_root e (cli\<lparr>threads := n\<rparr>))))"

section \<open>The certificate\<close>

text \<open>The paths reach OpenSSL as C strings.\<close>

definition loadServerCertificate :: "startup_env \<Rightarrow> string \<Rightarrow> string \<Rightarrow> unit result" where
  "loadServerCertificate e chain key =
     bind_result (set_options e) (\<lambda>_.
     bind_result (use_certificate_chain_file e (c_str chain)) (\<lambda>_.
       use_private_key_file e (c_str key)))"

section \<open>Listeners\<close>

datatype Protocol = PlainHttpSession | SSLHttpSession | PlainTCPSession | SSLTCPSession

text \<open>
  \<open>accept_pending\<close> tells whether an \<open>async_accept\<close> is outstanding; \<open>started\<close> lists the sockets
  whose sessions have been run, in order.
\<close>

record Listener =
  protocol :: Protocol
  listener_endpoint :: endpoint
  acceptor_listening :: bool
  accept_pending :: bool
  started :: "ptr list"

definition make_Listener :: "Protocol \<Rightarrow> endpoint \<Rightarrow> Listener" where
  "make_Listener pr ep =
     \<lparr>protocol = pr, listener_endpoint = ep, acceptor_listening = False, accept_pending = False, started = []\<rparr>"

definition doAccept :: "Listener \<Rightarrow> Listener" where
  "doAccept l = l\<lparr>accept_pending := True\<rparr>"

definition Listener_run :: "startup_env \<Rightarrow> Listener \<Rightarrow> Listener result" where
  "Listener_run e l =
     bind_result (acceptor_open e (listener_endpoint l)) (\<lambda>_.
     bind_result (acceptor_reuse_address e (listener_endpoint l)) (\<lambda>_.
     bind_result (acceptor_bind e (listener_endpoint l)) (\<lambda>_.
     bind_result (acceptor_listen e (listener_endpoint l)) (\<lambda>_.
       Inr (doAccept (l\<lparr>acceptor_listening := True\<rparr>))))))"

text \<open>The completion of an accept: the error message, or a session on the new socket.\<close>

definition Listener_onAccept :: "string option \<Rightarrow> ptr \<Rightarrow> Listener \<Rightarrow> message list \<times> Listener" where
  "Listener_onAccept err socket l =
     (let l = l\<lparr>accept_pending := False\<rparr> in
      case err of
        Some text \<Rightarrow> ([(Error, ''Accept error: '' @ text @ [CHR 0x0A])], l)
      | None \<Rightarrow> ([], doAccept (l\<lparr>started := started l @ [socket]\<rparr>)))"

section \<open>\<open>main\<close>\<close>

record process =
  options :: CommandLineInterface
  process_state :: SharedState
  listeners :: "Listener list"
  workers :: nat

datatype startup = Exit_failure | Serving process

definition make_listeners :: "CommandLineInterface \<Rightarrow> Listener list" where
  "make_listeners cli =
     [make_Listener PlainHttpSession (ip cli, httpPort cli), make_Listener SSLHttpSession (ip cli, httpsPort cli),
      make_Listener PlainTCPSession (ip cli, tcpPort cli), make_Listener SSLTCPSession (ip cli, tcpSecurePort cli)]"

fun run_listeners :: "startup_env \<Rightarrow> Listener list \<Rightarrow> Listener list result" where
  "run_listeners e [] = Inr []"
| "run_listeners e (l # ls) =
     bind_result (Listener_run e l) (\<lambda>l. bind_result (run_listeners e ls) (\<lambda>ls. Inr (l # ls)))"

text \<open>The loop counts an unsigned 32-bit number down to zero, from one less than the threads.\<close>

definition worker_threads :: "CommandLineInterface \<Rightarrow> nat" where
  "worker_threads cli = unat (threads cli - 1)"

definition exception_line :: "startup_env \<Rightarrow> LoggerSeverity \<Rightarrow> exn \<Rightarrow> message" where
  "exception_line e sev x = (sev, exception_what e x @ [CHR 0x0A])"

text \<open>
  The third catch block of \<open>main\<close> and what follows it. The certificate has been loaded.
\<close>

definition serve_connections :: "startup_env \<Rightarrow> CommandLineInterface \<Rightarrow> message list \<times> startup result" where
  "serve_connections e cli =
     (case run_listeners e (make_listeners cli) of
        Inl (Throw x) \<Rightarrow> ([exception_line e Fatal x], Inr Exit_failure)
      | Inl y \<Rightarrow> ([], Inl y)
      | Inr ls \<Rightarrow>
          ([(Info, ''Server running at '' @ ip cli @ '':'' @ decimal (unat (httpPort cli)) @ [CHR 0x0A])],
           Inr (Serving \<lparr>options = cli, process_state = make_SharedState (cli_docRoot cli) (cli_config cli),
                         listeners = ls, workers = worker_threads cli\<rparr>)))"

definition starting_line :: "CommandLineInterface \<Rightarrow> message" where
  "starting_line cli =
     (Info, ''Starting server with '' @ decimal (unat (threads cli)) @ '' threads...'' @ [CHR 0x0A])"

text \<open>
  Only \<open>system_error\<close> is caught around the certificate; another exception leaves \<open>main\<close>.
\<close>

definition with_certificate :: "startup_env \<Rightarrow> CommandLineInterface \<Rightarrow> message list \<times> startup result" where
  "with_certificate e cli =
     (case loadServerCertificate e (certChain cli) (privKey cli) of
        Inl (Throw (System_error m)) \<Rightarrow> ([exception_line e Fatal (System_error m)], Inr Exit_failure)
      | Inl y \<Rightarrow> ([], Inl y)
      | Inr _ \<Rightarrow> serve_connections e cli)"

definition main_startup :: "startup_env \<Rightarrow> string list \<Rightarrow> message list \<times> startup result" where
  "main_startup e argv =
     (case cli_parse e argv of
        (msgs, Inl (Throw x)) \<Rightarrow> (msgs @ [exception_line e Error x], Inr Exit_failure)
      | (msgs, Inl y) \<Rightarrow> (msgs, Inl y)
      | (msgs, Inr cli) \<Rightarrow>
          (case with_certificate e cli of (rest, r) \<Rightarrow> (msgs @ starting_line cli # rest, r)))"

end
