(* ===== verification/Startup_Properties.thy ===== *)
theory Startup_Properties
  imports Startup Json_Properties
begin

text \<open>
  The properties of the startup, the listeners and the logger.
\<close>

section \<open>Startup\<close>











section \<open>Listeners\<close>

text \<open>Completions of accepts, as long as one is outstanding.\<close>

fun accepts :: "Listener \<Rightarrow> (string option \<times> ptr) list \<Rightarrow> Listener" where
  "accepts l [] = l"
| "accepts l ((err, socket) # evs) =
     (if accept_pending l then accepts (snd (Listener_onAccept err socket l)) evs else l)"

lemma accepts_idle: "\<not> accept_pending l \<Longrightarrow> accepts l evs = l"
  by (cases evs) auto

text \<open>
  C38. A listener starts a session on every accepted connection, in order, until the first
  accept that fails; from then on no accept is outstanding and it never accepts again.
\<close>

theorem accepts_until_error:
  assumes "accept_pending l"
  shows "started (accepts l evs) = started l @ map snd (takeWhile (\<lambda>(err, _). err = None) evs)
    \<and> accept_pending (accepts l evs) = list_all (\<lambda>(err, _). err = None) evs"
  using assms
proof (induction evs arbitrary: l)
  case (Cons ev evs)
  obtain err socket where ev: "ev = (err, socket)" by (cases ev)
  show ?case
  proof (cases err)
    case None
    then show ?thesis
      using Cons.IH [of "snd (Listener_onAccept err socket l)"] Cons.prems ev
      by (simp add: Listener_onAccept_def doAccept_def)
  next
    case (Some why)
    then show ?thesis
      using Cons.prems ev accepts_idle [of "snd (Listener_onAccept err socket l)"]
      by (simp add: Listener_onAccept_def)
  qed
qed simp

theorem accepts_until_error_witness:
  "started (accepts (doAccept (make_Listener PlainTCPSession (''127.0.0.1'', 9090)))
      [(None, 7), (Some ''Too many open files'', 8), (None, 9)]) = [7]
   \<and> \<not> accept_pending (accepts (doAccept (make_Listener PlainTCPSession (''127.0.0.1'', 9090)))
      [(None, 7), (Some ''Too many open files'', 8), (None, 9)])"
  using accepts_until_error [of "doAccept (make_Listener PlainTCPSession (''127.0.0.1'', 9090))"
      "[(None, 7), (Some ''Too many open files'', 8), (None, 9)]"]
  by (simp add: doAccept_def make_Listener_def)

section \<open>The logger\<close>




end
