(* ===== verification/Fmt_Parse.thy ===== *)
theory Fmt_Parse
  imports Json_Number
begin

text \<open>
  The parser of format strings of \<open>fmt/core.h\<close>. A pointer into the format string is the list of
  the characters from there to the end; reading at the end is undefined behaviour. The template
  parameter \<open>Handler\<close> is a record of the functions the parser calls.
\<close>

section \<open>Types and specifications\<close>

datatype fmt_type =
    none_type
  | int_type | uint_type | long_long_type | ulong_long_type | int128_type | uint128_type
  | bool_type | char_type
  | float_type | double_type | long_double_type
  | cstring_type | string_type | pointer_type | custom_type

fun is_integral_type :: "fmt_type \<Rightarrow> bool" where
  "is_integral_type t \<longleftrightarrow>
     t \<in> set [int_type, uint_type, long_long_type, ulong_long_type, int128_type, uint128_type, bool_type, char_type]"

fun is_arithmetic_type :: "fmt_type \<Rightarrow> bool" where
  "is_arithmetic_type t \<longleftrightarrow> is_integral_type t \<or> t \<in> set [float_type, double_type, long_double_type]"

datatype fmt_align = Align_none | Align_left | Align_right | Align_center | Align_numeric
datatype fmt_sign = Sign_none | Sign_minus | Sign_plus | Sign_space

text \<open>\<open>basic_format_specs\<close>; the type NUL stands for no type, the precision \<open>-1\<close> for none.\<close>

record format_specs =
  fs_width :: int
  fs_precision :: int
  fs_type :: char
  fs_align :: fmt_align
  fs_sign :: fmt_sign
  fs_alt :: bool
  fs_localized :: bool
  fs_fill :: string

definition make_format_specs :: format_specs where
  "make_format_specs =
     \<lparr>fs_width = 0, fs_precision = - 1, fs_type = CHR 0x00, fs_align = Align_none, fs_sign = Sign_none,
      fs_alt = False, fs_localized = False, fs_fill = '' ''\<rparr>"

datatype arg_id = Auto_id | Index_id int | Name_id string

text \<open>\<open>dynamic_format_specs\<close>: references to arguments that hold the width and the precision.\<close>

record dynamic_format_specs = format_specs +
  fs_width_ref :: "arg_id option"
  fs_precision_ref :: "arg_id option"

definition make_dynamic_format_specs :: dynamic_format_specs where
  "make_dynamic_format_specs =
     format_specs.extend make_format_specs \<lparr>fs_width_ref = None, fs_precision_ref = None\<rparr>"

definition format_error :: "string \<Rightarrow> 'a result" where
  "format_error m = Inl (Throw (Format_error m))"

section \<open>Argument counters\<close>

definition next_arg_id :: "int \<Rightarrow> (int \<times> int) result" where
  "next_arg_id ctx =
     (if ctx \<ge> 0 then Inr (ctx, ctx + 1)
      else format_error ''cannot switch from manual to automatic argument indexing'')"

definition check_arg_id :: "int \<Rightarrow> int result" where
  "check_arg_id ctx =
     (if ctx > 0 then format_error ''cannot switch from automatic to manual argument indexing''
      else Inr (- 1))"

section \<open>\<open>specs_checker\<close>\<close>

definition require_numeric_argument :: "fmt_type \<Rightarrow> unit result" where
  "require_numeric_argument t =
     (if is_arithmetic_type t then Inr ()
      else format_error ''format specifier requires numeric argument'')"

definition on_align :: "fmt_type \<Rightarrow> fmt_align \<Rightarrow> 'a format_specs_scheme \<Rightarrow> 'a format_specs_scheme result" where
  "on_align t a sp =
     bind_result (if a = Align_numeric then require_numeric_argument t else Inr ()) (\<lambda>_.
       Inr (sp\<lparr>fs_align := a\<rparr>))"

definition on_fill :: "string \<Rightarrow> 'a format_specs_scheme \<Rightarrow> 'a format_specs_scheme result" where
  "on_fill s sp = (if length s > 4 then format_error ''invalid fill'' else Inr (sp\<lparr>fs_fill := s\<rparr>))"

definition on_sign :: "fmt_type \<Rightarrow> fmt_sign \<Rightarrow> 'a format_specs_scheme \<Rightarrow> 'a format_specs_scheme result" where
  "on_sign t s sp =
     bind_result (require_numeric_argument t) (\<lambda>_.
       if is_integral_type t \<and> t \<noteq> int_type \<and> t \<noteq> long_long_type \<and> t \<noteq> char_type
       then format_error ''format specifier requires signed argument''
       else Inr (sp\<lparr>fs_sign := s\<rparr>))"

definition on_hash :: "fmt_type \<Rightarrow> 'a format_specs_scheme \<Rightarrow> 'a format_specs_scheme result" where
  "on_hash t sp = bind_result (require_numeric_argument t) (\<lambda>_. Inr (sp\<lparr>fs_alt := True\<rparr>))"

definition on_localized :: "fmt_type \<Rightarrow> 'a format_specs_scheme \<Rightarrow> 'a format_specs_scheme result" where
  "on_localized t sp = bind_result (require_numeric_argument t) (\<lambda>_. Inr (sp\<lparr>fs_localized := True\<rparr>))"

text \<open>Only the first code unit of the fill is replaced.\<close>

definition on_zero :: "fmt_type \<Rightarrow> 'a format_specs_scheme \<Rightarrow> 'a format_specs_scheme result" where
  "on_zero t sp =
     bind_result (require_numeric_argument t) (\<lambda>_.
       Inr (sp\<lparr>fs_align := (if fs_align sp = Align_none then Align_numeric else fs_align sp),
               fs_fill := CHR ''0'' # tl (fs_fill sp)\<rparr>))"

definition end_precision :: "fmt_type \<Rightarrow> 'a \<Rightarrow> 'a result" where
  "end_precision t x =
     (if is_integral_type t \<or> t = pointer_type
      then format_error ''precision not allowed for this argument type'' else Inr x)"

section \<open>The pieces of a specification\<close>

fun deref :: "string \<Rightarrow> char result" where
  "deref [] = Inl (Undefined OutOfBoundsRead)"
| "deref (c # s) = Inr c"

text \<open>\<open>begin == end || P(*begin)\<close>.\<close>

definition end_or :: "(char \<Rightarrow> bool) \<Rightarrow> string \<Rightarrow> bool result" where
  "end_or P s = (if s = [] then Inr True else bind_result (deref s) (\<lambda>c. Inr (P c)))"

lemma deref_hd: "s \<noteq> [] \<Longrightarrow> deref s = Inr (hd s)"
  by (cases s) simp_all

lemma end_or_eq [simp]: "end_or P s = Inr (s = [] \<or> P (hd s))"
  by (simp add: end_or_def deref_hd)

definition is_ascii_letter :: "char \<Rightarrow> bool" where
  "is_ascii_letter c \<longleftrightarrow> (c \<ge> CHR ''a'' \<and> c \<le> CHR ''z'') \<or> (c \<ge> CHR ''A'' \<and> c \<le> CHR ''Z'')"

definition code_point_length :: "char \<Rightarrow> nat" where
  "code_point_length c =
     (let n = [1, 1, 1, 1, 1, 1, 1, 1, 1, 1, 1, 1, 1, 1, 1, 1,
               0, 0, 0, 0, 0, 0, 0, 0, 2, 2, 2, 2, 3, 3, 4, 0] ! (of_char c div 8)
      in n + (if n = 0 then 1 else 0))"

text \<open>The numbers are those of a 32-bit \<open>unsigned\<close>, which wraps; the last two are checked.\<close>

fun digits_loop :: "32 word \<Rightarrow> 32 word \<Rightarrow> char \<Rightarrow> nat \<Rightarrow> string \<Rightarrow> 32 word \<times> 32 word \<times> char \<times> nat \<times> string" where
  "digits_loop prev v c n [] = (prev, v, c, n, [])"
| "digits_loop prev v c n (d # s) =
     (if is_digit d then digits_loop v (v * 10 + word_of_nat (digit_value d)) d (n + 1) s
      else (prev, v, c, n, d # s))"

definition parse_nonnegative_int :: "string \<Rightarrow> int \<Rightarrow> int \<times> string" where
  "parse_nonnegative_int s error_value =
     (case digits_loop 0 0 CHR 0x00 0 s of
        (prev, v, c, num_digits, rest) \<Rightarrow>
          (if num_digits \<le> 9 then sint v
           else if num_digits = 10
             \<and> (ucast prev * 10 + word_of_nat (digit_value c) :: 64 word) \<le> 0x7FFFFFFF then sint v
           else error_value, rest))"

definition align_char :: "char \<Rightarrow> fmt_align" where
  "align_char c =
     (if c = CHR ''<'' then Align_left else if c = CHR ''>'' then Align_right
      else if c = CHR ''^'' then Align_center else Align_none)"

text \<open>The character behind the first code point is tried first, then the first one.\<close>

definition parse_align :: "fmt_type \<Rightarrow> string \<Rightarrow> 'a format_specs_scheme \<Rightarrow> (string \<times> 'a format_specs_scheme) result" where
  "parse_align t s sp =
     bind_result (deref s) (\<lambda>c.
       let n = (if code_point_length c \<ge> length s then 0 else code_point_length c) in
       if align_char (s ! n) \<noteq> Align_none \<and> n \<noteq> 0 then
         if c = CHR ''{'' then format_error (''invalid fill character '' @ [CHR 0x27, CHR ''{'', CHR 0x27])
         else bind_result (on_fill (take n s) sp) (\<lambda>sp.
              bind_result (on_align t (align_char (s ! n)) sp) (\<lambda>sp. Inr (drop (n + 1) s, sp)))
       else if align_char c \<noteq> Align_none then
         bind_result (on_align t (align_char c) sp) (\<lambda>sp. Inr (tl s, sp))
       else Inr (s, sp))"

definition is_name_start :: "char \<Rightarrow> bool" where
  "is_name_start c \<longleftrightarrow> is_ascii_letter c \<or> c = CHR ''_''"

definition is_name_char :: "char \<Rightarrow> bool" where
  "is_name_char c \<longleftrightarrow> is_name_start c \<or> is_digit c"

definition do_parse_arg_id :: "string \<Rightarrow> (arg_id \<Rightarrow> 'a result) \<Rightarrow> (string \<times> 'a) result" where
  "do_parse_arg_id s handler =
     bind_result (deref s) (\<lambda>c.
       if is_digit c then
         let (i, rest) = (if c \<noteq> CHR ''0'' then parse_nonnegative_int s (2 ^ 31 - 1) else (0, tl s)) in
         bind_result (end_or (\<lambda>d. d \<noteq> CHR ''}'' \<and> d \<noteq> CHR '':'') rest) (\<lambda>b.
           if b then format_error ''invalid format string''
           else bind_result (handler (Index_id i)) (\<lambda>x. Inr (rest, x)))
       else if \<not> is_name_start c then format_error ''invalid format string''
       else bind_result (handler (Name_id (c # takeWhile is_name_char (tl s)))) (\<lambda>x.
         Inr (dropWhile is_name_char (tl s), x)))"

text \<open>The same equation, with the reads that the test for the end guards written out.\<close>

lemma do_parse_arg_id_eq:
  "do_parse_arg_id s handler =
     bind_result (deref s) (\<lambda>c.
       if is_digit c then
         let (i, rest) = (if c \<noteq> CHR ''0'' then parse_nonnegative_int s (2 ^ 31 - 1) else (0, tl s)) in
         if rest = [] \<or> hd rest \<noteq> CHR ''}'' \<and> hd rest \<noteq> CHR '':'' then format_error ''invalid format string''
         else bind_result (handler (Index_id i)) (\<lambda>x. Inr (rest, x))
       else if \<not> is_name_start c then format_error ''invalid format string''
       else bind_result (handler (Name_id (c # takeWhile is_name_char (tl s)))) (\<lambda>x.
         Inr (dropWhile is_name_char (tl s), x)))"
  unfolding do_parse_arg_id_def end_or_eq bind_result.simps(2) by (rule refl)

definition parse_arg_id :: "string \<Rightarrow> (arg_id \<Rightarrow> 'a result) \<Rightarrow> (string \<times> 'a) result" where
  "parse_arg_id s handler =
     bind_result (deref s) (\<lambda>c.
       if c \<noteq> CHR ''}'' \<and> c \<noteq> CHR '':'' then do_parse_arg_id s handler
       else bind_result (handler Auto_id) (\<lambda>x. Inr (s, x)))"

section \<open>A whole specification\<close>

text \<open>
  The handler of a dynamic width (\<open>True\<close>) or precision (\<open>False\<close>) differs between formatting
  and checking; it works on the specifications and the argument counter.
\<close>

type_synonym 'a spec_state = "'a format_specs_scheme \<times> int"
type_synonym 'a dynamic_handler = "bool \<Rightarrow> arg_id \<Rightarrow> 'a spec_state \<Rightarrow> 'a spec_state result"

fun parse_width :: "'a dynamic_handler \<Rightarrow> string \<Rightarrow> 'a spec_state \<Rightarrow> (string \<times> 'a spec_state) result" where
  "parse_width dyn s (sp, ctx) =
     bind_result (deref s) (\<lambda>c.
       if is_digit c then
         let (v, rest) = parse_nonnegative_int s (- 1) in
         if v \<noteq> - 1 then Inr (rest, sp\<lparr>fs_width := v\<rparr>, ctx) else format_error ''number is too big''
       else if c = CHR ''{'' then
         bind_result (if tl s \<noteq> [] then parse_arg_id (tl s) (\<lambda>i. dyn True i (sp, ctx)) else Inr (tl s, sp, ctx))
           (\<lambda>(rest, st).
             bind_result (end_or (\<lambda>d. d \<noteq> CHR ''}'') rest) (\<lambda>b.
               if b then format_error ''invalid format string'' else Inr (tl rest, st)))
       else Inr (s, sp, ctx))"

declare parse_width.simps [simp del]

lemma parse_width_eq [simp]:
  "parse_width dyn s (sp, ctx) =
     bind_result (deref s) (\<lambda>c.
       if is_digit c then
         let (v, rest) = parse_nonnegative_int s (- 1) in
         if v \<noteq> - 1 then Inr (rest, sp\<lparr>fs_width := v\<rparr>, ctx) else format_error ''number is too big''
       else if c = CHR ''{'' then
         bind_result (if tl s \<noteq> [] then parse_arg_id (tl s) (\<lambda>i. dyn True i (sp, ctx)) else Inr (tl s, sp, ctx))
           (\<lambda>(rest, st).
             if rest = [] \<or> hd rest \<noteq> CHR ''}'' then format_error ''invalid format string''
             else Inr (tl rest, st))
       else Inr (s, sp, ctx))"
  unfolding parse_width.simps end_or_eq bind_result.simps(2) by (rule refl)

fun parse_precision ::
  "fmt_type \<Rightarrow> 'a dynamic_handler \<Rightarrow> string \<Rightarrow> 'a spec_state \<Rightarrow> (string \<times> 'a spec_state) result" where
  "parse_precision t dyn s (sp, ctx) =
     (let s = tl s; c = (if s \<noteq> [] then hd s else CHR 0x00) in
      bind_result
        (if is_digit c then
           let (v, rest) = parse_nonnegative_int s (- 1) in
           if v \<noteq> - 1 then Inr (rest, sp\<lparr>fs_precision := v\<rparr>, ctx) else format_error ''number is too big''
         else if c = CHR ''{'' then
           bind_result (if tl s \<noteq> [] then parse_arg_id (tl s) (\<lambda>i. dyn False i (sp, ctx)) else Inr (tl s, sp, ctx))
             (\<lambda>(rest, st).
               bind_result (end_or (\<lambda>d. d \<noteq> CHR ''}'') rest) (\<lambda>b.
                 if b then format_error ''invalid format string'' else Inr (tl rest, st)))
         else format_error ''missing precision specifier'')
        (end_precision t))"

declare parse_precision.simps [simp del]

lemma parse_precision_eq [simp]:
  "parse_precision t dyn s (sp, ctx) =
     (let s = tl s; c = (if s \<noteq> [] then hd s else CHR 0x00) in
      bind_result
        (if is_digit c then
           let (v, rest) = parse_nonnegative_int s (- 1) in
           if v \<noteq> - 1 then Inr (rest, sp\<lparr>fs_precision := v\<rparr>, ctx) else format_error ''number is too big''
         else if c = CHR ''{'' then
           bind_result (if tl s \<noteq> [] then parse_arg_id (tl s) (\<lambda>i. dyn False i (sp, ctx)) else Inr (tl s, sp, ctx))
             (\<lambda>(rest, st).
               if rest = [] \<or> hd rest \<noteq> CHR ''}'' then format_error ''invalid format string''
               else Inr (tl rest, st))
         else format_error ''missing precision specifier'')
        (end_precision t))"
  unfolding parse_precision.simps end_or_eq bind_result.simps(2) by (rule refl)

definition sign_char :: "char \<Rightarrow> fmt_sign" where
  "sign_char c =
     (if c = CHR ''+'' then Sign_plus else if c = CHR ''-'' then Sign_minus
      else if c = CHR '' '' then Sign_space else Sign_none)"

text \<open>
  The steps of \<open>parse_format_specs\<close>. Each reads the character it begins with, which is undefined
  at the end of the string; \<open>spec_step\<close> is the test for the end that guards it.
\<close>

definition spec_step ::
  "(string \<Rightarrow> 'a spec_state \<Rightarrow> (string \<times> 'a spec_state) result) \<Rightarrow>
   (string \<times> 'a spec_state) result \<Rightarrow> (string \<times> 'a spec_state) result" where
  "spec_step f r = bind_result r (\<lambda>(s, st). if s = [] then Inr (s, st) else f s st)"

fun align_step :: "fmt_type \<Rightarrow> string \<Rightarrow> 'a spec_state \<Rightarrow> (string \<times> 'a spec_state) result" where
  "align_step t s (sp, ctx) = bind_result (parse_align t s sp) (\<lambda>(s, sp). Inr (s, sp, ctx))"

fun sign_step :: "fmt_type \<Rightarrow> string \<Rightarrow> 'a spec_state \<Rightarrow> (string \<times> 'a spec_state) result" where
  "sign_step t s (sp, ctx) =
     bind_result (deref s) (\<lambda>c.
       if sign_char c \<noteq> Sign_none
       then bind_result (on_sign t (sign_char c) sp) (\<lambda>sp. Inr (tl s, sp, ctx))
       else Inr (s, sp, ctx))"

fun flag_step ::
  "char \<Rightarrow> ('a format_specs_scheme \<Rightarrow> 'a format_specs_scheme result) \<Rightarrow>
   string \<Rightarrow> 'a spec_state \<Rightarrow> (string \<times> 'a spec_state) result" where
  "flag_step a f s (sp, ctx) =
     bind_result (deref s) (\<lambda>c.
       if c = a then bind_result (f sp) (\<lambda>sp. Inr (tl s, sp, ctx)) else Inr (s, sp, ctx))"

fun type_step :: "string \<Rightarrow> 'a spec_state \<Rightarrow> (string \<times> 'a spec_state) result" where
  "type_step s (sp, ctx) =
     bind_result (deref s) (\<lambda>c.
       if c \<noteq> CHR ''}'' then Inr (tl s, sp\<lparr>fs_type := c\<rparr>, ctx) else Inr (s, sp, ctx))"

definition precision_step ::
  "fmt_type \<Rightarrow> 'a dynamic_handler \<Rightarrow> string \<Rightarrow> 'a spec_state \<Rightarrow> (string \<times> 'a spec_state) result" where
  "precision_step t dyn s st =
     bind_result (deref s) (\<lambda>c. if c = CHR ''.'' then parse_precision t dyn s st else Inr (s, st))"

text \<open>A single letter in front of the closing brace is the type.\<close>

definition only_type :: "string \<Rightarrow> bool" where
  "only_type s \<longleftrightarrow>
     (case s of c # d # _ \<Rightarrow> d = CHR ''}'' \<and> is_ascii_letter c \<and> c \<noteq> CHR ''L'' | _ \<Rightarrow> False)"

definition parse_format_specs ::
  "fmt_type \<Rightarrow> 'a dynamic_handler \<Rightarrow> string \<Rightarrow> 'a spec_state \<Rightarrow> (string \<times> 'a spec_state) result" where
  "parse_format_specs t dyn s st =
     (if only_type s then type_step s st
      else spec_step type_step (
           spec_step (flag_step CHR ''L'' (on_localized t)) (
           spec_step (precision_step t dyn) (
           spec_step (parse_width dyn) (
           spec_step (flag_step CHR ''0'' (on_zero t)) (
           spec_step (flag_step CHR ''#'' (on_hash t)) (
           spec_step (sign_step t) (
           spec_step (align_step t) (Inr (s, st))))))))))"

end
