(* ===== verification/Fmt_String.thy ===== *)
theory Fmt_String
  imports Fmt_Parse
begin

text \<open>
  \<open>parse_format_string\<close> of \<open>fmt/core.h\<close>: replacement fields, the loop for short strings and the
  two-pass loop for long ones. The two loops do the same for every handler.
\<close>

section \<open>Handlers\<close>

text \<open>
  The functions of a handler, over its state. \<open>on_format_specs\<close> returns how far it has advanced.
\<close>

record 's fmt_handler =
  on_text :: "string \<Rightarrow> 's \<Rightarrow> 's"
  on_arg_id :: "arg_id \<Rightarrow> 's \<Rightarrow> (int \<times> 's) result"
  on_replacement_field :: "int \<Rightarrow> 's \<Rightarrow> 's result"
  on_format_specs :: "int \<Rightarrow> string \<Rightarrow> 's \<Rightarrow> (nat \<times> 's) result"

definition parse_replacement_field :: "'s fmt_handler \<Rightarrow> string \<Rightarrow> 's \<Rightarrow> (string \<times> 's) result" where
  "parse_replacement_field h s st =
     (let s = tl s in
      if s = [] then format_error ''invalid format string''
      else bind_result (deref s) (\<lambda>d.
      if d = CHR ''}'' then
        bind_result (on_arg_id h Auto_id st) (\<lambda>(i, st).
          bind_result (on_replacement_field h i st) (\<lambda>st. Inr (tl s, st)))
      else if d = CHR ''{'' then Inr (tl s, on_text h ''{'' st)
      else bind_result (parse_arg_id s (\<lambda>i. on_arg_id h i st)) (\<lambda>(s, i, st).
        let c = (if s \<noteq> [] then hd s else CHR 0x00) in
        if c = CHR ''}'' then bind_result (on_replacement_field h i st) (\<lambda>st. Inr (tl s, st))
        else if c = CHR '':'' then
          bind_result (on_format_specs h i (tl s) st) (\<lambda>(n, st).
            let s = drop n (tl s) in
            bind_result (end_or (\<lambda>d. d \<noteq> CHR ''}'') s) (\<lambda>b.
              if b then format_error ''unknown format specifier'' else Inr (tl s, st)))
        else format_error (''missing '' @ [CHR 0x27] @ ''}'' @ [CHR 0x27] @ '' in format string''))))"

lemma parse_replacement_field_eq:
  "parse_replacement_field h s st =
     (let s = tl s in
      if s = [] then format_error ''invalid format string''
      else if hd s = CHR ''}'' then
        bind_result (on_arg_id h Auto_id st) (\<lambda>(i, st).
          bind_result (on_replacement_field h i st) (\<lambda>st. Inr (tl s, st)))
      else if hd s = CHR ''{'' then Inr (tl s, on_text h ''{'' st)
      else bind_result (parse_arg_id s (\<lambda>i. on_arg_id h i st)) (\<lambda>(s, i, st).
        let c = (if s \<noteq> [] then hd s else CHR 0x00) in
        if c = CHR ''}'' then bind_result (on_replacement_field h i st) (\<lambda>st. Inr (tl s, st))
        else if c = CHR '':'' then
          bind_result (on_format_specs h i (tl s) st) (\<lambda>(n, st).
            let s = drop n (tl s) in
            if s = [] \<or> hd s \<noteq> CHR ''}'' then format_error ''unknown format specifier''
            else Inr (tl s, st))
        else format_error (''missing '' @ [CHR 0x27] @ ''}'' @ [CHR 0x27] @ '' in format string'')))"
  unfolding parse_replacement_field_def end_or_eq bind_result.simps(2) Let_def
  by (cases "tl s") simp_all

definition unmatched :: string where
  "unmatched = ''unmatched '' @ [CHR 0x27] @ ''}'' @ [CHR 0x27] @ '' in format string''"

section \<open>Progress\<close>

lemma digits_loop_rest: "digits_loop p v c n s = (p', v', c', n', rest) \<Longrightarrow> length rest \<le> length s"
  by (induction p v c n s rule: digits_loop.induct) (auto split: if_splits)

lemma parse_nonnegative_int_rest: "parse_nonnegative_int s e = (v, rest) \<Longrightarrow> length rest \<le> length s"
  by (auto simp: parse_nonnegative_int_def dest: digits_loop_rest split: prod.splits)

lemma parse_arg_id_rest: "parse_arg_id s h = Inr (rest, x) \<Longrightarrow> length rest \<le> length s"
proof -
  assume "parse_arg_id s h = Inr (rest, x)"
  moreover have "length (dropWhile is_name_char (tl s)) \<le> length s"
    by (rule order_trans [OF length_dropWhile_le]) simp
  ultimately show ?thesis
    by (cases s) (auto simp: parse_arg_id_def do_parse_arg_id_eq bind_result_Inr_iff format_error_def Let_def
      dest: parse_nonnegative_int_rest split: if_splits prod.splits)
qed

lemma parse_replacement_field_rest:
  assumes "parse_replacement_field h s st = Inr (rest, st')"
  shows "length rest < length s"
proof -
  have "length rest < length s" if "s \<noteq> []" "length (r :: string) \<le> length (tl s)" "rest = tl (drop n r)" for r n
    using that by (cases s) auto
  note shorter = this [of "tl s" 1] this [of _ 0] this
  show ?thesis
    using assms
    by (cases s) (fastforce simp: parse_replacement_field_def bind_result_Inr_iff format_error_def Let_def
      dest: parse_arg_id_rest split: if_splits)+
qed

section \<open>The loops\<close>

text \<open>The text in front of the pointer that has not been handed over is the first argument.\<close>

function small_loop :: "'s fmt_handler \<Rightarrow> string \<Rightarrow> string \<Rightarrow> 's \<Rightarrow> 's result" where
  "small_loop h pre [] st = Inr (on_text h pre st)"
| "small_loop h pre (c # s) st =
     (if c = CHR ''{'' then
        (case parse_replacement_field h (c # s) (on_text h pre st) of
           Inl x \<Rightarrow> Inl x
         | Inr (s, st) \<Rightarrow> small_loop h [] s st)
      else if c = CHR ''}'' then
        if s = [] \<or> hd s \<noteq> CHR ''}'' then format_error unmatched
        else small_loop h [] (tl s) (on_text h (pre @ [c]) st)
      else small_loop h (pre @ [c]) s st)"
  by pat_completeness auto
termination
  by (relation "measure (\<lambda>(h, pre, s, st). length s)") (auto dest: parse_replacement_field_rest)

fun find_char :: "char \<Rightarrow> string \<Rightarrow> nat option" where
  "find_char c [] = None"
| "find_char c (d # s) = (if d = c then Some 0 else map_option Suc (find_char c s))"

lemma find_char_length: "find_char c s = Some i \<Longrightarrow> i < length s"
  by (induction s arbitrary: i) (auto split: if_splits)

text \<open>\<open>writer::operator()\<close> behind its test for the empty range.\<close>

function write_text :: "'s fmt_handler \<Rightarrow> string \<Rightarrow> 's \<Rightarrow> 's result" where
  "write_text h s st =
     (case find_char CHR ''}'' s of
        None \<Rightarrow> Inr (on_text h s st)
      | Some i \<Rightarrow>
          let p = drop (i + 1) s in
          if p = [] \<or> hd p \<noteq> CHR ''}'' then format_error unmatched
          else write_text h (tl p) (on_text h (take (i + 1) s) st))"
  by pat_completeness auto
termination
  by (relation "measure (\<lambda>(h, s, st). length s)") (auto dest: find_char_length)

declare write_text.simps [simp del]

definition write_range :: "'s fmt_handler \<Rightarrow> string \<Rightarrow> 's \<Rightarrow> 's result" where
  "write_range h s st = (if s = [] then Inr st else write_text h s st)"

text \<open>The next opening brace.\<close>

definition find_field :: "string \<Rightarrow> nat option" where
  "find_field s = (if hd s = CHR ''{'' then Some 0 else map_option Suc (find_char CHR ''{'' (tl s)))"

function large_loop :: "'s fmt_handler \<Rightarrow> string \<Rightarrow> 's \<Rightarrow> 's result" where
  "large_loop h s st =
     (if s = [] then Inr st
      else case find_field s of
        None \<Rightarrow> write_range h s st
      | Some i \<Rightarrow>
          (case write_range h (take i s) st of
             Inl x \<Rightarrow> Inl x
           | Inr st \<Rightarrow>
               (case parse_replacement_field h (drop i s) st of
                  Inl x \<Rightarrow> Inl x
                | Inr (s, st) \<Rightarrow> large_loop h s st)))"
  by pat_completeness auto
termination
  by (relation "measure (\<lambda>(h, s, st). length s)") (auto dest!: parse_replacement_field_rest)

declare large_loop.simps [simp del]

definition parse_format_string :: "'s fmt_handler \<Rightarrow> string \<Rightarrow> 's \<Rightarrow> 's result" where
  "parse_format_string h s st = (if length s < 32 then small_loop h [] s st else large_loop h s st)"

section \<open>The two loops agree\<close>

lemma find_char_None: "find_char c s = None \<longleftrightarrow> c \<notin> set s"
  by (induction s) auto

lemma find_char_Some:
  "find_char c s = Some i \<Longrightarrow> i < length s \<and> drop i s = c # drop (Suc i) s \<and> c \<notin> set (take i s)"
  by (induction s arbitrary: i) (auto split: if_splits)

lemma find_field_None: "s \<noteq> [] \<Longrightarrow> find_field s = None \<Longrightarrow> CHR ''{'' \<notin> set s"
  by (cases s) (auto simp: find_field_def find_char_None split: if_splits)

lemma find_field_Some:
  "s \<noteq> [] \<Longrightarrow> find_field s = Some i \<Longrightarrow> drop i s = CHR ''{'' # drop (Suc i) s \<and> CHR ''{'' \<notin> set (take i s)"
  by (cases s) (auto simp: find_field_def dest!: find_char_Some split: if_splits)

text \<open>The contract of a handler: text may come in pieces.\<close>

locale text_handler =
  fixes h :: "'s fmt_handler"
  assumes no_text: "on_text h [] st = st"
    and more_text: "on_text h (a @ b) st = on_text h b (on_text h a st)"
begin

lemma small_loop_char:
  "c \<noteq> CHR ''{'' \<Longrightarrow> c \<noteq> CHR ''}'' \<Longrightarrow> small_loop h pre (c # s) st = small_loop h (pre @ [c]) s st"
  by simp

lemma small_loop_text: "small_loop h pre s st = small_loop h [] s (on_text h pre st)"
proof (induction "length s" arbitrary: pre s st rule: less_induct)
  case less
  show ?case
  proof (cases s)
    case Nil
    then show ?thesis by (simp add: no_text)
  next
    case (Cons c t)
    consider "c = CHR ''{''" | "c = CHR ''}''" | "c \<noteq> CHR ''{''" "c \<noteq> CHR ''}''" by blast
    then show ?thesis
    proof cases
      case 3
      with less [of t "pre @ [c]" st] less [of t "[c]" "on_text h pre st"] Cons show ?thesis
        by (simp add: more_text)
    qed (simp_all add: Cons more_text no_text)
  qed
qed

lemma small_loop_plain:
  "CHR ''{'' \<notin> set u \<Longrightarrow> CHR ''}'' \<notin> set u \<Longrightarrow> small_loop h [] (u @ v) st = small_loop h [] v (on_text h u st)"
proof (induction u arbitrary: st)
  case Nil
  then show ?case by (simp add: no_text)
next
  case (Cons c u)
  have "small_loop h [c] (u @ v) st = small_loop h [] (u @ v) (on_text h [c] st)" by (rule small_loop_text)
  moreover have "small_loop h [] (c # u @ v) st = small_loop h [c] (u @ v) st"
    using Cons.prems small_loop_char [of c "[]" "u @ v" st] by auto
  ultimately show ?case using Cons more_text [of "[c]" u st] by (simp del: small_loop.simps)
qed

lemma write_text_small_loop:
  assumes "CHR ''{'' \<notin> set u" "v = [] \<or> hd v = CHR ''{''"
  shows "small_loop h [] (u @ v) st = (case write_text h u st of Inl x \<Rightarrow> Inl x | Inr st \<Rightarrow> small_loop h [] v st)"
  using assms(1)
proof (induction "length u" arbitrary: u st rule: less_induct)
  case less
  show ?case
  proof (cases "find_char CHR ''}'' u")
    case None
    moreover from None have "CHR ''}'' \<notin> set u" by (simp add: find_char_None)
    ultimately show ?thesis
      using small_loop_plain [of u v st] less.prems by (simp add: write_text.simps [of h u])
  next
    case (Some i)
    define a p where "a = take i u" and "p = drop (i + 1) u"
    have i: "i < length u" "drop i u = CHR ''}'' # p" "CHR ''}'' \<notin> set a"
      using find_char_Some [OF Some] by (simp_all add: a_def p_def)
    have "u = a @ CHR ''}'' # p" unfolding i(2) [symmetric] a_def by simp
    moreover have "u ! i = CHR ''}''" using i(1,2) by (metis hd_drop_conv_nth list.sel(1))
    ultimately have u: "u = a @ CHR ''}'' # p" "CHR ''}'' \<notin> set a" "take (i + 1) u = a @ ''}''"
      using i(1,3) by (simp_all add: a_def take_Suc_conv_app_nth)
    have "small_loop h [] (u @ v) st = small_loop h [] (CHR ''}'' # p @ v) (on_text h a st)"
      using small_loop_plain [of a "CHR ''}'' # p @ v" st] less.prems u(1,2) by auto
    also have "\<dots> = (case write_text h u st of Inl x \<Rightarrow> Inl x | Inr st \<Rightarrow> small_loop h [] v st)"
    proof (cases "p = [] \<or> hd p \<noteq> CHR ''}''")
      case True
      then have "p @ v = [] \<or> hd (p @ v) \<noteq> CHR ''}''" using assms(2) by (cases p) auto
      then show ?thesis using True Some by (auto simp: write_text.simps [of h u] p_def format_error_def)
    next
      case False
      then obtain q where q: "p = CHR ''}'' # q" by (cases p) auto
      have "small_loop h [] (q @ v) (on_text h (a @ ''}'') st) =
          (case write_text h q (on_text h (a @ ''}'') st) of Inl x \<Rightarrow> Inl x | Inr st \<Rightarrow> small_loop h [] v st)"
        using less.prems u(1) q by (intro less.hyps) auto
      moreover have "write_text h u st = write_text h q (on_text h (a @ ''}'') st)"
        using Some q u(3) by (simp add: write_text.simps [of h u] p_def)
      ultimately show ?thesis using q by (simp add: more_text)
    qed
    finally show ?thesis .
  qed
qed

lemma loops_agree: "large_loop h s st = small_loop h [] s st"
proof (induction "length s" arbitrary: s st rule: less_induct)
  case less
  show ?case
  proof (cases "s = []")
    case True
    then show ?thesis by (simp add: large_loop.simps [of h "[]"] no_text)
  next
    case ne: False
    show ?thesis
    proof (cases "find_field s")
      case None
      then have "CHR ''{'' \<notin> set s" using find_field_None [OF ne] by simp
      from write_text_small_loop [OF this, of "[]" st]
      show ?thesis using None ne by (simp add: large_loop.simps [of h s] write_range_def no_text split: sum.split)
    next
      case (Some i)
      define u v where "u = take i s" and "v = drop (Suc i) s"
      have s: "take i s = u" "drop i s = CHR ''{'' # v" "CHR ''{'' \<notin> set u"
        using find_field_Some [OF ne Some] by (simp_all add: u_def v_def)
      then have s4: "s = u @ CHR ''{'' # v" by (metis append_take_drop_id)
      have field: "(case parse_replacement_field h (CHR ''{'' # v) st of Inl x \<Rightarrow> Inl x | Inr (s, st) \<Rightarrow> large_loop h s st)
          = small_loop h [] (CHR ''{'' # v) st" for st
        using less s4 by (auto simp: no_text dest: parse_replacement_field_rest split: sum.split)
      have "large_loop h s st = (case write_range h u st of Inl x \<Rightarrow> Inl x | Inr st \<Rightarrow> small_loop h [] (CHR ''{'' # v) st)"
        using ne Some s(1,2) field
        by (cases "write_range h u st") (simp_all add: large_loop.simps [of h s] del: small_loop.simps)
      also have "\<dots> = small_loop h [] s st"
        using write_text_small_loop [OF s(3), of "CHR ''{'' # v" st] s4
        by (cases "u = []") (simp_all add: write_range_def no_text del: small_loop.simps)
      finally show ?thesis .
    qed
  qed
qed

lemma parse_format_string_naive: "parse_format_string h s st = small_loop h [] s st"
  by (simp add: parse_format_string_def loops_agree)

lemma literal_text:
  "CHR ''{'' \<notin> set s \<Longrightarrow> CHR ''}'' \<notin> set s \<Longrightarrow> parse_format_string h s st = Inr (on_text h s st)"
  using small_loop_plain [of s "[]" st] by (simp add: parse_format_string_naive no_text)

end

end
