(* ===== verification/Fmt_Digits.thy ===== *)
theory Fmt_Digits
  imports Json_Number
begin

text \<open>
  The digits of integers in \<open>fmt/format.h\<close>: how many there are, found with the position of the
  highest bit and tables, and the loops that write them from the right into a buffer of just
  that size.
\<close>

unbundle bit_operations_syntax

section \<open>The highest bit\<close>

fun bit_size :: "nat \<Rightarrow> nat" where
  "bit_size n = (if n = 0 then 0 else Suc (bit_size (n div 2)))"

declare bit_size.simps [simp del]

text \<open>\<open>__builtin_clz\<close> and \<open>__builtin_clzll\<close>: the number of leading zero bits.\<close>

definition clz :: "'a :: len word \<Rightarrow> nat" where
  "clz w = LENGTH('a) - bit_size (unat w)"

lemma drop_bit_less: "0 < b \<Longrightarrow> drop_bit b n \<noteq> 0 \<Longrightarrow> drop_bit b n < (n :: nat)"
proof -
  assume b: "0 < b" "drop_bit b n \<noteq> 0"
  have "1 < (2 :: nat) ^ b" using b(1) by (rule one_less_power [rotated]) simp
  moreover have "0 < n" using b(2) by (cases n) simp_all
  ultimately show ?thesis by (simp add: drop_bit_eq_div)
qed

section \<open>Counting\<close>

definition bsr2log10 :: "nat list" where
  "bsr2log10 =
     [1,  1,  1,  2,  2,  2,  3,  3,  3,  4,  4,  4,  4,  5,  5,  5,
      6,  6,  6,  7,  7,  7,  7,  8,  8,  8,  9,  9,  9,  10, 10, 10,
      10, 11, 11, 11, 12, 12, 12, 13, 13, 13, 13, 14, 14, 14, 15, 15,
      15, 16, 16, 16, 16, 17, 17, 17, 18, 18, 18, 19, 19, 19, 19, 20]"

definition zero_or_powers_of_10 :: "64 word list" where
  "zero_or_powers_of_10 = 0 # 0 # map (\<lambda>k. 10 ^ k) [1..<20]"

definition count_digits_64 :: "64 word \<Rightarrow> nat" where
  "count_digits_64 n =
     (let t = bsr2log10 ! (clz (n OR 1) XOR 63)
      in t - (if n < zero_or_powers_of_10 ! t then 1 else 0))"

text \<open>\<open>FMT_INC\<close>: the number of characters of \<open>10 ^ k\<close> in the upper half, less \<open>10 ^ k\<close>.\<close>

definition FMT_INC :: "nat \<Rightarrow> 64 word" where
  "FMT_INC k = push_bit 32 (word_of_nat (k + 1)) - 10 ^ k"

definition FMT_INC_0 :: "64 word" where
  "FMT_INC_0 = push_bit 32 1 - 0"

definition count_digits_inc :: "nat \<Rightarrow> 64 word" where
  "count_digits_inc n =
     [FMT_INC_0, FMT_INC_0, FMT_INC_0, FMT_INC 1, FMT_INC 1, FMT_INC 1, FMT_INC 2, FMT_INC 2,
      FMT_INC 2, FMT_INC 3, FMT_INC 3, FMT_INC 3, FMT_INC 4, FMT_INC 4, FMT_INC 4, FMT_INC 5,
      FMT_INC 5, FMT_INC 5, FMT_INC 6, FMT_INC 6, FMT_INC 6, FMT_INC 7, FMT_INC 7, FMT_INC 7,
      FMT_INC 8, FMT_INC 8, FMT_INC 8, FMT_INC 9, FMT_INC 9, FMT_INC 9, FMT_INC 9, FMT_INC 9] ! n"

definition count_digits_32 :: "32 word \<Rightarrow> nat" where
  "count_digits_32 n =
     (let inc = count_digits_inc (clz (n OR 1) XOR 31) in unat (drop_bit 32 (ucast n + inc)))"

text \<open>
  \<open>count_digits<BITS>\<close>: with the highest bit for 32-bit numbers, a loop for others. Division and
  shifts of unsigned numbers do not wrap, so the loops run on natural numbers.
\<close>

definition count_base_digits_32 :: "nat \<Rightarrow> 32 word \<Rightarrow> nat" where
  "count_base_digits_32 bits n = (clz (n OR 1) XOR 31) div bits + 1"

function count_base_loop :: "nat \<Rightarrow> nat \<Rightarrow> nat" where
  "count_base_loop bits n =
     (if bits = 0 \<or> drop_bit bits n = 0 then 1 else 1 + count_base_loop bits (drop_bit bits n))"
  by pat_completeness auto
termination
  by (relation "measure snd") (auto intro: drop_bit_less)

declare count_base_loop.simps [simp del]

definition count_base_digits_64 :: "nat \<Rightarrow> 64 word \<Rightarrow> nat" where
  "count_base_digits_64 bits n = count_base_loop bits (unat n)"

section \<open>Writing\<close>

text \<open>
  A buffer has room for \<open>size\<close> characters and is filled from the right: more digits than that are
  written in front of it, fewer leave characters that were never written.
\<close>

definition fill_buffer :: "nat \<Rightarrow> string \<Rightarrow> string result" where
  "fill_buffer n s =
     (if length s = n then Inr s
      else if length s > n then Inl (Undefined OutOfBoundsWrite) else Inl (Undefined UninitializedRead))"

text \<open>\<open>data::digits\<close>.\<close>

definition digit_pair :: "nat \<Rightarrow> string" where
  "digit_pair v = map (\<lambda>v. [digit (v div 10), digit (v mod 10)]) [0..<100] ! v"

function decimal_loop :: "nat \<Rightarrow> string \<Rightarrow> string" where
  "decimal_loop v out =
     (if v \<ge> 100 then decimal_loop (v div 100) (digit_pair (v mod 100) @ out)
      else if v < 10 then digit v # out
      else digit_pair v @ out)"
  by pat_completeness auto
termination
  by (relation "measure fst") auto

declare decimal_loop.simps [simp del]

definition format_decimal :: "nat \<Rightarrow> nat \<Rightarrow> string result" where
  "format_decimal v num_digits = fill_buffer num_digits (decimal_loop v [])"

definition hex_digit :: "bool \<Rightarrow> nat \<Rightarrow> char" where
  "hex_digit upper d = (if upper then ''0123456789ABCDEF'' else ''0123456789abcdef'') ! d"

function uint_loop :: "nat \<Rightarrow> bool \<Rightarrow> nat \<Rightarrow> string \<Rightarrow> string" where
  "uint_loop bits upper v out =
     (let d = take_bit bits v; out = (if bits < 4 then digit d else hex_digit upper d) # out
      in if bits = 0 \<or> drop_bit bits v = 0 then out else uint_loop bits upper (drop_bit bits v) out)"
  by pat_completeness auto
termination
  by (relation "measure (\<lambda>(b, u, v, s). v)") (auto intro: drop_bit_less)

declare uint_loop.simps [simp del]

definition format_uint :: "nat \<Rightarrow> bool \<Rightarrow> nat \<Rightarrow> nat \<Rightarrow> string result" where
  "format_uint bits upper v num_digits = fill_buffer num_digits (uint_loop bits upper v [])"

section \<open>The reference: positional notation\<close>

fun positional :: "nat \<Rightarrow> bool \<Rightarrow> nat \<Rightarrow> string" where
  "positional base upper n =
     (if n < base \<or> base < 2 then [hex_digit upper n]
      else positional base upper (n div base) @ [hex_digit upper (n mod base)])"

declare positional.simps [simp del]

definition numeral_value :: "char \<Rightarrow> nat" where
  "numeral_value c =
     (if is_digit c then digit_value c
      else if CHR ''a'' \<le> c \<and> c \<le> CHR ''f'' then of_char c - 87
      else of_char c - 55)"

definition positional_value :: "nat \<Rightarrow> string \<Rightarrow> nat" where
  "positional_value base s = foldl (\<lambda>n c. base * n + numeral_value c) 0 s"

lemma below_16: "d < 16 \<Longrightarrow> d \<in> set [0, 1, 2, 3, 4, 5, 6, 7, 8, 9, 10, 11, 12, 13, 14, 15 :: nat]"
  by (simp del: disj_not1) presburger

lemma numeral_value_digit: "d < 16 \<Longrightarrow> numeral_value (hex_digit upper d) = d"
  using below_16 [of d] by (auto simp: hex_digit_def numeral_value_def is_digit_def less_eq_char_def digit_value_def)

lemma positional_value: "2 \<le> base \<Longrightarrow> base \<le> 16 \<Longrightarrow> positional_value base (positional base upper n) = n"
proof (induction base upper n rule: positional.induct)
  case (1 base upper n)
  have d: "n mod base < 16" using 1(2,3) by (meson le_trans less_le_trans mod_less_divisor not_numeral_le_zero not_le_imp_less)
  show ?case
  proof (cases "n < base")
    case True
    then show ?thesis using 1(2,3)
      by (simp add: positional.simps [of base upper n] positional_value_def numeral_value_digit)
  next
    case False
    with 1 have "positional_value base (positional base upper (n div base)) = n div base" by simp
    then show ?thesis using False 1(2) d
      by (simp add: positional.simps [of base upper n] positional_value_def numeral_value_digit)
  qed
qed

lemma length_positional:
  "2 \<le> base \<Longrightarrow> base ^ k \<le> n \<Longrightarrow> n < base ^ Suc k \<Longrightarrow> length (positional base upper n) = Suc k"
proof (induction k arbitrary: n)
  case 0
  then show ?case by (simp add: positional.simps [of base])
next
  case (Suc k)
  have "base ^ 1 \<le> base ^ Suc k" by (rule power_increasing) (use Suc.prems(1) in simp_all)
  from order_trans [OF this Suc.prems(2)] have "base \<le> n" by simp
  moreover have "base ^ k \<le> n div base" using Suc.prems by (simp add: less_eq_div_iff_mult_less_eq mult.commute)
  moreover have "n div base < base ^ Suc k" using Suc.prems by (simp add: div_less_iff_less_mult mult.commute)
  ultimately show ?case using Suc by (simp add: positional.simps [of base upper n])
qed

lemma length_positional_0: "2 \<le> base \<Longrightarrow> length (positional base upper 0) = 1"
  by (simp add: positional.simps [of base])

lemma digit_eqI: "of_char c = (48 + d :: nat) \<Longrightarrow> digit d = c"
  by (metis char_of_char digit_def)

lemma digit_hex_digit: "d < 10 \<Longrightarrow> digit d = hex_digit upper d"
  using below_16 [of d] by (intro digit_eqI) (auto simp: hex_digit_def)

lemma positional_decimal: "positional 10 upper n = decimal n"
proof (induction n rule: decimal.induct)
  case (1 n)
  show ?case
  proof (cases "n < 10")
    case True
    then show ?thesis
      unfolding positional.simps [of 10 upper n] decimal.simps [of n] by (simp add: digit_hex_digit [of _ upper])
  next
    case False
    with 1 have "positional 10 upper (n div 10) = decimal (n div 10)" by simp
    then show ?thesis using False
      unfolding positional.simps [of 10 upper n] decimal.simps [of n] by (simp add: digit_hex_digit [of _ upper])
  qed
qed

section \<open>The loops write positional notation\<close>

lemma digit_pair: "v < 100 \<Longrightarrow> digit_pair v = [digit (v div 10), digit (v mod 10)]"
  by (simp add: digit_pair_def)

lemma decimal_snoc: "10 \<le> n \<Longrightarrow> decimal n = decimal (n div 10) @ [digit (n mod 10)]"
  by (simp add: decimal.simps [of n])

lemma decimal_digit: "n < 10 \<Longrightarrow> decimal n = [digit n]"
  by (simp add: decimal.simps [of n])

lemma decimal_pair:
  assumes "10 \<le> v"
  shows "decimal v = (if v < 100 then digit_pair v else decimal (v div 100) @ digit_pair (v mod 100))"
proof (cases "v < 100")
  case True
  then have "v div 10 < 10" by (simp add: div_less_iff_less_mult)
  then show ?thesis using True decimal_snoc [OF assms] by (simp add: digit_pair decimal_digit)
next
  case False
  have "v mod 100 = 10 * (v div 10 mod 10) + v mod 10" using mod_mult2_eq [of v 10 10] by simp
  then have e: "v div 10 div 10 = v div 100" "v mod 100 div 10 = v div 10 mod 10" "v mod 100 mod 10 = v mod 10"
    using div_mult2_eq [of v 10 10] by simp_all
  have "10 \<le> v div 10" using False by (simp add: less_eq_div_iff_mult_less_eq)
  from decimal_snoc [OF this] have "decimal v = decimal (v div 100) @ [digit (v div 10 mod 10), digit (v mod 10)]"
    unfolding decimal_snoc [OF assms] e by simp
  also have "[digit (v div 10 mod 10), digit (v mod 10)] = digit_pair (v mod 100)"
    unfolding e [symmetric] by (rule digit_pair [symmetric]) simp
  finally show ?thesis using False by simp
qed

lemma decimal_loop: "decimal_loop v out = decimal v @ out"
proof (induction v out rule: decimal_loop.induct)
  case (1 v out)
  consider "v < 10" | "10 \<le> v" "v < 100" | "100 \<le> v" by linarith
  then show ?case
    using 1 by cases (simp_all add: decimal_loop.simps [of v out] decimal_digit decimal_pair)
qed

lemma uint_loop:
  "1 \<le> bits \<Longrightarrow> bits \<le> 4 \<Longrightarrow> uint_loop bits upper v out = positional (2 ^ bits) upper v @ out"
proof (induction bits upper v out rule: uint_loop.induct)
  case (1 bits upper v out)
  have base: "2 \<le> (2 :: nat) ^ bits"
    using power_increasing [of 1 bits "2 :: nat"] 1(2) by simp
  have d: "digit (v mod 2 ^ bits) = hex_digit upper (v mod 2 ^ bits)" if "bits < 4"
  proof -
    have "v mod 2 ^ bits < 2 ^ bits" by simp
    also have "\<dots> \<le> (2 :: nat) ^ 3" using that by (intro power_increasing) auto
    finally show ?thesis by (simp add: digit_hex_digit [of _ upper])
  qed
  show ?case
  proof (cases "v < 2 ^ bits")
    case True
    then show ?thesis using base d
      by (simp add: uint_loop.simps [of bits upper v] positional.simps [of _ upper v] Let_def take_bit_eq_mod drop_bit_eq_div)
  next
    case False
    then have "v div 2 ^ bits \<noteq> 0" by (simp add: div_eq_0_iff)
    with False 1 base d show ?thesis
      by (simp add: uint_loop.simps [of bits upper v] positional.simps [of _ upper v] Let_def take_bit_eq_mod drop_bit_eq_div)
  qed
qed

section \<open>The counts are those of positional notation\<close>

lemma xor_mask:
  assumes "k < 2 ^ m"
  shows "k XOR mask m = mask m - (k :: nat)"
proof -
  have bits: "bit (int k) n \<Longrightarrow> n < m" for n
    using assms by (metis bit_take_bit_iff take_bit_nat_eq_self bit_of_nat_iff_bit)
  have "(mask m :: int) - int k = mask m AND NOT (int k)"
    by (rule disjunctive_diff) (simp add: bit_mask_iff bits)
  also have "\<dots> = int k XOR mask m"
    using bits by (intro bit_eqI) (auto simp: bit_simps)
  finally have "int (k XOR mask m) = mask m - int k" by (simp add: of_nat_xor_eq of_nat_mask_eq)
  moreover have "k \<le> mask m" using assms by (simp add: mask_eq_exp_minus_1)
  ultimately have "int (k XOR mask m) = int (mask m - k)" by (simp add: of_nat_diff of_nat_mask_eq)
  then show ?thesis by (simp only: of_nat_eq_iff)
qed
lemma bit_size_bounds: "0 < n \<Longrightarrow> 0 < bit_size n \<and> 2 ^ (bit_size n - 1) \<le> n \<and> n < 2 ^ bit_size n"
proof (induction n rule: bit_size.induct)
  case (1 n)
  show ?case
  proof (cases "n = 1")
    case True
    then show ?thesis by (simp add: bit_size.simps)
  next
    case False
    define k where "k = bit_size (n div 2)"
    have k: "0 < k" "2 ^ (k - 1) \<le> n div 2" "n div 2 < 2 ^ k" and s: "bit_size n = Suc k"
      using 1 False by (simp_all add: k_def bit_size.simps [of n])
    have "2 ^ k = 2 * (2 :: nat) ^ (k - 1)" using k(1) by (cases k) simp_all
    moreover have "n = 2 * (n div 2) + n mod 2" "n mod 2 < 2" by simp_all
    ultimately have "2 ^ k \<le> n" "n < 2 * 2 ^ k" using k(2,3) by linarith+
    then show ?thesis by (simp add: s)
  qed
qed

text \<open>The position of the highest bit, as the sources compute it, and what it says of the number.\<close>

definition bsr :: "nat \<Rightarrow> nat" where
  "bsr n = bit_size (n OR 1) - 1"

lemma or_1_pos: "0 < (n OR 1 :: nat)"
  by (metis even_or_iff even_zero gr0I odd_one)

lemma bsr_bounds: "n < 2 ^ Suc (bsr n) \<and> (bsr n = 0 \<and> n \<le> 1 \<or> 0 < bsr n \<and> 2 ^ bsr n \<le> n)"
proof -
  define j where "j = bsr n"
  have o: "n OR 1 = n + of_bool (even n)" by (simp add: or_Suc_0_eq)
  from bit_size_bounds [OF or_1_pos [of n]] have j: "2 ^ j \<le> n + of_bool (even n)" "n + of_bool (even n) < 2 ^ Suc j"
    unfolding j_def bsr_def o by simp_all
  have "2 ^ j \<le> n" if "0 < j"
  proof (cases "even n")
    case True
    have "even ((2 :: nat) ^ j)" using that by simp
    then have "2 ^ j \<noteq> n + 1" using True by presburger
    then show ?thesis using j(1) True by simp
  qed (use j(1) in simp)
  moreover have "n \<le> 1" if "j = 0" using j(2) that by (cases "even n") auto
  ultimately show ?thesis using j(2) by (auto simp: j_def)
qed

lemma bsr_small:
  assumes "0 < m" "n < 2 ^ m"
  shows "bsr n < m"
proof -
  have "bsr n = 0 \<or> (2 :: nat) ^ bsr n < 2 ^ m" using bsr_bounds [of n] assms(2) le_less_trans by blast
  then show ?thesis using assms(1) by (auto simp: power_less_imp_less_exp)
qed

lemma clz_bsr:
  fixes w :: "'a :: len word"
  assumes "LENGTH('a) = 2 ^ m"
  shows "clz (w OR 1) XOR mask m = bsr (unat w)"
proof -
  have "unat (w OR 1) = unat w OR 1" by (simp add: unsigned_or_eq)
  moreover have "bsr (unat w) < 2 ^ m"
    using bsr_small [of "LENGTH('a)" "unat w"] assms unsigned_less [of w] by simp
  moreover have "0 < bit_size (unat w OR 1)" using bit_size_bounds [OF or_1_pos] by blast
  ultimately have "clz (w OR 1) = 2 ^ m - 1 - bsr (unat w)" "bsr (unat w) \<le> mask m"
    using assms by (simp_all add: clz_def bsr_def mask_eq_exp_minus_1)
  moreover from this have "clz (w OR 1) XOR mask m = mask m - clz (w OR 1)"
    by (intro xor_mask) (simp add: mask_eq_exp_minus_1 less_imp_diff_less)
  ultimately show ?thesis by (simp add: mask_eq_exp_minus_1)
qed

lemma length_decimal_power: "10 ^ k \<le> n \<Longrightarrow> n < 10 ^ Suc k \<Longrightarrow> length (decimal n) = Suc k"
  using length_positional [of 10 k n False] by (simp add: positional_decimal)

text \<open>What makes a table of digit counts by the highest bit right.\<close>

fun table_ok :: "nat \<Rightarrow> nat list \<Rightarrow> bool" where
  "table_ok p [] \<longleftrightarrow> True"
| "table_ok p (t # ts) \<longleftrightarrow> 1 \<le> t \<and> 2 * p \<le> 10 ^ t \<and> (2 \<le> t \<longrightarrow> 10 ^ (t - 2) \<le> p) \<and> table_ok (2 * p) ts"

lemma table_ok:
  "table_ok p ts \<Longrightarrow> j < length ts \<Longrightarrow>
     1 \<le> ts ! j \<and> 2 * (p * 2 ^ j) \<le> 10 ^ (ts ! j) \<and> (2 \<le> ts ! j \<longrightarrow> 10 ^ (ts ! j - 2) \<le> p * 2 ^ j)"
  by (induction p ts arbitrary: j rule: table_ok.induct) (auto simp: nth_Cons mult.assoc mult.left_commute split: nat.split)

lemma table_counts:
  assumes "table_ok 1 ts" "bsr n < length ts" "t = ts ! bsr n"
  shows "length (decimal n) = (if t = 1 \<or> 10 ^ (t - 1) \<le> n then t else t - 1)"
proof -
  have t: "1 \<le> t" "2 ^ Suc (bsr n) \<le> (10 :: nat) ^ t" "2 \<le> t \<Longrightarrow> (10 :: nat) ^ (t - 2) \<le> 2 ^ bsr n"
    using table_ok [OF assms(1,2)] assms(3) by simp_all
  have n: "n < 10 ^ t" using bsr_bounds [of n] t(2) by linarith
  consider "t = 1" | k where "t = Suc (Suc k)" using t(1) by (metis One_nat_def Suc_le_D old.nat.exhaust)
  then show ?thesis
  proof cases
    case 1
    then show ?thesis using n by (simp add: decimal_digit)
  next
    case 2
    show ?thesis
    proof (cases "10 ^ Suc k \<le> n")
      case True
      then show ?thesis using n 2 length_decimal_power [of "Suc k" n] by simp
    next
      case False
      have "10 ^ k \<le> (2 :: nat) ^ bsr n" using t(3) 2 by simp
      moreover have "k = 0" if "bsr n = 0" using \<open>10 ^ k \<le> 2 ^ bsr n\<close> that self_le_power [of "10 :: nat" k] by (cases "k = 0") simp_all
      ultimately show ?thesis
        using False 2 bsr_bounds [of n] length_decimal_power [of k n] by (cases "bsr n = 0") (auto simp: decimal_digit)
    qed
  qed
qed

lemma bsr2log10_ok: "table_ok 1 bsr2log10"
  by (simp add: bsr2log10_def)


lemma table_range: "j < 64 \<Longrightarrow> bsr2log10 ! j \<le> 20"
proof -
  have "list_all (\<lambda>t. t \<le> 20) bsr2log10" "length bsr2log10 = 64" by (simp_all add: bsr2log10_def)
  then show "j < 64 \<Longrightarrow> bsr2log10 ! j \<le> 20" by (simp add: list_all_length)
qed

lemma unat_word_of_nat: "n < 2 ^ LENGTH('a) \<Longrightarrow> unat (word_of_nat n :: 'a :: len word) = n"
  by (simp add: unsigned_of_nat take_bit_nat_eq_self)

lemma unat_power_10:
  assumes "k \<le> 19"
  shows "unat (10 ^ k :: 64 word) = 10 ^ k"
proof -
  have "(10 :: nat) ^ k \<le> 10 ^ 19" using assms by (intro power_increasing) auto
  then have "(10 :: nat) ^ k < 2 ^ LENGTH(64)" by (rule order.strict_trans1) simp
  from unat_word_of_nat [OF this] show ?thesis by simp
qed

theorem count_digits_64: "count_digits_64 w = length (decimal (unat w))"
proof -
  define j where "j = bsr (unat w)"
  define t where "t = bsr2log10 ! j"
  have j: "clz (w OR 1) XOR 63 = j" using clz_bsr [of 6 w] by (simp add: j_def mask_eq_exp_minus_1)
  have "length bsr2log10 = 64" by (simp add: bsr2log10_def)
  moreover have "j < 64" using bsr_small [of 64 "unat w"] unsigned_less [of w] by (simp add: j_def)
  ultimately have len: "length (decimal (unat w)) = (if t = 1 \<or> 10 ^ (t - 1) \<le> unat w then t else t - 1)"
    and t: "1 \<le> t" "t \<le> 20"
    using table_counts [OF bsr2log10_ok, of "unat w" t] table_ok [OF bsr2log10_ok, of j] table_range
    by (simp_all add: j_def t_def)
  have "w < zero_or_powers_of_10 ! t \<longleftrightarrow> t \<noteq> 1 \<and> unat w < 10 ^ (t - 1)"
  proof (cases "t = 1")
    case True
    then show ?thesis by (simp add: zero_or_powers_of_10_def)
  next
    case False
    have "zero_or_powers_of_10 ! t = 10 ^ (t - 1)"
      using t False by (simp add: zero_or_powers_of_10_def nth_Cons split: nat.split)
    then show ?thesis using False t(2) unat_power_10 [of "t - 1"] by (simp add: word_less_nat_alt)
  qed
  with len show ?thesis
    using j by (auto simp: count_digits_64_def t_def Let_def not_less)
qed


text \<open>The table for 32 bits: adding its entry carries into the upper half from \<open>10 ^ k\<close> on.\<close>

definition inc_exponents :: "nat list" where
  "inc_exponents = [1, 1, 1, 2, 2, 2, 3, 3, 3, 4, 4, 4, 5, 5, 5, 6, 6, 6, 7, 7, 7, 8, 8, 8, 9, 9, 9, 10, 10, 10, 10, 10]"

lemma inc_exponents_ok: "table_ok 1 inc_exponents" "length inc_exponents = 32"
  by (simp_all add: inc_exponents_def)

lemma count_digits_inc_eq:
  assumes "j < 32"
  shows "count_digits_inc j = (if inc_exponents ! j = 1 then FMT_INC_0 else FMT_INC (inc_exponents ! j - 1))"
proof -
  have "list_all (\<lambda>(e, f). f = (if e = 1 then FMT_INC_0 else FMT_INC (e - 1)))
      (zip inc_exponents (map count_digits_inc [0..<32]))"
    by (simp add: inc_exponents_def count_digits_inc_def upt_rec)
  then show ?thesis using assms inc_exponents_ok(2) by (simp add: list_all_length)
qed

lemma inc_range: "j < 32 \<Longrightarrow> inc_exponents ! j \<le> 10"
proof -
  have "list_all (\<lambda>t. t \<le> 10) inc_exponents" by (simp add: inc_exponents_def)
  then show "j < 32 \<Longrightarrow> inc_exponents ! j \<le> 10" by (simp add: list_all_length inc_exponents_ok)
qed

lemma carry:
  assumes "k \<le> 9" "n < 2 ^ 32"
  shows "unat (drop_bit 32 (word_of_nat n + FMT_INC k)) = (if 10 ^ k \<le> n then k + 1 else k)"
proof -
  have "(10 :: nat) ^ k \<le> 10 ^ 9" using assms(1) by (intro power_increasing) auto
  then have p: "(10 :: nat) ^ k < 2 ^ 32" by (rule order.strict_trans1) simp
  define m where "m = k * 2 ^ 32 + (2 ^ 32 + n - 10 ^ k)"
  have "(word_of_nat n + FMT_INC k) + 10 ^ k = (word_of_nat (m + 10 ^ k) :: 64 word)"
    using p by (simp add: FMT_INC_def m_def push_bit_eq_mult algebra_simps)
  then have "(word_of_nat n + FMT_INC k) = (word_of_nat m :: 64 word)" by simp
  moreover have m: "m < 11 * 2 ^ 32" using assms p by (simp add: m_def)
  moreover have "unat (word_of_nat m :: 64 word) = m" using m by (intro unat_word_of_nat) simp
  ultimately have "unat (drop_bit 32 (word_of_nat n + FMT_INC k)) = drop_bit 32 m"
    by (simp only: unat_drop_bit_eq)
  also have "\<dots> = m div 2 ^ 32" by (rule drop_bit_eq_div)
  also have "\<dots> = (if 10 ^ k \<le> n then k + 1 else k)"
  proof (cases "10 ^ k \<le> n")
    case True
    then have "m = (k + 1) * 2 ^ 32 + (n - 10 ^ k)" by (simp add: m_def)
    then show ?thesis using True assms(2) by simp
  next
    case False
    then have "m = k * 2 ^ 32 + (2 ^ 32 + n - 10 ^ k)" "2 ^ 32 + n - 10 ^ k < 2 ^ 32" using p by (simp_all add: m_def)
    then show ?thesis using False by simp
  qed
  finally show ?thesis .
qed

theorem count_digits_32: "count_digits_32 w = length (decimal (unat w))"
proof -
  define n where "n = unat w"
  define j where "j = bsr n"
  define t where "t = inc_exponents ! j"
  have n: "n < 2 ^ 32" "word_of_nat n = (ucast w :: 64 word)" using unsigned_less [of w] by (simp_all add: n_def)
  have j: "clz (w OR 1) XOR 31 = j" using clz_bsr [of 5 w] by (simp add: j_def n_def mask_eq_exp_minus_1)
  have "j < 32" using bsr_small [of 32 n] n(1) by (simp add: j_def)
  then have len: "length (decimal n) = (if t = 1 \<or> 10 ^ (t - 1) \<le> n then t else t - 1)"
    and t: "1 \<le> t" "t \<le> 10" and inc: "count_digits_inc j = (if t = 1 then FMT_INC_0 else FMT_INC (t - 1))"
    using table_counts [OF inc_exponents_ok(1), of n t] table_ok [OF inc_exponents_ok(1), of j]
      count_digits_inc_eq [of j] inc_exponents_ok(2) inc_range
    by (simp_all add: j_def t_def)
  show ?thesis
  proof (cases "t = 1")
    case True
    have "ucast w + FMT_INC_0 = (word_of_nat (n + 2 ^ 32) :: 64 word)" using n(2) by (simp add: FMT_INC_0_def)
    moreover have "unat (word_of_nat (n + 2 ^ 32) :: 64 word) = n + 2 ^ 32"
      using n(1) by (intro unat_word_of_nat) simp
    ultimately have "unat (drop_bit 32 (ucast w + FMT_INC_0)) = drop_bit 32 (n + 2 ^ 32)"
      by (simp only: unat_drop_bit_eq)
    then show ?thesis using True len inc j n(1) by (simp add: count_digits_32_def n_def drop_bit_eq_div)
  next
    case False
    then show ?thesis
      using carry [of "t - 1" n] t n len inc j by (auto simp: count_digits_32_def n_def)
  qed
qed

lemma length_base_digits:
  assumes "0 < bits"
  shows "length (positional (2 ^ bits) upper n) = bsr n div bits + 1"
proof -
  define k where "k = bsr n div bits"
  have base: "2 \<le> (2 :: nat) ^ bits" using power_increasing [of 1 bits "2 :: nat"] assms by simp
  have "(2 ^ bits) ^ k \<le> (2 :: nat) ^ bsr n"
    by (simp add: k_def power_mult [symmetric] power_increasing)
  moreover have "(2 :: nat) ^ Suc (bsr n) \<le> (2 ^ bits) ^ Suc k"
  proof -
    have "Suc (bsr n) \<le> bits * Suc k"
      using mult_div_mod_eq [of bits "bsr n"] mod_less_divisor [OF assms, of "bsr n"]
      unfolding k_def mult_Suc_right by linarith
    then show ?thesis unfolding power_mult [symmetric] by (intro power_increasing) auto
  qed
  ultimately show ?thesis
    using bsr_bounds [of n] length_positional [OF base, of k n upper] length_positional_0 [OF base]
    by (auto simp: k_def positional.simps [of _ upper n])
qed

theorem count_base_digits_32:
  "0 < bits \<Longrightarrow> count_base_digits_32 bits w = length (positional (2 ^ bits) upper (unat w))"
  using clz_bsr [of 5 w] by (simp add: count_base_digits_32_def length_base_digits mask_eq_exp_minus_1)

lemma count_base_loop:
  "0 < bits \<Longrightarrow> count_base_loop bits n = length (positional (2 ^ bits) upper n)"
proof (induction bits n rule: count_base_loop.induct)
  case (1 bits n)
  have base: "2 \<le> (2 :: nat) ^ bits" using power_increasing [of 1 bits "2 :: nat"] 1(2) by simp
  show ?case
  proof (cases "n < 2 ^ bits")
    case True
    then show ?thesis
      by (simp add: count_base_loop.simps [of bits n] positional.simps [of _ upper n] drop_bit_eq_div)
  next
    case False
    then have "n div 2 ^ bits \<noteq> 0" by (simp add: div_eq_0_iff)
    with False 1 base show ?thesis
      by (simp add: count_base_loop.simps [of bits n] positional.simps [of _ upper n] drop_bit_eq_div)
  qed
qed

theorem count_base_digits_64:
  "0 < bits \<Longrightarrow> count_base_digits_64 bits w = length (positional (2 ^ bits) upper (unat w))"
  by (simp add: count_base_digits_64_def count_base_loop [of bits _ upper])

end
