(* ===== verification/Fmt_Write.thy ===== *)
theory Fmt_Write
  imports Fmt_Parse Fmt_Digits
begin

text \<open>
  The output functions of \<open>fmt/format.h\<close> for integers, booleans, characters, strings and
  pointers: padding, prefixes and digits. The locale is the C locale, which has no grouping.
\<close>

section \<open>The display width of a string\<close>

text \<open>\<open>utf8_decode\<close> reads four code units, whatever the length of the code point.\<close>

definition utf8_decode :: "string \<Rightarrow> nat \<times> 32 word \<times> 32 word" where
  "utf8_decode s =
     (let masks = [0x00, 0x7f, 0x1f, 0x0f, 0x07];
          mins = [4194304, 0, 128, 2048, 65536];
          shiftc = [0, 18, 12, 6, 0];
          shifte = [0, 6, 4, 2, 0];
          b = (\<lambda>i. word_of_nat (of_char (s ! i)));
          len = code_point_length (s ! 0);
          c = push_bit 18 (b 0 AND masks ! len) OR push_bit 12 (b 1 AND 0x3f)
                OR push_bit 6 (b 2 AND 0x3f) OR (b 3 AND 0x3f);
          c = drop_bit (shiftc ! len) c;
          e = push_bit 6 (if c < mins ! len then 1 else 0);
          e = e OR push_bit 7 (if drop_bit 11 c = 0x1b then 1 else 0);
          e = e OR push_bit 8 (if c > 0x10FFFF then 1 else 0);
          e = e OR drop_bit 2 (b 1 AND 0xc0);
          e = e OR drop_bit 4 (b 2 AND 0xc0);
          e = e OR drop_bit 6 (b 3);
          e = drop_bit (shifte ! len) (e XOR 0x2a)
      in (len, c, e))"

lemma code_point_length_pos: "0 < code_point_length c"
  by (simp add: code_point_length_def Let_def)

lemma utf8_decode_pos: "(n, r) = utf8_decode s \<Longrightarrow> 0 < n"
  by (simp add: utf8_decode_def Let_def code_point_length_pos)

text \<open>The last code units are decoded in a buffer of seven that is filled up with zeros.\<close>

function buffer_points :: "nat \<Rightarrow> string \<Rightarrow> (32 word \<times> 32 word) list" where
  "buffer_points left p =
     (case utf8_decode p of
        (n, cp, e) \<Rightarrow> (cp, e) # (if n < left then buffer_points (left - n) (drop n p) else []))"
  by pat_completeness auto
termination
  by (relation "measure fst") (auto dest: utf8_decode_pos)

declare buffer_points.simps [simp del]

function for_each_codepoint :: "string \<Rightarrow> (32 word \<times> 32 word) list" where
  "for_each_codepoint s =
     (if length s \<ge> 4 then
        (case utf8_decode s of (n, cp, e) \<Rightarrow> (cp, e) # for_each_codepoint (drop n s))
      else if s = [] then []
      else buffer_points (length s) (s @ replicate (7 - length s) CHR 0x00))"
  by pat_completeness auto
termination
  by (relation "measure length") (auto dest: utf8_decode_pos)

declare for_each_codepoint.simps [simp del]

definition wide_code_point :: "32 word \<Rightarrow> bool" where
  "wide_code_point cp \<longleftrightarrow>
     cp \<ge> 0x1100 \<and>
     (cp \<le> 0x115f \<or> cp = 0x2329 \<or> cp = 0x232a
      \<or> cp \<ge> 0x2e80 \<and> cp \<le> 0xa4cf \<and> cp \<noteq> 0x303f
      \<or> cp \<ge> 0xac00 \<and> cp \<le> 0xd7a3
      \<or> cp \<ge> 0xf900 \<and> cp \<le> 0xfaff
      \<or> cp \<ge> 0xfe10 \<and> cp \<le> 0xfe19
      \<or> cp \<ge> 0xfe30 \<and> cp \<le> 0xfe6f
      \<or> cp \<ge> 0xff00 \<and> cp \<le> 0xff60
      \<or> cp \<ge> 0xffe0 \<and> cp \<le> 0xffe6
      \<or> cp \<ge> 0x20000 \<and> cp \<le> 0x2fffd
      \<or> cp \<ge> 0x30000 \<and> cp \<le> 0x3fffd
      \<or> cp \<ge> 0x1f300 \<and> cp \<le> 0x1f64f
      \<or> cp \<ge> 0x1f900 \<and> cp \<le> 0x1f9ff)"

definition compute_width :: "string \<Rightarrow> nat" where
  "compute_width s =
     sum_list (map (\<lambda>(cp, e). 1 + (if e = 0 \<and> wide_code_point cp then 1 else 0)) (for_each_codepoint s))"

section \<open>Padding\<close>

fun align_index :: "fmt_align \<Rightarrow> nat" where
  "align_index Align_none = 0"
| "align_index Align_left = 1"
| "align_index Align_right = 2"
| "align_index Align_center = 3"
| "align_index Align_numeric = 4"

definition left_padding_shifts :: "nat list" where
  "left_padding_shifts = [31, 31, 0, 1, 0]"

definition right_padding_shifts :: "nat list" where
  "right_padding_shifts = [0, 31, 0, 1, 0]"

definition fill_n :: "nat \<Rightarrow> string \<Rightarrow> string" where
  "fill_n n fill = concat (replicate n fill)"

text \<open>
  The first argument is the alignment without specification: \<open>True\<close> for \<open>align::left\<close>. The
  padding is a 64-bit \<open>size_t\<close>.
\<close>

definition write_padded :: "bool \<Rightarrow> 'a format_specs_scheme \<Rightarrow> nat \<Rightarrow> string \<Rightarrow> string" where
  "write_padded left sp width content =
     (let padding = nat (fs_width sp) - width;
          shifts = (if left then left_padding_shifts else right_padding_shifts);
          left_padding = unat (drop_bit (shifts ! align_index (fs_align sp)) (word_of_nat padding :: 64 word));
          right_padding = padding - left_padding
      in fill_n left_padding (fs_fill sp) @ content @ fill_n right_padding (fs_fill sp))"

definition write_bytes :: "bool \<Rightarrow> string \<Rightarrow> 'a format_specs_scheme \<Rightarrow> string" where
  "write_bytes left bytes sp = write_padded left sp (length bytes) bytes"

definition write_char :: "char \<Rightarrow> 'a format_specs_scheme \<Rightarrow> string" where
  "write_char c sp = write_padded True sp 1 [c]"

section \<open>Integers\<close>

text \<open>
  A prefix holds up to three characters in its lower bytes, the first one lowest, and their
  number in its highest byte.
\<close>

definition prefix_size :: "32 word \<Rightarrow> nat" where
  "prefix_size prefix = unat (drop_bit 24 prefix)"

fun prefix_loop :: "nat \<Rightarrow> 32 word \<Rightarrow> string" where
  "prefix_loop 0 p = []"
| "prefix_loop (Suc n) p = (if p = 0 then [] else char_of (unat (p AND 0xff)) # prefix_loop n (drop_bit 8 p))"

definition prefix_chars :: "32 word \<Rightarrow> string" where
  "prefix_chars prefix = prefix_loop 3 (prefix AND 0xffffff)"

definition prefix_append :: "32 word \<Rightarrow> 32 word \<Rightarrow> 32 word" where
  "prefix_append prefix v =
     (prefix OR (if prefix \<noteq> 0 then push_bit 8 v else v)) + push_bit 24 (1 + (if v > 0xff then 1 else 0))"

definition char_bits :: "char \<Rightarrow> 32 word" where
  "char_bits c = word_of_nat (of_char c)"

definition sign_bits :: "char \<Rightarrow> 32 word" where
  "sign_bits c = 0x1000000 OR char_bits c"

definition base_bits :: "char \<Rightarrow> 32 word" where
  "base_bits t = push_bit 8 (char_bits t) OR char_bits CHR ''0''"

fun sign_prefix :: "fmt_sign \<Rightarrow> 32 word" where
  "sign_prefix Sign_none = 0"
| "sign_prefix Sign_minus = 0"
| "sign_prefix Sign_plus = sign_bits CHR ''+''"
| "sign_prefix Sign_space = sign_bits CHR '' ''"

text \<open>The absolute value, as a 32-bit or a 64-bit number.\<close>

datatype abs_value = Abs32 "32 word" | Abs64 "64 word"

fun abs_nat :: "abs_value \<Rightarrow> nat" where
  "abs_nat (Abs32 w) = unat w"
| "abs_nat (Abs64 w) = unat w"

fun count_abs_digits :: "abs_value \<Rightarrow> nat" where
  "count_abs_digits (Abs32 w) = count_digits_32 w"
| "count_abs_digits (Abs64 w) = count_digits_64 w"

fun count_base_digits :: "nat \<Rightarrow> abs_value \<Rightarrow> nat" where
  "count_base_digits bits (Abs32 w) = count_base_digits_32 bits w"
| "count_base_digits bits (Abs64 w) = count_base_digits_64 bits w"

datatype fmt_integer =
    Int_value "32 word" | UInt_value "32 word" | LongLong_value "64 word" | ULongLong_value "64 word"

fun integer_value :: "fmt_integer \<Rightarrow> int" where
  "integer_value (Int_value w) = sint w"
| "integer_value (UInt_value w) = uint w"
| "integer_value (LongLong_value w) = sint w"
| "integer_value (ULongLong_value w) = uint w"

definition minus_prefix :: "32 word" where
  "minus_prefix = sign_bits CHR ''-''"

fun make_write_int_arg :: "fmt_integer \<Rightarrow> fmt_sign \<Rightarrow> abs_value \<times> 32 word" where
  "make_write_int_arg (Int_value w) sg =
     (if sint w < 0 then (Abs32 (0 - w), minus_prefix) else (Abs32 w, sign_prefix sg))"
| "make_write_int_arg (UInt_value w) sg = (Abs32 w, sign_prefix sg)"
| "make_write_int_arg (LongLong_value w) sg =
     (if sint w < 0 then (Abs64 (0 - w), minus_prefix) else (Abs64 w, sign_prefix sg))"
| "make_write_int_arg (ULongLong_value w) sg = (Abs64 w, sign_prefix sg)"

text \<open>\<open>write_int_data\<close>: the size of the whole number and how many zeros precede its digits.\<close>

definition write_int_data :: "nat \<Rightarrow> 32 word \<Rightarrow> 'a format_specs_scheme \<Rightarrow> nat \<times> nat" where
  "write_int_data num_digits prefix sp =
     (let n = prefix_size prefix + num_digits in
      if fs_align sp = Align_numeric then
        if nat (fs_width sp) > n then (nat (fs_width sp), nat (fs_width sp) - n) else (n, 0)
      else if fs_precision sp > int num_digits then
        (prefix_size prefix + nat (fs_precision sp), nat (fs_precision sp) - num_digits)
      else (n, 0))"

definition write_digits :: "nat \<Rightarrow> 32 word \<Rightarrow> 'a format_specs_scheme \<Rightarrow> string result \<Rightarrow> string result" where
  "write_digits num_digits prefix sp digits =
     bind_result digits (\<lambda>digits.
       if fs_width sp = 0 \<and> fs_precision sp = - 1 then
         Inr ((if prefix \<noteq> 0 then prefix_chars prefix else []) @ digits)
       else case write_int_data num_digits prefix sp of
         (n, zeros) \<Rightarrow>
           Inr (write_padded False sp n (prefix_chars prefix @ replicate zeros CHR ''0'' @ digits)))"

definition write_int :: "abs_value \<times> 32 word \<Rightarrow> 'a format_specs_scheme \<Rightarrow> string result" where
  "write_int arg sp =
     (let v = fst arg; prefix = snd arg; t = fs_type sp in
      if t = CHR 0x00 \<or> t = CHR ''d'' then
        write_digits (count_abs_digits v) prefix sp (format_decimal (abs_nat v) (count_abs_digits v))
      else if t = CHR ''x'' \<or> t = CHR ''X'' then
        let prefix = (if fs_alt sp then prefix_append prefix (base_bits t) else prefix);
            n = count_base_digits 4 v
        in write_digits n prefix sp (format_uint 4 (t \<noteq> CHR ''x'') (abs_nat v) n)
      else if t = CHR ''b'' \<or> t = CHR ''B'' then
        let prefix = (if fs_alt sp then prefix_append prefix (base_bits t) else prefix);
            n = count_base_digits 1 v
        in write_digits n prefix sp (format_uint 1 False (abs_nat v) n)
      else if t = CHR ''o'' then
        let n = count_base_digits 3 v;
            prefix = (if fs_alt sp \<and> fs_precision sp \<le> int n \<and> abs_nat v \<noteq> 0
                      then prefix_append prefix (char_bits CHR ''0'') else prefix)
        in write_digits n prefix sp (format_uint 3 False (abs_nat v) n)
      else if t = CHR ''c'' then Inr (write_char (char_of (abs_nat v)) sp)
      else format_error ''invalid type specifier'')"

text \<open>The output of an integer without specification.\<close>

definition write_default_int :: "fmt_integer \<Rightarrow> string result" where
  "write_default_int i =
     (case make_write_int_arg i Sign_none of
        (v, prefix) \<Rightarrow>
          bind_result (format_decimal (abs_nat v) (count_abs_digits v)) (\<lambda>digits.
            Inr ((if integer_value i < 0 then ''-'' else []) @ digits)))"

section \<open>Other types\<close>

definition check_int_type_spec :: "char \<Rightarrow> unit result" where
  "check_int_type_spec t =
     (if t \<in> set [CHR 0x00, CHR ''d'', CHR ''x'', CHR ''X'', CHR ''b'', CHR ''B'', CHR ''o'', CHR ''c'']
      then Inr () else format_error ''invalid type specifier'')"

definition check_char_specs :: "'a format_specs_scheme \<Rightarrow> bool result" where
  "check_char_specs sp =
     (if fs_type sp \<noteq> CHR 0x00 \<and> fs_type sp \<noteq> CHR ''c'' then
        bind_result (check_int_type_spec (fs_type sp)) (\<lambda>_. Inr False)
      else if fs_align sp = Align_numeric \<or> fs_sign sp \<noteq> Sign_none \<or> fs_alt sp
      then format_error ''invalid format specifier for char''
      else Inr True)"

definition check_string_type_spec :: "char \<Rightarrow> unit result" where
  "check_string_type_spec t =
     (if t = CHR 0x00 \<or> t = CHR ''s'' then Inr () else format_error ''invalid type specifier'')"

definition check_cstring_type_spec :: "char \<Rightarrow> bool result" where
  "check_cstring_type_spec t =
     (if t = CHR 0x00 \<or> t = CHR ''s'' then Inr True
      else if t = CHR ''p'' then Inr False else format_error ''invalid type specifier'')"

definition check_pointer_type_spec :: "char \<Rightarrow> unit result" where
  "check_pointer_type_spec t =
     (if t = CHR 0x00 \<or> t = CHR ''p'' then Inr () else format_error ''invalid type specifier'')"

text \<open>The precision of a string counts code units, its width counts columns.\<close>

definition code_point_index :: "string \<Rightarrow> nat \<Rightarrow> nat" where
  "code_point_index s n = min n (length s)"

definition write_string :: "string \<Rightarrow> 'a format_specs_scheme \<Rightarrow> string" where
  "write_string s sp =
     (let n = (if fs_precision sp \<ge> 0 \<and> nat (fs_precision sp) < length s
               then code_point_index s (nat (fs_precision sp)) else length s);
          width = (if fs_width sp \<noteq> 0 then compute_width (take n s) else 0)
      in write_padded True sp width (take n s))"

definition write_ptr :: "64 word \<Rightarrow> 'a format_specs_scheme option \<Rightarrow> string result" where
  "write_ptr p specs =
     (let n = count_base_digits 4 (Abs64 p) in
      bind_result (format_uint 4 False (unat p) n) (\<lambda>digits.
        Inr (case specs of
               Some sp \<Rightarrow> write_padded False sp (n + 2) (''0x'' @ digits)
             | None \<Rightarrow> ''0x'' @ digits)))"

end
