(* ===== verification/Fmt_Format.thy ===== *)
theory Fmt_Format
  imports Fmt_String Fmt_Write
begin

text \<open>
  \<open>vformat_to\<close> of \<open>fmt/format.h\<close>: arguments, the handler that formats them, the formatters of
  the library's types and the two custom ones the server prints: \<open>fmt::join\<close> and a
  \<open>packet_view\<close>. Floating-point arguments are left out.
\<close>

section \<open>Arguments\<close>

text \<open>
  The handle of a custom type is its formatter: given the values of dynamic specifications, the
  rest of the format string and the argument counter it returns how far it has parsed, the new
  counter and the text.
\<close>

type_synonym spec_lookup = "bool \<Rightarrow> arg_id \<Rightarrow> int result"
type_synonym custom_handle = "spec_lookup \<Rightarrow> string \<Rightarrow> int \<Rightarrow> ((nat \<times> int) \<times> string) result"

text \<open>A C string is its address, zero for the null pointer, and its characters.\<close>

datatype fmt_arg =
    Integer_arg fmt_integer
  | Bool_arg bool
  | Char_arg char
  | CString_arg "64 word" string
  | String_arg string
  | Pointer_arg "64 word"
  | Custom_arg custom_handle

fun integer_type :: "fmt_integer \<Rightarrow> fmt_type" where
  "integer_type (Int_value _) = int_type"
| "integer_type (UInt_value _) = uint_type"
| "integer_type (LongLong_value _) = long_long_type"
| "integer_type (ULongLong_value _) = ulong_long_type"

fun arg_type :: "fmt_arg \<Rightarrow> fmt_type" where
  "arg_type (Integer_arg i) = integer_type i"
| "arg_type (Bool_arg _) = bool_type"
| "arg_type (Char_arg _) = char_type"
| "arg_type (CString_arg _ _) = cstring_type"
| "arg_type (String_arg _) = string_type"
| "arg_type (Pointer_arg _) = pointer_type"
| "arg_type (Custom_arg _) = custom_type"

record format_args =
  fa_args :: "fmt_arg list"
  fa_names :: "(string \<times> int) list"

definition args_get :: "format_args \<Rightarrow> int \<Rightarrow> fmt_arg option" where
  "args_get fa i = (if 0 \<le> i \<and> nat i < length (fa_args fa) then Some (fa_args fa ! nat i) else None)"

definition args_get_id :: "format_args \<Rightarrow> string \<Rightarrow> int" where
  "args_get_id fa name = (case map_of (fa_names fa) name of Some i \<Rightarrow> i | None \<Rightarrow> - 1)"

definition get_arg :: "format_args \<Rightarrow> int \<Rightarrow> fmt_arg result" where
  "get_arg fa i = (case args_get fa i of Some a \<Rightarrow> Inr a | None \<Rightarrow> format_error ''argument not found'')"

section \<open>Dynamic width and precision\<close>

definition spec_name :: "bool \<Rightarrow> string" where
  "spec_name w = (if w then ''width'' else ''precision'')"

text \<open>\<open>get_dynamic_spec\<close> with \<open>width_checker\<close> or \<open>precision_checker\<close>.\<close>

fun get_dynamic_spec :: "bool \<Rightarrow> fmt_arg option \<Rightarrow> int result" where
  "get_dynamic_spec w (Some (Integer_arg i)) =
     (if integer_value i < 0 then format_error (''negative '' @ spec_name w)
      else if integer_value i > 2 ^ 31 - 1 then format_error ''number is too big''
      else Inr (integer_value i))"
| "get_dynamic_spec w _ = format_error (spec_name w @ '' is not integer'')"

definition set_dynamic :: "bool \<Rightarrow> int \<Rightarrow> 'a format_specs_scheme \<Rightarrow> 'a format_specs_scheme" where
  "set_dynamic w v sp = (if w then sp\<lparr>fs_width := v\<rparr> else sp\<lparr>fs_precision := v\<rparr>)"

text \<open>\<open>specs_handler\<close>.\<close>

fun specs_dynamic :: "format_args \<Rightarrow> 'a dynamic_handler" where
  "specs_dynamic fa w i (sp, ctx) =
     bind_result
       (case i of
          Auto_id \<Rightarrow> next_arg_id ctx
        | Index_id n \<Rightarrow> bind_result (check_arg_id ctx) (\<lambda>ctx. Inr (n, ctx))
        | Name_id s \<Rightarrow> Inr (args_get_id fa s, ctx)) (\<lambda>(n, ctx).
     bind_result (get_arg fa n) (\<lambda>arg.
     bind_result (get_dynamic_spec w (Some arg)) (\<lambda>v. Inr (set_dynamic w v sp, ctx))))"

section \<open>Formatting one argument\<close>

definition bool_text :: "bool \<Rightarrow> string" where
  "bool_text b = (if b then ''true'' else ''false'')"

definition sign_extend_char :: "char \<Rightarrow> 32 word" where
  "sign_extend_char c = scast (word_of_nat (of_char c) :: 8 word)"

text \<open>\<open>default_arg_formatter\<close>, for a field without specification.\<close>

fun default_arg_formatter :: "spec_lookup \<Rightarrow> fmt_arg \<Rightarrow> string result" where
  "default_arg_formatter look (Integer_arg i) = write_default_int i"
| "default_arg_formatter look (Bool_arg b) = Inr (write_bytes True (bool_text b) make_format_specs)"
| "default_arg_formatter look (Char_arg c) = Inr [c]"
| "default_arg_formatter look (CString_arg p s) =
     (if p = 0 then format_error ''string pointer is null'' else Inr s)"
| "default_arg_formatter look (String_arg s) = Inr s"
| "default_arg_formatter look (Pointer_arg p) =
     bind_result (check_pointer_type_spec (fs_type make_format_specs)) (\<lambda>_. write_ptr p (Some make_format_specs))"
| "default_arg_formatter look (Custom_arg h) = bind_result (h look [] 0) (\<lambda>(_, s). Inr s)"

text \<open>
  \<open>arg_formatter\<close>, for a field with a specification. The length of the null pointer as a
  string is undefined. Custom types do not get here.
\<close>

fun arg_formatter :: "'a format_specs_scheme \<Rightarrow> fmt_arg \<Rightarrow> string result" where
  "arg_formatter sp (Integer_arg i) = write_int (make_write_int_arg i (fs_sign sp)) sp"
| "arg_formatter sp (Bool_arg b) =
     (if fs_type sp \<noteq> CHR 0x00 \<and> fs_type sp \<noteq> CHR ''s''
      then write_int (make_write_int_arg (Int_value (if b then 1 else 0)) (fs_sign sp)) sp
      else Inr (write_bytes True (bool_text b) sp))"
| "arg_formatter sp (Char_arg c) =
     bind_result (check_char_specs sp) (\<lambda>is_char.
       if is_char then Inr (write_char c sp)
       else write_int (make_write_int_arg (Int_value (sign_extend_char c)) (fs_sign sp)) sp)"
| "arg_formatter sp (CString_arg p s) =
     bind_result (check_cstring_type_spec (fs_type sp)) (\<lambda>is_string.
       if is_string then if p = 0 then Inl (Undefined DanglingPointer) else Inr (write_string s sp)
       else write_ptr p (Some (format_specs.truncate sp)))"
| "arg_formatter sp (String_arg s) =
     bind_result (check_string_type_spec (fs_type sp)) (\<lambda>_. Inr (write_string s sp))"
| "arg_formatter sp (Pointer_arg p) =
     bind_result (check_pointer_type_spec (fs_type sp)) (\<lambda>_. write_ptr p (Some (format_specs.truncate sp)))"
| "arg_formatter sp (Custom_arg h) = Inr []"

section \<open>\<open>vformat_to\<close>\<close>

text \<open>The state of the handler: the argument counter and the text written so far.\<close>

type_synonym format_state = "int \<times> string"

definition dynamic_lookup :: "format_args \<Rightarrow> spec_lookup" where
  "dynamic_lookup fa w i =
     get_dynamic_spec w (case i of
        Auto_id \<Rightarrow> None | Index_id n \<Rightarrow> args_get fa n | Name_id s \<Rightarrow> args_get fa (args_get_id fa s))"

fun format_on_arg_id :: "format_args \<Rightarrow> arg_id \<Rightarrow> format_state \<Rightarrow> (int \<times> format_state) result" where
  "format_on_arg_id fa Auto_id (ctx, out) =
     bind_result (next_arg_id ctx) (\<lambda>(i, ctx). Inr (i, ctx, out))"
| "format_on_arg_id fa (Index_id i) (ctx, out) =
     bind_result (check_arg_id ctx) (\<lambda>ctx. Inr (i, ctx, out))"
| "format_on_arg_id fa (Name_id s) (ctx, out) =
     (if args_get_id fa s < 0 then format_error ''argument not found'' else Inr (args_get_id fa s, ctx, out))"

fun format_on_replacement_field :: "format_args \<Rightarrow> int \<Rightarrow> format_state \<Rightarrow> format_state result" where
  "format_on_replacement_field fa i (ctx, out) =
     bind_result (get_arg fa i) (\<lambda>arg.
     bind_result (default_arg_formatter (dynamic_lookup fa) arg) (\<lambda>s. Inr (ctx, out @ s)))"

fun format_on_format_specs ::
  "format_args \<Rightarrow> int \<Rightarrow> string \<Rightarrow> format_state \<Rightarrow> (nat \<times> format_state) result" where
  "format_on_format_specs fa i s (ctx, out) =
     bind_result (get_arg fa i) (\<lambda>arg.
       case arg of
         Custom_arg h \<Rightarrow>
           bind_result (h (dynamic_lookup fa) s ctx) (\<lambda>((n, ctx), t). Inr (n, ctx, out @ t))
       | _ \<Rightarrow>
           bind_result (parse_format_specs (arg_type arg) (specs_dynamic fa) s (make_format_specs, ctx))
             (\<lambda>(rest, sp, ctx).
               bind_result (end_or (\<lambda>d. d \<noteq> CHR ''}'') rest) (\<lambda>b.
                 if b
                 then format_error (''missing '' @ [CHR 0x27] @ ''}'' @ [CHR 0x27] @ '' in format string'')
                 else bind_result (arg_formatter sp arg) (\<lambda>t.
                   Inr (length s - length rest, ctx, out @ t)))))"

declare format_on_format_specs.simps [simp del]

lemma format_on_format_specs_eq [simp]:
  "format_on_format_specs fa i s (ctx, out) =
     bind_result (get_arg fa i) (\<lambda>arg.
       case arg of
         Custom_arg h \<Rightarrow>
           bind_result (h (dynamic_lookup fa) s ctx) (\<lambda>((n, ctx), t). Inr (n, ctx, out @ t))
       | _ \<Rightarrow>
           bind_result (parse_format_specs (arg_type arg) (specs_dynamic fa) s (make_format_specs, ctx))
             (\<lambda>(rest, sp, ctx).
               if rest = [] \<or> hd rest \<noteq> CHR ''}''
               then format_error (''missing '' @ [CHR 0x27] @ ''}'' @ [CHR 0x27] @ '' in format string'')
               else bind_result (arg_formatter sp arg) (\<lambda>t.
                 Inr (length s - length rest, ctx, out @ t))))"
  unfolding format_on_format_specs.simps end_or_eq bind_result.simps(2) by (rule refl)

definition format_handler :: "format_args \<Rightarrow> format_state fmt_handler" where
  "format_handler fa =
     \<lparr>on_text = \<lambda>t (ctx, out). (ctx, out @ t),
      on_arg_id = format_on_arg_id fa,
      on_replacement_field = format_on_replacement_field fa,
      on_format_specs = format_on_format_specs fa\<rparr>"

definition vformat_args :: "string \<Rightarrow> format_args \<Rightarrow> string result" where
  "vformat_args fmt fa =
     (if fmt = ''{}'' then
        bind_result (get_arg fa 0) (default_arg_formatter (dynamic_lookup fa))
      else bind_result (parse_format_string (format_handler fa) fmt (0, [])) (\<lambda>(ctx, out). Inr out))"

text \<open>A call without named arguments, as all of the server's are.\<close>

definition vformat :: "string \<Rightarrow> fmt_arg list \<Rightarrow> string result" where
  "vformat fmt args = vformat_args fmt \<lparr>fa_args = args, fa_names = []\<rparr>"

interpretation format_text: text_handler "format_handler fa"
  by unfold_locales (simp_all add: format_handler_def case_prod_unfold)

section \<open>Formatters of core types\<close>

text \<open>
  \<open>formatter<T>::parse\<close> and \<open>format\<close>. The parse context may know the number of arguments, as
  \<open>compile_parse_context\<close> does.
\<close>

definition context_next_arg_id :: "nat option \<Rightarrow> int \<Rightarrow> (int \<times> int) result" where
  "context_next_arg_id num_args ctx =
     bind_result (next_arg_id ctx) (\<lambda>(i, ctx).
       case num_args of
         Some n \<Rightarrow> if i \<ge> int n then format_error ''argument not found'' else Inr (i, ctx)
       | None \<Rightarrow> Inr (i, ctx))"

definition context_check_arg_id :: "nat option \<Rightarrow> int \<Rightarrow> int \<Rightarrow> int result" where
  "context_check_arg_id num_args i ctx =
     bind_result (check_arg_id ctx) (\<lambda>ctx.
       case num_args of
         Some n \<Rightarrow> if i \<ge> int n then format_error ''argument not found'' else Inr ctx
       | None \<Rightarrow> Inr ctx)"

definition set_ref :: "bool \<Rightarrow> arg_id \<Rightarrow> dynamic_format_specs \<Rightarrow> dynamic_format_specs" where
  "set_ref w i sp = (if w then sp\<lparr>fs_width_ref := Some i\<rparr> else sp\<lparr>fs_precision_ref := Some i\<rparr>)"

text \<open>\<open>dynamic_specs_handler\<close> of a parse context records the reference.\<close>

type_synonym reference_handler =
  "bool \<Rightarrow> arg_id \<Rightarrow> dynamic_format_specs \<times> int \<Rightarrow> (dynamic_format_specs \<times> int) result"

fun specs_reference :: "nat option \<Rightarrow> reference_handler" where
  "specs_reference num_args w Auto_id (sp, ctx) =
     bind_result (context_next_arg_id num_args ctx) (\<lambda>(i, ctx). Inr (set_ref w (Index_id i) sp, ctx))"
| "specs_reference num_args w (Index_id i) (sp, ctx) =
     bind_result (context_check_arg_id num_args i ctx) (\<lambda>ctx. Inr (set_ref w (Index_id i) sp, ctx))"
| "specs_reference num_args w (Name_id s) (sp, ctx) = Inr (set_ref w (Name_id s) sp, ctx)"

text \<open>The check of the type character at the end of \<open>parse\<close>, by the type of the argument.\<close>

definition check_float_type_spec :: "char \<Rightarrow> unit result" where
  "check_float_type_spec t =
     (if t \<in> set [CHR 0x00, CHR ''g'', CHR ''G'', CHR ''e'', CHR ''E'', CHR ''f'', CHR ''F'', CHR ''a'', CHR ''A'']
      then Inr () else format_error ''invalid type specifier'')"

fun check_type_spec :: "fmt_type \<Rightarrow> 'a format_specs_scheme \<Rightarrow> unit result" where
  "check_type_spec bool_type sp =
     (if fs_type sp = CHR 0x00 \<or> fs_type sp = CHR ''s'' then Inr () else check_int_type_spec (fs_type sp))"
| "check_type_spec char_type sp = bind_result (check_char_specs sp) (\<lambda>_. Inr ())"
| "check_type_spec float_type sp = check_float_type_spec (fs_type sp)"
| "check_type_spec double_type sp = check_float_type_spec (fs_type sp)"
| "check_type_spec long_double_type sp = check_float_type_spec (fs_type sp)"
| "check_type_spec cstring_type sp = bind_result (check_cstring_type_spec (fs_type sp)) (\<lambda>_. Inr ())"
| "check_type_spec string_type sp = check_string_type_spec (fs_type sp)"
| "check_type_spec pointer_type sp = check_pointer_type_spec (fs_type sp)"
| "check_type_spec custom_type sp = Inr ()"
| "check_type_spec none_type sp = Inr ()"
| "check_type_spec _ sp = check_int_type_spec (fs_type sp)"

definition formatter_parse ::
  "reference_handler \<Rightarrow> fmt_type \<Rightarrow> string \<Rightarrow> int \<Rightarrow> (string \<times> dynamic_format_specs \<times> int) result" where
  "formatter_parse ref t s ctx =
     (if s = [] then Inr (s, make_dynamic_format_specs, ctx)
      else bind_result (parse_format_specs t ref s (make_dynamic_format_specs, ctx))
        (\<lambda>(rest, sp, ctx). bind_result (check_type_spec t sp) (\<lambda>_. Inr (rest, sp, ctx))))"

definition resolve_ref ::
  "spec_lookup \<Rightarrow> bool \<Rightarrow> arg_id option \<Rightarrow> dynamic_format_specs \<Rightarrow> dynamic_format_specs result" where
  "resolve_ref look w r sp =
     (case r of None \<Rightarrow> Inr sp | Some i \<Rightarrow> bind_result (look w i) (\<lambda>v. Inr (set_dynamic w v sp)))"

definition formatter_format :: "spec_lookup \<Rightarrow> dynamic_format_specs \<Rightarrow> fmt_arg \<Rightarrow> string result" where
  "formatter_format look sp arg =
     bind_result (resolve_ref look True (fs_width_ref sp) sp) (\<lambda>sp.
     bind_result (resolve_ref look False (fs_precision_ref sp) sp) (\<lambda>sp.
       arg_formatter sp arg))"

section \<open>Custom formatters\<close>

fun join_texts :: "string \<Rightarrow> string result list \<Rightarrow> string result" where
  "join_texts sep [] = Inr []"
| "join_texts sep [r] = r"
| "join_texts sep (r # rs) = bind_result r (\<lambda>s. bind_result (join_texts sep rs) (\<lambda>t. Inr (s @ sep @ t)))"

text \<open>\<open>fmt::join\<close> of elements of type \<open>t\<close>; one element is what an \<open>operator<<\<close> writes.\<close>

definition join_handle :: "fmt_type \<Rightarrow> string \<Rightarrow> fmt_arg list \<Rightarrow> custom_handle" where
  "join_handle t sep args look s ctx =
     bind_result (formatter_parse (specs_reference None) t s ctx) (\<lambda>(rest, sp, ctx).
     bind_result (join_texts sep (map (formatter_format look sp) args)) (\<lambda>out.
       Inr ((length s - length rest, ctx), out)))"

definition streamed_handle :: "string \<Rightarrow> custom_handle" where
  "streamed_handle s = join_handle string_type [] [String_arg s]"

text \<open>The formatter of \<open>packet_view\<close> parses nothing and prints the id, the size and the bytes.\<close>

definition byte_arg :: "byte \<Rightarrow> fmt_arg" where
  "byte_arg b = Integer_arg (UInt_value (ucast b))"

definition packet_view_handle :: "byte list \<Rightarrow> custom_handle" where
  "packet_view_handle view look s ctx =
     (case view of
        [] \<Rightarrow> Inl (Undefined OutOfBoundsRead)
      | b # _ \<Rightarrow>
          bind_result (vformat ''[{0:#04x}, {1}] --> {{{2:#04x}}}''
              [byte_arg b, Integer_arg (ULongLong_value (word_of_nat (length view))),
               Custom_arg (join_handle uint_type '', '' (map byte_arg view))]) (\<lambda>t.
            Inr ((0, ctx), t)))"

end
