(* ===== verification/Fmt_Integers.thy ===== *)
theory Fmt_Integers
  imports Fmt_Write
begin

text \<open>
  What the output functions write: the digits of an integer are those of its absolute value in
  positional notation, and the buffers they are written to have just the right size.
\<close>

section \<open>Digits\<close>

lemma format_decimal_count: "format_decimal (abs_nat v) (count_abs_digits v) = Inr (decimal (abs_nat v))"
  by (cases v) (simp_all add: format_decimal_def fill_buffer_def decimal_loop count_digits_32 count_digits_64)

lemma format_uint_count:
  assumes "1 \<le> bits" "bits \<le> 4"
  shows "format_uint bits upper (abs_nat v) (count_base_digits bits v) = Inr (positional (2 ^ bits) upper (abs_nat v))"
  using assms
  by (cases v) (simp_all add: format_uint_def fill_buffer_def uint_loop
      count_base_digits_32 [of bits _ upper] count_base_digits_64 [of bits _ upper])

lemma count_base_digits_length:
  "0 < bits \<Longrightarrow> count_base_digits bits v = length (positional (2 ^ bits) upper (abs_nat v))"
  by (cases v) (simp_all add: count_base_digits_32 [of bits _ upper] count_base_digits_64 [of bits _ upper])

lemma count_digits_eq: "count_abs_digits v = length (decimal (abs_nat v))"
  by (cases v) (simp_all add: count_digits_32 count_digits_64)

section \<open>The absolute value\<close>

lemma unat_word_of_int: "0 \<le> k \<Longrightarrow> k < 2 ^ LENGTH('a) \<Longrightarrow> unat (word_of_int k :: 'a :: len word) = nat k"
  unfolding unat_eq_nat_uint by (simp add: uint_word_of_int take_bit_eq_mod)

lemma sint_bound: "sint (w :: 'a :: len word) < 2 ^ LENGTH('a) \<and> - sint w < 2 ^ LENGTH('a)"
proof -
  have "(2 :: int) ^ (LENGTH('a) - 1) < 2 ^ LENGTH('a)" by (rule power_strict_increasing) simp_all
  then show ?thesis using sint_ge [of w] sint_lt [of w] by linarith
qed

lemma unat_minus_sint: "sint (w :: 'a :: len word) < 0 \<Longrightarrow> unat (- w) = nat (- sint w)"
  using unat_word_of_int [of "- sint w", where 'a = 'a] sint_bound [of w] by simp

lemma unat_sint: "0 \<le> sint (w :: 'a :: len word) \<Longrightarrow> unat w = nat (sint w)"
  using unat_word_of_int [of "sint w", where 'a = 'a] sint_bound [of w] by simp

definition sign_word :: "fmt_integer \<Rightarrow> fmt_sign \<Rightarrow> 32 word" where
  "sign_word i sg = (if integer_value i < 0 then minus_prefix else sign_prefix sg)"

lemma make_write_int_arg_abs:
  "\<exists>v. make_write_int_arg i sg = (v, sign_word i sg) \<and> abs_nat v = nat \<bar>integer_value i\<bar>"
proof (cases i)
  case (Int_value w)
  then show ?thesis
    using unat_minus_sint [of w] unat_sint [of w] by (auto simp: sign_word_def not_less)
next
  case (LongLong_value w)
  then show ?thesis
    using unat_minus_sint [of w] unat_sint [of w] by (auto simp: sign_word_def not_less)
qed (simp_all add: sign_word_def)

section \<open>Prefixes\<close>

lemma char_of_eqI: "of_char c = (n :: nat) \<Longrightarrow> char_of n = c"
  by (metis char_of_char)

lemma sign_chars:
  "char_of (45 :: nat) = CHR ''-''" "char_of (43 :: nat) = CHR ''+''" "char_of (32 :: nat) = CHR '' ''"
  "char_of (48 :: nat) = CHR ''0''" "char_of (120 :: nat) = CHR ''x''" "char_of (88 :: nat) = CHR ''X''"
  "char_of (98 :: nat) = CHR ''b''" "char_of (66 :: nat) = CHR ''B''"
  by (rule char_of_eqI, simp)+

text \<open>The sign a number is written with and the prefix of its base.\<close>

definition sign_text :: "int \<Rightarrow> fmt_sign \<Rightarrow> string" where
  "sign_text v sg = (if v < 0 then ''-'' else if sg = Sign_plus then ''+'' else if sg = Sign_space then '' '' else [])"

definition prefix_ok :: "32 word \<Rightarrow> string \<Rightarrow> bool" where
  "prefix_ok p s \<longleftrightarrow> prefix_chars p = s \<and> prefix_size p = length s \<and> (p = 0 \<longleftrightarrow> s = [])"

lemma prefix_chars_eq: "prefix_chars p =
    (let p = p AND 0xffffff; q = drop_bit 8 p; r = drop_bit 8 q in
     if p = 0 then [] else char_of (unat (p AND 0xff)) # (
     if q = 0 then [] else char_of (unat (q AND 0xff)) # (
     if r = 0 then [] else [char_of (unat (r AND 0xff))])))"
  by (simp add: prefix_chars_def numeral_3_eq_3 Let_def)

lemmas prefix_defs =
  prefix_ok_def prefix_append_def prefix_chars_eq prefix_size_def char_bits_def sign_bits_def base_bits_def sign_chars

lemma sign_bits_ok:
  "prefix_ok (sign_bits CHR ''-'') ''-''" "prefix_ok (sign_bits CHR ''+'') ''+''" "prefix_ok (sign_bits CHR '' '') '' ''"
  by (simp_all add: prefix_defs)

lemma append_empty_ok:
  "prefix_ok (prefix_append 0 (base_bits CHR ''x'')) ''0x''" "prefix_ok (prefix_append 0 (base_bits CHR ''X'')) ''0X''"
  "prefix_ok (prefix_append 0 (base_bits CHR ''b'')) ''0b''" "prefix_ok (prefix_append 0 (base_bits CHR ''B'')) ''0B''"
  "prefix_ok (prefix_append 0 (char_bits CHR ''0'')) ''0''"
  by (simp_all add: prefix_defs)

lemma append_minus_ok:
  "prefix_ok (prefix_append (sign_bits CHR ''-'') (base_bits CHR ''x'')) ''-0x''"
  "prefix_ok (prefix_append (sign_bits CHR ''-'') (base_bits CHR ''X'')) ''-0X''"
  "prefix_ok (prefix_append (sign_bits CHR ''-'') (base_bits CHR ''b'')) ''-0b''"
  "prefix_ok (prefix_append (sign_bits CHR ''-'') (base_bits CHR ''B'')) ''-0B''"
  "prefix_ok (prefix_append (sign_bits CHR ''-'') (char_bits CHR ''0'')) ''-0''"
  by (simp_all add: prefix_defs)

lemma append_plus_ok:
  "prefix_ok (prefix_append (sign_bits CHR ''+'') (base_bits CHR ''x'')) ''+0x''"
  "prefix_ok (prefix_append (sign_bits CHR ''+'') (base_bits CHR ''X'')) ''+0X''"
  "prefix_ok (prefix_append (sign_bits CHR ''+'') (base_bits CHR ''b'')) ''+0b''"
  "prefix_ok (prefix_append (sign_bits CHR ''+'') (base_bits CHR ''B'')) ''+0B''"
  "prefix_ok (prefix_append (sign_bits CHR ''+'') (char_bits CHR ''0'')) ''+0''"
  by (simp_all add: prefix_defs)

lemma append_space_ok:
  "prefix_ok (prefix_append (sign_bits CHR '' '') (base_bits CHR ''x'')) '' 0x''"
  "prefix_ok (prefix_append (sign_bits CHR '' '') (base_bits CHR ''X'')) '' 0X''"
  "prefix_ok (prefix_append (sign_bits CHR '' '') (base_bits CHR ''b'')) '' 0b''"
  "prefix_ok (prefix_append (sign_bits CHR '' '') (base_bits CHR ''B'')) '' 0B''"
  "prefix_ok (prefix_append (sign_bits CHR '' '') (char_bits CHR ''0'')) '' 0''"
  by (simp_all add: prefix_defs)

lemma sign_word_cases:
  obtains "sign_word i sg = 0" "sign_text (integer_value i) sg = []"
  | "sign_word i sg = sign_bits CHR ''-''" "sign_text (integer_value i) sg = ''-''"
  | "sign_word i sg = sign_bits CHR ''+''" "sign_text (integer_value i) sg = ''+''"
  | "sign_word i sg = sign_bits CHR '' ''" "sign_text (integer_value i) sg = '' ''"
  by (cases sg; cases "integer_value i < 0") (simp_all add: sign_word_def sign_text_def minus_prefix_def)

lemma sign_word_ok: "prefix_ok (sign_word i sg) (sign_text (integer_value i) sg)"
  by (cases rule: sign_word_cases [of i sg])
    (simp_all add: sign_bits_ok prefix_ok_def [of 0] prefix_chars_eq prefix_size_def)

lemma base_prefix_ok:
  "t \<in> set ''xXbB'' \<Longrightarrow> prefix_ok (prefix_append (sign_word i sg) (base_bits t)) (sign_text (integer_value i) sg @ [CHR ''0'', t])"
  by (cases rule: sign_word_cases [of i sg])
    (auto simp: append_empty_ok append_minus_ok append_plus_ok append_space_ok)

lemma octal_prefix_ok:
  "prefix_ok (prefix_append (sign_word i sg) (char_bits CHR ''0'')) (sign_text (integer_value i) sg @ ''0'')"
  by (cases rule: sign_word_cases [of i sg])
    (simp_all add: append_empty_ok append_minus_ok append_plus_ok append_space_ok)

section \<open>Padding\<close>

text \<open>How much of the padding is on the left: a number goes to the right unless told otherwise.\<close>

definition padding_left :: "fmt_align \<Rightarrow> nat \<Rightarrow> nat" where
  "padding_left a p = (case a of Align_left \<Rightarrow> 0 | Align_center \<Rightarrow> p div 2 | _ \<Rightarrow> p)"

definition padded :: "'a format_specs_scheme \<Rightarrow> string \<Rightarrow> string" where
  "padded sp s =
     (let p = nat (fs_width sp) - length s; l = padding_left (fs_align sp) p
      in fill_n l (fs_fill sp) @ s @ fill_n (p - l) (fs_fill sp))"

lemma write_padded_right:
  assumes "fs_width sp < 2 ^ 31" "length s = n"
  shows "write_padded False sp n s = padded sp s"
proof -
  define p where "p = nat (fs_width sp) - n"
  have p: "p < 2 ^ 31" using assms(1) by (simp add: p_def)
  then have w: "unat (word_of_nat p :: 64 word) = p" by (simp add: unsigned_of_nat take_bit_nat_eq_self)
  have "unat (drop_bit k (word_of_nat p :: 64 word)) = p div 2 ^ k" for k
    unfolding unat_drop_bit_eq w by (rule drop_bit_eq_div)
  then have "unat (drop_bit (right_padding_shifts ! align_index a) (word_of_nat p :: 64 word)) = padding_left a p" for a
    using p by (cases a) (simp_all only: align_index.simps right_padding_shifts_def, simp_all add: padding_left_def)
  then show ?thesis
    by (simp add: write_padded_def padded_def assms(2) p_def [symmetric] Let_def)
qed

section \<open>Integers\<close>

definition int_base :: "char \<Rightarrow> nat" where
  "int_base t =
     (if t = CHR ''x'' \<or> t = CHR ''X'' then 16 else if t = CHR ''b'' \<or> t = CHR ''B'' then 2
      else if t = CHR ''o'' then 8 else 10)"

text \<open>The prefix of the alternate form; that of an octal number counts as one of its digits.\<close>

definition base_text :: "'a format_specs_scheme \<Rightarrow> string \<Rightarrow> string" where
  "base_text sp digits =
     (if \<not> fs_alt sp \<or> int_base (fs_type sp) = 10 then []
      else if fs_type sp = CHR ''o'' then
        if fs_precision sp \<le> int (length digits) \<and> digits \<noteq> ''0'' then ''0'' else []
      else [CHR ''0'', fs_type sp])"

definition numeric_zeros :: "'a format_specs_scheme \<Rightarrow> string \<Rightarrow> string \<Rightarrow> nat" where
  "numeric_zeros sp prefix digits =
     (if fs_align sp = Align_numeric then nat (fs_width sp) - (length prefix + length digits)
      else nat (fs_precision sp) - length digits)"

lemma write_digits_parts:
  assumes "prefix_ok p prefix" "fs_precision sp \<ge> - 1" "fs_width sp < 2 ^ 31"
  shows "write_digits (length digits) p sp (Inr digits) =
    Inr (padded sp (prefix @ replicate (numeric_zeros sp prefix digits) CHR ''0'' @ digits))"
proof -
  define number where "number = prefix @ replicate (numeric_zeros sp prefix digits) CHR ''0'' @ digits"
  have p: "prefix_chars p = prefix" "prefix_size p = length prefix" "p = 0 \<longleftrightarrow> prefix = []"
    using assms(1) by (simp_all add: prefix_ok_def)
  show ?thesis
  proof (cases "fs_width sp = 0 \<and> fs_precision sp = - 1")
    case True
    then show ?thesis
      using p by (simp add: write_digits_def numeric_zeros_def padded_def padding_left_def fill_n_def split: fmt_align.split)
  next
    case False
    have "write_int_data (length digits) p sp = (length number, numeric_zeros sp prefix digits)"
      using p assms(2) by (auto simp: write_int_data_def number_def numeric_zeros_def Let_def)
    then have "write_digits (length digits) p sp (Inr digits) = Inr (write_padded False sp (length number) number)"
      using False p by (auto simp: write_digits_def number_def)
    then show ?thesis using write_padded_right [OF assms(3)] by (simp add: number_def)
  qed
qed

lemma positional_leading: "2 \<le> base \<Longrightarrow> base \<le> 16 \<Longrightarrow> n \<noteq> 0 \<Longrightarrow> hd (positional base upper n) \<noteq> CHR ''0''"
proof (induction base upper n rule: positional.induct)
  case (1 base upper n)
  show ?case
  proof (cases "n < base")
    case True
    have "hex_digit upper n \<noteq> CHR ''0''"
    proof
      assume "hex_digit upper n = CHR ''0''"
      then have "numeral_value (hex_digit upper n) = 0" by (simp add: numeral_value_def is_digit_def less_eq_char_def digit_value_def)
      then show False using numeral_value_digit [of n upper] True 1(3,4) by simp
    qed
    then show ?thesis using True by (simp add: positional.simps [of base upper n])
  next
    case False
    moreover from this have "n div base \<noteq> 0" using 1(2) by (simp add: div_eq_0_iff)
    moreover have "positional base upper (n div base) \<noteq> []" by (simp add: positional.simps [of base])
    ultimately show ?thesis using 1 by (simp add: positional.simps [of base upper n])
  qed
qed

lemma positional_digits: "2 \<le> base \<Longrightarrow> set (positional base upper n) \<subseteq> hex_digit upper ` {..<base}"
proof (induction base upper n rule: positional.induct)
  case (1 base upper n)
  then show ?case by (subst positional.simps) auto
qed

text \<open>The digits of \<open>n\<close> in a base: no others have the value and no leading zero.\<close>

definition digits_of :: "nat \<Rightarrow> bool \<Rightarrow> nat \<Rightarrow> string \<Rightarrow> bool" where
  "digits_of base upper n s \<longleftrightarrow>
     s \<noteq> [] \<and> set s \<subseteq> hex_digit upper ` {..<base} \<and> positional_value base s = n \<and> (s = ''0'' \<or> hd s \<noteq> CHR ''0'')"

lemma digits_of_positional: "2 \<le> base \<Longrightarrow> base \<le> 16 \<Longrightarrow> digits_of base upper n (positional base upper n)"
proof -
  assume base: "2 \<le> base" "base \<le> 16"
  have "positional base upper 0 = ''0''"
    using base by (simp add: positional.simps [of base] hex_digit_def)
  then have "positional base upper n = ''0'' \<or> hd (positional base upper n) \<noteq> CHR ''0''"
    using positional_leading [OF base] by (cases "n = 0") auto
  moreover have "positional base upper n \<noteq> []" by (simp add: positional.simps [of base])
  ultimately show ?thesis
    using base by (simp add: digits_of_def positional_digits positional_value)
qed

lemma positional_zero_iff: "2 \<le> base \<Longrightarrow> base \<le> 16 \<Longrightarrow> positional base upper n = ''0'' \<longleftrightarrow> n = 0"
  using digits_of_positional [of base upper n] positional_leading [of base n upper]
  by (cases "n = 0") (auto simp: positional.simps [of base] hex_digit_def)

text \<open>An integer: sign, prefix of the base, zeros, digits, padded.\<close>

definition integer_number :: "'a format_specs_scheme \<Rightarrow> int \<Rightarrow> string \<Rightarrow> string" where
  "integer_number sp v digits =
     (let prefix = sign_text v (fs_sign sp) @ base_text sp digits
      in prefix @ replicate (numeric_zeros sp prefix digits) CHR ''0'' @ digits)"

lemma integer_text:
  assumes "fs_type sp \<in> set (CHR 0x00 # ''dxXbBo'')" "fs_precision sp \<ge> - 1" "fs_width sp < 2 ^ 31"
  shows "\<exists>digits. digits_of (int_base (fs_type sp)) (fs_type sp = CHR ''X'') (nat \<bar>integer_value i\<bar>) digits
    \<and> write_int (make_write_int_arg i (fs_sign sp)) sp = Inr (padded sp (integer_number sp (integer_value i) digits))"
proof -
  define t where "t = fs_type sp"
  define base where "base = int_base t"
  obtain v where v: "make_write_int_arg i (fs_sign sp) = (v, sign_word i (fs_sign sp))" "abs_nat v = nat \<bar>integer_value i\<bar>"
    using make_write_int_arg_abs by blast
  define digits where "digits = positional base (t = CHR ''X'') (abs_nat v)"
  have base: "2 \<le> base" "base \<le> 16" by (simp_all add: base_def int_base_def)
  have d: "digits_of (int_base (fs_type sp)) (fs_type sp = CHR ''X'') (nat \<bar>integer_value i\<bar>) digits"
    using digits_of_positional [OF base] v(2) by (simp add: digits_def base_def t_def)
  have zero: "digits \<noteq> ''0'' \<longleftrightarrow> abs_nat v \<noteq> 0" using positional_zero_iff [OF base] by (simp add: digits_def)
  have "\<exists>p. prefix_ok p (sign_text (integer_value i) (fs_sign sp) @ base_text sp digits)
    \<and> write_int (v, sign_word i (fs_sign sp)) sp = write_digits (length digits) p sp (Inr digits)"
  proof -
    consider "t = CHR 0x00 \<or> t = CHR ''d''" | "t = CHR ''x'' \<or> t = CHR ''X''" | "t = CHR ''b'' \<or> t = CHR ''B''" | "t = CHR ''o''"
      using assms(1) by (auto simp: t_def)
    then show ?thesis
    proof cases
      case 1
      then have "digits = decimal (abs_nat v)" "base_text sp digits = []"
        by (auto simp: digits_def base_def int_base_def positional_decimal base_text_def t_def)
      moreover have "format_decimal (abs_nat v) (length (decimal (abs_nat v))) = Inr (decimal (abs_nat v))"
        using format_decimal_count [of v] by (simp add: count_digits_eq)
      ultimately show ?thesis using 1 sign_word_ok [of i "fs_sign sp"]
        by (intro exI [of _ "sign_word i (fs_sign sp)"])
          (auto simp: write_int_def count_digits_eq Let_def t_def [symmetric])
    next
      case 2
      have digits: "digits = positional (2 ^ 4) (t \<noteq> CHR ''x'') (abs_nat v)" using 2 by (auto simp: digits_def base_def int_base_def)
      have count: "count_base_digits 4 v = length digits" unfolding digits by (rule count_base_digits_length) simp
      have written: "format_uint 4 (t \<noteq> CHR ''x'') (abs_nat v) (length digits) = Inr digits"
        unfolding count [symmetric] unfolding digits by (rule format_uint_count) simp_all
      have w: "write_int (v, sign_word i (fs_sign sp)) sp =
          write_digits (length digits) (if fs_alt sp then prefix_append (sign_word i (fs_sign sp)) (base_bits t) else sign_word i (fs_sign sp)) sp (Inr digits)"
        using 2 count written by (elim disjE) (simp_all add: write_int_def Let_def t_def [symmetric])
      have "base_text sp digits = (if fs_alt sp then [CHR ''0'', t] else [])"
        using 2 by (auto simp: base_text_def int_base_def t_def [symmetric])
      then show ?thesis
        using w 2 sign_word_ok [of i "fs_sign sp"] base_prefix_ok [of t i "fs_sign sp"] by (cases "fs_alt sp") auto
    next
      case 3
      have digits: "digits = positional (2 ^ 1) False (abs_nat v)" using 3 by (auto simp: digits_def base_def int_base_def)
      have count: "count_base_digits 1 v = length digits" unfolding digits by (rule count_base_digits_length) simp
      have written: "format_uint 1 False (abs_nat v) (length digits) = Inr digits"
        unfolding count [symmetric] unfolding digits by (rule format_uint_count) simp_all
      have w: "write_int (v, sign_word i (fs_sign sp)) sp =
          write_digits (length digits) (if fs_alt sp then prefix_append (sign_word i (fs_sign sp)) (base_bits t) else sign_word i (fs_sign sp)) sp (Inr digits)"
        using 3 count written by (elim disjE) (simp_all add: write_int_def Let_def t_def [symmetric])
      have "base_text sp digits = (if fs_alt sp then [CHR ''0'', t] else [])"
        using 3 by (auto simp: base_text_def int_base_def t_def [symmetric])
      then show ?thesis
        using w 3 sign_word_ok [of i "fs_sign sp"] base_prefix_ok [of t i "fs_sign sp"] by (cases "fs_alt sp") auto
    next
      case 4
      have digits: "digits = positional (2 ^ 3) False (abs_nat v)" using 4 by (auto simp: digits_def base_def int_base_def)
      have count: "count_base_digits 3 v = length digits" unfolding digits by (rule count_base_digits_length) simp
      have written: "format_uint 3 False (abs_nat v) (length digits) = Inr digits"
        unfolding count [symmetric] unfolding digits by (rule format_uint_count) simp_all
      have w: "write_int (v, sign_word i (fs_sign sp)) sp =
          write_digits (length digits) (if fs_alt sp \<and> fs_precision sp \<le> int (length digits) \<and> digits \<noteq> ''0''
            then prefix_append (sign_word i (fs_sign sp)) (char_bits CHR ''0'') else sign_word i (fs_sign sp)) sp (Inr digits)"
        using 4 zero count written
        by (simp add: write_int_def Let_def t_def [symmetric])
      have "base_text sp digits = (if fs_alt sp \<and> fs_precision sp \<le> int (length digits) \<and> digits \<noteq> ''0'' then ''0'' else [])"
        using 4 by (auto simp: base_text_def int_base_def t_def [symmetric])
      then show ?thesis
        using w sign_word_ok [of i "fs_sign sp"] octal_prefix_ok [of i "fs_sign sp"]
        by (cases "fs_alt sp \<and> fs_precision sp \<le> int (length digits) \<and> digits \<noteq> ''0''") auto
    qed
  qed
  then obtain p where p: "prefix_ok p (sign_text (integer_value i) (fs_sign sp) @ base_text sp digits)"
    "write_int (v, sign_word i (fs_sign sp)) sp = write_digits (length digits) p sp (Inr digits)" by blast
  have "write_int (v, sign_word i (fs_sign sp)) sp = Inr (padded sp (integer_number sp (integer_value i) digits))"
    using write_digits_parts [OF p(1) assms(2,3), of digits] p(2) by (simp add: integer_number_def)
  then show ?thesis using d v(1) by auto
qed

end
