(* ===== verification/Fmt_Numbers.thy ===== *)
theory Fmt_Numbers
  imports Fmt_Parse
begin

text \<open>
  The numbers of a format string: \<open>parse_nonnegative_int\<close> counts in 32 bits, which may wrap, and
  finds out afterwards. It accepts just the numbers of up to ten digits that are an \<open>int\<close>.
\<close>

definition ends_number :: "string \<Rightarrow> bool" where
  "ends_number s \<longleftrightarrow> s = [] \<or> \<not> is_digit (hd s)"

definition digit_run :: "32 word \<Rightarrow> string \<Rightarrow> 32 word" where
  "digit_run v s = foldl (\<lambda>v d. v * 10 + word_of_nat (digit_value d)) v s"

lemma digits_loop_run:
  "list_all is_digit s \<Longrightarrow> ends_number rest \<Longrightarrow>
     digits_loop prev v c n (s @ rest) =
       (if s = [] then prev else digit_run v (butlast s), digit_run v s, if s = [] then c else last s, n + length s, rest)"
proof (induction s arbitrary: prev v c n)
  case Nil
  then show ?case by (cases rest) (simp_all add: ends_number_def digit_run_def)
next
  case (Cons d s)
  then show ?case by (simp add: digit_run_def)
qed

lemma digit_run_value: "digit_run (word_of_nat k) s = word_of_nat (foldl (\<lambda>n c. 10 * n + digit_value c) k s)"
proof (induction s arbitrary: k)
  case (Cons c s)
  have "word_of_nat k * 10 + word_of_nat (digit_value c) = (word_of_nat (10 * k + digit_value c) :: 32 word)" by simp
  with Cons [of "10 * k + digit_value c"] show ?case by (simp add: digit_run_def del: of_nat_add of_nat_mult)
qed (simp add: digit_run_def)

lemma digit_run_0: "digit_run 0 s = word_of_nat (digits_value s)"
  using digit_run_value [of 0 s] by (simp add: digits_value_def)

lemma sint_word_of_nat: "n < 2 ^ 31 \<Longrightarrow> sint (word_of_nat n :: 32 word) = int n"
  by (simp add: signed_of_nat signed_take_bit_int_eq_self)

lemma in_range:
  assumes "p < 10 ^ 9" "d < 10"
  shows "(ucast (word_of_nat p :: 32 word) * 10 + word_of_nat d :: 64 word) \<le> 0x7FFFFFFF \<longleftrightarrow> 10 * p + d < 2 ^ 31"
proof -
  have "ucast (word_of_nat p :: 32 word) = (word_of_nat p :: 64 word)"
    using assms(1) by (simp add: unsigned_ucast_eq word_eq_iff_unsigned unsigned_of_nat take_bit_nat_eq_self)
  then have "ucast (word_of_nat p :: 32 word) * 10 + word_of_nat d = (word_of_nat (10 * p + d) :: 64 word)" by simp
  moreover have "unat (word_of_nat (10 * p + d) :: 64 word) = 10 * p + d"
    using assms by (simp add: unsigned_of_nat take_bit_nat_eq_self del: of_nat_add of_nat_mult)
  ultimately show ?thesis by (simp add: word_le_nat_alt del: of_nat_add of_nat_mult) linarith
qed

lemma parse_nonnegative_int_run:
  assumes "list_all is_digit s" "s \<noteq> []" "ends_number rest"
  shows "parse_nonnegative_int (s @ rest) e =
    (if length s \<le> 10 \<and> digits_value s < 2 ^ 31 then int (digits_value s) else e, rest)"
proof -
  define p d where "p = digits_value (butlast s)" and "d = digit_value (last s)"
  have s: "s = butlast s @ [last s]" using assms(2) by simp
  have v: "digits_value s = 10 * p + d" using digits_value_snoc [of "butlast s" "last s"] assms(2) by (simp add: p_def d_def)
  have small: "digits_value s < 10 ^ length s" using digits_value_less [OF assms(1)] .
  have d: "d < 10" using assms(1,2) is_digit_value [of "last s"] by (simp add: d_def list_all_iff)
  have "list_all is_digit (butlast s)" using assms(1) by (auto simp: list_all_iff dest: in_set_butlastD)
  then have p: "p < 10 ^ (length s - 1)" using digits_value_less [of "butlast s"] by (simp add: p_def)
  have l: "digits_loop 0 0 CHR 0x00 0 (s @ rest) = (word_of_nat p, word_of_nat (10 * p + d), last s, length s, rest)"
    using digits_loop_run [OF assms(1,3), of 0 0 "CHR 0x00" 0] assms(2) by (simp add: digit_run_0 p_def v [symmetric, unfolded p_def])
  consider "length s \<le> 9" | "length s = 10" | "length s > 10" by linarith
  then show ?thesis
  proof cases
    case 1
    then have "(10 :: nat) ^ length s \<le> 10 ^ 9" by (intro power_increasing) simp_all
    then have "10 * p + d < 2 ^ 31" using small v by simp
    then show ?thesis using 1 l sint_word_of_nat [of "10 * p + d"] v by (simp add: parse_nonnegative_int_def)
  next
    case 2
    then show ?thesis using l in_range [of p d] sint_word_of_nat [of "10 * p + d"] v d p
      by (simp add: parse_nonnegative_int_def d_def del: of_nat_add of_nat_mult)
  next
    case 3
    then show ?thesis using l v by (simp add: parse_nonnegative_int_def)
  qed
qed

lemma number_split: "\<exists>s rest. t = s @ rest \<and> list_all is_digit s \<and> ends_number rest"
proof -
  have "list_all is_digit (takeWhile is_digit t)" "ends_number (dropWhile is_digit t)"
    using hd_dropWhile [of is_digit t] by (auto simp: list_all_iff ends_number_def dest: set_takeWhileD)
  then show ?thesis by (metis takeWhile_dropWhile_id)
qed

lemma parse_nonnegative_int_nonneg:
  assumes "0 \<le> e" "parse_nonnegative_int t e = (v, rest)"
  shows "0 \<le> v"
proof -
  obtain s u where t: "t = s @ u" "list_all is_digit s" "ends_number u" using number_split by blast
  show ?thesis
  proof (cases "s = []")
    case True
    then show ?thesis using assms t digits_loop_run [OF t(2,3), of 0 0 "CHR 0x00" 0]
      by (auto simp: parse_nonnegative_int_def digit_run_def)
  next
    case False
    then show ?thesis using assms parse_nonnegative_int_run [OF t(2) _ t(3), of e] t(1) by (auto split: if_splits)
  qed
qed

end
