(* ===== verification/Fmt_Simulation.thy ===== *)
theory Fmt_Simulation
  imports Fmt_String Fmt_Numbers "HOL-Library.Sublist"
begin

text \<open>
  The format string is parsed twice: by a checker, and with the arguments at hand. This theory
  shows that parsing with two handlers goes the same way as long as the handlers do: whatever
  the first accepts, the second accepts too, up to a set of errors.
\<close>

section \<open>Results\<close>

definition simulates :: "string set \<Rightarrow> ('a \<Rightarrow> 'b \<Rightarrow> bool) \<Rightarrow> 'a result \<Rightarrow> 'b result \<Rightarrow> bool" where
  "simulates E R r q \<longleftrightarrow>
     (\<forall>x. r = Inr x \<longrightarrow> (\<exists>y. q = Inr y \<and> R x y) \<or> (\<exists>m\<in>E. q = format_error m))"

lemma simulates_Inr [intro]: "R x y \<Longrightarrow> simulates E R (Inr x) (Inr y)"
  by (simp add: simulates_def)

lemma simulates_Inl [simp]: "simulates E R (Inl e) q"
  by (simp add: simulates_def)

lemma simulates_error [simp]: "simulates E R (format_error m) q"
  by (simp add: format_error_def)

lemma simulatesI:
  "(\<And>x. r = Inr x \<Longrightarrow> (\<exists>y. q = Inr y \<and> R x y) \<or> (\<exists>m\<in>E. q = format_error m)) \<Longrightarrow> simulates E R r q"
  by (simp add: simulates_def)

lemma simulates_mono: "simulates E R r q \<Longrightarrow> (\<And>x y. R x y \<Longrightarrow> S x y) \<Longrightarrow> simulates E S r q"
  by (auto simp: simulates_def)

lemma simulates_bind:
  assumes "simulates E R r q" "\<And>x y. r = Inr x \<Longrightarrow> q = Inr y \<Longrightarrow> R x y \<Longrightarrow> simulates E S (f x) (g y)"
  shows "simulates E S (bind_result r f) (bind_result q g)"
proof (rule simulatesI)
  fix z assume "bind_result r f = Inr z"
  then obtain x where x: "r = Inr x" "f x = Inr z" by (auto simp: bind_result_Inr_iff)
  from assms(1) x(1) consider y where "q = Inr y" "R x y" | m where "m \<in> E" "q = format_error m"
    by (auto simp: simulates_def)
  then show "(\<exists>y. bind_result q g = Inr y \<and> S z y) \<or> (\<exists>m\<in>E. bind_result q g = format_error m)"
  proof cases
    case 1
    then show ?thesis using assms(2) [of x y] x by (auto simp: simulates_def)
  qed (auto simp: format_error_def)
qed

lemma simulates_same:
  "(\<And>x. r = Inr x \<Longrightarrow> simulates E S (f x) (g x)) \<Longrightarrow> simulates E S (bind_result r f) (bind_result r g)"
  by (cases r) auto

lemma simulates_if:
  "(b \<Longrightarrow> simulates E R r q) \<Longrightarrow> (\<not> b \<Longrightarrow> simulates E R r' q') \<Longrightarrow> simulates E R (if b then r else r') (if b then q else q')"
  by simp

section \<open>Argument ids\<close>

definition id_ok :: "arg_id \<Rightarrow> bool" where
  "id_ok i \<longleftrightarrow> (case i of Index_id n \<Rightarrow> 0 \<le> n | _ \<Rightarrow> True)"

text \<open>What both parsers have left is the same end of the string.\<close>

definition same_rest :: "string \<Rightarrow> ('a \<Rightarrow> 'b \<Rightarrow> bool) \<Rightarrow> string \<times> 'a \<Rightarrow> string \<times> 'b \<Rightarrow> bool" where
  "same_rest s R p q \<longleftrightarrow> fst p = fst q \<and> suffix (fst p) s \<and> R (snd p) (snd q)"

lemma same_rest_pair [simp]: "same_rest s R (u, x) (v, y) \<longleftrightarrow> u = v \<and> suffix u s \<and> R x y"
  by (simp add: same_rest_def)

lemma parse_nonnegative_int_suffix: "parse_nonnegative_int s e = (v, rest) \<Longrightarrow> suffix rest s"
proof -
  have "digits_loop p v c n s = (p', v', c', n', rest) \<Longrightarrow> suffix rest s" for p v c n p' v' c' n'
    by (induction p v c n s rule: digits_loop.induct) (auto split: if_splits intro: suffix_ConsI)
  then show "parse_nonnegative_int s e = (v, rest) \<Longrightarrow> suffix rest s"
    by (fastforce simp: parse_nonnegative_int_def split: prod.splits)
qed

lemma suffix_trans: "suffix a b \<Longrightarrow> suffix b c \<Longrightarrow> suffix a c"
  by (rule suffix_order.trans)

lemma suffix_tl_step: "suffix a b \<Longrightarrow> suffix (tl a) b"
  using suffix_tl suffix_trans by blast

lemma do_parse_arg_id_simulates:
  assumes "\<And>i. id_ok i \<Longrightarrow> simulates E R (h i) (k i)" "suffix s s0"
  shows "simulates E (same_rest s0 R) (do_parse_arg_id s h) (do_parse_arg_id s k)"
proof -
  have index: "simulates E (same_rest s0 R)
      (if rest = [] \<or> hd rest \<noteq> CHR ''}'' \<and> hd rest \<noteq> CHR '':'' then format_error ''invalid format string''
       else bind_result (h (Index_id i)) (\<lambda>x. Inr (rest, x)))
      (if rest = [] \<or> hd rest \<noteq> CHR ''}'' \<and> hd rest \<noteq> CHR '':'' then format_error ''invalid format string''
       else bind_result (k (Index_id i)) (\<lambda>x. Inr (rest, x)))"
    if "0 \<le> i" "suffix rest s" for i rest
    using that assms suffix_trans
    by (intro simulates_if simulates_error simulates_bind [of E R]) (auto simp: id_ok_def)
  have name: "simulates E (same_rest s0 R)
      (bind_result (h (Name_id n)) (\<lambda>x. Inr (dropWhile is_name_char (tl s), x)))
      (bind_result (k (Name_id n)) (\<lambda>x. Inr (dropWhile is_name_char (tl s), x)))" for n
    using assms suffix_trans [OF suffix_dropWhile suffix_tl_step [OF assms(2)]]
    by (intro simulates_bind [of E R]) (auto simp: id_ok_def)
  show ?thesis
    unfolding do_parse_arg_id_eq
  proof (rule simulates_same)
    fix c
    obtain i rest where p: "(if c \<noteq> CHR ''0'' then parse_nonnegative_int s (2 ^ 31 - 1) else (0, tl s)) = (i, rest)"
      by (meson surj_pair)
    then have "0 \<le> i" "suffix rest s"
      using parse_nonnegative_int_nonneg [of "2 ^ 31 - 1" s i rest] parse_nonnegative_int_suffix [of s _ i rest]
      by (auto split: if_splits simp: suffix_tl)
    from index [OF this] name show "simulates E (same_rest s0 R)
      (if is_digit c then let (i, rest) = if c \<noteq> CHR ''0'' then parse_nonnegative_int s (2 ^ 31 - 1) else (0, tl s) in
         if rest = [] \<or> hd rest \<noteq> CHR ''}'' \<and> hd rest \<noteq> CHR '':'' then format_error ''invalid format string''
         else bind_result (h (Index_id i)) (\<lambda>x. Inr (rest, x))
       else if \<not> is_name_start c then format_error ''invalid format string''
       else bind_result (h (Name_id (c # takeWhile is_name_char (tl s)))) (\<lambda>x. Inr (dropWhile is_name_char (tl s), x)))
      (if is_digit c then let (i, rest) = if c \<noteq> CHR ''0'' then parse_nonnegative_int s (2 ^ 31 - 1) else (0, tl s) in
         if rest = [] \<or> hd rest \<noteq> CHR ''}'' \<and> hd rest \<noteq> CHR '':'' then format_error ''invalid format string''
         else bind_result (k (Index_id i)) (\<lambda>x. Inr (rest, x))
       else if \<not> is_name_start c then format_error ''invalid format string''
       else bind_result (k (Name_id (c # takeWhile is_name_char (tl s)))) (\<lambda>x. Inr (dropWhile is_name_char (tl s), x)))"
      unfolding p by simp
  qed
qed

lemma parse_arg_id_simulates:
  assumes "\<And>i. id_ok i \<Longrightarrow> simulates E R (h i) (k i)" "suffix s s0"
  shows "simulates E (same_rest s0 R) (parse_arg_id s h) (parse_arg_id s k)"
  unfolding parse_arg_id_def
  using do_parse_arg_id_simulates [OF assms] assms
  by (intro simulates_same simulates_if simulates_bind [of E R]) (auto simp: id_ok_def)

section \<open>Specifications\<close>

text \<open>
  A relation between the specifications of the two parsers that every setter keeps, and handlers
  of dynamic specifications that keep it.
\<close>

locale specs_relation =
  fixes P :: "'a format_specs_scheme \<Rightarrow> 'b format_specs_scheme \<Rightarrow> bool"
    and E :: "string set"
    and dyn1 :: "'a dynamic_handler"
    and dyn2 :: "'b dynamic_handler"
  assumes same_align: "P x y \<Longrightarrow> fs_align x = fs_align y"
    and same_fill: "P x y \<Longrightarrow> fs_fill x = fs_fill y"
    and set_width: "P x y \<Longrightarrow> P (x\<lparr>fs_width := v\<rparr>) (y\<lparr>fs_width := v\<rparr>)"
    and set_precision: "P x y \<Longrightarrow> P (x\<lparr>fs_precision := v\<rparr>) (y\<lparr>fs_precision := v\<rparr>)"
    and set_type: "P x y \<Longrightarrow> P (x\<lparr>fs_type := t\<rparr>) (y\<lparr>fs_type := t\<rparr>)"
    and set_align: "P x y \<Longrightarrow> P (x\<lparr>fs_align := a\<rparr>) (y\<lparr>fs_align := a\<rparr>)"
    and set_sign: "P x y \<Longrightarrow> P (x\<lparr>fs_sign := g\<rparr>) (y\<lparr>fs_sign := g\<rparr>)"
    and set_alt: "P x y \<Longrightarrow> P (x\<lparr>fs_alt := b\<rparr>) (y\<lparr>fs_alt := b\<rparr>)"
    and set_localized: "P x y \<Longrightarrow> P (x\<lparr>fs_localized := b\<rparr>) (y\<lparr>fs_localized := b\<rparr>)"
    and set_fill: "P x y \<Longrightarrow> P (x\<lparr>fs_fill := f\<rparr>) (y\<lparr>fs_fill := f\<rparr>)"
    and dynamic: "P x y \<Longrightarrow> simulates E (rel_prod P (=)) (dyn1 w i (x, c)) (dyn2 w i (y, c))"
begin

lemmas setters = set_width set_precision set_type set_align set_sign set_alt set_localized set_fill

definition same :: "string \<Rightarrow> string \<times> 'a spec_state \<Rightarrow> string \<times> 'b spec_state \<Rightarrow> bool" where
  "same s0 = same_rest s0 (rel_prod P (=))"

lemma same_iff [simp]: "same s0 (s, x, c) (u, y, d) \<longleftrightarrow> s = u \<and> suffix s s0 \<and> P x y \<and> c = d"
  by (simp add: same_def)

lemma on_align_simulates: "P x y \<Longrightarrow> simulates E P (on_align t a x) (on_align t a y)"
  unfolding on_align_def by (intro simulates_same simulates_Inr setters)

lemma on_fill_simulates: "P x y \<Longrightarrow> simulates E P (on_fill f x) (on_fill f y)"
  unfolding on_fill_def by (intro simulates_if simulates_error simulates_Inr setters)

lemma on_sign_simulates: "P x y \<Longrightarrow> simulates E P (on_sign t g x) (on_sign t g y)"
  unfolding on_sign_def by (intro simulates_same simulates_if simulates_error simulates_Inr setters)

lemma on_hash_simulates: "P x y \<Longrightarrow> simulates E P (on_hash t x) (on_hash t y)"
  unfolding on_hash_def by (intro simulates_same simulates_Inr setters)

lemma on_localized_simulates: "P x y \<Longrightarrow> simulates E P (on_localized t x) (on_localized t y)"
  unfolding on_localized_def by (intro simulates_same simulates_Inr setters)

lemma on_zero_simulates:
  assumes "P x y"
  shows "simulates E P (on_zero t x) (on_zero t y)"
  unfolding on_zero_def same_align [OF assms] same_fill [OF assms]
  by (intro simulates_same simulates_Inr setters assms)

lemma parse_align_simulates:
  assumes "P x y" "suffix s s0"
  shows "simulates E (same_rest s0 P) (parse_align t s x) (parse_align t s y)"
proof -
  have "suffix (drop n s) s0" "suffix (tl s) s0" for n
    using assms(2) suffix_drop suffix_trans suffix_tl_step by blast+
  then show ?thesis
    unfolding parse_align_def Let_def
    by (intro simulates_same simulates_if simulates_error simulates_Inr
        simulates_bind [OF on_fill_simulates [OF assms(1)]] simulates_bind [OF on_align_simulates]) (simp_all add: assms)
qed

lemma align_step_simulates: "P x y \<Longrightarrow> suffix s s0 \<Longrightarrow> simulates E (same s0) (align_step t s (x, c)) (align_step t s (y, c))"
  unfolding align_step.simps by (rule simulates_bind [OF parse_align_simulates]) auto

lemma sign_step_simulates: "P x y \<Longrightarrow> suffix s s0 \<Longrightarrow> simulates E (same s0) (sign_step t s (x, c)) (sign_step t s (y, c))"
  unfolding sign_step.simps
  by (intro simulates_same simulates_if simulates_bind [OF on_sign_simulates]) (auto simp: suffix_tl_step)

lemma flag_step_simulates:
  "(\<And>x y. P x y \<Longrightarrow> simulates E P (f x) (g y)) \<Longrightarrow> P x y \<Longrightarrow> suffix s s0 \<Longrightarrow>
     simulates E (same s0) (flag_step a f s (x, c)) (flag_step a g s (y, c))"
  unfolding flag_step.simps
  by (intro simulates_same simulates_if simulates_bind [of E P]) (auto simp: suffix_tl_step)

lemma type_step_simulates: "P x y \<Longrightarrow> suffix s s0 \<Longrightarrow> simulates E (same s0) (type_step s (x, c)) (type_step s (y, c))"
  unfolding type_step.simps by (intro simulates_same simulates_if simulates_Inr) (auto simp: suffix_tl_step setters)

text \<open>A reference in braces, of a width or a precision.\<close>

lemma reference_simulates:
  assumes "P x y" "suffix s s0"
  shows "simulates E (same s0)
    (bind_result (if s \<noteq> [] then parse_arg_id s (\<lambda>i. dyn1 w i (x, c)) else Inr (s, x, c)) (\<lambda>(rest, st).
       if rest = [] \<or> hd rest \<noteq> CHR ''}'' then format_error m else Inr (tl rest, st)))
    (bind_result (if s \<noteq> [] then parse_arg_id s (\<lambda>i. dyn2 w i (y, c)) else Inr (s, y, c)) (\<lambda>(rest, st).
       if rest = [] \<or> hd rest \<noteq> CHR ''}'' then format_error m else Inr (tl rest, st)))"
proof (rule simulates_bind)
  show "simulates E (same s0) (if s \<noteq> [] then parse_arg_id s (\<lambda>i. dyn1 w i (x, c)) else Inr (s, x, c))
      (if s \<noteq> [] then parse_arg_id s (\<lambda>i. dyn2 w i (y, c)) else Inr (s, y, c))"
    unfolding same_def using assms dynamic
    by (intro simulates_if parse_arg_id_simulates simulates_Inr) auto
  show "simulates E (same s0)
      (case p of (rest, st) \<Rightarrow> if rest = [] \<or> hd rest \<noteq> CHR ''}'' then format_error m else Inr (tl rest, st))
      (case q of (rest, st) \<Rightarrow> if rest = [] \<or> hd rest \<noteq> CHR ''}'' then format_error m else Inr (tl rest, st))"
    if "same s0 p q" for p q
    using that by (cases p; cases q; cases "snd p"; cases "snd q") (auto intro!: simulates_Inr simp: suffix_tl_step)
qed

lemma number_simulates:
  assumes "\<And>v. P (f v) (g v)" "suffix s s0"
  shows "simulates E (same s0)
    (let (v, rest) = parse_nonnegative_int s e in if v \<noteq> e then Inr (rest, f v, c) else format_error m)
    (let (v, rest) = parse_nonnegative_int s e in if v \<noteq> e then Inr (rest, g v, c) else format_error m)"
  using assms suffix_trans [OF parse_nonnegative_int_suffix]
  by (cases "parse_nonnegative_int s e") (auto intro!: simulates_Inr)

lemma parse_width_simulates:
  assumes "P x y" "suffix s s0"
  shows "simulates E (same s0) (parse_width dyn1 s (x, c)) (parse_width dyn2 s (y, c))"
  unfolding parse_width_eq
  by (intro simulates_same simulates_if number_simulates reference_simulates simulates_Inr)
    (simp_all add: assms suffix_tl_step setters)

lemma parse_precision_simulates:
  assumes "P x y" "suffix s s0"
  shows "simulates E (same s0) (parse_precision t dyn1 s (x, c)) (parse_precision t dyn2 s (y, c))"
  unfolding parse_precision_eq Let_def [of "tl s"]
  unfolding Let_def [of "if tl s \<noteq> [] then hd (tl s) else CHR 0x00"]
proof (rule simulates_bind)
  show "simulates E (same s0) (end_precision t p) (end_precision t q)" if "same s0 p q" for p q
    unfolding end_precision_def using that by (intro simulates_if simulates_error simulates_Inr)
qed (intro simulates_if number_simulates reference_simulates simulates_error; simp add: assms suffix_tl_step setters)

lemma precision_step_simulates:
  "P x y \<Longrightarrow> suffix s s0 \<Longrightarrow> simulates E (same s0) (precision_step t dyn1 s (x, c)) (precision_step t dyn2 s (y, c))"
  unfolding precision_step_def by (intro simulates_same simulates_if parse_precision_simulates simulates_Inr) simp_all

lemma spec_step_simulates:
  assumes "simulates E (same s0) r q"
    and "\<And>s x y c. P x y \<Longrightarrow> suffix s s0 \<Longrightarrow> simulates E (same s0) (f s (x, c)) (g s (y, c))"
  shows "simulates E (same s0) (spec_step f r) (spec_step g q)"
  unfolding spec_step_def
proof (rule simulates_bind [OF assms(1)])
  fix p q assume "same s0 p q"
  then show "simulates E (same s0) (case p of (s, st) \<Rightarrow> if s = [] then Inr (s, st) else f s st)
      (case q of (s, st) \<Rightarrow> if s = [] then Inr (s, st) else g s st)"
    using assms(2) by (cases p; cases q; cases "snd p"; cases "snd q") (auto intro!: simulates_Inr)
qed

theorem parse_format_specs_simulates:
  assumes "P x y"
  shows "simulates E (same s) (parse_format_specs t dyn1 s (x, c)) (parse_format_specs t dyn2 s (y, c))"
  unfolding parse_format_specs_def
  by (intro simulates_if spec_step_simulates type_step_simulates flag_step_simulates precision_step_simulates
      parse_width_simulates sign_step_simulates align_step_simulates on_localized_simulates on_zero_simulates
      on_hash_simulates simulates_Inr) (simp_all add: assms)

end

section \<open>Whole format strings\<close>

text \<open>
  A relation between the states of two handlers that their functions keep. The indices of
  arguments the first one hands out satisfy \<open>good\<close>; what it returns for specifications matters
  only if the closing brace follows.
\<close>

locale handler_relation =
  fixes R :: "'s \<Rightarrow> 't \<Rightarrow> bool"
    and E :: "string set"
    and good :: "int \<Rightarrow> bool"
    and h :: "'s fmt_handler"
    and k :: "'t fmt_handler"
  assumes text_step: "R s t \<Longrightarrow> R (on_text h u s) (on_text k u t)"
    and arg_step: "R s t \<Longrightarrow> id_ok i \<Longrightarrow>
      simulates E (\<lambda>(i, s) (j, t). i = j \<and> good i \<and> R s t) (on_arg_id h i s) (on_arg_id k i t)"
    and field_step: "R s t \<Longrightarrow> good j \<Longrightarrow> simulates E R (on_replacement_field h j s) (on_replacement_field k j t)"
    and specs_step: "R s t \<Longrightarrow> good j \<Longrightarrow> on_format_specs h j u s = Inr (n, s') \<Longrightarrow> drop n u \<noteq> [] \<Longrightarrow>
      hd (drop n u) = CHR ''}'' \<Longrightarrow> simulates E (rel_prod (=) R) (Inr (n, s')) (on_format_specs k j u t)"
begin

lemma specs_simulates:
  assumes "R s t" "good j"
  shows "simulates E (rel_prod (=) R)
    (bind_result (on_format_specs h j u s) (\<lambda>(n, s).
       let u = drop n u in if u = [] \<or> hd u \<noteq> CHR ''}'' then format_error m else Inr (tl u, s)))
    (bind_result (on_format_specs k j u t) (\<lambda>(n, t).
       let u = drop n u in if u = [] \<or> hd u \<noteq> CHR ''}'' then format_error m else Inr (tl u, t)))"
proof (cases "on_format_specs h j u s")
  case (Inr p)
  obtain n s' where p: "p = (n, s')" by (cases p)
  show ?thesis
  proof (cases "drop n u \<noteq> [] \<and> hd (drop n u) = CHR ''}''")
    case True
    then have "simulates E (rel_prod (=) R) (on_format_specs h j u s) (on_format_specs k j u t)"
      using specs_step [OF assms] Inr p by simp
    then show ?thesis using Inr p by (elim simulates_bind) (auto simp: Let_def intro!: simulates_Inr)
  next
    case False
    then show ?thesis using Inr p by (auto simp: Let_def)
  qed
qed simp

lemma replacement_field_simulates:
  assumes "R s t"
  shows "simulates E (rel_prod (=) R) (parse_replacement_field h u s) (parse_replacement_field k u t)"
proof -
  have auto: "simulates E (\<lambda>(i, s) (j, t). i = j \<and> good i \<and> R s t) (on_arg_id h i s) (on_arg_id k i t)" if "id_ok i" for i
    using arg_step [OF assms that] .
  have field: "simulates E (rel_prod (=) R)
      (bind_result (on_replacement_field h i s) (\<lambda>st. Inr (v, st)))
      (bind_result (on_replacement_field k i t) (\<lambda>st. Inr (v, st)))" if "good i" "R s t" for i s t v
    using that by (intro simulates_bind [OF field_step]) auto
  have "simulates E (rel_prod (=) R)
      (bind_result (on_arg_id h Auto_id s) (\<lambda>(i, s). bind_result (on_replacement_field h i s) (\<lambda>s. Inr (v, s))))
      (bind_result (on_arg_id k Auto_id t) (\<lambda>(i, t). bind_result (on_replacement_field k i t) (\<lambda>t. Inr (v, t))))" for v
    by (rule simulates_bind [OF auto]) (auto simp: id_ok_def intro: field)
  moreover have "simulates E (rel_prod (=) R)
      (bind_result (parse_arg_id v (\<lambda>i. on_arg_id h i s)) (\<lambda>(v, i, s).
        let c = (if v \<noteq> [] then hd v else CHR 0x00) in
        if c = CHR ''}'' then bind_result (on_replacement_field h i s) (\<lambda>s. Inr (tl v, s))
        else if c = CHR '':'' then
          bind_result (on_format_specs h i (tl v) s) (\<lambda>(n, s).
            let v = drop n (tl v) in if v = [] \<or> hd v \<noteq> CHR ''}'' then format_error m else Inr (tl v, s))
        else format_error m'))
      (bind_result (parse_arg_id v (\<lambda>i. on_arg_id k i t)) (\<lambda>(v, i, t).
        let c = (if v \<noteq> [] then hd v else CHR 0x00) in
        if c = CHR ''}'' then bind_result (on_replacement_field k i t) (\<lambda>t. Inr (tl v, t))
        else if c = CHR '':'' then
          bind_result (on_format_specs k i (tl v) t) (\<lambda>(n, t).
            let v = drop n (tl v) in if v = [] \<or> hd v \<noteq> CHR ''}'' then format_error m else Inr (tl v, t))
        else format_error m'))" for v m m'
    by (rule simulates_bind [OF parse_arg_id_simulates [OF auto, where s0 = v]])
      (auto simp: Let_def [of "if _ then _ else _"] simp del: drop_eq_Nil intro!: simulates_if field specs_simulates)
  ultimately show ?thesis
    using text_step [OF assms]
    unfolding parse_replacement_field_eq Let_def [of "tl u"]
    by (intro simulates_if) auto
qed

lemma small_loop_simulates: "R s t \<Longrightarrow> simulates E R (small_loop h pre u s) (small_loop k pre u t)"
proof (induction "length u" arbitrary: pre u s t rule: less_induct)
  case less
  show ?case
  proof (cases u)
    case Nil
    then show ?thesis using text_step [OF less.prems] by auto
  next
    case (Cons c v)
    have field: "simulates E R
        (bind_result (parse_replacement_field h u (on_text h pre s)) (\<lambda>(w, s). small_loop h [] w s))
        (bind_result (parse_replacement_field k u (on_text k pre t)) (\<lambda>(w, t). small_loop k [] w t))"
      by (rule simulates_bind [OF replacement_field_simulates [OF text_step [OF less.prems]]])
        (auto intro!: less.hyps dest!: parse_replacement_field_rest)
    have case_bind: "(case r of Inl x \<Rightarrow> Inl x | Inr (w, s) \<Rightarrow> f w s) = bind_result r (\<lambda>(w, s). f w s)"
      for r :: "(string \<times> 'x) result" and f :: "string \<Rightarrow> 'x \<Rightarrow> 'x result"
      by (cases r) auto
    have case_bind': "(case r of Inl x \<Rightarrow> Inl x | Inr (w, s) \<Rightarrow> f w s) = bind_result r (\<lambda>(w, s). f w s)"
      for r :: "(string \<times> 't) result" and f :: "string \<Rightarrow> 't \<Rightarrow> 't result"
      by (cases r) auto
    show ?thesis
      unfolding Cons small_loop.simps case_bind
      using field less.hyps [of v] less.hyps [of "tl v"] less.prems text_step [OF less.prems] Cons
      by (intro simulates_if) auto
  qed
qed

end

end
