(* ===== verification/Fmt_Check.thy ===== *)
theory Fmt_Check
  imports Fmt_Format Fmt_Integers Fmt_Simulation
begin

text \<open>
  \<open>format_string_checker\<close> of \<open>fmt/core.h\<close>, which checks a format string against the types of
  the arguments, and its soundness: a call it accepts throws nothing when it formats arguments
  of these types, dynamic widths and precisions aside.
\<close>

section \<open>The checker\<close>

text \<open>
  The types of arguments: those of the library, \<open>fmt::join\<close> of a range of them, types printed
  with their \<open>operator<<\<close>, and \<open>packet_view\<close>.
\<close>

datatype checked_type = Core_type fmt_type | Join_type fmt_type | Streamed_type | View_type

text \<open>\<open>parse_format_specs<T>\<close>: the formatter of the type parses.\<close>

fun parse_func :: "reference_handler \<Rightarrow> checked_type \<Rightarrow> string \<Rightarrow> int \<Rightarrow> (string \<times> int) result" where
  "parse_func ref (Core_type t) s ctx =
     bind_result (formatter_parse ref t s ctx) (\<lambda>(rest, sp, ctx). Inr (rest, ctx))"
| "parse_func ref (Join_type t) s ctx =
     bind_result (formatter_parse ref t s ctx) (\<lambda>(rest, sp, ctx). Inr (rest, ctx))"
| "parse_func ref Streamed_type s ctx =
     bind_result (formatter_parse ref string_type s ctx) (\<lambda>(rest, sp, ctx). Inr (rest, ctx))"
| "parse_func ref View_type s ctx = Inr (s, ctx)"

text \<open>The checker has no names before C++20.\<close>

fun checker_on_arg_id :: "nat \<Rightarrow> arg_id \<Rightarrow> int \<Rightarrow> (int \<times> int) result" where
  "checker_on_arg_id n Auto_id ctx = context_next_arg_id (Some n) ctx"
| "checker_on_arg_id n (Index_id i) ctx =
     bind_result (context_check_arg_id (Some n) i ctx) (\<lambda>ctx. Inr (i, ctx))"
| "checker_on_arg_id n (Name_id s) ctx =
     format_error ''compile-time checks for named arguments require C++20 support''"

definition checker_on_format_specs ::
  "reference_handler \<Rightarrow> checked_type list \<Rightarrow> int \<Rightarrow> string \<Rightarrow> int \<Rightarrow> (nat \<times> int) result" where
  "checker_on_format_specs ref types i s ctx =
     (if 0 \<le> i \<and> i < int (length types) then
        bind_result (parse_func ref (types ! nat i) s ctx) (\<lambda>(rest, ctx). Inr (length s - length rest, ctx))
      else Inr (0, ctx))"

definition checker_handler :: "reference_handler \<Rightarrow> checked_type list \<Rightarrow> int fmt_handler" where
  "checker_handler ref types =
     \<lparr>on_text = \<lambda>t ctx. ctx,
      on_arg_id = checker_on_arg_id (length types),
      on_replacement_field = \<lambda>i ctx. Inr ctx,
      on_format_specs = checker_on_format_specs ref types\<rparr>"

definition check_with :: "reference_handler \<Rightarrow> string \<Rightarrow> checked_type list \<Rightarrow> unit result" where
  "check_with ref fmt types =
     bind_result (parse_format_string (checker_handler ref types) fmt 0) (\<lambda>_. Inr ())"

definition check_format_string :: "string \<Rightarrow> checked_type list \<Rightarrow> unit result" where
  "check_format_string fmt types = check_with (specs_reference (Some (length types))) fmt types"

text \<open>The same for format strings without dynamic specifications.\<close>

definition no_reference :: reference_handler where
  "no_reference w i st = format_error ''dynamic specification''"

definition check_static :: "string \<Rightarrow> checked_type list \<Rightarrow> unit result" where
  "check_static fmt types = check_with no_reference fmt types"

interpretation checker_text: text_handler "checker_handler ref types"
  by unfold_locales (simp_all add: checker_handler_def)

section \<open>Arguments of a type\<close>

text \<open>A C string that is not null, or anything else but a custom type.\<close>

fun plain_arg :: "fmt_arg \<Rightarrow> bool" where
  "plain_arg (CString_arg p s) \<longleftrightarrow> p \<noteq> 0"
| "plain_arg (Custom_arg h) \<longleftrightarrow> False"
| "plain_arg _ \<longleftrightarrow> True"

inductive arg_fits :: "checked_type \<Rightarrow> fmt_arg \<Rightarrow> bool" where
  fits_core: "arg_type a = t \<Longrightarrow> plain_arg a \<Longrightarrow> arg_fits (Core_type t) a"
| fits_join: "list_all (\<lambda>a. arg_type a = t \<and> plain_arg a) xs \<Longrightarrow> arg_fits (Join_type t) (Custom_arg (join_handle t sep xs))"
| fits_streamed: "arg_fits Streamed_type (Custom_arg (streamed_handle s))"
| fits_view: "v \<noteq> [] \<Longrightarrow> arg_fits View_type (Custom_arg (packet_view_handle v))"

inductive_cases arg_fits_cases: "arg_fits (Core_type t) a" "arg_fits (Join_type t) a" "arg_fits Streamed_type a" "arg_fits View_type a"

section \<open>What a checked type formats\<close>

definition formats :: "'a result \<Rightarrow> bool" where
  "formats r \<longleftrightarrow> (\<exists>x. r = Inr x)"

lemma formats_Inr [simp]: "formats (Inr x)" by (simp add: formats_def)

lemma formats_bind [simp]: "formats (bind_result r f) \<longleftrightarrow> (\<exists>x. r = Inr x \<and> formats (f x))"
  by (cases r) (simp_all add: formats_def)

lemma write_digits_formats: "formats (write_digits n p sp (Inr digits))"
  by (auto simp: write_digits_def split: prod.split)

lemma check_int_type_cases:
  assumes "check_int_type_spec t = Inr ()"
  obtains "t \<in> set (CHR 0x00 # ''dxXbBo'')" | "t = CHR ''c''"
  using assms by (auto simp: check_int_type_spec_def format_error_def split: if_splits)

lemma write_int_formats:
  assumes "check_int_type_spec (fs_type sp) = Inr ()"
  shows "formats (write_int v sp)"
proof -
  obtain a p where v: "v = (a, p)" by (cases v)
  define t where "t = fs_type sp"
  have "t \<in> set (CHR 0x00 # ''dxXbBo'') \<or> t = CHR ''c''"
    using check_int_type_cases [OF assms] by (auto simp: t_def)
  then consider "t = CHR 0x00 \<or> t = CHR ''d''" | "t = CHR ''x'' \<or> t = CHR ''X''" | "t = CHR ''b'' \<or> t = CHR ''B''"
    | "t = CHR ''o''" | "t = CHR ''c''" by auto
  then show ?thesis
  proof cases
    case 1
    then show ?thesis
      by (elim disjE) (simp_all add: v write_int_def t_def [symmetric] format_decimal_count write_digits_formats)
  next
    case 2
    then show ?thesis using format_uint_count [of 4 "t \<noteq> CHR ''x''" a]
      by (elim disjE) (simp_all add: v write_int_def Let_def t_def [symmetric] write_digits_formats)
  next
    case 3
    then show ?thesis using format_uint_count [of 1 False a]
      by (elim disjE) (simp_all add: v write_int_def Let_def t_def [symmetric] write_digits_formats)
  next
    case 4
    then show ?thesis using format_uint_count [of 3 False a]
      by (simp add: v write_int_def Let_def t_def [symmetric] write_digits_formats)
  next
    case 5
    then show ?thesis by (simp add: v write_int_def t_def [symmetric])
  qed
qed

lemma write_ptr_formats: "formats (write_ptr p sp)"
  using format_uint_count [of 4 False "Abs64 p"] by (simp add: write_ptr_def Let_def)

lemma check_char_static:
  "check_char_specs sp = Inr b \<Longrightarrow> \<not> b \<Longrightarrow> check_int_type_spec (fs_type sp) = Inr ()"
  by (auto simp: check_char_specs_def bind_result_Inr_iff format_error_def split: if_splits)

lemma arg_formatter_formats:
  assumes "check_type_spec (arg_type a) sp = Inr ()" "plain_arg a"
  shows "formats (arg_formatter sp a)"
proof (cases a)
  case (Integer_arg i)
  then show ?thesis using assms by (cases i) (auto intro: write_int_formats)
next
  case (Bool_arg b)
  then show ?thesis using assms by (auto intro!: write_int_formats split: if_splits)
next
  case (Char_arg c)
  with assms obtain b where b: "check_char_specs sp = Inr b" by (auto simp: bind_result_Inr_iff)
  then show ?thesis using Char_arg check_char_static [OF b] by (cases b) (simp_all add: write_int_formats)
next
  case (CString_arg p s)
  with assms obtain b where "check_cstring_type_spec (fs_type sp) = Inr b" by (auto simp: bind_result_Inr_iff)
  then show ?thesis using CString_arg assms(2) by (cases b) (simp_all add: write_ptr_formats)
next
  case (String_arg s)
  then show ?thesis using assms(1) by simp
next
  case (Pointer_arg p)
  then show ?thesis using assms(1) by (simp add: write_ptr_formats)
next
  case (Custom_arg h)
  then show ?thesis using assms by simp
qed

lemma default_formatter_formats: "plain_arg a \<Longrightarrow> formats (default_arg_formatter look a)"
proof (cases a)
  case (Integer_arg i)
  then show ?thesis by (cases "make_write_int_arg i Sign_none") (simp add: write_default_int_def format_decimal_count)
next
  case (Pointer_arg p)
  then show ?thesis by (simp add: write_ptr_formats check_pointer_type_spec_def make_format_specs_def)
qed (auto simp: formats_def)

section \<open>Results up to errors\<close>

definition settles :: "string set \<Rightarrow> 'a result \<Rightarrow> bool" where
  "settles E r \<longleftrightarrow> formats r \<or> (\<exists>m\<in>E. r = format_error m)"

lemma settles_Inr [simp]: "settles E (Inr x)" by (simp add: settles_def)

lemma settles_bind: "settles E r \<Longrightarrow> (\<And>x. r = Inr x \<Longrightarrow> settles E (f x)) \<Longrightarrow> settles E (bind_result r f)"
  by (cases r) (auto simp: settles_def formats_def format_error_def)

lemma formats_settles: "formats r \<Longrightarrow> settles E r" by (simp add: settles_def)

lemma settles_mono: "settles D r \<Longrightarrow> D \<subseteq> E \<Longrightarrow> settles E r" by (auto simp: settles_def)

lemma simulates_settles: "r = Inr x \<Longrightarrow> settles E q \<Longrightarrow> (\<And>y. q = Inr y \<Longrightarrow> R x y) \<Longrightarrow> simulates E R r q"
  by (auto simp: settles_def simulates_def formats_def)

text \<open>What may go wrong with a width or a precision that is an argument.\<close>

definition dynamic_errors :: "string set" where
  "dynamic_errors =
     {''negative width'', ''negative precision'', ''number is too big'', ''width is not integer'',
      ''precision is not integer'', ''argument not found''}"

lemma get_dynamic_spec_settles: "settles dynamic_errors (get_dynamic_spec w a)"
  by (cases "(w, a)" rule: get_dynamic_spec.cases)
    (auto simp: settles_def formats_def dynamic_errors_def spec_name_def)

lemma dynamic_lookup_settles: "settles dynamic_errors (dynamic_lookup fa w i)"
  by (simp add: dynamic_lookup_def get_dynamic_spec_settles)

lemma get_arg_settles: "settles dynamic_errors (get_arg fa i)"
  by (auto simp: get_arg_def settles_def dynamic_errors_def split: option.split)

section \<open>The specifications of the two parsers\<close>

text \<open>What a type is checked against.\<close>

definition alike :: "'a format_specs_scheme \<Rightarrow> 'b format_specs_scheme \<Rightarrow> bool" where
  "alike x y \<longleftrightarrow>
     fs_type x = fs_type y \<and> fs_align x = fs_align y \<and> fs_sign x = fs_sign y \<and> fs_alt x = fs_alt y \<and> fs_fill x = fs_fill y"

lemma check_type_alike: "alike x y \<Longrightarrow> check_type_spec t x = check_type_spec t y"
  by (cases t) (simp_all add: alike_def check_char_specs_def)

lemma alike_set_dynamic: "alike (set_dynamic w v x) x" "alike x y \<Longrightarrow> alike x (set_dynamic w v y)"
  by (auto simp: alike_def set_dynamic_def)

lemma alike_set_ref: "alike x y \<Longrightarrow> alike (set_ref w i x) y"
  by (auto simp: alike_def set_ref_def)

text \<open>References occur only if their errors are allowed.\<close>

definition refs_allowed :: "string set \<Rightarrow> dynamic_format_specs \<Rightarrow> bool" where
  "refs_allowed E x \<longleftrightarrow> dynamic_errors \<subseteq> E \<or> fs_width_ref x = None \<and> fs_precision_ref x = None"

definition same_refs :: "string set \<Rightarrow> dynamic_format_specs \<Rightarrow> dynamic_format_specs \<Rightarrow> bool" where
  "same_refs E x y \<longleftrightarrow> x = y \<and> refs_allowed E x"

text \<open>
  A handler of references that is no more generous than that of a parse context with the number
  of arguments, and that accepts references only if their errors are allowed.
\<close>

locale checked_references =
  fixes ref :: reference_handler and E :: "string set" and types :: "checked_type list" and args :: "fmt_arg list"
  assumes restricts: "ref w i st = Inr st' \<Longrightarrow>
    specs_reference (Some (length args)) w i st = Inr st' \<and> dynamic_errors \<subseteq> E"
begin

lemma dynamic_run:
  assumes "alike x y"
  shows "simulates E (rel_prod alike (=)) (ref w i (x, c)) (specs_dynamic \<lparr>fa_args = args, fa_names = names\<rparr> w i (y, c))"
proof (rule simulatesI)
  fix st assume "ref w i (x, c) = Inr st"
  then have r: "specs_reference (Some (length args)) w i (x, c) = Inr st" and E: "dynamic_errors \<subseteq> E"
    using restricts by blast+
  obtain x' c' where st: "st = (x', c')" by (cases st)
  let ?fa = "\<lparr>fa_args = args, fa_names = names\<rparr>"
  define finish where "finish n c = bind_result (get_arg ?fa n) (\<lambda>arg.
     bind_result (get_dynamic_spec w (Some arg)) (\<lambda>v. Inr (set_dynamic w v y, c)))" for n and c :: int
  have x': "alike x' y" using r st assms by (cases i) (auto simp: bind_result_Inr_iff alike_set_ref)
  have finish: "(\<exists>q. finish n c = Inr q \<and> rel_prod alike (=) (x', c) q) \<or> (\<exists>m\<in>E. finish n c = format_error m)" for n c
  proof -
    have "settles E (finish n c)" unfolding finish_def
      by (rule settles_mono [OF _ E]) (auto intro!: settles_bind get_arg_settles get_dynamic_spec_settles)
    then show ?thesis using x' alike_set_dynamic(2) [OF x']
      by (auto simp: settles_def formats_def finish_def bind_result_Inr_iff)
  qed
  have "\<exists>n. specs_dynamic ?fa w i (y, c) = finish n c'"
    using r st by (cases i) (auto simp: finish_def bind_result_Inr_iff context_next_arg_id_def context_check_arg_id_def
      format_error_def split: if_splits)
  then show "(\<exists>q. specs_dynamic ?fa w i (y, c) = Inr q \<and> rel_prod alike (=) st q)
      \<or> (\<exists>m\<in>E. specs_dynamic ?fa w i (y, c) = format_error m)"
    using finish st by metis
qed

lemma dynamic_references:
  assumes "same_refs E x y"
  shows "simulates E (rel_prod (same_refs E) (=)) (ref w i (x, c)) (specs_reference None w i (y, c))"
proof (rule simulatesI)
  fix st assume "ref w i (x, c) = Inr st"
  then have r: "specs_reference (Some (length args)) w i (x, c) = Inr st" and E: "dynamic_errors \<subseteq> E"
    using restricts by blast+
  from r have "specs_reference None w i (x, c) = Inr st"
    by (cases i) (auto simp: bind_result_Inr_iff context_next_arg_id_def context_check_arg_id_def format_error_def
      split: if_splits)
  moreover have "rel_prod (same_refs E) (=) st st"
    using E by (cases st) (auto simp: same_refs_def refs_allowed_def)
  ultimately show "(\<exists>q. specs_reference None w i (y, c) = Inr q \<and> rel_prod (same_refs E) (=) st q)
      \<or> (\<exists>m\<in>E. specs_reference None w i (y, c) = format_error m)"
    using assms by (auto simp: same_refs_def)
qed

end

sublocale checked_references \<subseteq> run: specs_relation alike E ref "specs_dynamic \<lparr>fa_args = args, fa_names = []\<rparr>"
  by unfold_locales (erule dynamic_run | simp add: alike_def)+

sublocale checked_references \<subseteq> references: specs_relation "same_refs E" E ref "specs_reference None"
  by unfold_locales (erule dynamic_references | simp add: same_refs_def refs_allowed_def)+

section \<open>Formatters of checked types\<close>

lemma check_type_default: "check_type_spec t (make_dynamic_format_specs) = Inr ()"
  by (cases t) (simp_all add: make_dynamic_format_specs_def make_format_specs_def format_specs.defs check_int_type_spec_def
    check_char_specs_def check_float_type_spec_def check_cstring_type_spec_def check_string_type_spec_def
    check_pointer_type_spec_def)

lemma formatter_parse_checked:
  "formatter_parse ref t s c = Inr (rest, x, d) \<Longrightarrow> check_type_spec t x = Inr ()"
  by (auto simp: formatter_parse_def bind_result_Inr_iff check_type_default split: if_splits)

text \<open>\<open>format\<close> of a formatter that has parsed a specification for the type of its argument.\<close>

lemma formatter_format_settles:
  assumes "check_type_spec (arg_type a) x = Inr ()" "plain_arg a" "refs_allowed E x"
  shows "settles E (formatter_format (dynamic_lookup fa) x a)"
proof -
  have resolved: "settles E (resolve_ref (dynamic_lookup fa) w r y)" if "r = None \<or> dynamic_errors \<subseteq> E" for w r y
    using that settles_mono [OF dynamic_lookup_settles]
    by (auto simp: resolve_ref_def intro!: settles_bind split: option.split)
  have kept: "alike z x \<and> fs_precision_ref z = fs_precision_ref y"
    if "alike y x" "resolve_ref (dynamic_lookup fa) w r y = Inr z" for w r y z
    using that by (auto simp: resolve_ref_def bind_result_Inr_iff alike_def set_dynamic_def split: option.splits if_splits)
  show ?thesis
    unfolding formatter_format_def
  proof (intro settles_bind resolved)
    show "fs_width_ref x = None \<or> dynamic_errors \<subseteq> E" using assms(3) by (auto simp: refs_allowed_def)
    fix y assume "resolve_ref (dynamic_lookup fa) True (fs_width_ref x) x = Inr y"
    then have y: "alike y x" "fs_precision_ref y = fs_precision_ref x" using kept [of x] by (simp_all add: alike_def)
    then show "fs_precision_ref y = None \<or> dynamic_errors \<subseteq> E" using assms(3) by (auto simp: refs_allowed_def)
    fix z assume "resolve_ref (dynamic_lookup fa) False (fs_precision_ref y) y = Inr z"
    then have "alike z x" using kept y(1) by blast
    then show "settles E (arg_formatter z a)"
      using assms(1) by (intro formats_settles arg_formatter_formats [OF _ assms(2)]) (simp add: check_type_alike [of z x])
  qed
qed

lemma join_texts_settles: "(\<And>r. r \<in> set rs \<Longrightarrow> settles E r) \<Longrightarrow> settles E (join_texts sep rs)"
  by (induction sep rs rule: join_texts.induct) (auto intro!: settles_bind)

text \<open>A custom handle advances just as far as the checker does.\<close>

definition handle_fits :: "string set \<Rightarrow> reference_handler \<Rightarrow> checked_type \<Rightarrow> custom_handle \<Rightarrow> bool" where
  "handle_fits E ref ct h \<longleftrightarrow>
     (\<forall>fa s c. simulates E (\<lambda>(rest, c) ((n, d), t). n = length s - length rest \<and> c = d)
        (parse_func ref ct s c) (h (dynamic_lookup fa) s c))"

text \<open>Both parse the same specifications, whose references are allowed.\<close>

definition parsed_same :: "string set \<Rightarrow> string \<Rightarrow> string \<times> dynamic_format_specs \<times> int \<Rightarrow> string \<times> dynamic_format_specs \<times> int \<Rightarrow> bool" where
  "parsed_same E s p q \<longleftrightarrow> p = q \<and> suffix (fst p) s \<and> refs_allowed E (fst (snd p))"

definition arg_ok :: "string set \<Rightarrow> reference_handler \<Rightarrow> checked_type \<Rightarrow> fmt_arg \<Rightarrow> bool" where
  "arg_ok E ref ct a \<longleftrightarrow>
     (case ct of Core_type t \<Rightarrow> arg_type a = t \<and> plain_arg a
      | _ \<Rightarrow> (\<exists>h. a = Custom_arg h \<and> handle_fits E ref ct h))"

lemma arg_ok_cases:
  assumes "arg_ok E ref ct a"
  obtains "ct = Core_type (arg_type a)" "plain_arg a" | h where "a = Custom_arg h" "handle_fits E ref ct h"
  using assms by (auto simp: arg_ok_def split: checked_type.splits)

text \<open>The states of the checker and of a run: the arguments are fine, the counter is the same.\<close>

definition same_counter ::
  "string set \<Rightarrow> reference_handler \<Rightarrow> checked_type list \<Rightarrow> fmt_arg list \<Rightarrow> int \<Rightarrow> format_state \<Rightarrow> bool" where
  "same_counter E ref types args c st \<longleftrightarrow> list_all2 (arg_ok E ref) types args \<and> fst st = c"

context checked_references
begin

lemma formatter_parse_simulates:
  "simulates E (parsed_same E s) (formatter_parse ref t s c) (formatter_parse (specs_reference None) t s c)"
proof -
  have d: "same_refs E make_dynamic_format_specs make_dynamic_format_specs"
    by (simp add: same_refs_def refs_allowed_def make_dynamic_format_specs_def format_specs.defs)
  have "simulates E (parsed_same E s)
      (bind_result (parse_format_specs t ref s (make_dynamic_format_specs, c)) (\<lambda>(u, x, c).
         bind_result (check_type_spec t x) (\<lambda>_. Inr (u, x, c))))
      (bind_result (parse_format_specs t (specs_reference None) s (make_dynamic_format_specs, c)) (\<lambda>(u, x, c).
         bind_result (check_type_spec t x) (\<lambda>_. Inr (u, x, c))))"
    by (rule simulates_bind [OF references.parse_format_specs_simulates [OF d]])
      (auto simp: same_refs_def parsed_same_def intro!: simulates_same simulates_Inr)
  then show ?thesis
    unfolding formatter_parse_def using d
    by (intro simulates_if) (auto simp: same_refs_def parsed_same_def intro!: simulates_Inr)
qed

lemma formatted_fits:
  assumes "\<And>x. check_type_spec t x = Inr () \<Longrightarrow> refs_allowed E x \<Longrightarrow> settles E (f x)"
  shows "simulates E (\<lambda>(rest, c) ((n, d), t). n = length s - length rest \<and> c = d)
    (bind_result (formatter_parse ref t s c) (\<lambda>(rest, x, c). Inr (rest, c)))
    (bind_result (formatter_parse (specs_reference None) t s c) (\<lambda>(rest, x, c).
       bind_result (f x) (\<lambda>t. Inr ((length s - length rest, c), t))))"
proof (rule simulates_bind [OF formatter_parse_simulates])
  fix p q assume q: "formatter_parse (specs_reference None) t s c = Inr q" and r: "parsed_same E s p q"
  obtain u x d where p: "q = (u, x, d)" "p = q" using r by (cases q) (simp add: parsed_same_def)
  have "settles E (f x)"
    using assms formatter_parse_checked [OF q [unfolded p(1)]] r p by (simp add: parsed_same_def)
  then show "simulates E (\<lambda>(rest, c) ((n, d), t). n = length s - length rest \<and> c = d)
      (case p of (rest, x, c) \<Rightarrow> Inr (rest, c))
      (case q of (rest, x, c) \<Rightarrow> bind_result (f x) (\<lambda>t. Inr ((length s - length rest, c), t)))"
    unfolding p by (auto simp: settles_def formats_def format_error_def intro: simulatesI)
qed

lemma join_fits:
  assumes "list_all (\<lambda>a. arg_type a = t \<and> plain_arg a) xs"
  shows "handle_fits E ref (Join_type t) (join_handle t sep xs)"
  unfolding handle_fits_def join_handle_def parse_func.simps
  using assms
  by (intro allI formatted_fits join_texts_settles) (auto simp: list_all_iff intro!: formatter_format_settles)

lemma streamed_fits: "handle_fits E ref Streamed_type (streamed_handle s)"
  using join_fits [of string_type "[String_arg s]" "[]"] by (simp add: handle_fits_def streamed_handle_def)

lemma good_argument:
  assumes "list_all2 (arg_ok E ref) types args" "0 \<le> j" "j < int (length types)"
  shows "get_arg \<lparr>fa_args = args, fa_names = []\<rparr> j = Inr (args ! nat j)" "arg_ok E ref (types ! nat j) (args ! nat j)"
  using assms by (auto simp: get_arg_def args_get_def list_all2_conv_all_nth nat_less_iff)

lemma default_settles:
  assumes "arg_ok E ref ct a"
  shows "settles E (default_arg_formatter (dynamic_lookup fa) a)"
  using arg_ok_cases [OF assms]
proof cases
  case 1
  then show ?thesis by (simp add: formats_settles default_formatter_formats)
next
  case (2 h)
  have "\<exists>c. parse_func ref ct [] 0 = Inr ([], c)" by (cases ct) (simp_all add: formatter_parse_def)
  then have "settles E (h (dynamic_lookup fa) [] 0)"
    using 2(2) by (fastforce simp: handle_fits_def simulates_def settles_def formats_def)
  then show ?thesis by (auto simp: 2(1) intro!: settles_bind)
qed

lemma specs_call:
  assumes "same_counter E ref types args c st" "0 \<le> j" "j < int (length types)"
    and "checker_on_format_specs ref types j u c = Inr (n, c')" "drop n u \<noteq> []" "hd (drop n u) = CHR ''}''"
  shows "simulates E (rel_prod (=) (same_counter E ref types args)) (Inr (n, c'))
    (format_on_format_specs \<lparr>fa_args = args, fa_names = []\<rparr> j u st)"
proof -
  let ?fa = "\<lparr>fa_args = args, fa_names = []\<rparr>"
  obtain out where st: "st = (c, out)" using assms(1) by (cases st) (simp add: same_counter_def)
  have ok: "list_all2 (arg_ok E ref) types args" using assms(1) by (simp add: same_counter_def)
  define ct a where "ct = types ! nat j" and "a = args ! nat j"
  have a: "get_arg ?fa j = Inr a" "arg_ok E ref ct a" using good_argument [OF ok assms(2,3)] by (simp_all add: ct_def a_def)
  obtain rest where parsed: "parse_func ref ct u c = Inr (rest, c')" "n = length u - length rest"
    using assms(2-4) by (auto simp: checker_on_format_specs_def bind_result_Inr_iff ct_def)
  from arg_ok_cases [OF a(2)] show ?thesis
  proof cases
    case (2 h)
    have "simulates E (\<lambda>(rest, c) ((n, d), t). n = length u - length rest \<and> c = d)
        (parse_func ref ct u c) (h (dynamic_lookup ?fa) u c)"
      using 2(2) by (simp add: handle_fits_def)
    then consider t where "h (dynamic_lookup ?fa) u c = Inr ((n, c'), t)"
      | m where "m \<in> E" "h (dynamic_lookup ?fa) u c = format_error m"
      using parsed by (fastforce simp: simulates_def)
    then show ?thesis
      by cases (auto simp: st a 2(1) same_counter_def ok format_error_def intro: simulatesI)
  next
    case 1
    define t where "t = arg_type a"
    obtain x where x: "formatter_parse ref t u c = Inr (rest, x, c')" using parsed 1 by (auto simp: t_def bind_result_Inr_iff)
    have u: "u \<noteq> []" using assms(5) by auto
    have p: "parse_format_specs t ref u (make_dynamic_format_specs, c) = Inr (rest, x, c')" "check_type_spec t x = Inr ()"
      using x u by (auto simp: formatter_parse_def bind_result_Inr_iff)
    have "alike make_dynamic_format_specs make_format_specs"
      by (simp add: alike_def make_dynamic_format_specs_def make_format_specs_def format_specs.defs)
    from run.parse_format_specs_simulates [OF this, of u t c]
    consider y where "parse_format_specs t (specs_dynamic ?fa) u (make_format_specs, c) = Inr (rest, y, c')" "alike x y" "suffix rest u"
      | m where "m \<in> E" "parse_format_specs t (specs_dynamic ?fa) u (make_format_specs, c) = format_error m"
      using p(1) by (fastforce simp: simulates_def)
    then show ?thesis
    proof cases
      case (1 y)
      have "drop n u = rest" using 1(3) parsed(2) by (auto simp: suffix_def)
      moreover obtain s where "arg_formatter y a = Inr s"
        using arg_formatter_formats [of a y] p(2) check_type_alike [OF 1(2)] \<open>plain_arg a\<close> by (auto simp: t_def formats_def)
      ultimately show ?thesis
        using 1(1) assms(5,6) \<open>plain_arg a\<close> parsed(2)
        by (cases a) (auto simp: st a t_def same_counter_def ok intro!: simulates_Inr)
    next
      case (2 m)
      then show ?thesis using \<open>plain_arg a\<close>
        by (cases a) (auto simp: st a t_def format_error_def intro!: simulatesI)
    qed
  qed
qed

lemma arg_call:
  assumes "same_counter E ref types args c st" "id_ok i"
  shows "simulates E (\<lambda>(i, c) (j, st). i = j \<and> (0 \<le> i \<and> i < int (length types)) \<and> same_counter E ref types args c st)
    (checker_on_arg_id (length types) i c) (format_on_arg_id \<lparr>fa_args = args, fa_names = []\<rparr> i st)"
proof -
  obtain out where st: "st = (c, out)" using assms(1) by (cases st) (simp add: same_counter_def)
  show ?thesis
    using assms
    by (cases i) (auto simp: st same_counter_def id_ok_def context_next_arg_id_def context_check_arg_id_def next_arg_id_def
      check_arg_id_def bind_result_Inr_iff format_error_def intro!: simulatesI split: if_splits)
qed

lemma field_call:
  assumes "same_counter E ref types args c st" "0 \<le> j" "j < int (length types)"
  shows "simulates E (same_counter E ref types args) (Inr c)
    (format_on_replacement_field \<lparr>fa_args = args, fa_names = []\<rparr> j st)"
proof -
  obtain out where st: "st = (c, out)" using assms(1) by (cases st) (simp add: same_counter_def)
  have "list_all2 (arg_ok E ref) types args" using assms(1) by (simp add: same_counter_def)
  note a = good_argument [OF this assms(2,3)]
  let ?r = "default_arg_formatter (dynamic_lookup \<lparr>fa_args = args, fa_names = []\<rparr>) (args ! nat j)"
  from default_settles [OF a(2)] consider x where "?r = Inr x" | m where "m \<in> E" "?r = format_error m"
    unfolding settles_def formats_def by blast
  then show ?thesis
    using assms(1) by cases (auto simp: st a(1) same_counter_def format_error_def intro!: simulatesI)
qed

end

sublocale checked_references \<subseteq> call: handler_relation "same_counter E ref types args" E
  "\<lambda>j. 0 \<le> j \<and> j < int (length types)" "checker_handler ref types" "format_handler \<lparr>fa_args = args, fa_names = []\<rparr>"
proof unfold_locales
  fix c st i assume "same_counter E ref types args c st"
  note R = this
  show "same_counter E ref types args (on_text (checker_handler ref types) u c)
      (on_text (format_handler \<lparr>fa_args = args, fa_names = []\<rparr>) u st)" for u
    using R by (cases st) (simp add: same_counter_def checker_handler_def format_handler_def)
  show "simulates E (\<lambda>(i, c) (j, st). i = j \<and> (0 \<le> i \<and> i < int (length types)) \<and> same_counter E ref types args c st)
      (on_arg_id (checker_handler ref types) i c) (on_arg_id (format_handler \<lparr>fa_args = args, fa_names = []\<rparr>) i st)"
    if "id_ok i"
    using arg_call [OF R that] by (simp add: checker_handler_def format_handler_def)
  fix j assume j: "0 \<le> j \<and> j < int (length types)"
  show "simulates E (same_counter E ref types args) (on_replacement_field (checker_handler ref types) j c)
      (on_replacement_field (format_handler \<lparr>fa_args = args, fa_names = []\<rparr>) j st)"
    using field_call [OF R] j by (simp add: checker_handler_def format_handler_def)
  show "simulates E (rel_prod (=) (same_counter E ref types args)) (Inr (n, c'))
      (on_format_specs (format_handler \<lparr>fa_args = args, fa_names = []\<rparr>) j u st)"
    if "on_format_specs (checker_handler ref types) j u c = Inr (n, c')" "drop n u \<noteq> []" "hd (drop n u) = CHR ''}''" for u n c'
    using specs_call [OF R] j that by (simp add: checker_handler_def format_handler_def)
qed

context checked_references
begin

text \<open>What is accepted formats, up to the errors of dynamic specifications.\<close>

lemma accepted_settles:
  assumes "check_with ref fmt types = Inr ()" "list_all2 (arg_ok E ref) types args"
  shows "settles E (vformat fmt args)"
proof -
  have start: "same_counter E ref types args 0 (0, [])" using assms(2) by (simp add: same_counter_def)
  obtain c where "parse_format_string (checker_handler ref types) fmt 0 = Inr c"
    using assms(1) by (auto simp: check_with_def bind_result_Inr_iff)
  with call.small_loop_simulates [OF start, of "[]" fmt]
  have run: "settles E (parse_format_string (format_handler \<lparr>fa_args = args, fa_names = []\<rparr>) fmt (0, []))"
    by (auto simp: checker_text.parse_format_string_naive format_text.parse_format_string_naive simulates_def
      settles_def formats_def)
  show ?thesis
  proof (cases "fmt = ''{}''")
    case True
    then have "0 < length types"
      using assms(1) by (auto simp: check_with_def parse_format_string_def checker_handler_def parse_replacement_field_eq
        Let_def bind_result_Inr_iff context_next_arg_id_def next_arg_id_def format_error_def split: if_splits)
    with good_argument [OF assms(2), of 0] True show ?thesis
      by (simp add: vformat_def vformat_args_def default_settles)
  next
    case False
    then show ?thesis using run by (auto simp: vformat_def vformat_args_def intro!: settles_bind)
  qed
qed

end

section \<open>The two checkers\<close>

interpretation dynamic_call: checked_references "specs_reference (Some (length args))" dynamic_errors types args for types args
  by unfold_locales simp

interpretation static_call: checked_references no_reference "{}" types args for types args
  by unfold_locales (simp add: no_reference_def format_error_def)

text \<open>The formatter of \<open>packet_view\<close> itself formats what the checker accepts.\<close>

definition view_format :: string where
  "view_format = ''[{0:#04x}, {1}] --> {{{2:#04x}}}''"

lemma view_format_accepted:
  "check_static view_format [Core_type uint_type, Core_type ulong_long_type, Join_type uint_type] = Inr ()"
  by code_simp

end
