(* ===== verification/Fmt_Total.thy ===== *)
theory Fmt_Total
  imports Fmt_Check
begin

text \<open>
  Formatting is defined for every format string: it makes a text or throws \<open>format_error\<close>, it
  never reads past the end of the string and no buffer is too small, provided that no argument
  is a null C string and no packet view is empty.
\<close>

abbreviation returns_or_throws :: "'a result \<Rightarrow> bool" where
  "returns_or_throws r \<equiv> settles UNIV r"

lemma throws_error [simp]: "returns_or_throws (format_error m)"
  by (auto simp: settles_def)

lemma any_settles: "settles E r \<Longrightarrow> returns_or_throws r"
  by (auto simp: settles_def)

named_theorems total

lemmas [total] = settles_bind

lemma if_total [total]: "(b \<Longrightarrow> settles E r) \<Longrightarrow> (\<not> b \<Longrightarrow> settles E q) \<Longrightarrow> settles E (if b then r else q)"
  by simp

section \<open>Parsing\<close>

lemma deref_total [total]: "s \<noteq> [] \<Longrightarrow> returns_or_throws (deref s)"
  by (cases s) auto

lemma require_total [total]: "returns_or_throws (require_numeric_argument t)"
  by (simp add: require_numeric_argument_def)

lemma setters_total [total]:
  "returns_or_throws (on_align t a sp)" "returns_or_throws (on_fill f sp)" "returns_or_throws (on_sign t g sp)"
  "returns_or_throws (on_hash t sp)" "returns_or_throws (on_localized t sp)" "returns_or_throws (on_zero t sp)"
  "returns_or_throws (end_precision t x)"
  by (auto simp: on_align_def on_fill_def on_sign_def on_hash_def on_localized_def on_zero_def end_precision_def intro!: total)

lemma parse_align_total [total]: "s \<noteq> [] \<Longrightarrow> returns_or_throws (parse_align t s sp)"
  by (auto simp: parse_align_def Let_def intro!: total)

lemma do_parse_arg_id_total [total]: "s \<noteq> [] \<Longrightarrow> (\<And>i. returns_or_throws (h i)) \<Longrightarrow> returns_or_throws (do_parse_arg_id s h)"
  by (auto simp: do_parse_arg_id_eq split: prod.split intro!: total)

lemma parse_arg_id_total [total]: "s \<noteq> [] \<Longrightarrow> (\<And>i. returns_or_throws (h i)) \<Longrightarrow> returns_or_throws (parse_arg_id s h)"
  by (auto simp: parse_arg_id_def intro!: total)

lemma parse_width_total [total]:
  "s \<noteq> [] \<Longrightarrow> (\<And>w i st. returns_or_throws (dyn w i st)) \<Longrightarrow> returns_or_throws (parse_width dyn s st)"
  by (cases st) (auto split: prod.split intro!: total)

lemma parse_precision_total [total]:
  "(\<And>w i st. returns_or_throws (dyn w i st)) \<Longrightarrow> returns_or_throws (parse_precision t dyn s st)"
  by (cases st) (auto simp: Let_def split: prod.split intro!: total)

lemma spec_step_total [total]:
  "returns_or_throws r \<Longrightarrow> (\<And>s st. s \<noteq> [] \<Longrightarrow> returns_or_throws (f s st)) \<Longrightarrow> returns_or_throws (spec_step f r)"
  by (auto simp: spec_step_def intro!: total)

lemma align_step_total [total]: "s \<noteq> [] \<Longrightarrow> returns_or_throws (align_step t s st)"
  by (cases st) (auto intro!: total)

lemma sign_step_total [total]: "s \<noteq> [] \<Longrightarrow> returns_or_throws (sign_step t s st)"
  by (cases st) (simp only: sign_step.simps, intro total settles_Inr)

lemma flag_step_total [total]:
  "s \<noteq> [] \<Longrightarrow> (\<And>sp. returns_or_throws (f sp)) \<Longrightarrow> returns_or_throws (flag_step a f s st)"
  by (cases st) (simp only: flag_step.simps, intro total settles_Inr)

lemma type_step_total [total]: "s \<noteq> [] \<Longrightarrow> returns_or_throws (type_step s st)"
  by (cases st) (simp only: type_step.simps, intro total settles_Inr)

lemma precision_step_total [total]:
  "s \<noteq> [] \<Longrightarrow> (\<And>w i st. returns_or_throws (dyn w i st)) \<Longrightarrow> returns_or_throws (precision_step t dyn s st)"
  unfolding precision_step_def by (intro total parse_precision_total settles_Inr)

lemma only_type_nonempty: "only_type s \<Longrightarrow> s \<noteq> []"
  by (auto simp: only_type_def)

lemmas steps_total =
  align_step_total sign_step_total flag_step_total type_step_total precision_step_total parse_width_total

lemma parse_format_specs_total [total]:
  "(\<And>w i st. returns_or_throws (dyn w i st)) \<Longrightarrow> returns_or_throws (parse_format_specs t dyn s st)"
  unfolding parse_format_specs_def
  by (intro if_total spec_step_total steps_total setters_total settles_Inr) (simp_all add: only_type_nonempty)

lemma parse_replacement_field_total [total]:
  assumes "\<And>i st. returns_or_throws (on_arg_id h i st)" "\<And>j st. returns_or_throws (on_replacement_field h j st)"
    and "\<And>j s st. returns_or_throws (on_format_specs h j s st)"
  shows "returns_or_throws (parse_replacement_field h s st)"
  using assms by (auto simp: parse_replacement_field_eq Let_def split: prod.split intro!: total)

lemma small_loop_total:
  assumes "\<And>i st. returns_or_throws (on_arg_id h i st)" "\<And>j st. returns_or_throws (on_replacement_field h j st)"
    and "\<And>j s st. returns_or_throws (on_format_specs h j s st)"
  shows "returns_or_throws (small_loop h pre s st)"
proof (induction "length s" arbitrary: pre s st rule: less_induct)
  case less
  note field = parse_replacement_field_total [OF assms]
  show ?case
  proof (cases s)
    case (Cons c u)
    have "returns_or_throws (case parse_replacement_field h s st' of Inl x \<Rightarrow> Inl x | Inr (v, st) \<Rightarrow> small_loop h [] v st)" for st'
    proof (cases "parse_replacement_field h s st'")
      case (Inl e)
      then show ?thesis using field [of s st'] by (simp add: settles_def formats_def format_error_def)
    next
      case (Inr p)
      obtain v st where p: "p = (v, st)" by (cases p)
      then have "length v < length s" using Inr parse_replacement_field_rest by simp
      then show ?thesis using Inr p less by simp
    qed
    then show ?thesis using less Cons by auto
  qed simp
qed

section \<open>Formatting\<close>

lemma check_spec_total [total]:
  "returns_or_throws (check_int_type_spec t)" "returns_or_throws (check_cstring_type_spec t)"
  "returns_or_throws (check_string_type_spec t)" "returns_or_throws (check_pointer_type_spec t)"
  "returns_or_throws (check_float_type_spec t)"
  by (simp_all add: check_int_type_spec_def check_cstring_type_spec_def check_string_type_spec_def
    check_pointer_type_spec_def check_float_type_spec_def)

lemma check_char_total [total]: "returns_or_throws (check_char_specs sp)"
  by (auto simp: check_char_specs_def intro!: total)

lemma check_type_total [total]: "returns_or_throws (check_type_spec t sp)"
  by (cases t) (auto intro!: total)

lemma write_int_total [total]: "returns_or_throws (write_int v sp)"
proof (cases "check_int_type_spec (fs_type sp) = Inr ()")
  case True
  then show ?thesis by (simp add: formats_settles write_int_formats)
next
  case False
  then show ?thesis by (cases v) (auto simp: write_int_def Let_def check_int_type_spec_def)
qed

lemma write_ptr_total [total]: "returns_or_throws (write_ptr p sp)"
  by (simp add: formats_settles write_ptr_formats)

text \<open>Arguments that formatting may be handed.\<close>

definition total_arg :: "fmt_arg \<Rightarrow> bool" where
  "total_arg a \<longleftrightarrow>
     (case a of Custom_arg h \<Rightarrow> \<forall>fa s c. returns_or_throws (h (dynamic_lookup fa) s c) | _ \<Rightarrow> plain_arg a)"

lemma arg_formatter_total [total]: "plain_arg a \<Longrightarrow> returns_or_throws (arg_formatter sp a)"
  by (cases a) (auto intro!: total)

lemma dynamic_lookup_total [total]: "returns_or_throws (dynamic_lookup fa w i)"
  using any_settles [OF dynamic_lookup_settles] .

lemma get_dynamic_spec_total [total]: "returns_or_throws (get_dynamic_spec w a)"
  using any_settles [OF get_dynamic_spec_settles] .

lemma get_arg_total [total]: "returns_or_throws (get_arg fa i)"
  using any_settles [OF get_arg_settles] .

lemma arg_id_total [total]: "returns_or_throws (next_arg_id c)" "returns_or_throws (check_arg_id c)"
  by (simp_all add: next_arg_id_def check_arg_id_def)

lemma specs_dynamic_total [total]: "returns_or_throws (specs_dynamic fa w i st)"
  by (cases st) (auto split: arg_id.split intro!: total)

lemma specs_reference_total [total]: "returns_or_throws (specs_reference n w i st)"
  by (cases i; cases st) (auto simp: context_next_arg_id_def context_check_arg_id_def split: option.split intro!: total)

lemma default_formatter_total [total]: "total_arg a \<Longrightarrow> returns_or_throws (default_arg_formatter (dynamic_lookup fa) a)"
  by (cases a) (auto simp: total_arg_def formats_settles default_formatter_formats simp del: default_arg_formatter.simps(1-6),
    auto intro!: total)

lemma get_arg_member: "get_arg \<lparr>fa_args = args, fa_names = names\<rparr> i = Inr a \<Longrightarrow> a \<in> set args"
  by (auto simp: get_arg_def args_get_def format_error_def split: option.splits if_splits)

lemma field_total [total]:
  assumes "list_all total_arg args"
  shows "returns_or_throws (format_on_replacement_field \<lparr>fa_args = args, fa_names = names\<rparr> j st)"
  using assms by (cases st) (auto simp: list_all_iff dest!: get_arg_member intro!: total)

lemma specs_total [total]:
  assumes "list_all total_arg args"
  shows "returns_or_throws (format_on_format_specs \<lparr>fa_args = args, fa_names = names\<rparr> j s st)"
proof -
  have "returns_or_throws (format_on_format_specs \<lparr>fa_args = args, fa_names = names\<rparr> j s (c, out))" for c out
    unfolding format_on_format_specs_eq
  proof (intro total)
    fix a assume "get_arg \<lparr>fa_args = args, fa_names = names\<rparr> j = Inr a"
    then have "total_arg a" using assms get_arg_member by (auto simp: list_all_iff)
    then show "returns_or_throws (case a of
          Custom_arg h \<Rightarrow> bind_result (h (dynamic_lookup \<lparr>fa_args = args, fa_names = names\<rparr>) s c) (\<lambda>((n, ctx), t). Inr (n, ctx, out @ t))
        | _ \<Rightarrow> bind_result (parse_format_specs (arg_type a) (specs_dynamic \<lparr>fa_args = args, fa_names = names\<rparr>) s (make_format_specs, c))
            (\<lambda>(rest, sp, ctx). if rest = [] \<or> hd rest \<noteq> CHR ''}''
               then format_error (''missing '' @ [CHR 0x27] @ ''}'' @ [CHR 0x27] @ '' in format string'')
               else bind_result (arg_formatter sp a) (\<lambda>t. Inr (length s - length rest, ctx, out @ t))))"
      by (cases a) (auto simp: total_arg_def simp del: specs_dynamic.simps arg_formatter.simps intro!: total)
  qed
  then show ?thesis by (cases st) simp
qed

lemma arg_step_total [total]: "returns_or_throws (format_on_arg_id fa i st)"
  by (cases i; cases st) (auto intro!: total)

theorem vformat_total:
  assumes "list_all total_arg args"
  shows "returns_or_throws (vformat fmt args)"
proof -
  let ?fa = "\<lparr>fa_args = args, fa_names = []\<rparr>"
  have "returns_or_throws (parse_format_string (format_handler ?fa) fmt (0, []))"
    unfolding format_text.parse_format_string_naive
    by (rule small_loop_total) (simp_all add: format_handler_def total assms del: format_on_format_specs_eq)
  then show ?thesis
    using assms unfolding vformat_def vformat_args_def
    by (auto simp: list_all_iff dest!: get_arg_member intro!: total)
qed

section \<open>Custom handles\<close>

lemma formatter_parse_total [total]: "(\<And>w i st. returns_or_throws (ref w i st)) \<Longrightarrow> returns_or_throws (formatter_parse ref t s c)"
  by (auto simp: formatter_parse_def intro!: total)

lemma formatter_format_total [total]: "plain_arg a \<Longrightarrow> returns_or_throws (formatter_format (dynamic_lookup fa) x a)"
  by (auto simp: formatter_format_def resolve_ref_def split: option.split intro!: total)

lemma join_total: "list_all plain_arg xs \<Longrightarrow> total_arg (Custom_arg (join_handle t sep xs))"
  by (auto simp: total_arg_def join_handle_def list_all_iff intro!: total join_texts_settles)

lemma streamed_total: "total_arg (Custom_arg (streamed_handle s))"
  using join_total [of "[String_arg s]"] by (simp add: streamed_handle_def)

lemma plain_total: "plain_arg a \<Longrightarrow> total_arg a"
  by (cases a) (simp_all add: total_arg_def)

lemma byte_arg_plain: "plain_arg (byte_arg b)"
  by (simp add: byte_arg_def)

lemma view_total: "v \<noteq> [] \<Longrightarrow> total_arg (Custom_arg (packet_view_handle v))"
proof -
  assume v: "v \<noteq> []"
  then obtain b u where b: "v = b # u" by (cases v) auto
  have args: "list_all total_arg [byte_arg b, Integer_arg (ULongLong_value (word_of_nat (length v))),
      Custom_arg (join_handle uint_type '', '' (map byte_arg v))]"
    using join_total [of "map byte_arg v" uint_type "'', ''"] byte_arg_plain by (simp add: plain_total list_all_iff)
  have "returns_or_throws (packet_view_handle v look s c)" for look s c
    using vformat_total [OF args] unfolding packet_view_handle_def b list.case by (intro settles_bind settles_Inr)
  then show ?thesis by (simp add: total_arg_def)
qed

lemma fits_total: "arg_fits ct a \<Longrightarrow> total_arg a"
  by (induction rule: arg_fits.induct)
    (auto intro: plain_total join_total streamed_total view_total simp: list_all_iff)

end
