(* ===== verification/Fmt_Server.thy ===== *)
theory Fmt_Server
  imports Fmt_Check
begin

text \<open>
  The format strings the server passes to \<open>fmt\<close>, file by file, with the types of their
  arguments, and what the checker says of them. All strings are here; the ones that print
  floating-point numbers, which the model does not format, are in a list of their own.
\<close>

abbreviation text_type :: checked_type where "text_type \<equiv> Core_type string_type"
abbreviation count_type :: checked_type where "count_type \<equiv> Core_type ulong_long_type"

text \<open>The newline that ends a message.\<close>

definition line :: "string \<Rightarrow> string" where
  "line s = s @ [CHR 0x0A]"

text \<open>Messages without arguments.\<close>

definition messages :: "string list \<Rightarrow> (string \<times> checked_type list) list" where
  "messages = map (\<lambda>s. (line s, []))"

definition main_formats :: "(string \<times> checked_type list) list" where
  "main_formats =
     [(line ''{}'', [Core_type cstring_type]),
      (line ''Starting server with {} threads...'', [Core_type uint_type]),
      (line ''Server running at {}:{}'', [Streamed_type, Core_type uint_type])]"

definition startup_formats :: "(string \<times> checked_type list) list" where
  "startup_formats =
     [(''Usage: {0} <address> <httpPort> <httpsPort> <tcpPort> <tcpSecurePort> <config> <threads>.''
         @ [CHR 0x0A] @ ''Example: {0} 127.0.0.1 8080 8081 9090 9091 ../www ../config/config.json 8''
         @ [CHR 0x0A] @ ''You may also set <threads> to 0 to enable full utilization of the hardware threads.'',
         [Core_type cstring_type]),
      (''The specified file '' @ [CHR 0x27] @ ''{}'' @ [CHR 0x27] @ '' does not exist.'', [text_type]),
      (''{}/{}'', [text_type, text_type]),
      (''Config file '' @ [CHR 0x27] @ ''{}'' @ [CHR 0x27] @ '' successfully loaded with contents:''
         @ [CHR 0x0A] @ ''{}'' @ [CHR 0x0A], [text_type, text_type]),
      (''The given document root '' @ [CHR 0x27] @ ''{}'' @ [CHR 0x27] @ '' does not exist.'', [text_type])]"

definition logger_formats :: "(string \<times> checked_type list) list" where
  "logger_formats =
     [(''{}:{}'', [Core_type cstring_type, Core_type long_long_type]),
      (''[{}] [{}] {} {}:{} {}'',
         [text_type, text_type, Core_type cstring_type, text_type, Core_type uint_type, text_type])]
     @ map (\<lambda>s. (s, [])) [''INFO'', ''DEBUG'', ''WARN'', ''ERROR'', ''FATAL'', ''unknown'']"

definition connection_formats :: "(string \<times> checked_type list) list" where
  "connection_formats =
     [(line ''Accept error: {}'', [text_type]),
      (line ''Read error: {}'', [text_type]),
      (line ''Write error: {}'', [text_type]),
      (line ''shutdown error: {}'', [text_type]),
      (line ''close error: {}'', [text_type]),
      (line ''SSL Handshake error: {}'', [text_type]),
      (line ''SSL Shutdown error: {}'', [text_type]),
      (line ''WS write error: {}'', [text_type]),
      (line ''Error closing WebSocketSession: {}'', [text_type]),
      (line ''Error on closing WebSocketSession: {}'', [text_type])]
     @ messages
        [''Listener::~Listener()'',
         ''SharedState::SharedState()'',
         ''SharedState::~SharedState()'',
         ''HttpSession::HttpSession()'',
         ''HttpSession::~HttpSession()'',
         ''HttpSession::doRead()'',
         ''PlainHttpSession::PlainHttpSession()'',
         ''PlainHttpSession::~PlainHttpSession()'',
         ''SSLHttpSession::SSLHttpSession()'',
         ''SSLHttpSession::~SSLHttpSession()'',
         ''SSLHttpSession::onHandshake()'',
         ''SSLHttpSession gracefully shut down.'']"

definition TCPSession_formats :: "(string \<times> checked_type list) list" where
  "TCPSession_formats =
     [(line ''Incomplete Packet received ({})--> Reading more.'', [text_type]),
      (line ''HandshakePacket sent with {} bytes.'', [count_type])]
     @ messages
        [''Read error: Connection was closed by remote endpoint'',
         ''Read error: Connection was closed by remote endpoint due to a timeout.'',
         ''TCPSession disconnected.'',
         ''TCPSession::doReadPacketHeader()'',
         ''PlainTCPSession::PlainTCPSession()'',
         ''PlainTCPSession::~PlainTCPSession()'',
         ''SSLTCPSession::SSLTCPSession()'',
         ''SSLTCPSession::~SSLTCPSession()'',
         ''SSLTCPSession::onHandshake()'',
         ''SSLTCPSession gracefully shut down.'']"

definition TCPRequestHandler_formats :: "(string \<times> checked_type list) list" where
  "TCPRequestHandler_formats =
     [(line ''PacketId: {0:#04x}'', [Core_type uint_type]),
      (line (''Unable to find handler callback for PacketId '' @ [CHR 0x27] @ ''{0:#04x}'' @ [CHR 0x27] @ ''.''),
         [Core_type uint_type]),
      (line ''handleHandshakePacket called with view: {}.'', [View_type]),
      (line ''HandshakeNAKPacket sent with {} bytes.'', [count_type]),
      (line ''UUID from packet = {0:#04x}'', [Join_type uint_type]),
      (line ''HandshakeACKPacket sent with {} bytes.'', [count_type]),
      (line ''handlePongPacket called with view: {}.'', [View_type]),
      (line ''handleWeatherStatusPacket called with view: {}'', [View_type]),
      (line ''PingPacket sent with {} bytes.'', [count_type])]
     @ [(''[{0:#04x}, {1}] --> {{{2:#04x}}}'', [Core_type uint_type, count_type, Join_type uint_type])]
     @ messages
        [''StationId is not in range.'',
         ''UUID format is invalid.'',
         ''StationId already exists.'',
         ''UUID is not registered for this TCPSession.'',
         ''Not WebSocketSession found by such UUID!'',
         (''We haven'' @ [CHR 0x27] @ ''t received a pong packet in the right time! disconnecting peer...'')]"

definition WebSocketSession_formats :: "(string \<times> checked_type list) list" where
  "WebSocketSession_formats =
     [(line ''Received control frame: {} {}'', [Core_type int_type, Streamed_type]),
      (line ''Got {} bytes'', [count_type]),
      (line ''Status: {}, Bytes parsed: {}'', [text_type, count_type]),
      (line ''JSON RESPONSE FOR FRONTEND: {}'', [text_type]),
      (''{:X} '', [Core_type char_type]),
      (line ''WeatherStatus Reponse was sent to frontend with {} bytes.'', [count_type])]
     @ messages
        [''WebSocketSession was gracefully closed.'',
         ''Incoming request must be at least 2 bytes long!'',
         ''Payload is too big!'',
         ''WebSocket sent close frame to peer.'',
         ''WebSocketSession::WebSocketSession()'',
         ''WebSocketSession::~WebSocketSession()'',
         ''PlainWebSocketSession::PlainWebSocketSession()'',
         ''PlainWebSocketSession::~PlainWebSocketSession()'',
         ''BYTES:'',
         '''']"

definition WebSocketRequestHandler_formats :: "(string \<times> checked_type list) list" where
  "WebSocketRequestHandler_formats =
     [(''{0:#04x} '', [Core_type uint_type]),
      (line ''Size = {}'', [Core_type uint_type]),
      (line ''TotalSize = {}'', [Core_type int_type]),
      (line ''Failed to parse payload to JSON string: {}'', [Core_type cstring_type]),
      (line ''WeatherStatusRequest JSON = {}'', [Streamed_type]),
      (line ''Num Requested stations: {}'', [count_type]),
      (line ''shared_ptr<PlainTCPSession> found for session with id {}!'', [Streamed_type]),
      (line ''shared_ptr<SSLTCPSession> found for session with id {}!'', [Streamed_type]),
      (line ''WeatherStatusRequest sent with {} bytes.'', [count_type]),
      (line ''AvailableStationsRequest JSON = {}'', [Streamed_type]),
      (line ''Response for AvailableStationsRequest = {}'', [Streamed_type]),
      (line ''AvailableStationsRequest sent with {} bytes.'', [count_type])]
     @ [(''Payload: '', [])]
     @ messages
        [''Payload is too big to handle! Discarding packet...'',
         ''Complete buffer:'',
         '''',
         ''setting flag to Plain'',
         ''setting flag to SSL'',
         ''No StationId found!'']"

text \<open>The three messages with floating-point numbers.\<close>

definition float_formats :: "(string \<times> checked_type list) list" where
  "float_formats =
     [(line ''Temperature: {} Humidity: {}'', [Core_type float_type, Core_type float_type]),
      (line ''WeatherStatusNotification: {} {}'', [Core_type float_type, Core_type float_type]),
      (line ''Exited with signal {} and error: {}. Took {} ms.'',
         [Core_type int_type, text_type, Core_type double_type])]"

definition server_formats :: "(string \<times> checked_type list) list" where
  "server_formats =
     main_formats @ startup_formats @ logger_formats @ connection_formats @ TCPSession_formats
       @ TCPRequestHandler_formats @ WebSocketSession_formats @ WebSocketRequestHandler_formats @ float_formats"

definition all_accepted :: "(string \<times> checked_type list) list \<Rightarrow> bool" where
  "all_accepted fs \<longleftrightarrow> list_all (\<lambda>(fmt, types). check_static fmt types = Inr ()) fs"

lemma main_formats_accepted: "all_accepted main_formats" by code_simp
lemma startup_formats_accepted: "all_accepted startup_formats" by code_simp
lemma logger_formats_accepted: "all_accepted logger_formats" by code_simp
lemma connection_formats_accepted: "all_accepted connection_formats" by code_simp
lemma TCPSession_formats_accepted: "all_accepted TCPSession_formats" by code_simp
lemma TCPRequestHandler_formats_accepted: "all_accepted TCPRequestHandler_formats" by code_simp
lemma WebSocketSession_formats_accepted: "all_accepted WebSocketSession_formats" by code_simp
lemma WebSocketRequestHandler_formats_accepted: "all_accepted WebSocketRequestHandler_formats" by code_simp
lemma float_formats_accepted: "all_accepted float_formats" by code_simp

lemmas formats_accepted =
  main_formats_accepted startup_formats_accepted logger_formats_accepted connection_formats_accepted
  TCPSession_formats_accepted TCPRequestHandler_formats_accepted WebSocketSession_formats_accepted
  WebSocketRequestHandler_formats_accepted float_formats_accepted

text \<open>Only those three have an argument of a floating-point type.\<close>

definition prints_float :: "checked_type list \<Rightarrow> bool" where
  "prints_float types \<longleftrightarrow> list_ex (\<lambda>t. t \<in> set (map Core_type [float_type, double_type, long_double_type])
     \<or> t \<in> set (map Join_type [float_type, double_type, long_double_type])) types"

lemma only_float_formats: "filter (\<lambda>(fmt, types). prints_float types) server_formats = float_formats"
  by code_simp

lemma server_formats_accepted: "(fmt, types) \<in> set server_formats \<Longrightarrow> check_static fmt types = Inr ()"
  using formats_accepted by (auto simp: server_formats_def all_accepted_def list_all_iff)

end
