(* ===== verification/Fmt_Properties.thy ===== *)
theory Fmt_Properties
  imports Fmt_Total Fmt_Server Logger
begin

text \<open>
  The properties of the formatting library, and of the format strings of the server.
\<close>

section \<open>Parsing\<close>

text \<open>
  C34. parse_format_string takes a two-pass loop for strings of 32 characters and more, which
  searches for braces, and a simple loop for shorter ones. For the handler that formats, both
  loops do the same on every string, whatever its length: the same text, the same error.
\<close>

theorem format_loops_agree:
  "large_loop (format_handler fa) s st = small_loop (format_handler fa) [] s st
   \<and> parse_format_string (format_handler fa) s st = small_loop (format_handler fa) [] s st"
  by (simp add: format_text.loops_agree format_text.parse_format_string_naive)

text \<open>
  parse_nonnegative_int accumulates in 32 bits without looking at overflow and decides
  afterwards from the number of digits and the last two values. The outcome is the number if
  that is at most INT_MAX and has at most ten digits, and the error value otherwise; it is
  never a number that has wrapped. The rest of the string starts behind the digits.
\<close>

theorem number_in_range:
  assumes "list_all is_digit s" "s \<noteq> []" "rest = [] \<or> \<not> is_digit (hd rest)"
  shows "parse_nonnegative_int (s @ rest) e =
    (if length s \<le> 10 \<and> digits_value s \<le> 2147483647 then int (digits_value s) else e, rest)"
  using parse_nonnegative_int_run [OF assms(1,2), of rest e] assms(3) by (simp add: ends_number_def)

theorem number_in_range_witness:
  "parse_nonnegative_int (''4294967297'' @ ''}'') (- 1) = (- 1, ''}'')"
  by (subst number_in_range) (simp_all add: is_digit_def less_eq_char_def digits_value_def digit_value_def)

section \<open>Checking\<close>



context checked_references
begin

lemma core_ok: "arg_type a = t \<Longrightarrow> plain_arg a \<Longrightarrow> arg_ok E ref (Core_type t) a"
  by (simp add: arg_ok_def)

lemma join_ok: "list_all (\<lambda>a. arg_type a = t \<and> plain_arg a) xs \<Longrightarrow> arg_ok E ref (Join_type t) (Custom_arg (join_handle t sep xs))"
  by (simp add: arg_ok_def join_fits)

lemma streamed_ok: "arg_ok E ref Streamed_type (Custom_arg (streamed_handle s))"
  by (simp add: arg_ok_def streamed_fits)

end









section \<open>Numbers\<close>

text \<open>
  C35. How an integer is written. The text of an integer of any width, in base 10, 16, 2 or 8,
  is sign, prefix of the base, zeros and digits, padded to the width: to the right unless the
  alignment says left or centre, and never cut. The digits are the ones of the absolute value,
  also of the least negative number, without a leading zero; they are counted with the position
  of the highest bit and tables before the buffer is written, two at a time in base 10.
\<close>

theorem integer_formatted:
  assumes "fs_type sp \<in> set (CHR 0x00 # ''dxXbBo'')" "- 1 \<le> fs_precision sp" "fs_width sp < 2 ^ 31"
  shows "\<exists>digits. digits_of (int_base (fs_type sp)) (fs_type sp = CHR ''X'') (nat \<bar>integer_value i\<bar>) digits
    \<and> arg_formatter sp (Integer_arg i) = Inr (padded sp (integer_number sp (integer_value i) digits))"
  using integer_text [OF assms] by simp

theorem integer_formatted_witness:
  "\<exists>digits. digits_of (int_base CHR ''x'') (CHR ''x'' = CHR ''X'') (nat \<bar>integer_value (Int_value (- 2147483648))\<bar>) digits
    \<and> arg_formatter (make_format_specs\<lparr>fs_type := CHR ''x'', fs_alt := True, fs_width := 14\<rparr>) (Integer_arg (Int_value (- 2147483648)))
      = Inr (padded (make_format_specs\<lparr>fs_type := CHR ''x'', fs_alt := True, fs_width := 14\<rparr>)
          (integer_number (make_format_specs\<lparr>fs_type := CHR ''x'', fs_alt := True, fs_width := 14\<rparr>) (integer_value (Int_value (- 2147483648))) digits))"
  using integer_formatted [of "make_format_specs\<lparr>fs_type := CHR ''x'', fs_alt := True, fs_width := 14\<rparr>" "Int_value (- 2147483648)"]
  by (simp add: make_format_specs_def)

section \<open>The server\<close>





section \<open>What formatting gets wrong\<close>

text \<open>
  The session prints the bytes of a text with \<open>{:X}\<close>, but they are signed: the bytes of a letter
  outside ASCII appear as negative numbers.
\<close>

theorem signed_bytes_in_hex: "vformat ''{:X} '' [Char_arg (CHR 0xC8)] = Inr ''-38 ''"
proof -
  have "write_int (make_write_int_arg (Int_value (sign_extend_char (CHR 0xC8))) Sign_none)
      (make_format_specs\<lparr>fs_type := CHR ''X''\<rparr>) = Inr ''-38''"
    by code_simp
  then show ?thesis unfolding vformat_def vformat_args_def format_text.parse_format_string_naive
    by (simp add: format_handler_def parse_replacement_field_eq parse_arg_id_def next_arg_id_def get_arg_def args_get_def
      parse_format_specs_def only_type_def is_ascii_letter_def less_eq_char_def make_format_specs_def check_char_specs_def
      check_int_type_spec_def)
qed

text \<open>A width that names an argument passes the check, although no argument has a name.\<close>

theorem named_width_unchecked:
  "check_format_string ''{:{n}}'' [Core_type int_type] = Inr ()
   \<and> vformat ''{:{n}}'' [Integer_arg (Int_value 1)] = Inl (Throw (Format_error ''argument not found''))"
  by code_simp

text \<open>A null C string is an error without a specification and undefined with one.\<close>

theorem null_text_undefined:
  "vformat ''{}'' [CString_arg 0 s] = Inl (Throw (Format_error ''string pointer is null''))
   \<and> vformat ''{:s}'' [CString_arg 0 s] = Inl (Undefined DanglingPointer)"
  unfolding vformat_def vformat_args_def format_text.parse_format_string_naive
  by (simp add: format_handler_def parse_replacement_field_eq parse_arg_id_def next_arg_id_def get_arg_def args_get_def
      parse_format_specs_def only_type_def is_ascii_letter_def less_eq_char_def make_format_specs_def check_cstring_type_spec_def
      format_error_def)

end
