(* ===== verification/Spec2Isabelle.thy ===== *)
theory Spec2Isabelle
  imports Tcp_Properties Server_Properties Ws_Properties Http_Properties
    Json_Properties Json_Patch_Properties Startup_Properties Fmt_Properties
begin

text \<open>
  A model of the websocket-server of this repository and the theorems that make it correct.

  The program. \<open>main.cc\<close> parses the command line and a JSON config file, loads a certificate and
  starts four listeners (\<open>Listener.hh\<close>): HTTP and raw TCP, each plain and over TLS. Weather
  stations speak a binary protocol over TCP (\<open>TCPSession.hh\<close>, \<open>TCPRequestHandler.hh\<close>,
  \<open>Packets/\<close>); browsers fetch files over HTTP (\<open>HttpSession.hh\<close>) and upgrade to WebSockets
  (\<open>WebSocketSession.hh\<close>, \<open>WebSocketRequestHandler.hh\<close>), where they ask in JSON which stations
  are connected and for weather data. \<open>SharedState.hh\<close> holds the tables through which a browser's
  request finds a station and a station's report finds the browser. All paths below are under
  \<open>src/src/websocket_server\<close> unless they name a subproject.

  Theories, in dependency order.
  \<^item> \<open>Server_Prelude\<close>: results (a value, a C++ exception, undefined behaviour, \<open>std::terminate\<close>
    or a loop that does not end), C strings, decimal digits, byte fields.
  \<^item> \<open>Unordered_Map\<close>: \<open>std::unordered_map\<close> as an association list, and the locales
    \<open>session_registry\<close> and \<open>listed_registry\<close>, the contract of a table of sessions.
  \<^item> \<open>Calendar\<close>: \<open>gmtime\<close> and \<open>put_time\<close>. \<open>Packets\<close>: the packed structs, their byte layouts
    and sizes.
  \<^item> \<open>Json_Value\<close>: values of \<open>nlohmann::json\<close> and the members of \<open>basic_json\<close> the server calls.
    \<open>Json_Input\<close>, \<open>Json_Number\<close>, \<open>Json_Lexer\<close>, \<open>Json_Scan\<close>: the lexer
    (\<open>detail/input/lexer.hpp\<close>), one function per label of its number automaton, with \<open>strtoull\<close>,
    \<open>strtoll\<close> and a correctly rounded \<open>strtod\<close>. \<open>Json_Parser\<close>: \<open>parser.hpp\<close> and the DOM builder
    of \<open>json_sax.hpp\<close>, whose pointers are paths into the value. \<open>Json_Grisu\<close>: \<open>to_chars.hpp\<close>.
    \<open>Json_Serializer\<close>: \<open>serializer.hpp\<close>.
  \<^item> \<open>Json_Utf8\<close>, \<open>Json_Strings\<close>, \<open>Json_Escapes\<close>, \<open>Json_Decode\<close>, \<open>Json_Dump_Strings\<close>: UTF-8, what
    the lexer reads in a string literal, what the automaton of \<open>decode\<close> accepts and what
    \<open>dump_escaped\<close> writes. \<open>Json_Grammar\<close>, \<open>Json_Complete\<close>, \<open>Json_Sound\<close>, \<open>Json_Types\<close>: the
    grammar over tokens, and that the parser accepts exactly it and returns well-formed values.
    \<open>Json_Tokens\<close>, \<open>Json_Numerals\<close>, \<open>Json_Roundtrip\<close>, \<open>Json_Dump\<close>: the texts of tokens and
    values, and that \<open>dump\<close> writes such texts. \<open>Json_Properties\<close> states the results.
  \<^item> \<open>Json_Rounding\<close>, \<open>Json_Grisu_Scale\<close>, \<open>Json_Grisu_Bounds\<close>, \<open>Json_Grisu_Digits\<close>,
    \<open>Json_Float_Text\<close>: the correctness of Grisu2 for every finite double. The reals that round to
    a double are those between the midpoints to its neighbours; the cached powers of ten are
    within one unit of the true ones; the digit loops end inside the scaled interval after at
    most 17 digits; the layouts of the digits are JSON literals, which \<open>strtod\<close> rounds back.
  \<^item> \<open>Json_Compare\<close>, \<open>Json_Pointer\<close>, \<open>Json_Patch\<close>: \<open>operator==\<close>, \<open>detail/json_pointer.hpp\<close> and
    \<open>patch\<close>, \<open>diff\<close> and \<open>merge_patch\<close> of \<open>json.hpp\<close>. A C++ reference is the value it reads with
    the document a write through it leaves; the loops over the tokens of a pointer are one
    \<open>walk_pointer\<close> with the step of each function. \<open>Json_References\<close> (locale \<open>reference_step\<close>): escapes and
    slashes are undone, and a reference is one place of the document.
    \<open>Json_Diff\<close>: the operations of a diff turn the value at a place into the target.
    \<open>Json_Flatten\<close>: documents that hold some leaves, completed in the order of the pointers.
    \<open>Json_Patch_Properties\<close> states the results. The server calls none of this part of the library.
  \<^item> \<open>Json_Texts\<close>: what the server relies on when it calls \<open>parse\<close> and \<open>dump\<close>.
  \<^item> \<open>Shared_State\<close>: \<open>SharedState\<close>, interpreting the locales of \<open>Unordered_Map\<close> on its tables.
    \<open>Session_State\<close>: the records of a TCP and of a WebSocket session, \<open>writePacket\<close>,
    \<open>writeRequest\<close> and the notification of a report.
  \<^item> \<open>Tcp_Handler\<close>, \<open>Tcp_Session\<close>: the packet handlers, the ping timers and the read loop.
    \<open>Tcp_Framing\<close>: the byte stream as a sequence of frames, and that the loop implements it.
    \<open>Tcp_Properties\<close>.
  \<^item> \<open>Ws_Handler\<close>, \<open>Ws_Session\<close>: the requests of a browser and the message loop, which may run for
    ever and is a \<open>partial_function\<close>. \<open>Ws_Framing\<close>, \<open>Ws_Requests\<close>, \<open>Ws_Queue\<close> (locale
    \<open>write_queue\<close>): their specifications. \<open>Ws_Properties\<close>.
  \<^item> \<open>Server_System\<close>: the step relation over the completion handlers of all sessions.
    \<open>Server_Frames\<close> (locale \<open>packet_relation\<close>), \<open>Server_Invariants\<close>, \<open>Server_Readers\<close>,
    \<open>Server_Lifetimes\<close>, \<open>Server_Faults\<close>: what a handler can change, and the invariants.
    \<open>Server_Script\<close>: steps as an executable function. \<open>Server_Properties\<close>.
  \<^item> \<open>Http_Request\<close>, \<open>Http_Session\<close>, \<open>Http_Properties\<close>: the answer to a request, the connection
    and its upgrade. \<open>Fmt_Color\<close>, \<open>Logger\<close>: the styled output of fmt and the logger.
  \<^item> \<open>Fmt_Parse\<close>, \<open>Fmt_Numbers\<close>, \<open>Fmt_String\<close>: the format strings of \<open>fmt/core.h\<close>: the parser of
    a specification, whose handler is a parameter, its numbers, and the two loops of
    \<open>parse_format_string\<close>, which agree (locale \<open>text_handler\<close>).
  \<^item> \<open>Fmt_Digits\<close>, \<open>Fmt_Write\<close>, \<open>Fmt_Integers\<close>: \<open>fmt/format.h\<close>: counting digits by the highest bit
    and tables, writing them into a buffer of that size, prefixes, padding, the display width of
    UTF-8; and that the digits are positional notation. \<open>Fmt_Format\<close>: arguments, \<open>vformat_to\<close>,
    the formatters of the core types, of \<open>fmt::join\<close>, of types with an \<open>operator<<\<close>
    (\<open>fmt/ostream.h\<close>) and of \<open>packet_view\<close>.
  \<^item> \<open>Fmt_Simulation\<close>, \<open>Fmt_Check\<close>: two parsers of a format string go the same way while their
    handlers do (locales \<open>specs_relation\<close>, \<open>handler_relation\<close>); \<open>format_string_checker\<close> and its
    soundness (locale \<open>checked_references\<close>). \<open>Fmt_Total\<close>: formatting never is undefined, for
    the arguments the model has. \<open>Fmt_Server\<close>: all format strings of the server. \<open>Fmt_Properties\<close>.
  \<^item> \<open>Startup\<close>, \<open>Startup_Properties\<close>: \<open>CommandLineInterface.cc\<close>, \<open>ServerCertificate.cc\<close>,
    \<open>Listener.hh\<close> and \<open>main.cc\<close>. \<open>Example_Data\<close>: concrete data for the witnesses.

  State and operations. A session is a record of the members of its class plus the asynchronous
  operations in flight; a handler is a function from the context it can touch (its session, the
  shared state, the sessions of the other kind) to a result. Shared pointers are numbers; a
  pointer whose session has left memory is \<open>Freed\<close>, and using it is undefined behaviour, which
  is a result of its own and never hidden in a value. The same holds for reads outside a buffer,
  missing keys of a constant JSON value, float conversions out of range and overflow of \<open>atoi\<close>.

  What the theorems show. Framing, dispatch and effects of the station protocol; routing of
  requests and reports; the invariants of the tables and of the read buffer in every reachable
  state; the order of outgoing texts and of HTTP answers; confinement of served files to the
  document root; that the JSON parser is equivalent to the recursive grammar, returns well-formed
  values only and inverts \<open>dump\<close>, floats included; what the startup builds from its arguments and what the logger
  writes; that a handler faults only on a malformed message of a browser; that formatting is
  defined for every format string, that a checked one throws nothing, and that none of the
  server's throws, floating-point arguments aside. Some theorems show defects on purpose: a
  message of more than 512 bytes never ends its handler, a failed write stalls the queue, an
  unknown packet of a station or a bad request of a browser leaves a session behind, and a
  station that registers under two ids leaves an entry to freed memory. That no station does
  so is the condition \<open>one_name\<close>, under which the invariants of the registry hold.

  Bounds and fuel. Integers keep their width. The loop over the fractional digits of a float has
  no bound in the source and takes at most \<open>digit_fuel\<close> rounds, which \<open>float_text_reads_back\<close>
  shows to be enough for every double.
  The message loop of a WebSocket session is a partial function, and the theorem
  \<open>message_loop_returns\<close> says when it returns. Every other loop is proved to terminate.

  Not modelled. Strands and data races between threads: a completion handler is atomic. The
  insides of Boost.Asio, Boost.Beast, Boost.Uuid and OpenSSL, which are parameters. The clock,
  the file system and the time zone, which are parameters. Parts of the JSON library that no code
  of the server instantiates: the binary formats, comparison by order, iterators. Of fmt: floating-point
  arguments, which occur in three messages of the log, locales, 128-bit integers, \<open>chrono\<close> and
  \<open>printf\<close>. Allocation failure.
\<close>

end
